(* ===== verification/Radar_Prelude.thy ===== *)
theory Radar_Prelude
  imports Main "HOL-Library.AList" "HOL-Library.Sublist"
begin

text \<open>
  The shared base of the development.

  It holds the generic notions that the components use: step systems and the invariants of their
  runs, ordered gates (a list of checks of which the first refusal wins), bounded logs (append, then
  drop from the front), and the insertion-ordered \<^verbatim>\<open>Map\<close> of JavaScript as an association list.
  Each notion that several components share is a locale whose lemmas are proved once here; the
  component that provides the operations interprets it.
\<close>

named_theorems gate_simps "definitions and equations of the ordered gates"
named_theorems step_defs "definitions of the steps of a component"
named_theorems inv_defs "definitions of the invariants of a component"


section \<open>Step systems\<close>

text \<open>
  A component driven by events: an initial state, a total step function and an invariant that
  every step keeps. The invariant then holds after every sequence of events.
\<close>

locale step_system =
  fixes init :: 's
    and step :: "'s \<Rightarrow> 'e \<Rightarrow> 's"
    and invar :: "'s \<Rightarrow> bool"
  assumes invar_init: "invar init"
    and invar_step: "invar s \<Longrightarrow> invar (step s e)"
begin

lemma invar_run: "invar s \<Longrightarrow> invar (foldl step s es)"
  by (induction es arbitrary: s) (auto intro: invar_step)

lemma invar_reached: "invar (foldl step init es)"
  by (rule invar_run [OF invar_init])

lemma invar_every_prefix: "invar (foldl step init (take n es))"
  by (rule invar_reached)

end

text \<open>
  The same with a quantity that no step decreases: what it has reached it keeps.
\<close>

locale monotone_system = step_system init step invar
  for init :: 's and step :: "'s \<Rightarrow> 'e \<Rightarrow> 's" and invar :: "'s \<Rightarrow> bool" +
  fixes level :: "'s \<Rightarrow> 'n::preorder"
  assumes level_step: "invar s \<Longrightarrow> level s \<le> level (step s e)"
begin

lemma level_run: "invar s \<Longrightarrow> level s \<le> level (foldl step s es)"
proof (induction es arbitrary: s)
  case Nil
  show ?case by simp
next
  case (Cons e es)
  have "level s \<le> level (step s e)"
    using Cons.prems by (rule level_step)
  also have "\<dots> \<le> level (foldl step (step s e) es)"
    using Cons.prems by (intro Cons.IH invar_step)
  finally show ?case by simp
qed

lemma level_along: "m \<le> n \<Longrightarrow> level (foldl step init (take m es)) \<le> level (foldl step init (take n es))"
proof -
  assume "m \<le> n"
  then have "take n es = take m es @ take (n - m) (drop m es)"
    by (simp add: take_add flip: take_add)
  then show ?thesis
    using level_run [OF invar_reached [of "take m es"], of "take (n - m) (drop m es)"]
    by (simp del: append_take_drop_id)
qed

end

text \<open>
  A component with a choice of what happens next (several callers, a scheduler) is a relation.
\<close>

locale transition_system =
  fixes start :: "'s \<Rightarrow> bool"
    and trans :: "'s \<Rightarrow> 's \<Rightarrow> bool"
    and invar :: "'s \<Rightarrow> bool"
  assumes invar_start: "start s \<Longrightarrow> invar s"
    and invar_trans: "invar s \<Longrightarrow> trans s t \<Longrightarrow> invar t"
begin

lemma invar_rtranclp: "trans\<^sup>*\<^sup>* s t \<Longrightarrow> invar s \<Longrightarrow> invar t"
  by (induction rule: rtranclp_induct) (auto intro: invar_trans)

lemma invar_reachable: "start s \<Longrightarrow> trans\<^sup>*\<^sup>* s t \<Longrightarrow> invar t"
  by (blast intro: invar_rtranclp invar_start)

end


text \<open>
  A ratchet: every event joins a value of a linear order into the state, so the state is the maximum of
  what was observed and the order of the observations does not matter.
\<close>

locale ratchet =
  fixes level :: "'s \<Rightarrow> 'n::linorder"
    and observe :: "'s \<Rightarrow> 'e \<Rightarrow> 's"
    and val :: "'e \<Rightarrow> 'n"
  assumes level_observe: "level (observe s e) = max (level s) (val e)"
begin

lemma level_observes: "level (foldl observe s es) = Max (insert (level s) (val ` set es))"
proof (induction es arbitrary: s)
  case (Cons e es)
  have "finite (val ` set es)" by simp
  then have "Max (insert (max (level s) (val e)) (val ` set es)) = Max (insert (level s) (insert (val e) (val ` set es)))"
    by (cases "es = []") (simp_all add: max.assoc max.commute max.left_commute)
  then show ?case by (simp add: Cons level_observe)
qed simp

lemma level_order_insensitive: "set es = set fs \<Longrightarrow> level (foldl observe s es) = level (foldl observe s fs)"
  by (simp add: level_observes)

lemma level_never_drops: "level s \<le> level (foldl observe s es)"
  by (simp add: level_observes)

lemma level_at_least: "e \<in> set es \<Longrightarrow> val e \<le> level (foldl observe s es)"
  by (simp add: level_observes)

end


section \<open>Ordered gates\<close>

text \<open>
  Several functions of the program run a fixed sequence of checks and return the first refusal;
  only when no check refuses do they pass. \<open>first_refusal\<close> is that reading of a list of checks.
\<close>

fun first_refusal :: "('i \<Rightarrow> 'r option) list \<Rightarrow> 'i \<Rightarrow> 'r option" where
  "first_refusal [] i = None"
| "first_refusal (c # cs) i = (case c i of Some r \<Rightarrow> Some r | None \<Rightarrow> first_refusal cs i)"

lemma first_refusal_None: "first_refusal cs i = None \<longleftrightarrow> (\<forall>c\<in>set cs. c i = None)"
  by (induction cs) (auto split: option.splits)

lemma first_refusal_Some:
  "first_refusal cs i = Some r \<longleftrightarrow>
     (\<exists>n<length cs. (cs ! n) i = Some r \<and> (\<forall>m<n. (cs ! m) i = None))"
proof (induction cs)
  case Nil
  show ?case by simp
next
  case (Cons c cs)
  show ?case
    by (cases "c i") (simp_all add: Ex_less_Suc2 All_less_Suc2 Cons)
qed

locale ordered_gate =
  fixes gate :: "'i \<Rightarrow> 'r option"
    and checks :: "('i \<Rightarrow> 'r option) list"
  assumes gate_checks: "gate i = first_refusal checks i"
begin

lemma passes_iff: "gate i = None \<longleftrightarrow> (\<forall>c\<in>set checks. c i = None)"
  by (simp add: gate_checks first_refusal_None)

lemma refuses_iff:
  "gate i = Some r \<longleftrightarrow>
     (\<exists>n<length checks. (checks ! n) i = Some r \<and> (\<forall>m<n. (checks ! m) i = None))"
  by (simp add: gate_checks first_refusal_Some)

lemma earlier_check_wins:
  "m < length checks \<Longrightarrow> (checks ! m) i = Some r \<Longrightarrow> \<forall>k<m. (checks ! k) i = None \<Longrightarrow> gate i = Some r"
  by (auto simp: refuses_iff)

end


section \<open>Bounded logs\<close>

text \<open>\<open>keep_last n xs\<close> is what \<^verbatim>\<open>xs.slice(-n)\<close> leaves for a positive \<open>n\<close>: the last \<open>n\<close> elements.\<close>

definition keep_last :: "nat \<Rightarrow> 'a list \<Rightarrow> 'a list" where
  "keep_last n xs = drop (length xs - n) xs"

lemma length_keep_last [simp]: "length (keep_last n xs) = min n (length xs)"
  by (auto simp: keep_last_def)

lemma keep_last_id: "length xs \<le> n \<Longrightarrow> keep_last n xs = xs"
  by (simp add: keep_last_def)

lemma keep_last_append: "keep_last n (keep_last n xs @ ys) = keep_last n (xs @ ys)"
proof (cases "length xs \<le> n")
  case True
  then show ?thesis by (simp add: keep_last_id)
next
  case False
  then have "length (keep_last n xs @ ys) - n = length ys"
    by simp
  moreover have "length (xs @ ys) - n = length xs - n + length ys"
    using False by simp
  ultimately show ?thesis
    using False by (auto simp: keep_last_def add.commute)
qed

lemma set_keep_last: "set (keep_last n xs) \<subseteq> set xs"
  by (auto simp: keep_last_def dest: in_set_dropD)

lemma suffix_keep_last: "suffix (keep_last n xs) xs"
  by (simp add: keep_last_def suffix_drop)

locale bounded_log =
  fixes contents :: "'s \<Rightarrow> 'e list"
    and push :: "'s \<Rightarrow> 'e \<Rightarrow> 's"
    and cap :: "'s \<Rightarrow> nat"
  assumes cap_push: "cap (push s e) = cap s"
    and contents_push: "length (contents s) \<le> cap s \<Longrightarrow> contents (push s e) = keep_last (cap s) (contents s @ [e])"
begin

lemma bounded_push: "length (contents s) \<le> cap s \<Longrightarrow> length (contents (push s e)) \<le> cap s"
  by (simp add: contents_push)

lemma cap_pushes: "cap (foldl push s es) = cap s"
  by (induction es arbitrary: s) (auto simp: cap_push)

lemma contents_pushes:
  "length (contents s) \<le> cap s \<Longrightarrow> contents (foldl push s es) = keep_last (cap s) (contents s @ es)"
proof (induction es arbitrary: s)
  case Nil
  then show ?case by (simp add: keep_last_id)
next
  case (Cons e es)
  then have "contents (foldl push (push s e) es) = keep_last (cap s) (contents (push s e) @ es)"
    using Cons.IH [of "push s e"] by (simp add: cap_push bounded_push)
  also have "\<dots> = keep_last (cap s) (contents s @ e # es)"
    using Cons.prems keep_last_append [of "cap s" "contents s @ [e]" es]
    by (simp add: contents_push)
  finally show ?case by simp
qed

lemma bounded_pushes: "length (contents s) \<le> cap s \<Longrightarrow> length (contents (foldl push s es)) \<le> cap s"
  by (simp add: contents_pushes)

end


section \<open>Lists\<close>

lemma find_Some_iff_first:
  "List.find P xs = Some x \<longleftrightarrow> (\<exists>i<length xs. P (xs ! i) \<and> x = xs ! i \<and> (\<forall>j<i. \<not> P (xs ! j)))"
  by (simp add: find_Some_iff)

lemma find_SomeD: "List.find P xs = Some x \<Longrightarrow> x \<in> set xs \<and> P x"
  by (auto simp: find_Some_iff)

lemma find_filter: "List.find P xs = (case filter P xs of [] \<Rightarrow> None | x # _ \<Rightarrow> Some x)"
  by (induction xs) auto

lemma filter_eq_hd: "filter P xs = y # ys \<Longrightarrow> y \<in> set xs \<and> P y"
  by (drule arg_cong [where f = set]) auto

lemma map_filter_append: "List.map_filter f (xs @ ys) = List.map_filter f xs @ List.map_filter f ys"
  by (induction xs) (auto simp: List.map_filter_simps split: option.splits)

lemma set_map_filter: "set (List.map_filter f xs) = {y. \<exists>x\<in>set xs. f x = Some y}"
  by (induction xs) (auto simp: List.map_filter_simps split: option.splits)

lemma length_filter_le_card_distinct:
  "distinct xs \<Longrightarrow> length (filter P xs) = card {x \<in> set xs. P x}"
  by (metis distinct_card distinct_filter set_filter)


lemma sum_list_update_nat:
  "i < length xs \<Longrightarrow> sum_list (map f (xs[i := x])) + f (xs ! i) = sum_list (map f xs) + (f x :: nat)"
proof (induction xs arbitrary: i)
  case (Cons a xs)
  then show ?case by (cases i) auto
qed simp

lemma map_update_same: "f x = f (xs ! i) \<Longrightarrow> map f (xs[i := x]) = map f xs"
proof (cases "i < length xs")
  case True
  moreover assume "f x = f (xs ! i)"
  ultimately show ?thesis by (simp add: map_update) (metis list_update_id nth_map)
qed (simp add: list_update_beyond not_less)

lemma list_all_update: "list_all P xs \<Longrightarrow> (i < length xs \<Longrightarrow> P x) \<Longrightarrow> list_all P (xs[i := x])"
proof (cases "i < length xs")
  case True
  moreover assume "list_all P xs" "i < length xs \<Longrightarrow> P x"
  ultimately show ?thesis using set_update_subset_insert [of xs i x] by (auto simp: list_all_iff)
qed (simp add: list_update_beyond not_less)

text \<open>
  Changing the object that \<^verbatim>\<open>find\<close> returns: the first element with the key is updated in place.
\<close>

fun update_first :: "('a \<Rightarrow> bool) \<Rightarrow> ('a \<Rightarrow> 'a) \<Rightarrow> 'a list \<Rightarrow> 'a list" where
  "update_first P f [] = []"
| "update_first P f (x # xs) = (if P x then f x # xs else x # update_first P f xs)"

lemma length_update_first [simp]: "length (update_first P f xs) = length xs"
  by (induction xs) auto

lemma update_first_none: "\<forall>x\<in>set xs. \<not> P x \<Longrightarrow> update_first P f xs = xs"
  by (induction xs) auto

lemma map_update_first [simp]: "(\<And>x. P x \<Longrightarrow> k (f x) = k x) \<Longrightarrow> map k (update_first P f xs) = map k xs"
  by (induction xs) auto

lemma filter_update_first:
  "List.find Q xs = Some x \<Longrightarrow> \<not> P x \<Longrightarrow> \<not> P (f x) \<Longrightarrow> filter P (update_first Q f xs) = filter P xs"
  by (induction xs) (auto split: if_splits)

lemma update_first_key:
  "distinct (map k xs) \<Longrightarrow> update_first (\<lambda>x. k x = a) f xs = map (\<lambda>x. if k x = a then f x else x) xs"
  by (induction xs) (auto simp: image_iff intro!: map_idI [symmetric])

lemma find_key_eq:
  "distinct (map k xs) \<Longrightarrow> List.find (\<lambda>x. k x = a) xs = Some x \<longleftrightarrow> x \<in> set xs \<and> k x = a"
  by (induction xs) auto


text \<open>A loop that updates, by key, one element for each element of a list.\<close>

lemma foldl_update_key:
  assumes "distinct (map k L)" "distinct (map k ys)" "\<And>a x. k (f a x) = k x"
  shows "foldl (\<lambda>ys a. update_first (\<lambda>x. k x = k a) (f a) ys) ys L =
         map (\<lambda>x. case List.find (\<lambda>a. k a = k x) L of Some a \<Rightarrow> f a x | None \<Rightarrow> x) ys"
  using assms
proof (induction L arbitrary: ys)
  case (Cons a L)
  let ?ys = "map (\<lambda>x. if k x = k a then f a x else x) ys"
  have keys: "map k ?ys = map k ys" using Cons.prems(3) by simp
  have "k a \<notin> k ` set L" using Cons.prems(1) by simp
  then have none: "List.find (\<lambda>b. k b = k a) L = None" unfolding find_None_iff by (metis image_eqI)
  have "foldl (\<lambda>ys a. update_first (\<lambda>x. k x = k a) (f a) ys) ys (a # L) =
      foldl (\<lambda>ys a. update_first (\<lambda>x. k x = k a) (f a) ys) ?ys L"
    using Cons.prems(2) by (simp add: update_first_key)
  also have "\<dots> = map (\<lambda>x. case List.find (\<lambda>a. k a = k x) L of Some a \<Rightarrow> f a x | None \<Rightarrow> x) ?ys"
    using Cons.prems keys by (intro Cons.IH) (simp_all del: map_map)
  also have "\<dots> = map (\<lambda>x. case List.find (\<lambda>a. k a = k x) (a # L) of Some a \<Rightarrow> f a x | None \<Rightarrow> x) ys"
    using Cons.prems(3) none by (auto simp: eq_commute)
  finally show ?case .
qed simp

lemma foldl_update_filter:
  assumes d: "distinct (map k xs)" and f: "\<And>a x. k (f a x) = k x" and g: "\<And>x. k (g x) = k x"
  shows "foldl (\<lambda>ys a. update_first (\<lambda>x. k x = k a) (f a) ys) (map g xs) (filter P xs) =
         map (\<lambda>x. if P x then f x (g x) else g x) xs"
proof -
  have dP: "distinct (map k (filter P xs))" using d by (simp add: distinct_map_filter)
  have find: "List.find (\<lambda>a. k a = k x) (filter P xs) = (if P x then Some x else None)" if "x \<in> set xs" for x
  proof (cases "P x")
    case True
    with that find_key_eq [OF dP, of "k x" x] show ?thesis by simp
  next
    case False
    have "k a \<noteq> k x" if "a \<in> set xs" "P a" for a
      using that \<open>x \<in> set xs\<close> False d by (auto simp: distinct_map inj_on_def)
    with False show ?thesis by (auto simp: find_None_iff)
  qed
  have dg: "distinct (map k (map g xs))" using d g by (simp add: comp_def)
  have "foldl (\<lambda>ys a. update_first (\<lambda>x. k x = k a) (f a) ys) (map g xs) (filter P xs) =
      map (\<lambda>x. case List.find (\<lambda>a. k a = k x) (filter P xs) of Some a \<Rightarrow> f a x | None \<Rightarrow> x) (map g xs)"
    by (rule foldl_update_key [where k = k and f = f, OF dP dg]) (rule f)
  also have "\<dots> = map (\<lambda>x. if P x then f x (g x) else g x) xs"
  proof -
    have "(case List.find (\<lambda>a. k a = k (g x)) (filter P xs) of Some a \<Rightarrow> f a (g x) | None \<Rightarrow> g x) = (if P x then f x (g x) else g x)"
      if "x \<in> set xs" for x
      unfolding g [of x] find [OF that] by simp
    then show ?thesis unfolding map_map by (intro map_cong refl) (simp only: comp_def)
  qed
  finally show ?thesis .
qed


section \<open>The insertion-ordered Map of JavaScript\<close>

text \<open>
  A JavaScript \<^verbatim>\<open>Map\<close> iterates in insertion order, \<^verbatim>\<open>set\<close> on a present key keeps its position and
  \<^verbatim>\<open>delete\<close> followed by \<^verbatim>\<open>set\<close> moves it to the end. That is the behaviour of an association list with
  distinct keys under \<open>AList.update\<close> and \<open>AList.delete\<close>, which the components use directly:
  \<^verbatim>\<open>get\<close> is \<open>map_of\<close>, \<^verbatim>\<open>size\<close> is \<open>length\<close>, \<^verbatim>\<open>keys\<close> is \<open>map fst\<close>.
\<close>

type_synonym ('k, 'v) jmap = "('k \<times> 'v) list"

abbreviation jget :: "('k, 'v) jmap \<Rightarrow> 'k \<Rightarrow> 'v option" where
  "jget \<equiv> map_of"

abbreviation jset :: "('k, 'v) jmap \<Rightarrow> 'k \<Rightarrow> 'v \<Rightarrow> ('k, 'v) jmap" where
  "jset m k v \<equiv> AList.update k v m"

abbreviation jdelete :: "('k, 'v) jmap \<Rightarrow> 'k \<Rightarrow> ('k, 'v) jmap" where
  "jdelete m k \<equiv> AList.delete k m"

definition jhas :: "('k, 'v) jmap \<Rightarrow> 'k \<Rightarrow> bool" where
  "jhas m k \<longleftrightarrow> jget m k \<noteq> None"

definition jmap_ok :: "('k, 'v) jmap \<Rightarrow> bool" where
  "jmap_ok m \<longleftrightarrow> distinct (map fst m)"

lemma jget_jset: "jget (jset m k v) = (jget m)(k \<mapsto> v)"
  by (rule update_conv')

lemma jget_jdelete: "jget (jdelete m k) = (jget m)(k := None)"
  by (rule delete_conv')

lemma jmap_ok_Nil [simp]: "jmap_ok []"
  by (simp add: jmap_ok_def)

lemma jmap_ok_jset [simp]: "jmap_ok m \<Longrightarrow> jmap_ok (jset m k v)"
  by (simp add: jmap_ok_def distinct_update)

lemma jmap_ok_jdelete [simp]: "jmap_ok m \<Longrightarrow> jmap_ok (jdelete m k)"
  by (simp add: jmap_ok_def distinct_delete)

lemma jhas_iff_keys: "jhas m k \<longleftrightarrow> k \<in> fst ` set m"
  by (auto simp: jhas_def map_of_eq_None_iff)

lemma jset_new: "k \<notin> fst ` set m \<Longrightarrow> jset m k v = m @ [(k, v)]"
  by (induction m) auto

lemma jdelete_absent: "k \<notin> fst ` set m \<Longrightarrow> jdelete m k = m"
  by (simp add: delete_id)

lemma jdelete_filter: "jdelete m k = filter (\<lambda>(j, v). j \<noteq> k) m"
  by (induction m) auto

lemma length_jset: "length (jset m k v) = (if jhas m k then length m else Suc (length m))"
  by (induction m) (auto simp: jhas_iff_keys)

lemma set_jset: "jmap_ok m \<Longrightarrow> set (jset m k v) = insert (k, v) {p \<in> set m. fst p \<noteq> k}"
  by (induction m) (auto simp: jmap_ok_def image_iff)

lemma set_jdelete: "set (jdelete m k) = {p \<in> set m. fst p \<noteq> k}"
  by (induction m) auto

lemma jget_Some_iff: "jmap_ok m \<Longrightarrow> jget m k = Some v \<longleftrightarrow> (k, v) \<in> set m"
  by (auto simp: jmap_ok_def dest: map_of_SomeD)

text \<open>Sums over the values of a map, for the accounting of quotas.\<close>

definition jsum :: "('v \<Rightarrow> nat) \<Rightarrow> ('k, 'v) jmap \<Rightarrow> nat" where
  "jsum f m = sum_list (map (\<lambda>(k, v). f v) m)"

lemma jsum_Nil [simp]: "jsum f [] = 0"
  by (simp add: jsum_def)

lemma jsum_jset:
  "jsum f (jset m k v) + (case jget m k of Some w \<Rightarrow> f w | None \<Rightarrow> 0) = jsum f m + f v"
  by (induction m) (auto simp: jsum_def)

lemma jsum_jset_new: "jget m k = None \<Longrightarrow> jsum f (jset m k v) = jsum f m + f v"
  using jsum_jset [of f k v m] by simp

lemma jsum_jset_old: "jget m k = Some w \<Longrightarrow> jsum f (jset m k v) + f w = jsum f m + f v"
  using jsum_jset [of f k v m] by simp

lemma jget_le_jsum: "jget m k = Some v \<Longrightarrow> f v \<le> jsum f m"
  by (induction m) (auto simp: jsum_def split: if_splits)

lemma foldl_jset_distinct:
  "distinct (map fst (m @ kvs)) \<Longrightarrow> foldl (\<lambda>m (k, v). jset m k v) m kvs = m @ kvs"
proof (induction kvs arbitrary: m)
  case (Cons p kvs)
  obtain k v where p: "p = (k, v)" by (cases p)
  with Cons.prems have "jset m k v = m @ [(k, v)]" by (intro jset_new) auto
  with Cons p show ?case by simp
qed simp

text \<open>The laws of a keyed store, and that the insertion-ordered map has them.\<close>

locale keyed_store =
  fixes empty :: 'm
    and get :: "'m \<Rightarrow> 'k \<Rightarrow> 'v option"
    and put :: "'m \<Rightarrow> 'k \<Rightarrow> 'v \<Rightarrow> 'm"
    and del :: "'m \<Rightarrow> 'k \<Rightarrow> 'm"
    and invar :: "'m \<Rightarrow> bool"
  assumes get_empty: "get empty k = None"
    and get_put: "invar m \<Longrightarrow> get (put m k v) j = (if j = k then Some v else get m j)"
    and get_del: "invar m \<Longrightarrow> get (del m k) j = (if j = k then None else get m j)"
    and invar_empty: "invar empty"
    and invar_put: "invar m \<Longrightarrow> invar (put m k v)"
    and invar_del: "invar m \<Longrightarrow> invar (del m k)"
begin

lemma invar_puts: "invar m \<Longrightarrow> invar (foldl (\<lambda>m (k, v). put m k v) m kvs)"
  by (induction kvs arbitrary: m) (auto simp: invar_put split: prod.splits)

lemma get_puts_other:
  "invar m \<Longrightarrow> j \<notin> fst ` set kvs \<Longrightarrow> get (foldl (\<lambda>m (k, v). put m k v) m kvs) j = get m j"
  by (induction kvs arbitrary: m) (auto simp: get_put invar_put split: prod.splits)

lemma get_puts_distinct:
  "invar m \<Longrightarrow> distinct (map fst kvs) \<Longrightarrow> (k, v) \<in> set kvs \<Longrightarrow>
     get (foldl (\<lambda>m (k, v). put m k v) m kvs) k = Some v"
proof (induction kvs arbitrary: m)
  case Nil
  then show ?case by simp
next
  case (Cons p kvs)
  obtain a b where p: "p = (a, b)" by (cases p)
  show ?case
  proof (cases "(k, v) = p")
    case True
    with Cons.prems p show ?thesis
      by (auto simp: get_puts_other invar_put get_put image_iff)
  next
    case False
    with Cons p show ?thesis by (auto simp: invar_put)
  qed
qed

end

interpretation jm: keyed_store "[]" jget jset jdelete jmap_ok
  by unfold_locales (auto simp: jget_jset jget_jdelete)

lemmas jm_simps = jget_jset jget_jdelete jhas_def

end
