(* ===== verification/Js_Strings.thy ===== *)
theory Js_Strings
  imports Radar_Prelude
begin

text \<open>
  The parts of JavaScript's string library that the program uses, on \<open>string\<close> (a list of \<open>char\<close>).

  A \<open>char\<close> stands for one UTF-16 code unit below 256 (the Latin-1 block), so the functions below
  follow the Unicode rules on that block: \<^verbatim>\<open>trim\<close> strips tab, line feed, vertical tab, form feed,
  carriage return, space and no-break space; \<^verbatim>\<open>toLowerCase\<close> moves A-Z and the accented capitals; a
  code unit from 128 takes two bytes in UTF-8. Text beyond Latin-1 is not represented.

  \<^verbatim>\<open>JSON.stringify\<close> on a string is \<open>json_quote\<close>; the lemmas here show that its output is
  self-delimiting, which is what the cache key of the stage results relies on.
\<close>

section \<open>Characters\<close>

abbreviation code :: "char \<Rightarrow> nat" where
  "code c \<equiv> of_char c"

lemma code_bound [simp]: "code c < 256"
  using of_char_mod_256 [of c, where 'a = nat] by (metis mod_less_divisor zero_less_numeral)

lemma code_inject [simp]: "code c = code d \<longleftrightarrow> c = d"
  by simp

lemma char_of_code [simp]: "char_of (code c) = c"
  by simp

definition is_digit :: "char \<Rightarrow> bool" where
  "is_digit c \<longleftrightarrow> 48 \<le> code c \<and> code c \<le> 57"

definition is_upper :: "char \<Rightarrow> bool" where
  "is_upper c \<longleftrightarrow> 65 \<le> code c \<and> code c \<le> 90"

definition is_lower :: "char \<Rightarrow> bool" where
  "is_lower c \<longleftrightarrow> 97 \<le> code c \<and> code c \<le> 122"

definition is_alnum :: "char \<Rightarrow> bool" where
  "is_alnum c \<longleftrightarrow> is_digit c \<or> is_upper c \<or> is_lower c"

text \<open>A word character of a regular expression: \<^verbatim>\<open>\w\<close>.\<close>

definition is_word :: "char \<Rightarrow> bool" where
  "is_word c \<longleftrightarrow> is_alnum c \<or> c = CHR ''_''"

definition is_space :: "char \<Rightarrow> bool" where
  "is_space c \<longleftrightarrow> (9 \<le> code c \<and> code c \<le> 13) \<or> code c = 32 \<or> code c = 160"

definition lower_char :: "char \<Rightarrow> char" where
  "lower_char c =
     (let n = code c in
      if (65 \<le> n \<and> n \<le> 90) \<or> (192 \<le> n \<and> n \<le> 222 \<and> n \<noteq> 215) then char_of (n + 32) else c)"


section \<open>Strings\<close>

definition js_trim :: "string \<Rightarrow> string" where
  "js_trim s = rev (dropWhile is_space (rev (dropWhile is_space s)))"

definition js_to_lower :: "string \<Rightarrow> string" where
  "js_to_lower s = map lower_char s"

fun js_includes :: "string \<Rightarrow> string \<Rightarrow> bool" where
  "js_includes [] needle = (needle = [])"
| "js_includes (c # cs) needle = (prefix needle (c # cs) \<or> js_includes cs needle)"

lemma js_includes_sublist: "js_includes hay needle \<longleftrightarrow> sublist needle hay"
  by (induction hay) (auto simp: sublist_Cons_right)

definition utf8ByteLength :: "string \<Rightarrow> nat" where
  "utf8ByteLength s = sum_list (map (\<lambda>c. if code c < 128 then 1 else 2) s)"

lemma utf8ByteLength_Nil [simp]: "utf8ByteLength [] = 0"
  by (simp add: utf8ByteLength_def)

lemma utf8ByteLength_Cons [simp]:
  "utf8ByteLength (c # s) = (if code c < 128 then 1 else 2) + utf8ByteLength s"
  by (simp add: utf8ByteLength_def)

lemma utf8ByteLength_append [simp]: "utf8ByteLength (s @ t) = utf8ByteLength s + utf8ByteLength t"
  by (simp add: utf8ByteLength_def)

lemma length_le_utf8ByteLength: "length s \<le> utf8ByteLength s"
  by (induction s) auto

text \<open>The decimal digits a number has in a template string.\<close>

definition digit_char :: "nat \<Rightarrow> char" where
  "digit_char d = char_of (48 + d)"

fun show_nat :: "nat \<Rightarrow> string" where
  "show_nat n = (if n < 10 then [digit_char n] else show_nat (n div 10) @ [digit_char (n mod 10)])"

declare show_nat.simps [simp del]

definition show_int :: "int \<Rightarrow> string" where
  "show_int i = (if i < 0 then CHR ''-'' # show_nat (nat (- i)) else show_nat (nat i))"

definition js_join :: "string \<Rightarrow> string list \<Rightarrow> string" where
  "js_join sep parts = (case parts of [] \<Rightarrow> [] | p # ps \<Rightarrow> p @ concat (map (\<lambda>q. sep @ q) ps))"


section \<open>JSON strings\<close>

abbreviation quote_char :: char where
  "quote_char \<equiv> CHR 0x22"

abbreviation backslash :: char where
  "backslash \<equiv> CHR 0x5C"

definition hex_digit :: "nat \<Rightarrow> char" where
  "hex_digit d = (if d < 10 then char_of (48 + d) else char_of (87 + d))"

definition hex_value :: "char \<Rightarrow> nat" where
  "hex_value c = (if code c < 58 then code c - 48 else code c - 87)"

definition json_escape :: "char \<Rightarrow> string" where
  "json_escape c =
     (let n = code c in
      if n = 8 then [backslash, CHR ''b'']
      else if n = 9 then [backslash, CHR ''t'']
      else if n = 10 then [backslash, CHR ''n'']
      else if n = 12 then [backslash, CHR ''f'']
      else if n = 13 then [backslash, CHR ''r'']
      else if n = 34 then [backslash, quote_char]
      else if n = 92 then [backslash, backslash]
      else if n < 32 then [backslash, CHR ''u'', CHR ''0'', CHR ''0'', hex_digit (n div 16), hex_digit (n mod 16)]
      else [c])"

definition json_quote :: "string \<Rightarrow> string" where
  "json_quote s = quote_char # concat (map json_escape s) @ [quote_char]"

text \<open>A decoder of one escaped character, used only to show that escaping loses nothing.\<close>

fun json_unescape :: "string \<Rightarrow> (char \<times> string) option" where
  "json_unescape [] = None"
| "json_unescape (c # s) =
     (if c \<noteq> backslash then Some (c, s)
      else case s of
        [] \<Rightarrow> None
      | e # t \<Rightarrow>
          if e = CHR ''b'' then Some (char_of (8::nat), t)
          else if e = CHR ''t'' then Some (char_of (9::nat), t)
          else if e = CHR ''n'' then Some (char_of (10::nat), t)
          else if e = CHR ''f'' then Some (char_of (12::nat), t)
          else if e = CHR ''r'' then Some (char_of (13::nat), t)
          else if e = CHR ''u'' then
            (case t of _ # _ # h # l # r \<Rightarrow> Some (char_of (16 * hex_value h + hex_value l), r) | _ \<Rightarrow> None)
          else Some (e, t))"

lemma hex_value_hex_digit: "d < 16 \<Longrightarrow> hex_value (hex_digit d) = d"
  by (auto simp: hex_value_def hex_digit_def of_char_of)

lemma char_of_code_eq: "code c = n \<Longrightarrow> char_of n = c"
  by auto

lemma json_unescape_escape: "json_unescape (json_escape c @ rest) = Some (c, rest)"
proof -
  consider "code c = 8" | "code c = 9" | "code c = 10" | "code c = 12" | "code c = 13"
    | "code c = 34" | "code c = 92"
    | "code c < 32" "code c \<notin> {8, 9, 10, 12, 13}"
    | "32 \<le> code c" "code c \<noteq> 34" "code c \<noteq> 92"
    by force
  then show ?thesis
  proof cases
    case 6
    then have "code c = code quote_char" by simp
    then have "c = quote_char" by (simp only: code_inject)
    then show ?thesis by (simp add: json_escape_def Let_def)
  next
    case 7
    then have "code c = code backslash" by simp
    then have "c = backslash" by (simp only: code_inject)
    then show ?thesis by (simp add: json_escape_def Let_def)
  next
    case 8
    then have "16 * (code c div 16) + code c mod 16 = code c" and "code c div 16 < 16"
      by auto
    with 8 show ?thesis
      by (simp add: json_escape_def Let_def hex_value_hex_digit)
  next
    case 9
    then have "c \<noteq> backslash" by auto
    with 9 show ?thesis by (simp add: json_escape_def Let_def)
  qed (simp_all add: json_escape_def Let_def, (rule char_of_code_eq, assumption)+)
qed

lemma json_escape_inject: "json_escape c @ x = json_escape d @ y \<Longrightarrow> c = d \<and> x = y"
  by (metis json_unescape_escape option.inject prod.inject)

lemma json_escape_start: "\<exists>a b. json_escape c = a # b \<and> a \<noteq> quote_char"
  by (auto simp: json_escape_def Let_def)

lemma json_escapes_start: "concat (map json_escape (c # s)) @ r \<noteq> quote_char # x"
  using json_escape_start [of c] by auto

lemma json_escapes_inject:
  "concat (map json_escape s) @ quote_char # x = concat (map json_escape t) @ quote_char # y \<Longrightarrow> s = t \<and> x = y"
proof (induction s arbitrary: t)
  case Nil
  show ?case
  proof (cases t)
    case Nil
    with Nil.prems show ?thesis by simp
  next
    case (Cons d t')
    with Nil.prems json_escapes_start [of d t' "quote_char # y" x] show ?thesis by simp
  qed
next
  case (Cons c s)
  show ?case
  proof (cases t)
    case Nil
    with Cons.prems json_escapes_start [of c s "quote_char # x" y] show ?thesis by simp
  next
    case (Cons d t')
    with Cons.prems
    have "json_escape c @ (concat (map json_escape s) @ quote_char # x)
        = json_escape d @ (concat (map json_escape t') @ quote_char # y)"
      by simp
    from json_escape_inject [OF this] Cons.IH [of t'] Cons show ?thesis by simp
  qed
qed

lemma json_quote_inject: "json_quote s @ x = json_quote t @ y \<Longrightarrow> s = t \<and> x = y"
  by (rule json_escapes_inject) (simp add: json_quote_def)

text \<open>An array of strings and nulls, as \<^verbatim>\<open>JSON.stringify\<close> prints it.\<close>

definition json_item :: "string option \<Rightarrow> string" where
  "json_item i = (case i of None \<Rightarrow> ''null'' | Some s \<Rightarrow> json_quote s)"

definition json_array :: "string option list \<Rightarrow> string" where
  "json_array is = ''['' @ js_join '','' (map json_item is) @ '']''"

lemma json_item_inject: "json_item i @ x = json_item j @ y \<Longrightarrow> i = j \<and> x = y"
proof (cases i; cases j)
  fix s t
  assume "json_item i @ x = json_item j @ y" "i = Some s" "j = Some t"
  then show ?thesis using json_quote_inject [of s x t y] by (simp add: json_item_def)
qed (auto simp: json_item_def json_quote_def)

lemma json_items_inject:
  "length is = length js \<Longrightarrow>
     concat (map (\<lambda>q. '','' @ json_item q) is) @ x = concat (map (\<lambda>q. '','' @ json_item q) js) @ y \<Longrightarrow>
     is = js \<and> x = y"
proof (induction "is" js rule: list_induct2)
  case Nil
  then show ?case by simp
next
  case (Cons i "is" j js)
  then show ?case
    using json_item_inject
      [of i "concat (map (\<lambda>q. '','' @ json_item q) is) @ x" j "concat (map (\<lambda>q. '','' @ json_item q) js) @ y"]
    by auto
qed

lemma json_array_inject:
  assumes len: "length is = length js" and eq: "json_array is = json_array js"
  shows "is = js"
proof (cases "is")
  case Nil
  with len show ?thesis by simp
next
  case (Cons i is')
  with len obtain j js' where js: "js = j # js'" and len': "length is' = length js'"
    by (cases js) auto
  let ?tail = "\<lambda>is. concat (map (\<lambda>q. '','' @ json_item q) is) @ '']''"
  have tail: "json_array (k # ks) = ''['' @ json_item k @ ?tail ks" for k ks
    by (simp add: json_array_def js_join_def comp_def)
  from eq have "json_item i @ ?tail is' = json_item j @ ?tail js'"
    unfolding Cons js tail by simp
  from json_item_inject [OF this] json_items_inject [OF len'] show ?thesis
    unfolding Cons js by blast
qed

end
