(* ===== verification/Stage_Routing.thy ===== *)
theory Stage_Routing
  imports Complex_Main Js_Strings
begin

text \<open>
  The stage router of the agent runtime (\<^verbatim>\<open>packages/agent-runtime/src/policy/stage-routing\<close>:
  \<^verbatim>\<open>stages.ts\<close>, \<^verbatim>\<open>candidates.ts\<close>, \<^verbatim>\<open>router.ts\<close>, with the model id rule of \<^verbatim>\<open>policy/model-select.ts\<close>).

  \<open>routeStage\<close> picks the provider and model for one generation stage. The lemmas show that what it
  picks is always eligible for the stage (installed, authenticated, a safe model id, every required
  capability), that an eligible preference is honoured, that every substitution carries a fallback
  reason, and that without a preference the pick is in the best tier that has an eligible candidate
  and, when asked for and priced, the cheapest there. Prices are rational numbers.
\<close>

section \<open>Stages\<close>

datatype GenerationStage =
    Cv_field_extraction | Source_cv_capture | Gap_analysis | Cv_tailoring | Cover_letter
  | Application_critique | Application_field_map

definition GENERATION_STAGES :: "GenerationStage list" where
  "GENERATION_STAGES =
     [Cv_field_extraction, Source_cv_capture, Gap_analysis, Cv_tailoring, Cover_letter,
      Application_critique, Application_field_map]"

datatype StageWorkload = Bounded_extraction | Grounded_document | Closed_set_assignment

datatype ModelTier = Tier_small | Tier_capable | Tier_unknown

datatype TierEvidence = Operator_declared | Measured_benchmark

record StageContract =
  sc_stage :: GenerationStage
  sc_workload :: StageWorkload
  sc_requiredCapabilities :: "string list"
  sc_maxAttempts :: nat
  sc_retrievalAvailable :: bool

fun STAGE_CONTRACTS :: "GenerationStage \<Rightarrow> StageContract" where
  "STAGE_CONTRACTS Cv_field_extraction =
     \<lparr>sc_stage = Cv_field_extraction, sc_workload = Bounded_extraction,
      sc_requiredCapabilities = [], sc_maxAttempts = 2, sc_retrievalAvailable = True\<rparr>"
| "STAGE_CONTRACTS Source_cv_capture =
     \<lparr>sc_stage = Source_cv_capture, sc_workload = Bounded_extraction,
      sc_requiredCapabilities = [], sc_maxAttempts = 2, sc_retrievalAvailable = True\<rparr>"
| "STAGE_CONTRACTS Gap_analysis =
     \<lparr>sc_stage = Gap_analysis, sc_workload = Grounded_document,
      sc_requiredCapabilities = [], sc_maxAttempts = 2, sc_retrievalAvailable = True\<rparr>"
| "STAGE_CONTRACTS Cv_tailoring =
     \<lparr>sc_stage = Cv_tailoring, sc_workload = Grounded_document,
      sc_requiredCapabilities = [], sc_maxAttempts = 2, sc_retrievalAvailable = True\<rparr>"
| "STAGE_CONTRACTS Cover_letter =
     \<lparr>sc_stage = Cover_letter, sc_workload = Grounded_document,
      sc_requiredCapabilities = [], sc_maxAttempts = 2, sc_retrievalAvailable = False\<rparr>"
| "STAGE_CONTRACTS Application_critique =
     \<lparr>sc_stage = Application_critique, sc_workload = Grounded_document,
      sc_requiredCapabilities = [''hardenedNoNetwork''], sc_maxAttempts = 1,
      sc_retrievalAvailable = False\<rparr>"
| "STAGE_CONTRACTS Application_field_map =
     \<lparr>sc_stage = Application_field_map, sc_workload = Closed_set_assignment,
      sc_requiredCapabilities = [''hardenedNoNetwork''], sc_maxAttempts = 2,
      sc_retrievalAvailable = True\<rparr>"

definition stageContract :: "GenerationStage \<Rightarrow> StageContract" where
  "stageContract stage = STAGE_CONTRACTS stage"

fun STAGE_TIER_PREFERENCE :: "StageWorkload \<Rightarrow> ModelTier list" where
  "STAGE_TIER_PREFERENCE Bounded_extraction = [Tier_small, Tier_capable, Tier_unknown]"
| "STAGE_TIER_PREFERENCE Grounded_document = [Tier_capable, Tier_small, Tier_unknown]"
| "STAGE_TIER_PREFERENCE Closed_set_assignment = [Tier_capable, Tier_small, Tier_unknown]"


section \<open>Candidates\<close>

datatype ProviderId = Claude | Codex

datatype AuthStatus = Authenticated | Unauthenticated | Auth_unknown

text \<open>An adapter's declared capabilities: a key that is absent or \<^verbatim>\<open>false\<close> is unsupported.\<close>

type_synonym ProviderCapabilities = "string \<rightharpoonup> bool"

datatype PriceUnknownReason = Not_published | Not_configured

datatype CandidatePrice =
    Price_unknown PriceUnknownReason
  | Price_known (usdPerMillionInputTokens: rat) (usdPerMillionOutputTokens: rat) (price_source: string)

definition PRICE_NOT_PUBLISHED :: CandidatePrice where
  "PRICE_NOT_PUBLISHED = Price_unknown Not_published"

definition PRICE_NOT_CONFIGURED :: CandidatePrice where
  "PRICE_NOT_CONFIGURED = Price_unknown Not_configured"

record RoutingCandidate =
  rc_providerId :: ProviderId
  rc_model :: "string option"
  rc_capabilities :: ProviderCapabilities
  rc_tier :: ModelTier
  rc_tierEvidence :: TierEvidence
  rc_price :: CandidatePrice
  rc_installed :: bool
  rc_authenticated :: AuthStatus

record CandidateRef =
  cr_providerId :: ProviderId
  cr_model :: "string option"

definition candidate_ref :: "RoutingCandidate \<Rightarrow> CandidateRef" where
  "candidate_ref c = \<lparr>cr_providerId = rc_providerId c, cr_model = rc_model c\<rparr>"

definition sameCandidate :: "CandidateRef \<Rightarrow> CandidateRef \<Rightarrow> bool" where
  "sameCandidate a b \<longleftrightarrow> cr_providerId a = cr_providerId b \<and> cr_model a = cr_model b"

fun provider_name :: "ProviderId \<Rightarrow> string" where
  "provider_name Claude = ''claude''"
| "provider_name Codex = ''codex''"

definition describeCandidate :: "CandidateRef \<Rightarrow> string" where
  "describeCandidate ref =
     (case cr_model ref of
        Some (m # ms) \<Rightarrow> provider_name (cr_providerId ref) @ ''/'' @ (m # ms)
      | _ \<Rightarrow> provider_name (cr_providerId ref) @ '' (provider default)'')"


section \<open>Model ids\<close>

definition MAX_MODEL_BYTES :: nat where
  "MAX_MODEL_BYTES = 256"

text \<open>\<^verbatim>\<open>/^[a-zA-Z0-9](?:[a-zA-Z0-9._-]*[a-zA-Z0-9])?$/\<close>\<close>

definition model_id_pattern :: "string \<Rightarrow> bool" where
  "model_id_pattern s =
     (case s of
        [] \<Rightarrow> False
      | c # cs \<Rightarrow>
          is_alnum c \<and>
          (cs = [] \<or>
           (is_alnum (last cs) \<and>
            list_all (\<lambda>d. is_alnum d \<or> d = CHR ''.'' \<or> d = CHR ''_'' \<or> d = CHR ''-'') (butlast cs))))"

definition modelSelectValue_ok :: "string \<Rightarrow> bool" where
  "modelSelectValue_ok s \<longleftrightarrow> s \<noteq> [] \<and> model_id_pattern s \<and> utf8ByteLength s \<le> MAX_MODEL_BYTES"


section \<open>The router\<close>

datatype CandidateRejectionReason =
  Missing_capability | Not_installed | Not_authenticated | Invalid_model_id

record RejectedCandidate =
  rj_providerId :: ProviderId
  rj_model :: "string option"
  rj_reason :: CandidateRejectionReason
  rj_missingCapabilities :: "string list option"

datatype StageFallbackReason =
    Preferred_candidate_missing_capability
  | Preferred_candidate_unavailable
  | No_preferred_tier_available

record StageRoutingRequest =
  rq_stage :: GenerationStage
  rq_candidates :: "RoutingCandidate list"
  rq_preferred :: "CandidateRef option"
  rq_preferCheaperWithinTier :: "bool option"

record RoutedStage =
  rs_stage :: GenerationStage
  rs_providerId :: ProviderId
  rs_model :: "string option"
  rs_tier :: ModelTier
  rs_tierEvidence :: TierEvidence
  rs_price :: CandidatePrice
  rs_fallbackReason :: "StageFallbackReason option"
  rs_rejected :: "RejectedCandidate list"

datatype StageRoutingDecision =
    Routed RoutedStage
  | No_eligible_candidate (ur_stage: GenerationStage) (ur_requiredCapabilities: "string list")
      (ur_rejected: "RejectedCandidate list")

definition missingCapabilities :: "ProviderCapabilities \<Rightarrow> string list \<Rightarrow> string list" where
  "missingCapabilities capabilities required = filter (\<lambda>key. capabilities key \<noteq> Some True) required"

definition reject :: "RoutingCandidate \<Rightarrow> CandidateRejectionReason \<Rightarrow> string list option \<Rightarrow> RejectedCandidate" where
  "reject c reason missing =
     \<lparr>rj_providerId = rc_providerId c, rj_model = rc_model c, rj_reason = reason,
      rj_missingCapabilities = missing\<rparr>"

definition rejectionFor :: "RoutingCandidate \<Rightarrow> string list \<Rightarrow> RejectedCandidate option" where
  "rejectionFor candidate required =
     (if \<not> rc_installed candidate then Some (reject candidate Not_installed None)
      else if rc_authenticated candidate \<noteq> Authenticated then Some (reject candidate Not_authenticated None)
      else if (case rc_model candidate of None \<Rightarrow> False | Some m \<Rightarrow> \<not> modelSelectValue_ok m)
        then Some (reject candidate Invalid_model_id None)
      else
        (let missing = missingCapabilities (rc_capabilities candidate) required in
         if length missing > 0 then Some (reject candidate Missing_capability (Some missing))
         else None))"

definition rejected_ref :: "RejectedCandidate \<Rightarrow> CandidateRef" where
  "rejected_ref r = \<lparr>cr_providerId = rj_providerId r, cr_model = rj_model r\<rparr>"

definition allPricesKnown :: "RoutingCandidate list \<Rightarrow> bool" where
  "allPricesKnown candidates =
     list_all (\<lambda>c. case rc_price c of Price_known _ _ _ \<Rightarrow> True | _ \<Rightarrow> False) candidates"

fun totalKnownPrice :: "CandidatePrice \<Rightarrow> rat" where
  "totalKnownPrice (Price_known input output src) = input + output"
| "totalKnownPrice (Price_unknown r) = 0"

definition routedFrom ::
  "GenerationStage \<Rightarrow> RoutingCandidate \<Rightarrow> RejectedCandidate list \<Rightarrow> StageFallbackReason option \<Rightarrow> RoutedStage" where
  "routedFrom stage candidate rejected fallbackReason =
     \<lparr>rs_stage = stage, rs_providerId = rc_providerId candidate, rs_model = rc_model candidate,
      rs_tier = rc_tier candidate, rs_tierEvidence = rc_tierEvidence candidate,
      rs_price = rc_price candidate, rs_fallbackReason = fallbackReason, rs_rejected = rejected\<rparr>"

text \<open>
  The candidates of one tier, cheapest first when asked for and every price is known. JavaScript's
  sort is stable, as is \<open>sort_key\<close>.
\<close>

fun bestByTier :: "RoutingCandidate list \<Rightarrow> ModelTier list \<Rightarrow> bool \<Rightarrow> RoutingCandidate option" where
  "bestByTier eligible [] preferCheaper = None"
| "bestByTier eligible (tier # tiers) preferCheaper =
     (let inTier = filter (\<lambda>c. rc_tier c = tier) eligible in
      case inTier of
        [] \<Rightarrow> bestByTier eligible tiers preferCheaper
      | head # _ \<Rightarrow>
          if preferCheaper \<and> length inTier > 1 \<and> allPricesKnown inTier
          then (case sort_key (\<lambda>c. totalKnownPrice (rc_price c)) inTier of
                  [] \<Rightarrow> Some head
                | cheapest # _ \<Rightarrow> Some cheapest)
          else Some head)"

text \<open>The loop of \<^verbatim>\<open>routeStage\<close> that sorts candidates into eligible and rejected.\<close>

fun classify ::
  "string list \<Rightarrow> RoutingCandidate list \<Rightarrow> RoutingCandidate list \<Rightarrow> RejectedCandidate list
     \<Rightarrow> RoutingCandidate list \<times> RejectedCandidate list" where
  "classify required [] eligible rejected = (eligible, rejected)"
| "classify required (c # cs) eligible rejected =
     (case rejectionFor c required of
        Some rejection \<Rightarrow> classify required cs eligible (rejected @ [rejection])
      | None \<Rightarrow> classify required cs (eligible @ [c]) rejected)"

definition routeStage :: "StageRoutingRequest \<Rightarrow> StageRoutingDecision" where
  "routeStage request =
     (let contract = stageContract (rq_stage request);
          required = sc_requiredCapabilities contract;
          (eligible, rejected) = classify required (rq_candidates request) [] []
      in case eligible of
           [] \<Rightarrow> No_eligible_candidate (rq_stage request) required rejected
         | firstEligible # _ \<Rightarrow>
             (let preference = STAGE_TIER_PREFERENCE (sc_workload contract);
                  best = (case bestByTier eligible preference (rq_preferCheaperWithinTier request = Some True) of
                            Some b \<Rightarrow> b | None \<Rightarrow> firstEligible)
              in case rq_preferred request of
                   Some preferred \<Rightarrow>
                     (case List.find (\<lambda>c. sameCandidate (candidate_ref c) preferred) eligible of
                        Some preferredMatch \<Rightarrow> Routed (routedFrom (rq_stage request) preferredMatch rejected None)
                      | None \<Rightarrow>
                          (let reason =
                             (case List.find (\<lambda>e. sameCandidate (rejected_ref e) preferred) rejected of
                                Some r \<Rightarrow>
                                  if rj_reason r = Missing_capability
                                  then Preferred_candidate_missing_capability
                                  else Preferred_candidate_unavailable
                              | None \<Rightarrow> Preferred_candidate_unavailable)
                           in Routed (routedFrom (rq_stage request) best rejected (Some reason))))
                 | None \<Rightarrow>
                     (let fellBack = rc_tier best \<noteq> hd preference
                      in Routed (routedFrom (rq_stage request) best rejected
                           (if fellBack then Some No_preferred_tier_available else None)))))"

fun stage_name :: "GenerationStage \<Rightarrow> string" where
  "stage_name Cv_field_extraction = ''cv_field_extraction''"
| "stage_name Source_cv_capture = ''source_cv_capture''"
| "stage_name Gap_analysis = ''gap_analysis''"
| "stage_name Cv_tailoring = ''cv_tailoring''"
| "stage_name Cover_letter = ''cover_letter''"
| "stage_name Application_critique = ''application_critique''"
| "stage_name Application_field_map = ''application_field_map''"

fun tier_name :: "ModelTier \<Rightarrow> string" where
  "tier_name Tier_small = ''small''"
| "tier_name Tier_capable = ''capable''"
| "tier_name Tier_unknown = ''unknown''"

fun tier_evidence_name :: "TierEvidence \<Rightarrow> string" where
  "tier_evidence_name Operator_declared = ''operator_declared''"
| "tier_evidence_name Measured_benchmark = ''measured_benchmark''"

fun fallback_name :: "StageFallbackReason \<Rightarrow> string" where
  "fallback_name Preferred_candidate_missing_capability = ''preferred_candidate_missing_capability''"
| "fallback_name Preferred_candidate_unavailable = ''preferred_candidate_unavailable''"
| "fallback_name No_preferred_tier_available = ''no_preferred_tier_available''"

fun describeStageDecision :: "StageRoutingDecision \<Rightarrow> string" where
  "describeStageDecision (No_eligible_candidate stage required rejected) =
     stage_name stage @ '': no eligible provider (requires '' @
     (let listed = js_join '', '' required in if listed = [] then ''nothing'' else listed) @ '')''"
| "describeStageDecision (Routed d) =
     (let pairing = describeCandidate \<lparr>cr_providerId = rs_providerId d, cr_model = rs_model d\<rparr>;
          tier = ''tier '' @ tier_name (rs_tier d) @ '' ('' @ tier_evidence_name (rs_tierEvidence d) @ '')''
      in case rs_fallbackReason d of
           Some reason \<Rightarrow>
             stage_name (rs_stage d) @ '': '' @ pairing @ '', '' @ tier @ '', fallback: '' @ fallback_name reason
         | None \<Rightarrow> stage_name (rs_stage d) @ '': '' @ pairing @ '', '' @ tier)"


section \<open>Eligibility\<close>

definition eligible_for :: "string list \<Rightarrow> RoutingCandidate \<Rightarrow> bool" where
  "eligible_for required c \<longleftrightarrow>
     rc_installed c \<and> rc_authenticated c = Authenticated \<and>
     (\<forall>m. rc_model c = Some m \<longrightarrow> modelSelectValue_ok m) \<and>
     (\<forall>key\<in>set required. rc_capabilities c key = Some True)"

lemma rejectionFor_None: "rejectionFor c required = None \<longleftrightarrow> eligible_for required c"
  by (auto simp: rejectionFor_def eligible_for_def missingCapabilities_def Let_def filter_empty_conv
      split: option.splits)

lemma rejectionFor_ref: "rejectionFor c required = Some r \<Longrightarrow> rejected_ref r = candidate_ref c"
  by (auto simp: rejectionFor_def reject_def rejected_ref_def candidate_ref_def Let_def
      split: if_splits option.splits)

lemma sameCandidate_iff: "sameCandidate a b \<longleftrightarrow> a = b"
  by (cases a; cases b) (auto simp: sameCandidate_def)

lemma classify_eq:
  "classify required cs el rj =
     (el @ filter (eligible_for required) cs, rj @ List.map_filter (\<lambda>c. rejectionFor c required) cs)"
proof (induction cs arbitrary: el rj)
  case Nil
  show ?case by simp
next
  case (Cons c cs)
  then show ?case
    using rejectionFor_None [of c required] by (cases "rejectionFor c required") auto
qed

lemma bestByTier_mem: "bestByTier el tiers ch = Some b \<Longrightarrow> b \<in> set el"
proof (induction tiers)
  case Nil
  then show ?case by simp
next
  case (Cons t ts)
  let ?in = "filter (\<lambda>c. rc_tier c = t) el"
  have sub: "x \<in> set el" if "sort_key f ?in = x # xs" for x xs and f :: "RoutingCandidate \<Rightarrow> rat"
  proof -
    have "x \<in> set (sort_key f ?in)" using that by simp
    then show ?thesis by simp
  qed
  show ?case
  proof (cases ?in)
    case Nil
    with Cons show ?thesis by simp
  next
    case (Cons h hs)
    with filter_eq_hd [OF Cons] Cons.prems sub [unfolded Cons] show ?thesis
      by (auto simp: Let_def simp del: sort_key_simps split: if_splits list.splits)
  qed
qed

text \<open>The pick is in the first tier of the preference order that has an eligible candidate.\<close>

lemma bestByTier_tier:
  assumes "bestByTier el tiers ch = Some b"
  shows "\<exists>before after. tiers = before @ rc_tier b # after \<and> (\<forall>c\<in>set el. rc_tier c \<notin> set before)"
  using assms
proof (induction tiers)
  case Nil
  then show ?case by simp
next
  case (Cons t ts)
  let ?in = "filter (\<lambda>c. rc_tier c = t) el"
  show ?case
  proof (cases ?in)
    case Nil
    then have none: "\<forall>c\<in>set el. rc_tier c \<noteq> t" by (simp add: filter_empty_conv)
    from Nil Cons.prems have "bestByTier el ts ch = Some b" by simp
    from Cons.IH [OF this] obtain before after where
      "ts = before @ rc_tier b # after" "\<forall>c\<in>set el. rc_tier c \<notin> set before" by blast
    with none have "t # ts = (t # before) @ rc_tier b # after" "\<forall>c\<in>set el. rc_tier c \<notin> set (t # before)"
      by auto
    then show ?thesis by blast
  next
    case (Cons h hs)
    have inb: "b \<in> set ?in"
    proof -
      have "x \<in> set ?in" if "sort_key f ?in = x # xs" for x xs and f :: "RoutingCandidate \<Rightarrow> rat"
      proof -
        have "x \<in> set (sort_key f ?in)" using that by simp
        then show ?thesis by (simp only: set_sort)
      qed
      with Cons Cons.prems show ?thesis
        by (auto simp: Let_def simp del: sort_key_simps split: if_splits list.splits)
    qed
    then have "t # ts = [] @ rc_tier b # ts" by simp
    then show ?thesis by (metis empty_iff empty_set)
  qed
qed

lemma sort_key_hd_least:
  "sort_key f xs = y # ys \<Longrightarrow> y \<in> set xs \<and> (\<forall>x\<in>set xs. f y \<le> f x)"
proof -
  assume eq: "sort_key f xs = y # ys"
  have "sorted (map f (y # ys))" by (simp only: eq [symmetric] sorted_sort_key)
  moreover have "set (y # ys) = set xs" by (metis eq set_sort)
  ultimately show ?thesis by auto
qed

text \<open>Within the tier it is picked from, the pick is the cheapest when every price there is known.\<close>

lemma bestByTier_cheapest:
  assumes best: "bestByTier el tiers True = Some b"
    and known: "allPricesKnown (filter (\<lambda>c. rc_tier c = rc_tier b) el)"
    and c: "c \<in> set el" "rc_tier c = rc_tier b"
  shows "totalKnownPrice (rc_price b) \<le> totalKnownPrice (rc_price c)"
  using best
proof (induction tiers)
  case Nil
  then show ?case by simp
next
  case (Cons t ts)
  let ?in = "filter (\<lambda>c. rc_tier c = t) el"
  let ?f = "\<lambda>c. totalKnownPrice (rc_price c)"
  show ?case
  proof (cases ?in)
    case Nil
    with Cons show ?thesis by simp
  next
    case (Cons h hs)
    show ?thesis
    proof (cases "length ?in > 1 \<and> allPricesKnown ?in")
      case True
      then obtain y ys where y: "sort_key ?f ?in = y # ys"
        by (metis (no_types, lifting) length_0_conv length_greater_0_conv length_sort list.exhaust
            not_less_zero)
      with True Cons Cons.prems have "b = y"
        by (simp add: Let_def del: sort_key_simps)
      with sort_key_hd_least [OF y] c show ?thesis by simp
    next
      case False
      with Cons Cons.prems have b: "b = h" by (auto simp: Let_def)
      with filter_eq_hd [OF Cons] have "rc_tier b = t" by simp
      with False known have "length ?in \<le> 1" by simp
      with Cons have "?in = [h]" by (cases hs) auto
      moreover have "c \<in> set ?in" using c \<open>rc_tier b = t\<close> by simp
      ultimately show ?thesis using b by simp
    qed
  qed
qed

lemma bestByTier_total: "el \<noteq> [] \<Longrightarrow> \<exists>b. bestByTier el (STAGE_TIER_PREFERENCE w) ch = Some b"
proof -
  assume "el \<noteq> []"
  then obtain c where c: "c \<in> set el" by (cases el) auto
  have some: "\<exists>b. bestByTier el tiers ch = Some b" if "rc_tier c \<in> set tiers" for tiers
    using that
  proof (induction tiers)
    case (Cons t ts)
    show ?case
    proof (cases "filter (\<lambda>c. rc_tier c = t) el")
      case Nil
      with c have "rc_tier c \<noteq> t" by (auto simp: filter_empty_conv)
      with Cons Nil show ?thesis by simp
    qed (simp add: Let_def split: list.splits)
  qed simp
  have "rc_tier c \<in> set (STAGE_TIER_PREFERENCE w)"
    by (cases w; cases "rc_tier c") auto
  then show ?thesis by (rule some)
qed


section \<open>What a decision says\<close>

definition request_eligible :: "StageRoutingRequest \<Rightarrow> RoutingCandidate list" where
  "request_eligible rq =
     filter (eligible_for (sc_requiredCapabilities (stageContract (rq_stage rq)))) (rq_candidates rq)"

definition request_rejected :: "StageRoutingRequest \<Rightarrow> RejectedCandidate list" where
  "request_rejected rq =
     List.map_filter (\<lambda>c. rejectionFor c (sc_requiredCapabilities (stageContract (rq_stage rq))))
       (rq_candidates rq)"

definition request_best :: "StageRoutingRequest \<Rightarrow> RoutingCandidate option" where
  "request_best rq =
     bestByTier (request_eligible rq)
       (STAGE_TIER_PREFERENCE (sc_workload (stageContract (rq_stage rq))))
       (rq_preferCheaperWithinTier rq = Some True)"

lemma routeStage_cases:
  "routeStage rq =
     (if request_eligible rq = []
      then No_eligible_candidate (rq_stage rq) (sc_requiredCapabilities (stageContract (rq_stage rq)))
             (request_rejected rq)
      else case rq_preferred rq of
        None \<Rightarrow>
          Routed (routedFrom (rq_stage rq) (the (request_best rq)) (request_rejected rq)
            (if rc_tier (the (request_best rq))
                  \<noteq> hd (STAGE_TIER_PREFERENCE (sc_workload (stageContract (rq_stage rq))))
             then Some No_preferred_tier_available else None))
      | Some p \<Rightarrow>
          (case List.find (\<lambda>c. candidate_ref c = p) (request_eligible rq) of
             Some m \<Rightarrow> Routed (routedFrom (rq_stage rq) m (request_rejected rq) None)
           | None \<Rightarrow>
               Routed (routedFrom (rq_stage rq) (the (request_best rq)) (request_rejected rq)
                 (Some (case List.find (\<lambda>e. rejected_ref e = p) (request_rejected rq) of
                          Some r \<Rightarrow> if rj_reason r = Missing_capability
                                    then Preferred_candidate_missing_capability
                                    else Preferred_candidate_unavailable
                        | None \<Rightarrow> Preferred_candidate_unavailable)))))"
proof -
  let ?c = "stageContract (rq_stage rq)"
  have cl: "classify (sc_requiredCapabilities ?c) (rq_candidates rq) [] [] = (request_eligible rq, request_rejected rq)"
    by (simp add: classify_eq request_eligible_def request_rejected_def)
  have route: "routeStage rq =
    (case request_eligible rq of
       [] \<Rightarrow> No_eligible_candidate (rq_stage rq) (sc_requiredCapabilities ?c) (request_rejected rq)
     | f # fs \<Rightarrow>
         (let best = (case request_best rq of Some b \<Rightarrow> b | None \<Rightarrow> f)
          in case rq_preferred rq of
               Some p \<Rightarrow>
                 (case List.find (\<lambda>c. candidate_ref c = p) (request_eligible rq) of
                    Some m \<Rightarrow> Routed (routedFrom (rq_stage rq) m (request_rejected rq) None)
                  | None \<Rightarrow> Routed (routedFrom (rq_stage rq) best (request_rejected rq)
                      (Some (case List.find (\<lambda>e. rejected_ref e = p) (request_rejected rq) of
                          Some r \<Rightarrow> if rj_reason r = Missing_capability
                                    then Preferred_candidate_missing_capability
                                    else Preferred_candidate_unavailable
                        | None \<Rightarrow> Preferred_candidate_unavailable))))
             | None \<Rightarrow> Routed (routedFrom (rq_stage rq) best (request_rejected rq)
                 (if rc_tier best \<noteq> hd (STAGE_TIER_PREFERENCE (sc_workload ?c))
                  then Some No_preferred_tier_available else None))))"
    unfolding routeStage_def Let_def cl prod.case request_best_def sameCandidate_iff ..
  show ?thesis
  proof (cases "request_eligible rq = []")
    case True
    then show ?thesis unfolding route by simp
  next
    case False
    then obtain f fs where f: "request_eligible rq = f # fs" by (cases "request_eligible rq") auto
    from False obtain b where b: "request_best rq = Some b"
      using bestByTier_total unfolding request_best_def by blast
    from f b show ?thesis unfolding route
      by (simp add: Let_def del: List.find.simps cong: option.case_cong)
  qed
qed


lemma request_best_mem: "request_best rq = Some b \<Longrightarrow> b \<in> set (request_eligible rq)"
  unfolding request_best_def by (rule bestByTier_mem)

lemma request_best_Some: "request_eligible rq \<noteq> [] \<Longrightarrow> \<exists>b. request_best rq = Some b"
  unfolding request_best_def by (rule bestByTier_total)

lemma set_request_eligible:
  "set (request_eligible rq) =
     {c \<in> set (rq_candidates rq). eligible_for (sc_requiredCapabilities (stageContract (rq_stage rq))) c}"
  by (auto simp: request_eligible_def)

definition routed_ref :: "RoutedStage \<Rightarrow> CandidateRef" where
  "routed_ref d = \<lparr>cr_providerId = rs_providerId d, cr_model = rs_model d\<rparr>"

text \<open>Every routed decision stems from one eligible candidate.\<close>

lemma routeStage_from:
  assumes "routeStage rq = Routed d"
  obtains c reason where "c \<in> set (request_eligible rq)"
    and "d = routedFrom (rq_stage rq) c (request_rejected rq) reason"
    and "rq_preferred rq = None \<Longrightarrow> request_best rq = Some c"
    and "\<And>p. rq_preferred rq = Some p \<Longrightarrow> reason = None \<Longrightarrow> candidate_ref c = p"
    and "\<And>p. rq_preferred rq = Some p \<Longrightarrow> reason \<noteq> None \<Longrightarrow>
           request_best rq = Some c \<and> (\<forall>e\<in>set (request_eligible rq). candidate_ref e \<noteq> p)"
    and "rq_preferred rq = None \<Longrightarrow>
           reason = (if rc_tier c \<noteq> hd (STAGE_TIER_PREFERENCE (sc_workload (stageContract (rq_stage rq))))
                     then Some No_preferred_tier_available else None)"
proof -
  from assms have ne: "request_eligible rq \<noteq> []"
    by (auto simp: routeStage_cases split: if_splits)
  then obtain b where b: "request_best rq = Some b" using request_best_Some by blast
  note bm = request_best_mem [OF b]
  show thesis
  proof (cases "rq_preferred rq")
    case None
    with assms ne b have "d = routedFrom (rq_stage rq) b (request_rejected rq)
      (if rc_tier b \<noteq> hd (STAGE_TIER_PREFERENCE (sc_workload (stageContract (rq_stage rq))))
       then Some No_preferred_tier_available else None)"
      by (simp add: routeStage_cases)
    then show thesis using None b bm by (intro that [of b]) auto
  next
    case (Some p)
    show thesis
    proof (cases "List.find (\<lambda>c. candidate_ref c = p) (request_eligible rq)")
      case None
      then have "\<forall>e\<in>set (request_eligible rq). candidate_ref e \<noteq> p"
        by (auto simp: find_None_iff)
      with assms ne b Some None show thesis
        by (intro that [of b "rs_fallbackReason d"]) (auto simp: bm routeStage_cases routedFrom_def)
    next
      fix m
      assume m: "List.find (\<lambda>c. candidate_ref c = p) (request_eligible rq) = Some m"
      with find_SomeD [OF m] assms ne Some show thesis
        by (intro that [of m None]) (auto simp: routeStage_cases)
    qed
  qed
qed

section \<open>The properties of the router\<close>

text \<open>
  C13. A routed stage always names one of the offered candidates, and that candidate is eligible for
  the stage: installed, authenticated (not merely of unknown state), with a model id that is safe on
  a command line, and declaring every capability the stage's contract requires. No price, tier,
  order or preference can route a stage past its contract.
\<close>

theorem routed_is_eligible:
  assumes "routeStage rq = Routed d"
  shows "\<exists>c\<in>set (rq_candidates rq).
           rc_providerId c = rs_providerId d \<and> rc_model c = rs_model d \<and> rc_tier c = rs_tier d \<and>
           rc_price c = rs_price d \<and> rs_stage d = rq_stage rq \<and>
           eligible_for (sc_requiredCapabilities (stageContract (rq_stage rq))) c"
  using assms by (rule routeStage_from) (auto simp: set_request_eligible routedFrom_def)

definition ex_claude :: RoutingCandidate where
  "ex_claude = \<lparr>rc_providerId = Claude, rc_model = Some ''opus-5'',
     rc_capabilities = [''hardenedNoNetwork'' \<mapsto> True], rc_tier = Tier_capable,
     rc_tierEvidence = Operator_declared, rc_price = Price_known 5 25 ''page'',
     rc_installed = True, rc_authenticated = Authenticated\<rparr>"

definition ex_codex :: RoutingCandidate where
  "ex_codex = \<lparr>rc_providerId = Codex, rc_model = None, rc_capabilities = Map.empty,
     rc_tier = Tier_small, rc_tierEvidence = Operator_declared, rc_price = Price_known 1 2 ''page'',
     rc_installed = True, rc_authenticated = Authenticated\<rparr>"

definition ex_request :: "GenerationStage \<Rightarrow> CandidateRef option \<Rightarrow> StageRoutingRequest" where
  "ex_request stage preferred = \<lparr>rq_stage = stage, rq_candidates = [ex_codex, ex_claude],
     rq_preferred = preferred, rq_preferCheaperWithinTier = Some True\<rparr>"

lemmas ex_routing_defs = ex_claude_def ex_codex_def ex_request_def routeStage_def stageContract_def
  rejectionFor_def reject_def missingCapabilities_def candidate_ref_def sameCandidate_def
  rejected_ref_def modelSelectValue_ok_def model_id_pattern_def MAX_MODEL_BYTES_def is_alnum_def
  is_digit_def is_upper_def is_lower_def routedFrom_def eligible_for_def

lemma ex_route_field_map:
  "routeStage (ex_request Application_field_map None) =
     Routed (routedFrom Application_field_map ex_claude
       [reject ex_codex Missing_capability (Some [''hardenedNoNetwork''])] None)"
  by (simp add: ex_routing_defs)

theorem routed_is_eligible_witness:
  "\<exists>c\<in>{ex_codex, ex_claude}. rc_providerId c = Claude \<and> rc_capabilities c ''hardenedNoNetwork'' = Some True"
proof -
  have "\<exists>c\<in>set (rq_candidates (ex_request Application_field_map None)). rc_providerId c = Claude \<and>
          eligible_for (sc_requiredCapabilities (stageContract Application_field_map)) c"
    using routed_is_eligible [OF ex_route_field_map] by (auto simp: routedFrom_def ex_request_def ex_claude_def)
  then show ?thesis
    by (auto simp: ex_request_def eligible_for_def stageContract_def)
qed

text \<open>
  A substitution is never silent. A routed stage carries no fallback reason exactly when the
  caller's preference was honoured or, without a preference, when the pick is in the stage's
  first-choice tier.
\<close>

theorem fallback_never_silent:
  assumes "routeStage rq = Routed d"
  shows "rs_fallbackReason d = None \<longleftrightarrow>
           (case rq_preferred rq of
              Some p \<Rightarrow> routed_ref d = p
            | None \<Rightarrow> rs_tier d = hd (STAGE_TIER_PREFERENCE (sc_workload (stageContract (rq_stage rq)))))"
  using assms
proof (rule routeStage_from)
  fix c reason
  assume c: "c \<in> set (request_eligible rq)" and d: "d = routedFrom (rq_stage rq) c (request_rejected rq) reason"
    and hit: "\<And>p. rq_preferred rq = Some p \<Longrightarrow> reason = None \<Longrightarrow> candidate_ref c = p"
    and miss: "\<And>p. rq_preferred rq = Some p \<Longrightarrow> reason \<noteq> None \<Longrightarrow>
           request_best rq = Some c \<and> (\<forall>e\<in>set (request_eligible rq). candidate_ref e \<noteq> p)"
    and free: "rq_preferred rq = None \<Longrightarrow>
           reason = (if rc_tier c \<noteq> hd (STAGE_TIER_PREFERENCE (sc_workload (stageContract (rq_stage rq))))
                     then Some No_preferred_tier_available else None)"
  have ref: "routed_ref d = candidate_ref c" and tier: "rs_tier d = rc_tier c"
    and fb: "rs_fallbackReason d = reason"
    by (simp_all add: d routedFrom_def routed_ref_def candidate_ref_def)
  show ?thesis
  proof (cases "rq_preferred rq")
    case None
    with free tier fb show ?thesis by simp
  next
    case (Some p)
    with hit miss c ref fb show ?thesis by (cases reason) auto
  qed
qed

theorem fallback_never_silent_witness:
  "\<exists>d. routeStage (ex_request Application_field_map (Some (candidate_ref ex_codex))) = Routed d \<and>
       rs_fallbackReason d = Some Preferred_candidate_missing_capability \<and> routed_ref d \<noteq> candidate_ref ex_codex"
proof -
  let ?d = "routedFrom Application_field_map ex_claude
       [reject ex_codex Missing_capability (Some [''hardenedNoNetwork''])]
       (Some Preferred_candidate_missing_capability)"
  have r: "routeStage (ex_request Application_field_map (Some (candidate_ref ex_codex))) = Routed ?d"
    by (simp add: ex_routing_defs)
  from fallback_never_silent [OF r] have "routed_ref ?d \<noteq> candidate_ref ex_codex"
    by (simp add: ex_request_def routedFrom_def)
  with r show ?thesis by (intro exI [of _ ?d]) (simp add: routedFrom_def)
qed

text \<open>
  When the pick is the router's own (no preference, or one it could not honour), no eligible
  candidate is in a tier the stage would have preferred, and, if the caller asked for the cheaper
  candidate and every eligible price in that tier is known, none of them costs less.
\<close>

theorem router_pick_is_best:
  assumes "routeStage rq = Routed d" and "rq_preferred rq = None \<or> rs_fallbackReason d \<noteq> None"
  shows "\<exists>before after.
           STAGE_TIER_PREFERENCE (sc_workload (stageContract (rq_stage rq))) = before @ rs_tier d # after \<and>
           (\<forall>c\<in>set (request_eligible rq). rc_tier c \<notin> set before) \<and>
           (rq_preferCheaperWithinTier rq = Some True \<and>
            allPricesKnown (filter (\<lambda>c. rc_tier c = rs_tier d) (request_eligible rq)) \<longrightarrow>
            (\<forall>c\<in>set (request_eligible rq). rc_tier c = rs_tier d \<longrightarrow>
               totalKnownPrice (rs_price d) \<le> totalKnownPrice (rc_price c)))"
  using assms(1)
proof (rule routeStage_from)
  fix c reason
  assume d: "d = routedFrom (rq_stage rq) c (request_rejected rq) reason"
    and none: "rq_preferred rq = None \<Longrightarrow> request_best rq = Some c"
    and miss: "\<And>p. rq_preferred rq = Some p \<Longrightarrow> reason \<noteq> None \<Longrightarrow>
           request_best rq = Some c \<and> (\<forall>e\<in>set (request_eligible rq). candidate_ref e \<noteq> p)"
  have d': "rs_tier d = rc_tier c" "rs_price d = rc_price c" "rs_fallbackReason d = reason"
    by (simp_all add: d routedFrom_def)
  have best: "request_best rq = Some c"
    using assms(2) none miss d' by (cases "rq_preferred rq") auto
  from bestByTier_tier [OF best [unfolded request_best_def]] obtain before after where
    tiers: "STAGE_TIER_PREFERENCE (sc_workload (stageContract (rq_stage rq))) = before @ rc_tier c # after"
      "\<forall>e\<in>set (request_eligible rq). rc_tier e \<notin> set before"
    by blast
  have cheap: "totalKnownPrice (rc_price c) \<le> totalKnownPrice (rc_price e)"
    if "rq_preferCheaperWithinTier rq = Some True"
      "allPricesKnown (filter (\<lambda>e. rc_tier e = rc_tier c) (request_eligible rq))"
      "e \<in> set (request_eligible rq)" "rc_tier e = rc_tier c" for e
    using best that by (auto simp: request_best_def intro: bestByTier_cheapest)
  show ?thesis unfolding d'
    using tiers cheap by (intro exI [of _ before] exI [of _ after]) blast
qed

theorem router_pick_is_best_witness:
  "\<exists>before after. STAGE_TIER_PREFERENCE Grounded_document = before @ Tier_capable # after \<and>
     (\<forall>c\<in>{ex_codex, ex_claude}. rc_tier c \<notin> set before)"
proof -
  have r: "routeStage (ex_request Cv_tailoring None) = Routed (routedFrom Cv_tailoring ex_claude [] None)"
    by (simp add: ex_routing_defs)
  have "set (request_eligible (ex_request Cv_tailoring None)) = {ex_codex, ex_claude}"
    by (simp add: request_eligible_def ex_routing_defs)
  moreover have "rs_tier (routedFrom Cv_tailoring ex_claude [] None) = Tier_capable"
    "sc_workload (stageContract (rq_stage (ex_request Cv_tailoring None))) = Grounded_document"
    "rq_preferred (ex_request Cv_tailoring None) = None"
    by (simp_all add: routedFrom_def ex_claude_def stageContract_def ex_request_def)
  ultimately show ?thesis
    using router_pick_is_best [OF r] by metis
qed



end
