(* ===== verification/Stage_Escalation.thy ===== *)
theory Stage_Escalation
  imports Stage_Routing
begin

text \<open>
  The planner for a stage whose answer did not validate
  (\<^verbatim>\<open>packages/agent-runtime/src/policy/stage-routing/escalation.ts\<close>).

  \<open>planNextAttempt\<close> is the source's pure decision function. \<open>follow\<close> and \<open>consult\<close> describe a caller
  that does what each plan says and comes back with the next failure; over them the lemmas show that
  the planner is bounded: a fixed number of model attempts, one lookup, one tier change, and then a
  handoff to the user.
\<close>

section \<open>The planner\<close>

datatype StageFailureKind = Schema_invalid | Grounding_unverified | Missing_fact | Transport_error

datatype HandoffReason =
    Attempt_budget_exhausted | Schema_unrecoverable | Grounding_unrecoverable
  | No_capable_tier_available | Missing_facts_need_the_candidate

datatype EscalationPlan =
    Retry_same_model (retry_attempt: nat) (retry_failure: StageFailureKind)
  | Escalate_tier (escalate_attempt: nat) (toTier: ModelTier) (escalate_failure: StageFailureKind)
  | Retrieve_missing_facts (retrieve_missing: "string list")
  | Hand_off_to_user (handoff_reason: HandoffReason) (handoff_missing: "string list option")

record EscalationState =
  es_stage :: GenerationStage
  es_attemptsMade :: nat
  es_currentTier :: ModelTier
  es_capableTierAvailable :: bool
  es_retrievalAttempted :: bool

record StageFailure =
  sf_kind :: StageFailureKind
  sf_missing :: "string list option"

definition planNextAttempt :: "EscalationState \<Rightarrow> StageFailure \<Rightarrow> EscalationPlan" where
  "planNextAttempt state failure =
     (let contract = stageContract (es_stage state) in
      if sf_kind failure = Missing_fact then
        (let missing = (case sf_missing failure of Some m \<Rightarrow> m | None \<Rightarrow> []) in
         if sc_retrievalAvailable contract \<and> \<not> es_retrievalAttempted state \<and> length missing > 0
         then Retrieve_missing_facts missing
         else Hand_off_to_user Missing_facts_need_the_candidate
                (if length missing > 0 then Some missing else None))
      else if es_attemptsMade state \<ge> sc_maxAttempts contract then
        Hand_off_to_user Attempt_budget_exhausted None
      else
        (let nextAttempt = es_attemptsMade state + 1 in
         case sf_kind failure of
           Schema_invalid \<Rightarrow> Retry_same_model nextAttempt (sf_kind failure)
         | Grounding_unverified \<Rightarrow>
             if es_currentTier state = Tier_capable then Hand_off_to_user Grounding_unrecoverable None
             else if \<not> es_capableTierAvailable state then Hand_off_to_user No_capable_tier_available None
             else Escalate_tier nextAttempt Tier_capable (sf_kind failure)
         | Transport_error \<Rightarrow> Retry_same_model nextAttempt (sf_kind failure)
         | Missing_fact \<Rightarrow> Hand_off_to_user Schema_unrecoverable None))"


section \<open>A caller that follows the plans\<close>

text \<open>
  What a caller's state is after it carried out a plan; \<open>None\<close> once the user has the work. A lookup
  spends no attempt.
\<close>

fun follow :: "EscalationState \<Rightarrow> EscalationPlan \<Rightarrow> EscalationState option" where
  "follow st (Retry_same_model n k) = Some (st\<lparr>es_attemptsMade := n\<rparr>)"
| "follow st (Escalate_tier n t k) = Some (st\<lparr>es_attemptsMade := n, es_currentTier := t\<rparr>)"
| "follow st (Retrieve_missing_facts ms) = Some (st\<lparr>es_retrievalAttempted := True\<rparr>)"
| "follow st (Hand_off_to_user r ms) = None"

text \<open>
  The plans such a caller gets for a sequence of failures, each with what routing says about the
  capable tier at that moment. It ends with the failures or with a handoff.
\<close>

fun consult :: "EscalationState \<Rightarrow> (bool \<times> StageFailure) list \<Rightarrow> EscalationPlan list" where
  "consult st [] = []"
| "consult st ((capable, f) # fs) =
     (let st' = st\<lparr>es_capableTierAvailable := capable\<rparr>; plan = planNextAttempt st' f in
      case follow st' plan of
        None \<Rightarrow> [plan]
      | Some st'' \<Rightarrow> plan # consult st'' fs)"

fun is_generation :: "EscalationPlan \<Rightarrow> bool" where
  "is_generation (Retry_same_model _ _) = True"
| "is_generation (Escalate_tier _ _ _) = True"
| "is_generation _ = False"

fun is_escalation :: "EscalationPlan \<Rightarrow> bool" where
  "is_escalation (Escalate_tier _ _ _) = True"
| "is_escalation _ = False"

fun is_retrieval :: "EscalationPlan \<Rightarrow> bool" where
  "is_retrieval (Retrieve_missing_facts _) = True"
| "is_retrieval _ = False"

fun is_handoff :: "EscalationPlan \<Rightarrow> bool" where
  "is_handoff (Hand_off_to_user _ _) = True"
| "is_handoff _ = False"

abbreviation budget :: "EscalationState \<Rightarrow> nat" where
  "budget st \<equiv> sc_maxAttempts (stageContract (es_stage st)) - es_attemptsMade st"

text \<open>
  Counting the plans of one kind: a potential that no followed plan raises, and that a plan of the
  kind lowers, bounds their number.
\<close>

lemma follow_None: "follow st p = None \<longleftrightarrow> is_handoff p"
  by (cases p) auto

lemma consult_count:
  fixes pot :: "EscalationState \<Rightarrow> nat"
  assumes step: "\<And>st f st'. follow st (planNextAttempt st f) = Some st' \<Longrightarrow>
      pot st' + (if P (planNextAttempt st f) then 1 else 0) \<le> pot st"
    and cap: "\<And>st c. pot (st\<lparr>es_capableTierAvailable := c\<rparr>) = pot st"
    and handoff: "\<And>p. is_handoff p \<Longrightarrow> \<not> P p"
  shows "length (filter P (consult st fs)) \<le> pot st"
proof (induction st fs rule: consult.induct)
  case (1 st)
  show ?case by simp
next
  case (2 st c f fs)
  let ?st = "st\<lparr>es_capableTierAvailable := c\<rparr>"
  let ?p = "planNextAttempt ?st f"
  show ?case
  proof (cases "follow ?st ?p")
    case None
    then have "\<not> P ?p" using handoff by (simp add: follow_None)
    with None show ?thesis by (simp add: Let_def)
  next
    case (Some st')
    from step [OF Some] "2.IH" [OF refl refl Some] cap [where st = st and c = c] Some show ?thesis
      by (simp add: Let_def split: if_splits)
  qed
qed

lemmas plan_splits = if_splits StageFailureKind.splits option.splits

lemma consult_generations: "length (filter is_generation (consult st fs)) \<le> budget st"
proof (rule consult_count)
  show "follow st (planNextAttempt st f) = Some st' \<Longrightarrow>
      budget st' + (if is_generation (planNextAttempt st f) then 1 else 0) \<le> budget st" for st f st'
    by (auto simp: planNextAttempt_def Let_def split: plan_splits)
  show "is_handoff p \<Longrightarrow> \<not> is_generation p" for p by (cases p) auto
qed simp

lemma consult_escalations:
  "length (filter is_escalation (consult st fs)) \<le> (if es_currentTier st = Tier_capable then 0 else 1)"
proof (rule consult_count)
  show "follow st (planNextAttempt st f) = Some st' \<Longrightarrow>
      (if es_currentTier st' = Tier_capable then 0 else 1) + (if is_escalation (planNextAttempt st f) then 1 else 0)
        \<le> (if es_currentTier st = Tier_capable then 0 else 1 :: nat)" for st f st'
    by (auto simp: planNextAttempt_def Let_def split: plan_splits)
  show "is_handoff p \<Longrightarrow> \<not> is_escalation p" for p by (cases p) auto
qed simp

lemma consult_retrievals:
  "length (filter is_retrieval (consult st fs)) \<le> (if es_retrievalAttempted st then 0 else 1)"
proof (rule consult_count)
  show "follow st (planNextAttempt st f) = Some st' \<Longrightarrow>
      (if es_retrievalAttempted st' then 0 else 1) + (if is_retrieval (planNextAttempt st f) then 1 else 0)
        \<le> (if es_retrievalAttempted st then 0 else 1 :: nat)" for st f st'
    by (auto simp: planNextAttempt_def Let_def split: plan_splits)
  show "is_handoff p \<Longrightarrow> \<not> is_retrieval p" for p by (cases p) auto
qed simp

lemma consult_Nil: "consult st fs = [] \<longleftrightarrow> fs = []"
  by (cases "(st, fs)" rule: consult.cases) (auto simp: Let_def split: option.splits)

lemma consult_length: "length (consult st fs) < length fs \<Longrightarrow> is_handoff (last (consult st fs))"
proof (induction st fs rule: consult.induct)
  case (1 st)
  then show ?case by simp
next
  case (2 st c f fs)
  let ?st = "st\<lparr>es_capableTierAvailable := c\<rparr>"
  show ?case
  proof (cases "follow ?st (planNextAttempt ?st f)")
    case None
    then show ?thesis by (cases "planNextAttempt ?st f") (simp_all add: Let_def)
  next
    case (Some st')
    with "2.prems" have "length (consult st' fs) < length fs" by (simp add: Let_def)
    with "2.IH" [OF refl refl Some] Some show ?thesis by (auto simp: Let_def consult_Nil)
  qed
qed

lemma consult_no_early_handoff:
  "consult st fs = ps @ [p] \<Longrightarrow> \<forall>q\<in>set ps. \<not> is_handoff q"
proof (induction st fs arbitrary: ps rule: consult.induct)
  case (1 st)
  then show ?case by simp
next
  case (2 st c f fs)
  let ?st = "st\<lparr>es_capableTierAvailable := c\<rparr>"
  show ?case
  proof (cases "follow ?st (planNextAttempt ?st f)")
    case None
    with "2.prems" show ?thesis by (simp add: Let_def append_eq_Cons_conv)
  next
    case (Some st')
    then have nh: "\<not> is_handoff (planNextAttempt ?st f)" by (cases "planNextAttempt ?st f") auto
    from Some "2.prems" have eq: "planNextAttempt ?st f # consult st' fs = ps @ [p]" by (simp add: Let_def)
    show ?thesis
    proof (cases ps)
      case Nil
      then show ?thesis by simp
    next
      case (Cons q qs)
      with eq have "consult st' fs = qs @ [p]" "q = planNextAttempt ?st f" by simp_all
      with "2.IH" [OF refl refl Some] nh Cons show ?thesis by simp
    qed
  qed
qed

lemma kinds_length:
  "\<forall>q\<in>set ps. \<not> is_handoff q \<Longrightarrow>
     length ps = length (filter is_generation ps) + length (filter is_retrieval ps)"
proof (induction ps)
  case Nil
  show ?case by simp
next
  case (Cons p ps)
  then show ?case by (cases p) auto
qed


section \<open>The properties of the planner\<close>

text \<open>
  A missing fact is never answered by another model call: whatever the state, the plan is a
  lookup of exactly the named facts or a handoff that tells the user what is missing. It depends
  neither on the attempts made nor on the tiers, so the attempt ceiling does not come first for it.
\<close>

theorem missing_fact_never_generates:
  assumes "sf_kind f = Missing_fact"
  shows "((\<exists>ms. sf_missing f = Some ms \<and> ms \<noteq> [] \<and> planNextAttempt st f = Retrieve_missing_facts ms) \<or>
          (\<exists>missing. planNextAttempt st f = Hand_off_to_user Missing_facts_need_the_candidate missing)) \<and>
         planNextAttempt (st\<lparr>es_attemptsMade := n, es_currentTier := t, es_capableTierAvailable := c\<rparr>) f
           = planNextAttempt st f"
  using assms by (auto simp: planNextAttempt_def Let_def split: option.splits)

definition ex_escalation :: "nat \<Rightarrow> EscalationState" where
  "ex_escalation n = \<lparr>es_stage = Cv_tailoring, es_attemptsMade = n, es_currentTier = Tier_small,
     es_capableTierAvailable = True, es_retrievalAttempted = False\<rparr>"

theorem missing_fact_never_generates_witness:
  "planNextAttempt (ex_escalation 7) \<lparr>sf_kind = Missing_fact, sf_missing = Some [''notice period'']\<rparr>
     = Retrieve_missing_facts [''notice period'']"
proof -
  have "planNextAttempt ((ex_escalation 0)\<lparr>es_attemptsMade := 7, es_currentTier := Tier_small,
           es_capableTierAvailable := True\<rparr>) \<lparr>sf_kind = Missing_fact, sf_missing = Some [''notice period'']\<rparr>
        = planNextAttempt (ex_escalation 0) \<lparr>sf_kind = Missing_fact, sf_missing = Some [''notice period'']\<rparr>"
    by (rule missing_fact_never_generates [THEN conjunct2]) simp
  then show ?thesis by (simp add: ex_escalation_def planNextAttempt_def stageContract_def)
qed

text \<open>
  C31. The planner is bounded. A caller that follows it makes at most as many model attempts as the
  contract leaves, changes tier at most once and looks facts up at most once, and however many
  failures it reports, it is told to hand off to the user after at most two consultations more than
  the attempts it had left.
\<close>

theorem escalation_bounded:
  "length (filter is_generation (consult st fs)) \<le> budget st \<and>
   length (filter is_escalation (consult st fs)) \<le> 1 \<and>
   length (filter is_retrieval (consult st fs)) \<le> 1 \<and>
   length (consult st fs) \<le> budget st + 2 \<and>
   (budget st + 2 < length fs \<longrightarrow> is_handoff (last (consult st fs)))"
proof -
  have gens: "length (filter is_generation (consult st fs)) \<le> budget st"
    by (rule consult_generations)
  have retr: "length (filter is_retrieval (consult st fs)) \<le> 1"
    using consult_retrievals [of st fs] by (simp split: if_splits)
  have esc: "length (filter is_escalation (consult st fs)) \<le> 1"
    using consult_escalations [of st fs] by (simp split: if_splits)
  have len: "length (consult st fs) \<le> budget st + 2"
  proof (cases "consult st fs" rule: rev_cases)
    case Nil
    then show ?thesis by simp
  next
    case (snoc ps p)
    from kinds_length [OF consult_no_early_handoff [OF snoc]]
    have "length ps = length (filter is_generation ps) + length (filter is_retrieval ps)" .
    with gens retr snoc show ?thesis by simp
  qed
  with gens retr esc consult_length [of st fs] show ?thesis by simp
qed

theorem escalation_bounded_witness:
  "is_handoff (last (consult (ex_escalation 1)
     (replicate 4 (True, \<lparr>sf_kind = Grounding_unverified, sf_missing = None\<rparr>))))"
  using escalation_bounded [of "ex_escalation 1" "replicate 4 (True, \<lparr>sf_kind = Grounding_unverified, sf_missing = None\<rparr>)"]
  by (simp add: ex_escalation_def stageContract_def)

end
