(* ===== verification/Stage_Cache.thy ===== *)
theory Stage_Cache
  imports Stage_Routing
begin

text \<open>
  The cache of validated stage results (\<^verbatim>\<open>policy/stage-routing/cache.ts\<close>).

  The entries are the source's \<^verbatim>\<open>Map\<close> in insertion order. The key is the JSON text of the whole
  version tuple, so the first property is that two different tuples never share a key; the second
  is that after any sequence of operations the cache is exactly the abstract bounded recency list:
  the last \<open>capacity\<close> distinct tuples that were put, each with the last result put under it.
\<close>

section \<open>Results and keys\<close>

record StageCacheKeyParts =
  ck_stage :: GenerationStage
  ck_providerId :: string
  ck_model :: "string option"
  ck_sourceVersion :: string
  ck_profileVersion :: string
  ck_jobDescriptionVersion :: string
  ck_workflowVersion :: string
  ck_promptVersion :: string

record 'v ValidatedStageResult =
  vr_value :: 'v
  vr_validatedBy :: string

datatype cache_error = TypeError string | RangeError string

definition validatedStageResult :: "'v \<Rightarrow> string \<Rightarrow> cache_error + 'v ValidatedStageResult" where
  "validatedStageResult v validatedBy =
     (if length (js_trim validatedBy) = 0
      then Inl (TypeError ''a validated stage result must name the check that validated it'')
      else Inr \<lparr>vr_value = v, vr_validatedBy = validatedBy\<rparr>)"

definition stageCacheKey :: "StageCacheKeyParts \<Rightarrow> string" where
  "stageCacheKey parts =
     json_array
       [Some (stage_name (ck_stage parts)), Some (ck_providerId parts), ck_model parts,
        Some (ck_sourceVersion parts), Some (ck_profileVersion parts),
        Some (ck_jobDescriptionVersion parts), Some (ck_workflowVersion parts),
        Some (ck_promptVersion parts)]"


section \<open>The cache\<close>

definition DEFAULT_STAGE_CACHE_CAPACITY :: int where
  "DEFAULT_STAGE_CACHE_CAPACITY = 200"

record 'v stage_cache =
  cache_entries :: "(string, 'v ValidatedStageResult) jmap"
  cache_capacity :: nat

text \<open>The constructor; a capacity that is not an integer takes the same branch as one below 1.\<close>

definition new_cache :: "int \<Rightarrow> cache_error + 'v stage_cache" where
  "new_cache capacity =
     (if capacity < 1
      then Inl (RangeError ''ValidatedStageResultCache capacity must be a positive integer'')
      else Inr \<lparr>cache_entries = [], cache_capacity = nat capacity\<rparr>)"

definition cache_get :: "'v stage_cache \<Rightarrow> StageCacheKeyParts \<Rightarrow> 'v ValidatedStageResult option" where
  "cache_get c parts = jget (cache_entries c) (stageCacheKey parts)"

text \<open>The loop of \<^verbatim>\<open>put\<close> that drops the oldest key while there are too many.\<close>

function evict_oldest :: "nat \<Rightarrow> (string, 'w) jmap \<Rightarrow> (string, 'w) jmap" where
  "evict_oldest capacity entries =
     (if length entries > capacity
      then (case entries of
              [] \<Rightarrow> entries
            | (oldest, v) # rest \<Rightarrow> evict_oldest capacity (jdelete entries oldest))
      else entries)"
  by pat_completeness auto
termination
  by (relation "measure (\<lambda>(capacity, entries). length entries)") (auto simp: le_imp_less_Suc length_delete_le)

declare evict_oldest.simps [simp del]

definition cache_put :: "'v stage_cache \<Rightarrow> StageCacheKeyParts \<Rightarrow> 'v ValidatedStageResult \<Rightarrow> 'v stage_cache" where
  "cache_put c parts result =
     (let key = stageCacheKey parts;
          entries = jset (jdelete (cache_entries c) key) key result
      in c\<lparr>cache_entries := evict_oldest (cache_capacity c) entries\<rparr>)"

definition cache_size :: "'v stage_cache \<Rightarrow> nat" where
  "cache_size c = length (cache_entries c)"

definition cache_clear :: "'v stage_cache \<Rightarrow> 'v stage_cache" where
  "cache_clear c = c\<lparr>cache_entries := []\<rparr>"

datatype 'v cache_op = Cache_put StageCacheKeyParts "'v ValidatedStageResult" | Cache_clear

fun cache_step :: "'v stage_cache \<Rightarrow> 'v cache_op \<Rightarrow> 'v stage_cache" where
  "cache_step c (Cache_put parts result) = cache_put c parts result"
| "cache_step c Cache_clear = cache_clear c"


section \<open>The key\<close>

lemma stage_name_inject [simp]: "stage_name a = stage_name b \<longleftrightarrow> a = b"
  by (cases a; cases b) simp_all

lemma stageCacheKey_eq_iff: "stageCacheKey p = stageCacheKey q \<longleftrightarrow> p = q"
proof
  assume "stageCacheKey p = stageCacheKey q"
  from json_array_inject [OF _ this [unfolded stageCacheKey_def], simplified] show "p = q"
    by (cases p; cases q) simp
qed simp


section \<open>Eviction\<close>

lemma evict_oldest_eq: "jmap_ok m \<Longrightarrow> evict_oldest n m = keep_last n m"
proof (induction n m rule: evict_oldest.induct)
  case (1 n m)
  show ?case
  proof (cases "length m > n")
    case False
    then show ?thesis by (simp add: evict_oldest.simps [of n m] keep_last_id)
  next
    case True
    then obtain k v r where m: "m = (k, v) # r" by (cases m) auto
    with "1.prems" have del: "jdelete m k = r"
      by (simp add: jmap_ok_def jdelete_absent)
    with "1.prems" m have "jmap_ok r" by (simp add: jmap_ok_def)
    with "1.IH" [OF True m refl] del have "evict_oldest n r = keep_last n r" by simp
    moreover have "keep_last n m = keep_last n r"
      using True m by (simp add: keep_last_def Suc_diff_le)
    ultimately show ?thesis
      using True m del unfolding evict_oldest.simps [of n m] by simp
  qed
qed

definition cache_ok :: "'v stage_cache \<Rightarrow> bool" where
  "cache_ok c \<longleftrightarrow> jmap_ok (cache_entries c) \<and> length (cache_entries c) \<le> cache_capacity c \<and> 1 \<le> cache_capacity c"

lemma put_entries:
  "cache_ok c \<Longrightarrow> cache_entries (cache_put c parts r) =
     keep_last (cache_capacity c)
       (filter (\<lambda>(k, v). k \<noteq> stageCacheKey parts) (cache_entries c) @ [(stageCacheKey parts, r)])"
proof -
  assume ok: "cache_ok c"
  let ?k = "stageCacheKey parts"
  have del: "jdelete (cache_entries c) ?k = filter (\<lambda>(k, v). k \<noteq> ?k) (cache_entries c)"
    by (rule jdelete_filter)
  have "?k \<notin> fst ` set (jdelete (cache_entries c) ?k)" by (auto simp: set_jdelete)
  then have set: "jset (jdelete (cache_entries c) ?k) ?k r = jdelete (cache_entries c) ?k @ [(?k, r)]"
    by (rule jset_new)
  have "jmap_ok (jset (jdelete (cache_entries c) ?k) ?k r)" using ok by (simp add: cache_ok_def)
  then show ?thesis
    unfolding cache_put_def Let_def by (simp add: evict_oldest_eq) (simp add: set, simp add: del)
qed

lemma cache_ok_step: "cache_ok c \<Longrightarrow> cache_ok (cache_step c op)"
proof (cases op)
  case (Cache_put parts r)
  assume ok: "cache_ok c"
  have "jmap_ok (cache_entries (cache_put c parts r))"
  proof -
    have "distinct (map fst (filter (\<lambda>(k, v). k \<noteq> stageCacheKey parts) (cache_entries c) @ [(stageCacheKey parts, r)]))"
      using ok by (auto simp: cache_ok_def jmap_ok_def distinct_map_filter)
    then show ?thesis
      unfolding put_entries [OF ok] keep_last_def jmap_ok_def
      by (simp only: drop_map [symmetric] distinct_drop)
  qed
  then show ?thesis
    using ok Cache_put by (simp add: cache_ok_def put_entries) (simp add: cache_put_def Let_def)
qed (simp add: cache_ok_def cache_clear_def)

lemma new_cache_ok: "new_cache n = Inr c \<Longrightarrow> cache_ok c"
  by (auto simp: new_cache_def cache_ok_def split: if_splits)


section \<open>The abstract cache\<close>

text \<open>
  The specification keeps every tuple ever put since the last clear, most recently put last, with
  its last result, and forgets only what is not among the last \<open>capacity\<close>.
\<close>

fun recency :: "'v cache_op list \<Rightarrow> (StageCacheKeyParts \<times> 'v ValidatedStageResult) list" where
  "recency [] = []"
| "recency (Cache_clear # ops) = []"
| "recency (Cache_put parts r # ops) = filter (\<lambda>(p, v). p \<noteq> parts) (recency ops) @ [(parts, r)]"

text \<open>\<open>recency\<close> reads the operations latest first.\<close>

lemma distinct_recency: "distinct (map fst (recency ops))"
  by (induction ops rule: recency.induct) (auto simp: distinct_map_filter)

lemma keep_last_refilter:
  assumes dist: "distinct (map fst R)" and n: "1 \<le> n"
  shows "keep_last n (filter (\<lambda>(p, v). p \<noteq> k) (keep_last n R) @ [(k, r)]) =
         keep_last n (filter (\<lambda>(p, v). p \<noteq> k) R @ [(k, r)])"
proof (cases "length R \<le> n")
  case True
  then show ?thesis by (simp add: keep_last_id)
next
  case False
  define A B where "A = take (length R - n) R" and "B = keep_last n R"
  have R: "R = A @ B" by (simp add: A_def B_def keep_last_def)
  have lenB: "length B = n" using False by (simp add: B_def)
  let ?F = "filter (\<lambda>(p, v). p \<noteq> k)"
  have long: "n \<le> length (?F B @ [(k, r)])"
  proof -
    have "length (filter (\<lambda>(p, v). p = k) B) \<le> 1"
    proof -
      have "distinct (map fst (filter (\<lambda>(p, v). p = k) B))"
        using dist R by (simp add: distinct_map_filter)
      moreover have "set (map fst (filter (\<lambda>(p, v). p = k) B)) \<subseteq> {k}" by auto
      ultimately show ?thesis
        by (metis card.empty card_insert_disjoint card_mono distinct_card empty_iff finite.emptyI
            finite.insertI length_map One_nat_def)
    qed
    moreover have "length B = length (filter (\<lambda>(p, v). p = k) B) + length (?F B)"
      using sum_length_filter_compl [of "\<lambda>(p, v). p = k" B] by (simp add: case_prod_unfold)
    ultimately show ?thesis using lenB by simp
  qed
  have drop_front: "keep_last n (xs @ ys) = keep_last n ys" if "n \<le> length ys" for xs ys :: "('a \<times> 'b) list"
    using that by (simp add: keep_last_def)
  have "keep_last n (?F R @ [(k, r)]) = keep_last n (?F A @ (?F B @ [(k, r)]))"
    by (simp add: R)
  also have "\<dots> = keep_last n (?F B @ [(k, r)])"
    by (rule drop_front [OF long])
  finally show ?thesis by (simp add: B_def)
qed

abbreviation keyed :: "(StageCacheKeyParts \<times> 'w) list \<Rightarrow> (string \<times> 'w) list" where
  "keyed xs \<equiv> map (\<lambda>(p, v). (stageCacheKey p, v)) xs"

lemma keep_last_map: "keep_last n (map f xs) = map f (keep_last n xs)"
  by (simp add: keep_last_def drop_map)

lemma filter_keyed:
  "filter (\<lambda>(k, v). k \<noteq> stageCacheKey p) (keyed xs) = keyed (filter (\<lambda>(q, v). q \<noteq> p) xs)"
  by (induction xs) (auto simp: stageCacheKey_eq_iff)

lemma capacity_run: "cache_capacity (foldl cache_step c ops) = cache_capacity c"
proof (induction ops arbitrary: c)
  case (Cons op ops)
  then show ?case by (cases op) (simp_all add: cache_put_def cache_clear_def Let_def)
qed simp

lemma cache_refines_step:
  assumes ok: "cache_ok c" and abs: "cache_entries c = keyed (keep_last (cache_capacity c) (recency hist))"
  shows "cache_entries (cache_step c op) = keyed (keep_last (cache_capacity c) (recency (op # hist)))"
proof (cases op)
  case (Cache_put parts r)
  from ok have n: "1 \<le> cache_capacity c" by (simp add: cache_ok_def)
  have "cache_entries (cache_put c parts r) =
      keep_last (cache_capacity c)
        (keyed (filter (\<lambda>(q, v). q \<noteq> parts) (keep_last (cache_capacity c) (recency hist)) @ [(parts, r)]))"
    by (simp add: put_entries [OF ok] abs filter_keyed)
  also have "\<dots> = keyed (keep_last (cache_capacity c) (recency (op # hist)))"
    by (simp add: Cache_put keep_last_map keep_last_refilter [OF distinct_recency n] del: map_append)
  finally show ?thesis by (simp add: Cache_put)
qed (simp add: cache_clear_def keep_last_def)

definition empty_cache :: "nat \<Rightarrow> 'v stage_cache" where
  "empty_cache n = \<lparr>cache_entries = [], cache_capacity = Suc n\<rparr>"

lemma new_cache_empty: "new_cache n = Inr c \<Longrightarrow> c = empty_cache (nat n - 1)"
  by (auto simp: new_cache_def empty_cache_def split: if_splits)

interpretation cache: step_system "empty_cache n" cache_step cache_ok for n
proof
  show "cache_ok (empty_cache n)" by (simp add: empty_cache_def cache_ok_def)
qed (rule cache_ok_step)

lemma cache_refines:
  "cache_entries (foldl cache_step (empty_cache n) ops) = keyed (keep_last (Suc n) (recency (rev ops)))"
proof (induction ops rule: rev_induct)
  case Nil
  show ?case by (simp add: empty_cache_def keep_last_def)
next
  case (snoc op ops)
  have cap: "cache_capacity (foldl cache_step (empty_cache n) ops) = Suc n"
    by (simp add: capacity_run empty_cache_def)
  from cache_refines_step [OF cache.invar_reached, of n ops "rev ops" op] snoc show ?case
    by (simp add: cap)
qed

lemma jget_keyed: "distinct (map fst xs) \<Longrightarrow> jget (keyed xs) (stageCacheKey p) = map_of xs p"
  by (induction xs) (auto simp: stageCacheKey_eq_iff)

lemma distinct_keep_last: "distinct (map fst xs) \<Longrightarrow> distinct (map fst (keep_last n xs))"
  by (simp add: keep_last_def drop_map [symmetric])


section \<open>The properties of the cache\<close>

text \<open>
  The key is faithful: two lookups share a cache key only when every part of the version tuple
  is the same, whatever characters the parts contain. An absent model is a key of its own.
\<close>

theorem cache_key_faithful: "stageCacheKey p = stageCacheKey q \<longleftrightarrow> p = q"
  by (rule stageCacheKey_eq_iff)

text \<open>
  C32. After any sequence of puts and clears a lookup returns exactly what the abstract cache holds:
  the last result put under that very tuple since the last clear, if the tuple is among the last
  \<open>capacity\<close> distinct tuples put, and nothing otherwise; and the cache never exceeds its capacity.
\<close>

theorem cache_refines_recency:
  assumes "new_cache capacity = Inr c"
  shows "cache_get (foldl cache_step c ops) parts =
           map_of (keep_last (nat capacity) (recency (rev ops))) parts \<and>
         cache_size (foldl cache_step c ops) \<le> nat capacity"
proof -
  from assms have cap: "nat capacity = Suc (nat capacity - 1)"
    by (auto simp: new_cache_def split: if_splits)
  let ?n = "nat capacity - 1"
  have "cache_get (foldl cache_step (empty_cache ?n) ops) parts =
        map_of (keep_last (Suc ?n) (recency (rev ops))) parts"
    by (simp add: cache_get_def cache_refines jget_keyed distinct_keep_last distinct_recency)
  moreover have "cache_size (foldl cache_step (empty_cache ?n) ops) \<le> Suc ?n"
    by (simp add: cache_size_def cache_refines)
  ultimately show ?thesis
    using cap new_cache_empty [OF assms] by metis
qed

definition ex_parts :: "string \<Rightarrow> StageCacheKeyParts" where
  "ex_parts jd = \<lparr>ck_stage = Cover_letter, ck_providerId = ''claude'', ck_model = None,
     ck_sourceVersion = ''cv1'', ck_profileVersion = ''p1'', ck_jobDescriptionVersion = jd,
     ck_workflowVersion = ''w1'', ck_promptVersion = ''t1''\<rparr>"

definition ex_result :: "nat \<Rightarrow> nat ValidatedStageResult" where
  "ex_result n = \<lparr>vr_value = n, vr_validatedBy = ''schema''\<rparr>"

theorem cache_refines_recency_witness:
  "cache_get (foldl cache_step \<lparr>cache_entries = [], cache_capacity = 2\<rparr>
     [Cache_put (ex_parts ''a'') (ex_result 1), Cache_put (ex_parts ''b'') (ex_result 2),
      Cache_put (ex_parts ''a'') (ex_result 3), Cache_put (ex_parts ''c'') (ex_result 4)]) (ex_parts ''a'')
   = Some (ex_result 3)"
proof -
  have new: "new_cache 2 = Inr \<lparr>cache_entries = [], cache_capacity = 2\<rparr>"
    by (simp add: new_cache_def)
  show ?thesis
    unfolding cache_refines_recency [OF new, THEN conjunct1]
    by (simp add: ex_parts_def keep_last_def)
qed

end
