(* ===== verification/Stage_Telemetry.thy ===== *)
theory Stage_Telemetry
  imports Stage_Routing
begin

text \<open>
  What a routed stage did and what it cost (\<^verbatim>\<open>policy/stage-routing/telemetry.ts\<close>): the cost of one
  run, the record built from a finished run, and the bounded in-memory ledger of records. Token
  counts and dollars are rational numbers, instants are integers (milliseconds).
\<close>

section \<open>Usage and cost\<close>

record StageUsageMetrics =
  um_inputTokens :: "rat option"
  um_outputTokens :: "rat option"
  um_totalTokens :: "rat option"

datatype UsageUnavailableReason = Capability_absent | Provider_reported_none

datatype StageUsage =
    Usage_reported (usage_metrics: StageUsageMetrics)
  | Usage_unavailable (usage_reason: UsageUnavailableReason)

definition USAGE_CAPABILITY_ABSENT :: StageUsage where
  "USAGE_CAPABILITY_ABSENT = Usage_unavailable Capability_absent"

definition USAGE_NOT_REPORTED :: StageUsage where
  "USAGE_NOT_REPORTED = Usage_unavailable Provider_reported_none"

datatype CostUnknownReason = Price_is_unknown | Usage_is_unavailable | Token_counts_incomplete

datatype StageCost =
    Cost_measured (cost_usd: rat) (cost_priceSource: string)
  | Cost_unknown (cost_reason: CostUnknownReason)

datatype StageRunOutcome = Validated | Schema_rejected | Grounding_rejected | Run_failed | Handed_off

record StageRoutingRecord =
  rr_stage :: GenerationStage
  rr_providerId :: string
  rr_model :: "string option"
  rr_tier :: ModelTier
  rr_tierEvidence :: TierEvidence
  rr_fallbackReason :: "StageFallbackReason option"
  rr_attempt :: nat
  rr_outcome :: StageRunOutcome
  rr_startedAt :: int
  rr_finishedAt :: int
  rr_durationMs :: int
  rr_usage :: StageUsage
  rr_cost :: StageCost

record StageRunFacts =
  rf_stage :: GenerationStage
  rf_providerId :: string
  rf_model :: "string option"
  rf_tier :: ModelTier
  rf_tierEvidence :: TierEvidence
  rf_fallbackReason :: "StageFallbackReason option"
  rf_attempt :: nat
  rf_outcome :: StageRunOutcome
  rf_startedAt :: int
  rf_finishedAt :: int
  rf_usage :: StageUsage
  rf_price :: CandidatePrice

fun computeStageCost :: "CandidatePrice \<Rightarrow> StageUsage \<Rightarrow> StageCost" where
  "computeStageCost (Price_unknown _) usage = Cost_unknown Price_is_unknown"
| "computeStageCost (Price_known input output src) (Usage_unavailable _) = Cost_unknown Usage_is_unavailable"
| "computeStageCost (Price_known input output src) (Usage_reported metrics) =
     (case (um_inputTokens metrics, um_outputTokens metrics) of
        (Some inputTokens, Some outputTokens) \<Rightarrow>
          Cost_measured ((inputTokens / 1000000) * input + (outputTokens / 1000000) * output) src
      | _ \<Rightarrow> Cost_unknown Token_counts_incomplete)"

definition recordStageRun :: "StageRunFacts \<Rightarrow> StageRoutingRecord" where
  "recordStageRun facts =
     \<lparr>rr_stage = rf_stage facts, rr_providerId = rf_providerId facts, rr_model = rf_model facts,
      rr_tier = rf_tier facts, rr_tierEvidence = rf_tierEvidence facts,
      rr_fallbackReason = rf_fallbackReason facts, rr_attempt = rf_attempt facts,
      rr_outcome = rf_outcome facts, rr_startedAt = rf_startedAt facts,
      rr_finishedAt = rf_finishedAt facts,
      rr_durationMs = max 0 (rf_finishedAt facts - rf_startedAt facts),
      rr_usage = rf_usage facts, rr_cost = computeStageCost (rf_price facts) (rf_usage facts)\<rparr>"


section \<open>The ledger\<close>

definition DEFAULT_LEDGER_CAPACITY :: int where
  "DEFAULT_LEDGER_CAPACITY = 500"

record StageRoutingLedger =
  lg_records :: "StageRoutingRecord list"
  lg_capacity :: nat

definition new_ledger :: "int \<Rightarrow> string + StageRoutingLedger" where
  "new_ledger capacity =
     (if capacity < 1 then Inl ''StageRoutingLedger capacity must be a positive integer''
      else Inr \<lparr>lg_records = [], lg_capacity = nat capacity\<rparr>)"

text \<open>\<^verbatim>\<open>push\<close>, then \<^verbatim>\<open>splice(0, length - capacity)\<close> when there are too many.\<close>

definition ledger_push :: "StageRoutingLedger \<Rightarrow> StageRoutingRecord \<Rightarrow> StageRoutingLedger" where
  "ledger_push l entry =
     (let records = lg_records l @ [entry] in
      l\<lparr>lg_records := (if length records > lg_capacity l
                       then drop (length records - lg_capacity l) records else records)\<rparr>)"

definition ledger_record :: "StageRoutingLedger \<Rightarrow> StageRunFacts \<Rightarrow> StageRoutingRecord \<times> StageRoutingLedger" where
  "ledger_record l facts = (let entry = recordStageRun facts in (entry, ledger_push l entry))"

definition ledger_all :: "StageRoutingLedger \<Rightarrow> StageRoutingRecord list" where
  "ledger_all l = lg_records l"

definition ledger_forStage :: "StageRoutingLedger \<Rightarrow> GenerationStage \<Rightarrow> StageRoutingRecord list" where
  "ledger_forStage l stage = filter (\<lambda>entry. rr_stage entry = stage) (lg_records l)"

definition ledger_clear :: "StageRoutingLedger \<Rightarrow> StageRoutingLedger" where
  "ledger_clear l = l\<lparr>lg_records := []\<rparr>"

interpretation ledger: bounded_log lg_records ledger_push lg_capacity
  by unfold_locales (auto simp: ledger_push_def Let_def keep_last_def)

definition ledger_run :: "StageRoutingLedger \<Rightarrow> StageRunFacts list \<Rightarrow> StageRoutingLedger" where
  "ledger_run l fs = foldl (\<lambda>l f. snd (ledger_record l f)) l fs"

lemma ledger_run_push: "ledger_run l fs = foldl ledger_push l (map recordStageRun fs)"
  by (induction fs arbitrary: l) (simp_all add: ledger_run_def ledger_record_def Let_def)

lemma computeStageCost_measured:
  "computeStageCost price usage = Cost_measured usd src \<longleftrightarrow>
     (\<exists>i out it ot tt. price = Price_known i out src \<and>
        usage = Usage_reported \<lparr>um_inputTokens = Some it, um_outputTokens = Some ot, um_totalTokens = tt\<rparr> \<and>
        usd = it / 1000000 * i + ot / 1000000 * out)"
proof (cases "(price, usage)" rule: computeStageCost.cases)
  case (3 i out s m)
  then show ?thesis
    by (cases m) (auto split: option.splits)
qed auto


section \<open>The properties of the telemetry\<close>

text \<open>
  No cost is ever invented: a run has a measured cost exactly when its price is known and both
  token counts were reported, and then the cost is what those four numbers give and names the
  price's own source. In every other case the cost is unknown.
\<close>

theorem cost_only_when_measured:
  "rr_cost (recordStageRun f) = Cost_measured usd src \<longleftrightarrow>
     (\<exists>i out it ot tt. rf_price f = Price_known i out src \<and>
        rf_usage f = Usage_reported \<lparr>um_inputTokens = Some it, um_outputTokens = Some ot, um_totalTokens = tt\<rparr> \<and>
        usd = it / 1000000 * i + ot / 1000000 * out)"
  by (simp add: recordStageRun_def computeStageCost_measured)

text \<open>
  The ledger is a faithful bounded window: after any sequence of finished runs it holds, in
  order, exactly the records of the last \<open>capacity\<close> of them.
\<close>

theorem ledger_keeps_last_runs:
  assumes "new_ledger capacity = Inr l"
  shows "ledger_all (ledger_run l fs) = keep_last (nat capacity) (map recordStageRun fs)"
proof -
  from assms have "lg_records l = []" and "lg_capacity l = nat capacity"
    by (auto simp: new_ledger_def split: if_splits)
  then show ?thesis
    using ledger.contents_pushes [of l "map recordStageRun fs"]
    by (simp add: ledger_all_def ledger_run_push)
qed

definition ex_facts :: "int \<Rightarrow> StageRunFacts" where
  "ex_facts t = \<lparr>rf_stage = Cover_letter, rf_providerId = ''claude'', rf_model = None,
     rf_tier = Tier_capable, rf_tierEvidence = Operator_declared, rf_fallbackReason = None,
     rf_attempt = 1, rf_outcome = Validated, rf_startedAt = t, rf_finishedAt = t + 5,
     rf_usage = USAGE_NOT_REPORTED, rf_price = PRICE_NOT_PUBLISHED\<rparr>"

theorem ledger_keeps_last_runs_witness:
  "map rr_startedAt (ledger_all (ledger_run \<lparr>lg_records = [], lg_capacity = 2\<rparr> (map ex_facts [10, 20, 30])))
     = [20, 30]"
proof -
  have new: "new_ledger 2 = Inr \<lparr>lg_records = [], lg_capacity = 2\<rparr>" by (simp add: new_ledger_def)
  show ?thesis
    unfolding ledger_keeps_last_runs [OF new]
    by (simp add: keep_last_def recordStageRun_def ex_facts_def)
qed

end
