(* ===== verification/Stage_Benchmark.thy ===== *)
theory Stage_Benchmark
  imports Stage_Telemetry "HOL-Library.Multiset"
begin

text \<open>
  The fixture benchmark of candidate pairings (\<^verbatim>\<open>policy/stage-routing/benchmark.ts\<close>): rolling
  observations up per candidate, comparing costs, ranking. The lemmas show that no observation of a
  known case is lost or counted twice, that a cost comparison is only made between totals measured
  over the same number of cases, and that a ranking is a sorted rearrangement of all candidates.
\<close>

section \<open>Data\<close>

datatype Rate =
    Rate_measured (rate_value: rat) (rate_sampleSize: nat)
  | Rate_insufficient (rate_sampleSize: nat)
  | Rate_not_applicable

record BenchmarkFixtureCase =
  fc_id :: string
  fc_stage :: GenerationStage
  fc_expectedFacts :: "string list"
  fc_forbiddenFacts :: "string list"
  fc_requiredProjects :: "string list"

text \<open>\<open>ob_formMapValid = None\<close> is the source's \<^verbatim>\<open>not_applicable\<close>.\<close>

record BenchmarkObservation =
  ob_caseId :: string
  ob_candidate :: CandidateRef
  ob_price :: CandidatePrice
  ob_producedFacts :: "string list"
  ob_preservedProjects :: "string list"
  ob_formMapValid :: "bool option"
  ob_humanCorrections :: rat
  ob_latencyMs :: rat
  ob_usage :: StageUsage

datatype TotalCost = Total_measured (total_usd: rat) | Total_unknown (total_reason: CostUnknownReason)

record BenchmarkCandidateSummary =
  bs_candidate :: CandidateRef
  bs_label :: string
  bs_cases :: nat
  bs_factualConsistency :: Rate
  bs_requiredProjectPreservation :: Rate
  bs_formMapValidity :: Rate
  bs_humanCorrectionsPerCase :: Rate
  bs_medianLatencyMs :: "rat option"
  bs_totalCost :: TotalCost

record BenchmarkReport =
  br_fixtureSet :: string
  br_candidates :: "BenchmarkCandidateSummary list"

definition MINIMUM_BENCHMARK_SAMPLE :: nat where
  "MINIMUM_BENCHMARK_SAMPLE = 3"


section \<open>Rates, medians, sets of facts\<close>

definition rate :: "nat \<Rightarrow> nat \<Rightarrow> Rate" where
  "rate passes sampleSize =
     (if sampleSize = 0 then Rate_not_applicable
      else if sampleSize < MINIMUM_BENCHMARK_SAMPLE then Rate_insufficient sampleSize
      else Rate_measured (of_nat passes / of_nat sampleSize) sampleSize)"

definition median :: "rat list \<Rightarrow> rat option" where
  "median values =
     (if values = [] then None
      else
        (let sorted = sort values; middle = length sorted div 2 in
         if length sorted mod 2 = 1 then Some (sorted ! middle)
         else Some ((sorted ! (middle - 1) + sorted ! middle) / 2)))"

definition normalized :: "string \<Rightarrow> string" where
  "normalized entry = js_to_lower (js_trim entry)"

definition containsAll :: "string list \<Rightarrow> string list \<Rightarrow> bool" where
  "containsAll haystack needles =
     (let present = map normalized haystack in list_all (\<lambda>n. normalized n \<in> set present) needles)"

definition containsNone :: "string list \<Rightarrow> string list \<Rightarrow> bool" where
  "containsNone haystack needles =
     (let present = map normalized haystack in list_all (\<lambda>n. normalized n \<notin> set present) needles)"


section \<open>Rolling observations up\<close>

text \<open>\<^verbatim>\<open>new Map(cases.map(...))\<close>: of two cases with one id the later wins.\<close>

definition case_index :: "BenchmarkFixtureCase list \<Rightarrow> (string, BenchmarkFixtureCase) jmap" where
  "case_index cases = foldl (\<lambda>m c. jset m (fc_id c) c) [] cases"

fun add_observation ::
  "(CandidateRef \<times> BenchmarkObservation list) list \<Rightarrow> BenchmarkObservation
     \<Rightarrow> (CandidateRef \<times> BenchmarkObservation list) list" where
  "add_observation [] ob = [(ob_candidate ob, [ob])]"
| "add_observation ((candidate, rows) # bs) ob =
     (if sameCandidate candidate (ob_candidate ob) then (candidate, rows @ [ob]) # bs
      else (candidate, rows) # add_observation bs ob)"

definition bucket_observations ::
  "(string, BenchmarkFixtureCase) jmap \<Rightarrow> BenchmarkObservation list
     \<Rightarrow> (CandidateRef \<times> BenchmarkObservation list) list" where
  "bucket_observations caseById observations =
     foldl (\<lambda>bs ob. if jhas caseById (ob_caseId ob) then add_observation bs ob else bs) [] observations"

record row_tally =
  rt_factual :: nat
  rt_preserved :: nat
  rt_formMapCases :: nat
  rt_formMapValid :: nat
  rt_corrections :: rat
  rt_costUsd :: rat
  rt_costUnknownReason :: "CostUnknownReason option"
  rt_latencies :: "rat list"

definition empty_tally :: row_tally where
  "empty_tally = \<lparr>rt_factual = 0, rt_preserved = 0, rt_formMapCases = 0, rt_formMapValid = 0,
     rt_corrections = 0, rt_costUsd = 0, rt_costUnknownReason = None, rt_latencies = []\<rparr>"

definition tally_row ::
  "(string, BenchmarkFixtureCase) jmap \<Rightarrow> row_tally \<Rightarrow> BenchmarkObservation \<Rightarrow> row_tally" where
  "tally_row caseById t row =
     (case jget caseById (ob_caseId row) of
        None \<Rightarrow> t
      | Some fixture \<Rightarrow>
          (let t1 = (if containsAll (ob_producedFacts row) (fc_expectedFacts fixture) \<and>
                        containsNone (ob_producedFacts row) (fc_forbiddenFacts fixture)
                     then t\<lparr>rt_factual := rt_factual t + 1\<rparr> else t);
               t2 = (if containsAll (ob_preservedProjects row) (fc_requiredProjects fixture)
                     then t1\<lparr>rt_preserved := rt_preserved t1 + 1\<rparr> else t1);
               t3 = (case ob_formMapValid row of
                       None \<Rightarrow> t2
                     | Some valid \<Rightarrow>
                         t2\<lparr>rt_formMapCases := rt_formMapCases t2 + 1,
                            rt_formMapValid := rt_formMapValid t2 + (if valid then 1 else 0)\<rparr>);
               t4 = t3\<lparr>rt_corrections := rt_corrections t3 + ob_humanCorrections row,
                       rt_latencies := rt_latencies t3 @ [ob_latencyMs row]\<rparr>
           in case computeStageCost (ob_price row) (ob_usage row) of
                Cost_measured usd src \<Rightarrow> t4\<lparr>rt_costUsd := rt_costUsd t4 + usd\<rparr>
              | Cost_unknown reason \<Rightarrow>
                  t4\<lparr>rt_costUnknownReason :=
                       (case rt_costUnknownReason t4 of Some r \<Rightarrow> Some r | None \<Rightarrow> Some reason)\<rparr>))"

definition summarize_bucket ::
  "(string, BenchmarkFixtureCase) jmap \<Rightarrow> CandidateRef \<times> BenchmarkObservation list
     \<Rightarrow> BenchmarkCandidateSummary" where
  "summarize_bucket caseById bucket =
     (let (candidate, rows) = bucket;
          t = foldl (tally_row caseById) empty_tally rows;
          sampleSize = length rows
      in \<lparr>bs_candidate = candidate, bs_label = describeCandidate candidate, bs_cases = sampleSize,
          bs_factualConsistency = rate (rt_factual t) sampleSize,
          bs_requiredProjectPreservation = rate (rt_preserved t) sampleSize,
          bs_formMapValidity = rate (rt_formMapValid t) (rt_formMapCases t),
          bs_humanCorrectionsPerCase =
            (if sampleSize \<ge> MINIMUM_BENCHMARK_SAMPLE
             then Rate_measured (rt_corrections t / of_nat sampleSize) sampleSize
             else Rate_insufficient sampleSize),
          bs_medianLatencyMs = median (rt_latencies t),
          bs_totalCost =
            (case rt_costUnknownReason t of
               None \<Rightarrow> Total_measured (rt_costUsd t)
             | Some reason \<Rightarrow> Total_unknown reason)\<rparr>)"

definition summarizeBenchmark ::
  "string \<Rightarrow> BenchmarkFixtureCase list \<Rightarrow> BenchmarkObservation list \<Rightarrow> BenchmarkReport" where
  "summarizeBenchmark fixtureSet cases observations =
     (let caseById = case_index cases in
      \<lparr>br_fixtureSet = fixtureSet,
       br_candidates = map (summarize_bucket caseById) (bucket_observations caseById observations)\<rparr>)"


section \<open>Comparing and ranking\<close>

datatype ComparisonUnavailable = Cost_is_unknown | Unequal_fixture_coverage | Insufficient_evidence

datatype CostComparison =
    Comparison_measured (cmp_cheaper: CandidateRef) (cmp_cheaperUsd: rat) (cmp_dearerUsd: rat)
      (cmp_savingsFraction: rat) (cmp_sampleSize: nat)
  | Comparison_unavailable (cmp_reason: ComparisonUnavailable)

fun total_or_zero :: "TotalCost \<Rightarrow> rat" where
  "total_or_zero (Total_measured usd) = usd"
| "total_or_zero (Total_unknown r) = 0"

definition compareCost ::
  "BenchmarkCandidateSummary \<Rightarrow> BenchmarkCandidateSummary \<Rightarrow> CostComparison" where
  "compareCost a b =
     (case (bs_totalCost a, bs_totalCost b) of
        (Total_measured aUsd, Total_measured bUsd) \<Rightarrow>
          if bs_cases a \<noteq> bs_cases b then Comparison_unavailable Unequal_fixture_coverage
          else if bs_cases a < MINIMUM_BENCHMARK_SAMPLE then Comparison_unavailable Insufficient_evidence
          else
            (let (cheap, dear) = (if aUsd \<le> bUsd then (a, b) else (b, a));
                 cheaperUsd = total_or_zero (bs_totalCost cheap);
                 dearerUsd = total_or_zero (bs_totalCost dear)
             in Comparison_measured (bs_candidate cheap) cheaperUsd dearerUsd
                  (if dearerUsd = 0 then 0 else (dearerUsd - cheaperUsd) / dearerUsd) (bs_cases a))
      | _ \<Rightarrow> Comparison_unavailable Cost_is_unknown)"

text \<open>\<^verbatim>\<open>toFixed(1)\<close>: the nearest tenth, the larger of two equally near ones.\<close>

definition to_fixed1 :: "rat \<Rightarrow> string" where
  "to_fixed1 x =
     (let tenths = (\<lambda>y. nat \<lfloor>y * 10 + 1 / 2\<rfloor>);
          print = (\<lambda>n. show_nat (n div 10) @ ''.'' @ show_nat (n mod 10))
      in if x < 0 then ''-'' @ print (tenths (- x)) else print (tenths x))"

definition formatCostComparison :: "CostComparison \<Rightarrow> string" where
  "formatCostComparison comparison =
     (case comparison of
        Comparison_unavailable reason \<Rightarrow>
          (case reason of
             Cost_is_unknown \<Rightarrow>
               ''cost comparison unavailable: price or usage data is unknown for at least one candidate''
           | Unequal_fixture_coverage \<Rightarrow>
               ''cost comparison unavailable: the candidates were not measured over the same fixture cases''
           | Insufficient_evidence \<Rightarrow>
               ''cost comparison unavailable: fewer than '' @ show_nat MINIMUM_BENCHMARK_SAMPLE @ '' measured cases'')
      | Comparison_measured cheaper cheaperUsd dearerUsd savingsFraction sampleSize \<Rightarrow>
          describeCandidate cheaper @ '' cost '' @ to_fixed1 (savingsFraction * 100) @ ''% less over '' @
          show_nat sampleSize @ '' measured fixture cases'')"

datatype QualityRanking =
    Ranked (ranked_order: "BenchmarkCandidateSummary list") (ranked_sampleSize: nat)
  | Ranking_insufficient (ranking_reason: string)

definition is_measured :: "Rate \<Rightarrow> bool" where
  "is_measured r = (case r of Rate_measured _ _ \<Rightarrow> True | _ \<Rightarrow> False)"

definition scoreOf :: "BenchmarkCandidateSummary \<Rightarrow> rat" where
  "scoreOf summary = (case bs_factualConsistency summary of Rate_measured v _ \<Rightarrow> v | _ \<Rightarrow> -1)"

definition rankByFactualConsistency :: "BenchmarkReport \<Rightarrow> QualityRanking" where
  "rankByFactualConsistency report =
     (if length (br_candidates report) < 2 then
        Ranking_insufficient ''a ranking needs at least two measured candidates''
      else if length (remdups (map bs_cases (br_candidates report))) \<noteq> 1 then
        Ranking_insufficient ''the candidates were not measured over the same number of cases''
      else if \<not> list_all (\<lambda>e. is_measured (bs_factualConsistency e)) (br_candidates report) then
        Ranking_insufficient (''every candidate needs at least '' @ show_nat MINIMUM_BENCHMARK_SAMPLE @ '' measured cases'')
      else
        Ranked (sort_key (\<lambda>e. - scoreOf e) (br_candidates report))
          (case br_candidates report of [] \<Rightarrow> 0 | e # _ \<Rightarrow> bs_cases e))"


section \<open>Buckets\<close>

lemma add_observation_refs:
  "map fst (add_observation bs ob) =
     (if ob_candidate ob \<in> set (map fst bs) then map fst bs else map fst bs @ [ob_candidate ob])"
  by (induction bs ob rule: add_observation.induct) (auto simp: sameCandidate_iff)

lemma add_observation_rows:
  "distinct (map fst bs) \<Longrightarrow>
     (case map_of (add_observation bs ob) c of Some rows \<Rightarrow> rows | None \<Rightarrow> []) =
     (case map_of bs c of Some rows \<Rightarrow> rows | None \<Rightarrow> []) @ (if c = ob_candidate ob then [ob] else [])"
proof (induction bs ob rule: add_observation.induct)
  case (1 ob)
  show ?case by simp
next
  case (2 c' rows bs ob)
  show ?case
  proof (cases "c' = ob_candidate ob")
    case True
    then show ?thesis by (auto simp: sameCandidate_iff)
  next
    case False
    with 2 show ?thesis by (auto simp: sameCandidate_iff)
  qed
qed

definition rows_of :: "(CandidateRef \<times> BenchmarkObservation list) list \<Rightarrow> CandidateRef \<Rightarrow> BenchmarkObservation list" where
  "rows_of bs c = (case map_of bs c of Some rows \<Rightarrow> rows | None \<Rightarrow> [])"

lemma bucket_fold:
  fixes known :: "BenchmarkObservation \<Rightarrow> bool"
  defines "step \<equiv> \<lambda>bs ob. if known ob then add_observation bs ob else bs"
  shows "distinct (map fst bs) \<Longrightarrow>
     distinct (map fst (foldl step bs obs)) \<and>
     rows_of (foldl step bs obs) c = rows_of bs c @ filter (\<lambda>ob. known ob \<and> ob_candidate ob = c) obs \<and>
     set (map fst (foldl step bs obs)) = set (map fst bs) \<union> ob_candidate ` {ob \<in> set obs. known ob}"
proof (induction obs arbitrary: bs)
  case Nil
  then show ?case by simp
next
  case (Cons ob obs)
  have d: "distinct (map fst (step bs ob))"
    using Cons.prems by (auto simp: step_def add_observation_refs)
  have r: "rows_of (step bs ob) c = rows_of bs c @ (if known ob \<and> ob_candidate ob = c then [ob] else [])"
    using add_observation_rows [OF Cons.prems, of ob c] by (auto simp: step_def rows_of_def)
  have s: "set (map fst (step bs ob)) = set (map fst bs) \<union> (if known ob then {ob_candidate ob} else {})"
    unfolding step_def by (auto simp only: add_observation_refs set_append set_simps split: if_splits)
  from Cons.IH [OF d] r s show ?case by auto
qed

lemma bucket_observations_spec:
  "distinct (map fst (bucket_observations m obs)) \<and>
   ((c, rows) \<in> set (bucket_observations m obs) \<longrightarrow>
      rows = filter (\<lambda>ob. jhas m (ob_caseId ob) \<and> ob_candidate ob = c) obs) \<and>
   set (map fst (bucket_observations m obs)) = ob_candidate ` {ob \<in> set obs. jhas m (ob_caseId ob)}"
proof -
  let ?bs = "bucket_observations m obs"
  have spec: "distinct (map fst ?bs)"
    "rows_of ?bs c = filter (\<lambda>ob. jhas m (ob_caseId ob) \<and> ob_candidate ob = c) obs"
    "set (map fst ?bs) = ob_candidate ` {ob \<in> set obs. jhas m (ob_caseId ob)}"
    using bucket_fold [of "[]" "\<lambda>ob. jhas m (ob_caseId ob)" obs c]
    by (simp_all add: bucket_observations_def rows_of_def)
  then show ?thesis by (auto simp: rows_of_def)
qed

lemma compareCost_cases:
  "compareCost a b = Comparison_measured r cu du sf n \<Longrightarrow>
     \<exists>au bu. bs_totalCost a = Total_measured au \<and> bs_totalCost b = Total_measured bu \<and>
       n = bs_cases a \<and> bs_cases a = bs_cases b \<and> MINIMUM_BENCHMARK_SAMPLE \<le> n \<and>
       cu = min au bu \<and> du = max au bu \<and>
       r = (if au \<le> bu then bs_candidate a else bs_candidate b) \<and>
       sf = (if du = 0 then 0 else (du - cu) / du)"
  by (auto simp: compareCost_def Let_def not_less split: TotalCost.splits if_splits prod.splits)


section \<open>The properties of the benchmark\<close>

text \<open>
  Rolling up loses and duplicates nothing: each candidate that an observation of a known case
  names has exactly one summary, and that summary counts exactly its observations of known cases.
\<close>

theorem summaries_partition_observations:
  "distinct (map bs_candidate (br_candidates (summarizeBenchmark fs cases obs))) \<and>
   set (map bs_candidate (br_candidates (summarizeBenchmark fs cases obs))) =
     ob_candidate ` {ob \<in> set obs. jhas (case_index cases) (ob_caseId ob)} \<and>
   map bs_cases (br_candidates (summarizeBenchmark fs cases obs)) =
     map (\<lambda>s. length (filter (\<lambda>ob. jhas (case_index cases) (ob_caseId ob) \<and> ob_candidate ob = bs_candidate s) obs))
       (br_candidates (summarizeBenchmark fs cases obs))"
proof -
  let ?m = "case_index cases" and ?bs = "bucket_observations (case_index cases) obs"
  have cand: "map bs_candidate (br_candidates (summarizeBenchmark fs cases obs)) = map fst ?bs"
    by (simp add: summarizeBenchmark_def Let_def summarize_bucket_def comp_def case_prod_unfold)
  have "bs_cases s = length (filter (\<lambda>ob. jhas ?m (ob_caseId ob) \<and> ob_candidate ob = bs_candidate s) obs)"
    if s: "s \<in> set (br_candidates (summarizeBenchmark fs cases obs))" for s
  proof -
    from s obtain c rows where "(c, rows) \<in> set ?bs" "s = summarize_bucket ?m (c, rows)"
      by (auto simp: summarizeBenchmark_def Let_def)
    with bucket_observations_spec [of ?m obs c rows] show ?thesis
      by (simp add: summarize_bucket_def Let_def)
  qed
  with cand bucket_observations_spec [of ?m obs] show ?thesis by auto
qed

text \<open>
  A saving is only ever quoted from comparable measurements: both totals are measured, over the
  same number of cases, at least the minimum sample; the named candidate has the smaller total, and
  for nonnegative totals the quoted fraction lies between 0 and 1.
\<close>

theorem cost_comparison_sound:
  assumes "compareCost a b = Comparison_measured r cu du sf n"
  shows "\<exists>au bu. bs_totalCost a = Total_measured au \<and> bs_totalCost b = Total_measured bu \<and>
           bs_cases a = n \<and> bs_cases b = n \<and> MINIMUM_BENCHMARK_SAMPLE \<le> n \<and>
           cu = min au bu \<and> du = max au bu \<and>
           r = (if au \<le> bu then bs_candidate a else bs_candidate b) \<and>
           (0 \<le> au \<and> 0 \<le> bu \<longrightarrow> 0 \<le> sf \<and> sf \<le> 1 \<and> sf * du = du - cu)"
proof -
  from compareCost_cases [OF assms] obtain au bu where m:
    "bs_totalCost a = Total_measured au" "bs_totalCost b = Total_measured bu" "n = bs_cases a"
    "bs_cases a = bs_cases b" "MINIMUM_BENCHMARK_SAMPLE \<le> n" "cu = min au bu" "du = max au bu"
    "r = (if au \<le> bu then bs_candidate a else bs_candidate b)"
    "sf = (if du = 0 then 0 else (du - cu) / du)" by blast
  have "0 \<le> sf \<and> sf \<le> 1 \<and> sf * du = du - cu" if "0 \<le> au" "0 \<le> bu"
  proof (cases "du = 0")
    case True
    with m that show ?thesis by (auto simp: max_def min_def split: if_splits)
  next
    case False
    with m(6,7) that have "0 < du" "cu \<le> du" "0 \<le> cu" by (auto simp: max_def min_def split: if_splits)
    moreover have "sf = (du - cu) / du" using m False by simp
    ultimately show ?thesis by (simp add: divide_le_eq)
  qed
  then have "0 \<le> au \<and> 0 \<le> bu \<longrightarrow> 0 \<le> sf \<and> sf \<le> 1 \<and> sf * du = du - cu" by blast
  with m(1-8) show ?thesis by (intro exI [of _ au] exI [of _ bu] conjI) simp_all
qed

definition ex_summary :: "ProviderId \<Rightarrow> rat \<Rightarrow> BenchmarkCandidateSummary" where
  "ex_summary p usd = \<lparr>bs_candidate = \<lparr>cr_providerId = p, cr_model = None\<rparr>, bs_label = [],
     bs_cases = 3, bs_factualConsistency = Rate_measured 1 3,
     bs_requiredProjectPreservation = Rate_measured 1 3, bs_formMapValidity = Rate_not_applicable,
     bs_humanCorrectionsPerCase = Rate_measured 0 3, bs_medianLatencyMs = Some 5,
     bs_totalCost = Total_measured usd\<rparr>"

theorem cost_comparison_sound_witness:
  "compareCost (ex_summary Claude 4) (ex_summary Codex 3) =
     Comparison_measured \<lparr>cr_providerId = Codex, cr_model = None\<rparr> 3 4 (1/4) 3 \<and> (1/4 :: rat) * 4 = 4 - 3"
proof -
  have c: "compareCost (ex_summary Claude 4) (ex_summary Codex 3) =
     Comparison_measured \<lparr>cr_providerId = Codex, cr_model = None\<rparr> 3 4 (1/4) 3"
    by (simp add: compareCost_def ex_summary_def MINIMUM_BENCHMARK_SAMPLE_def)
  from cost_comparison_sound [OF c] have "(1/4 :: rat) * 4 = 4 - 3"
    by (auto simp: ex_summary_def)
  with c show ?thesis by simp
qed

text \<open>
  A ranking contains every candidate once, best measured consistency first, and exists only when
  every candidate was measured over one and the same number of cases.
\<close>

lemma ranking_sound:
  assumes "rankByFactualConsistency report = Ranked order n"
  shows "mset order = mset (br_candidates report) \<and>
         sorted_wrt (\<lambda>a b. scoreOf b \<le> scoreOf a) order \<and>
         (\<forall>e\<in>set order. bs_cases e = n \<and> is_measured (bs_factualConsistency e))"
proof -
  let ?cs = "br_candidates report"
  from assms have ord: "order = sort_key (\<lambda>e. - scoreOf e) ?cs"
    and one: "length (remdups (map bs_cases ?cs)) = 1"
    and meas: "list_all (\<lambda>e. is_measured (bs_factualConsistency e)) ?cs"
    and n: "n = (case ?cs of [] \<Rightarrow> 0 | e # _ \<Rightarrow> bs_cases e)"
    by (auto simp: rankByFactualConsistency_def split: if_splits)
  from one obtain k where "remdups (map bs_cases ?cs) = [k]"
    by (auto simp: length_Suc_conv)
  then have k: "bs_cases ` set ?cs = {k}" by (metis empty_set list.simps(15) set_map set_remdups)
  then have "\<forall>e\<in>set ?cs. bs_cases e = n" unfolding n by (cases ?cs) auto
  moreover have "sorted_wrt (\<lambda>a b. scoreOf b \<le> scoreOf a) order"
    unfolding ord using sorted_sort_key [of "\<lambda>e. - scoreOf e" ?cs]
    by (simp add: sorted_map)
  ultimately show ?thesis using meas by (simp add: ord list_all_iff)
qed

end
