(* ===== verification/Application_Queue.thy ===== *)
theory Application_Queue
  imports Js_Strings
begin

text \<open>
  The daemon's durable, single-worker queue of application attempts
  (\<^verbatim>\<open>apps/daemon/src/application-queue-store.ts\<close>).

  A store is its in-memory snapshot, the tail of recent events it can replay, its listeners, and the
  list of writes it has made to its two files, oldest first. Every operation of the class is a
  function that takes the clock reading (and the fresh lease id) it uses as arguments. A crash is the
  disk after any prefix of the writes, with an append possibly torn in the middle of its line; opening
  a store on such a disk is \<open>open_store\<close>, the constructor.
\<close>

section \<open>Data\<close>

datatype ApplicationQueueEntryState = Queued | Active | Paused | Cancelled | Done | Failed

definition SCHEDULABLE_STATES :: "ApplicationQueueEntryState list" where
  "SCHEDULABLE_STATES = [Queued]"

definition TERMINAL_STATES :: "ApplicationQueueEntryState list" where
  "TERMINAL_STATES = [Cancelled, Done, Failed]"

record ApplicationQueueEntry =
  qe_attemptId :: string
  qe_state :: ApplicationQueueEntryState
  qe_queuedAt :: string
  qe_updatedAt :: string

record ApplicationQueueLease =
  ql_leaseId :: string
  ql_attemptId :: string
  ql_acquiredAt :: string

datatype ApplicationQueueEventType =
  Ev_enqueued | Ev_lease_acquired | Ev_paused | Ev_resumed | Ev_skipped | Ev_cancelled | Ev_released

record ApplicationQueueEvent =
  qv_seq :: nat
  qv_at :: string
  qv_type :: ApplicationQueueEventType
  qv_attemptId :: string

datatype queue_error =
  ApplicationQueueNotFoundError string
| ApplicationQueueInvalidTransitionError string ApplicationQueueEntryState string

record QueueSnapshot =
  sn_entries :: "ApplicationQueueEntry list"
  sn_lease :: "ApplicationQueueLease option"
  sn_nextEventSeq :: nat
  sn_eventReplayFloor :: nat

definition emptySnapshot :: "nat \<Rightarrow> QueueSnapshot" where
  "emptySnapshot nextEventSeq =
     \<lparr>sn_entries = [], sn_lease = None, sn_nextEventSeq = nextEventSeq, sn_eventReplayFloor = nextEventSeq\<rparr>"

definition SCHEMA_VERSION :: nat where
  "SCHEMA_VERSION = 1"

definition MAX_REPLAY_EVENTS :: nat where
  "MAX_REPLAY_EVENTS = 500"


section \<open>The disk\<close>

text \<open>
  What \<^verbatim>\<open>queue.json\<close> may hold when it is read: nothing, text that is not JSON, or a parsed object any
  of whose members may be missing (or of the wrong type, which the code treats the same way).
\<close>

record raw_snapshot =
  raw_schemaVersion :: "nat option"
  raw_entries :: "ApplicationQueueEntry list option"
  raw_lease :: "ApplicationQueueLease option"
  raw_nextEventSeq :: "nat option"
  raw_eventReplayFloor :: "nat option"

datatype snapshot_file = No_file | Unparsable | Parsed raw_snapshot

datatype log_line = Line ApplicationQueueEvent | Torn

record queue_disk =
  dk_snapshot :: snapshot_file
  dk_log :: "log_line list"

datatype disk_write = Write_snapshot QueueSnapshot | Append_event ApplicationQueueEvent | Truncate_log

text \<open>What \<^verbatim>\<open>JSON.stringify\<close> followed by \<^verbatim>\<open>JSON.parse\<close> gives for a snapshot the store wrote itself.\<close>

definition raw_of :: "QueueSnapshot \<Rightarrow> raw_snapshot" where
  "raw_of s = \<lparr>raw_schemaVersion = Some SCHEMA_VERSION, raw_entries = Some (sn_entries s),
     raw_lease = sn_lease s, raw_nextEventSeq = Some (sn_nextEventSeq s),
     raw_eventReplayFloor = Some (sn_eventReplayFloor s)\<rparr>"

text \<open>
  An append after a torn line continues that line, which stays unparsable. The snapshot write is the
  atomic replacement of the file.
\<close>

fun apply_write :: "queue_disk \<Rightarrow> disk_write \<Rightarrow> queue_disk" where
  "apply_write d (Write_snapshot s) = d\<lparr>dk_snapshot := Parsed (raw_of s)\<rparr>"
| "apply_write d (Append_event e) =
     d\<lparr>dk_log := (if dk_log d \<noteq> [] \<and> last (dk_log d) = Torn then dk_log d else dk_log d @ [Line e])\<rparr>"
| "apply_write d Truncate_log = d\<lparr>dk_log := []\<rparr>"

abbreviation apply_writes :: "queue_disk \<Rightarrow> disk_write list \<Rightarrow> queue_disk" where
  "apply_writes \<equiv> foldl apply_write"


section \<open>The store\<close>

record queue_store =
  qs_snapshot :: QueueSnapshot
  qs_recentEvents :: "ApplicationQueueEvent list"
  qs_listeners :: "nat list"
  qs_delivered :: "(nat \<times> ApplicationQueueEvent) list"
  qs_writes :: "disk_write list"

definition loadSnapshot :: "queue_disk \<Rightarrow> QueueSnapshot" where
  "loadSnapshot d =
     (case dk_snapshot d of
        No_file \<Rightarrow> emptySnapshot 0
      | Unparsable \<Rightarrow> emptySnapshot 0
      | Parsed raw \<Rightarrow>
          (if raw_schemaVersion raw \<noteq> Some SCHEMA_VERSION \<or> raw_entries raw = None then emptySnapshot 0
           else \<lparr>sn_entries = the (raw_entries raw), sn_lease = raw_lease raw,
                 sn_nextEventSeq = (case raw_nextEventSeq raw of Some n \<Rightarrow> n | None \<Rightarrow> 0),
                 sn_eventReplayFloor = (case raw_eventReplayFloor raw of Some n \<Rightarrow> n | None \<Rightarrow> 0)\<rparr>))"

fun parse_log :: "log_line list \<Rightarrow> ApplicationQueueEvent list option" where
  "parse_log [] = Some []"
| "parse_log (Torn # ls) = None"
| "parse_log (Line e # ls) = map_option (\<lambda>es. e # es) (parse_log ls)"

definition loadRecentEvents :: "queue_disk \<Rightarrow> nat \<Rightarrow> ApplicationQueueEvent list" where
  "loadRecentEvents d eventReplayFloor =
     (case parse_log (dk_log d) of
        None \<Rightarrow> []
      | Some parsed \<Rightarrow> keep_last MAX_REPLAY_EVENTS (filter (\<lambda>e. eventReplayFloor \<le> qv_seq e) parsed))"

definition persist :: "queue_store \<Rightarrow> queue_store" where
  "persist q = q\<lparr>qs_writes := qs_writes q @ [Write_snapshot (qs_snapshot q)]\<rparr>"

definition push_recent :: "ApplicationQueueEvent list \<Rightarrow> ApplicationQueueEvent \<Rightarrow> ApplicationQueueEvent list" where
  "push_recent recent e =
     (let r = recent @ [e] in if length r > MAX_REPLAY_EVENTS then tl r else r)"

definition emit :: "string \<Rightarrow> ApplicationQueueEventType \<Rightarrow> string \<Rightarrow> queue_store \<Rightarrow> queue_store" where
  "emit now ty attemptId q =
     (let s = qs_snapshot q;
          event = \<lparr>qv_seq = sn_nextEventSeq s, qv_at = now, qv_type = ty, qv_attemptId = attemptId\<rparr>;
          q1 = persist (q\<lparr>qs_snapshot := s\<lparr>sn_nextEventSeq := sn_nextEventSeq s + 1\<rparr>\<rparr>)
      in q1\<lparr>qs_writes := qs_writes q1 @ [Append_event event],
            qs_recentEvents := push_recent (qs_recentEvents q1) event,
            qs_delivered := qs_delivered q1 @ map (\<lambda>l. (l, event)) (qs_listeners q1)\<rparr>)"

definition find_entry :: "QueueSnapshot \<Rightarrow> string \<Rightarrow> ApplicationQueueEntry option" where
  "find_entry s attemptId = List.find (\<lambda>e. qe_attemptId e = attemptId) (sn_entries s)"

text \<open>The assignments \<^verbatim>\<open>entry.state = st; entry.updatedAt = now\<close> on the entry that was found.\<close>

definition set_state :: "string \<Rightarrow> string \<Rightarrow> ApplicationQueueEntryState \<Rightarrow> QueueSnapshot \<Rightarrow> QueueSnapshot" where
  "set_state now attemptId st s =
     s\<lparr>sn_entries := update_first (\<lambda>e. qe_attemptId e = attemptId)
                       (\<lambda>e. e\<lparr>qe_state := st, qe_updatedAt := now\<rparr>) (sn_entries s)\<rparr>"

definition reconcileStaleLeaseOnStartup :: "string \<Rightarrow> queue_store \<Rightarrow> queue_store" where
  "reconcileStaleLeaseOnStartup now q =
     (case sn_lease (qs_snapshot q) of
        None \<Rightarrow> q
      | Some lease \<Rightarrow>
          (let s = qs_snapshot q;
               s1 = s\<lparr>sn_lease := None\<rparr>;
               s2 = (case find_entry s (ql_attemptId lease) of
                       Some entry \<Rightarrow>
                         if qe_state entry \<in> set TERMINAL_STATES then s1
                         else set_state now (ql_attemptId lease) Queued s1
                     | None \<Rightarrow> s1)
           in emit now Ev_released (ql_attemptId lease) (persist (q\<lparr>qs_snapshot := s2\<rparr>))))"

definition open_store :: "string \<Rightarrow> queue_disk \<Rightarrow> queue_store" where
  "open_store now d =
     (let s = loadSnapshot d;
          recent = loadRecentEvents d (sn_eventReplayFloor s);
          nextEventSeq = (case recent of [] \<Rightarrow> 0 | _ \<Rightarrow> qv_seq (last recent) + 1);
          q = \<lparr>qs_snapshot = s, qs_recentEvents = recent, qs_listeners = [], qs_delivered = [], qs_writes = []\<rparr>;
          q1 = (if nextEventSeq > sn_nextEventSeq s
                then persist (q\<lparr>qs_snapshot := s\<lparr>sn_nextEventSeq := nextEventSeq\<rparr>\<rparr>) else q)
      in reconcileStaleLeaseOnStartup now q1)"


section \<open>Operations\<close>

definition list_entries :: "queue_store \<Rightarrow> ApplicationQueueEntry list" where
  "list_entries q = sn_entries (qs_snapshot q)"

definition get_entry :: "queue_store \<Rightarrow> string \<Rightarrow> ApplicationQueueEntry option" where
  "get_entry q attemptId = find_entry (qs_snapshot q) attemptId"

definition currentLease :: "queue_store \<Rightarrow> ApplicationQueueLease option" where
  "currentLease q = sn_lease (qs_snapshot q)"

definition clear :: "queue_store \<Rightarrow> nat \<times> queue_store" where
  "clear q =
     (let count = length (sn_entries (qs_snapshot q));
          q1 = persist (q\<lparr>qs_snapshot := emptySnapshot (sn_nextEventSeq (qs_snapshot q)), qs_recentEvents := []\<rparr>)
      in (count, q1\<lparr>qs_writes := qs_writes q1 @ [Truncate_log]\<rparr>))"

definition enqueue :: "string \<Rightarrow> string \<Rightarrow> queue_store \<Rightarrow> ApplicationQueueEntry \<times> queue_store" where
  "enqueue now attemptId q =
     (let s = qs_snapshot q;
          entry = \<lparr>qe_attemptId = attemptId, qe_state = Queued, qe_queuedAt = now, qe_updatedAt = now\<rparr>;
          put = (\<lambda>es. (entry, emit now Ev_enqueued attemptId (persist (q\<lparr>qs_snapshot := s\<lparr>sn_entries := es\<rparr>\<rparr>))))
      in case find_entry s attemptId of
           Some existing \<Rightarrow>
             if qe_state existing \<notin> set TERMINAL_STATES then (existing, q)
             else put (update_first (\<lambda>e. qe_attemptId e = attemptId) (\<lambda>_. entry) (sn_entries s))
         | None \<Rightarrow> put (sn_entries s @ [entry]))"

definition acquireNextLease :: "string \<Rightarrow> string \<Rightarrow> queue_store \<Rightarrow> ApplicationQueueLease option \<times> queue_store" where
  "acquireNextLease now uuid q =
     (let s = qs_snapshot q
      in if sn_lease s \<noteq> None then (None, q)
         else case List.find (\<lambda>e. qe_state e \<in> set SCHEDULABLE_STATES) (sn_entries s) of
                None \<Rightarrow> (None, q)
              | Some next \<Rightarrow>
                  (let lease = \<lparr>ql_leaseId = uuid, ql_attemptId = qe_attemptId next, ql_acquiredAt = now\<rparr>;
                       s1 = s\<lparr>sn_entries := update_first (\<lambda>e. qe_state e \<in> set SCHEDULABLE_STATES)
                                (\<lambda>e. e\<lparr>qe_state := Active, qe_updatedAt := now\<rparr>) (sn_entries s),
                              sn_lease := Some lease\<rparr>
                   in (Some lease,
                       emit now Ev_lease_acquired (qe_attemptId next) (persist (q\<lparr>qs_snapshot := s1\<rparr>)))))"

datatype release_outcome = Completed | Outcome_failed | Requeue

definition released_state :: "release_outcome \<Rightarrow> ApplicationQueueEntryState" where
  "released_state outcome = (if outcome = Requeue then Queued else if outcome = Completed then Done else Failed)"

definition release :: "string \<Rightarrow> string \<Rightarrow> release_outcome \<Rightarrow> queue_store \<Rightarrow> queue_store" where
  "release now leaseId outcome q =
     (case sn_lease (qs_snapshot q) of
        None \<Rightarrow> q
      | Some lease \<Rightarrow>
          if ql_leaseId lease \<noteq> leaseId then q
          else
            (let attemptId = ql_attemptId lease;
                 s1 = (qs_snapshot q)\<lparr>sn_lease := None\<rparr>;
                 s2 = (case find_entry s1 attemptId of
                         Some entry \<Rightarrow> set_state now attemptId (released_state outcome) s1
                       | None \<Rightarrow> s1)
             in emit now Ev_released attemptId (persist (q\<lparr>qs_snapshot := s2\<rparr>))))"

text \<open>\<^verbatim>\<open>if (this.#snapshot.lease?.attemptId === attemptId) this.#snapshot.lease = null\<close>\<close>

definition drop_lease_of :: "string \<Rightarrow> QueueSnapshot \<Rightarrow> QueueSnapshot" where
  "drop_lease_of attemptId s =
     (if map_option ql_attemptId (sn_lease s) = Some attemptId then s\<lparr>sn_lease := None\<rparr> else s)"

text \<open>The common tail of the four operations on a named entry.\<close>

definition finish_transition ::
  "string \<Rightarrow> string \<Rightarrow> ApplicationQueueEntry \<Rightarrow> ApplicationQueueEntryState \<Rightarrow> ApplicationQueueEventType \<Rightarrow>
     QueueSnapshot \<Rightarrow> queue_store \<Rightarrow> (queue_error + ApplicationQueueEntry) \<times> queue_store" where
  "finish_transition now attemptId entry st ty s q =
     (Inr (entry\<lparr>qe_state := st, qe_updatedAt := now\<rparr>),
      emit now ty attemptId (persist (q\<lparr>qs_snapshot := set_state now attemptId st s\<rparr>)))"

definition pause :: "string \<Rightarrow> string \<Rightarrow> queue_store \<Rightarrow> (queue_error + ApplicationQueueEntry) \<times> queue_store" where
  "pause now attemptId q =
     (case find_entry (qs_snapshot q) attemptId of
        None \<Rightarrow> (Inl (ApplicationQueueNotFoundError attemptId), q)
      | Some entry \<Rightarrow>
          if qe_state entry \<noteq> Queued \<and> qe_state entry \<noteq> Active
          then (Inl (ApplicationQueueInvalidTransitionError attemptId (qe_state entry) ''pause''), q)
          else finish_transition now attemptId entry Paused Ev_paused (drop_lease_of attemptId (qs_snapshot q)) q)"

definition resume :: "string \<Rightarrow> string \<Rightarrow> queue_store \<Rightarrow> (queue_error + ApplicationQueueEntry) \<times> queue_store" where
  "resume now attemptId q =
     (case find_entry (qs_snapshot q) attemptId of
        None \<Rightarrow> (Inl (ApplicationQueueNotFoundError attemptId), q)
      | Some entry \<Rightarrow>
          if qe_state entry \<noteq> Paused
          then (Inl (ApplicationQueueInvalidTransitionError attemptId (qe_state entry) ''resume''), q)
          else finish_transition now attemptId entry Queued Ev_resumed (qs_snapshot q) q)"

definition skip :: "string \<Rightarrow> string \<Rightarrow> queue_store \<Rightarrow> (queue_error + ApplicationQueueEntry) \<times> queue_store" where
  "skip now attemptId q =
     (case find_entry (qs_snapshot q) attemptId of
        None \<Rightarrow> (Inl (ApplicationQueueNotFoundError attemptId), q)
      | Some entry \<Rightarrow>
          if qe_state entry \<in> set TERMINAL_STATES
          then (Inl (ApplicationQueueInvalidTransitionError attemptId (qe_state entry) ''skip''), q)
          else finish_transition now attemptId entry Cancelled Ev_skipped (drop_lease_of attemptId (qs_snapshot q)) q)"

definition cancel :: "string \<Rightarrow> string \<Rightarrow> queue_store \<Rightarrow> (queue_error + ApplicationQueueEntry) \<times> queue_store" where
  "cancel now attemptId q =
     (case find_entry (qs_snapshot q) attemptId of
        None \<Rightarrow> (Inl (ApplicationQueueNotFoundError attemptId), q)
      | Some entry \<Rightarrow>
          if qe_state entry \<in> set TERMINAL_STATES
          then (Inl (ApplicationQueueInvalidTransitionError attemptId (qe_state entry) ''cancel''), q)
          else finish_transition now attemptId entry Cancelled Ev_cancelled (drop_lease_of attemptId (qs_snapshot q)) q)"

text \<open>\<^verbatim>\<open>subscribe\<close> and the function it returns; a listener is a name, the set keeps one of each.\<close>

definition subscribe :: "nat \<Rightarrow> nat \<Rightarrow> queue_store \<Rightarrow> queue_store" where
  "subscribe sinceSeq listener q =
     q\<lparr>qs_delivered := qs_delivered q @
         map (\<lambda>e. (listener, e)) (filter (\<lambda>e. sinceSeq \<le> qv_seq e) (qs_recentEvents q)),
       qs_listeners := (if listener \<in> set (qs_listeners q) then qs_listeners q else qs_listeners q @ [listener])\<rparr>"

definition unsubscribe :: "nat \<Rightarrow> queue_store \<Rightarrow> queue_store" where
  "unsubscribe listener q = q\<lparr>qs_listeners := filter (\<lambda>l. l \<noteq> listener) (qs_listeners q)\<rparr>"

datatype queue_op =
  Op_enqueue string string | Op_acquire string string | Op_release string string release_outcome
| Op_pause string string | Op_resume string string | Op_skip string string | Op_cancel string string
| Op_clear | Op_subscribe nat nat | Op_unsubscribe nat

fun queue_step :: "queue_store \<Rightarrow> queue_op \<Rightarrow> queue_store" where
  "queue_step q (Op_enqueue now a) = snd (enqueue now a q)"
| "queue_step q (Op_acquire now uuid) = snd (acquireNextLease now uuid q)"
| "queue_step q (Op_release now l out) = release now l out q"
| "queue_step q (Op_pause now a) = snd (pause now a q)"
| "queue_step q (Op_resume now a) = snd (resume now a q)"
| "queue_step q (Op_skip now a) = snd (skip now a q)"
| "queue_step q (Op_cancel now a) = snd (cancel now a q)"
| "queue_step q Op_clear = snd (clear q)"
| "queue_step q (Op_subscribe since l) = subscribe since l q"
| "queue_step q (Op_unsubscribe l) = unsubscribe l q"



section \<open>Well-formed snapshots\<close>

definition active_ids :: "QueueSnapshot \<Rightarrow> string list" where
  "active_ids s = map qe_attemptId (filter (\<lambda>e. qe_state e = Active) (sn_entries s))"

definition leased_ids :: "QueueSnapshot \<Rightarrow> string list" where
  "leased_ids s = (case sn_lease s of None \<Rightarrow> [] | Some l \<Rightarrow> [ql_attemptId l])"

definition snapshot_ok :: "QueueSnapshot \<Rightarrow> bool" where
  "snapshot_ok s \<longleftrightarrow> distinct (map qe_attemptId (sn_entries s)) \<and> active_ids s = leased_ids s"

lemma snapshot_ok_empty [simp]: "snapshot_ok (emptySnapshot n)"
  by (simp add: snapshot_ok_def emptySnapshot_def active_ids_def leased_ids_def)

lemma set_state_fields [simp]:
  "sn_lease (set_state now a st s) = sn_lease s"
  "sn_nextEventSeq (set_state now a st s) = sn_nextEventSeq s"
  "sn_eventReplayFloor (set_state now a st s) = sn_eventReplayFloor s"
  "map qe_attemptId (sn_entries (set_state now a st s)) = map qe_attemptId (sn_entries s)"
  by (simp_all add: set_state_def)

lemma set_state_entries:
  "distinct (map qe_attemptId (sn_entries s)) \<Longrightarrow>
     sn_entries (set_state now a st s) =
       map (\<lambda>e. if qe_attemptId e = a then e\<lparr>qe_state := st, qe_updatedAt := now\<rparr> else e) (sn_entries s)"
  by (simp add: set_state_def update_first_key)

lemma active_ids_lease [simp]: "active_ids (s\<lparr>sn_lease := l\<rparr>) = active_ids s"
  by (simp add: active_ids_def)

lemma active_ids_set_state:
  assumes "distinct (map qe_attemptId (sn_entries s))" "st \<noteq> Active"
  shows "active_ids (set_state now a st s) = filter (\<lambda>i. i \<noteq> a) (active_ids s)"
proof -
  have "map qe_attemptId (filter (\<lambda>e. qe_state e = Active)
          (map (\<lambda>e. if qe_attemptId e = a then e\<lparr>qe_state := st, qe_updatedAt := now\<rparr> else e) es)) =
        filter (\<lambda>i. i \<noteq> a) (map qe_attemptId (filter (\<lambda>e. qe_state e = Active) es))" for es
    using assms(2) by (induction es) auto
  then show ?thesis by (simp add: active_ids_def set_state_entries [OF assms(1)])
qed

lemma find_entry_Some:
  "distinct (map qe_attemptId (sn_entries s)) \<Longrightarrow>
     find_entry s a = Some e \<longleftrightarrow> e \<in> set (sn_entries s) \<and> qe_attemptId e = a"
  by (simp add: find_entry_def find_key_eq)

lemma find_entry_None: "find_entry s a = None \<longleftrightarrow> a \<notin> qe_attemptId ` set (sn_entries s)"
  by (auto simp: find_entry_def find_None_iff)

text \<open>Taking an entry out of the active state, together with its lease.\<close>

lemma snapshot_ok_drop:
  assumes "snapshot_ok s" "st \<noteq> Active"
  shows "snapshot_ok (set_state now a st (drop_lease_of a s))"
proof -
  have "distinct (map qe_attemptId (sn_entries (drop_lease_of a s)))" "active_ids (drop_lease_of a s) = active_ids s"
    using assms(1) by (simp_all add: snapshot_ok_def drop_lease_of_def)
  with assms show ?thesis
    by (auto simp: snapshot_ok_def active_ids_set_state leased_ids_def drop_lease_of_def split: option.splits)
qed

lemma drop_lease_id: "snapshot_ok s \<Longrightarrow> find_entry s a = Some e \<Longrightarrow> qe_state e \<noteq> Active \<Longrightarrow> drop_lease_of a s = s"
proof -
  assume ok: "snapshot_ok s" and e: "find_entry s a = Some e" "qe_state e \<noteq> Active"
  have "a \<notin> set (active_ids s)"
  proof
    assume "a \<in> set (active_ids s)"
    then obtain x where "x \<in> set (sn_entries s)" "qe_attemptId x = a" "qe_state x = Active"
      by (auto simp: active_ids_def)
    with ok e show False by (metis find_entry_Some option.inject snapshot_ok_def)
  qed
  with ok show ?thesis
    by (auto simp: snapshot_ok_def leased_ids_def drop_lease_of_def split: option.splits)
qed

text \<open>Dropping the current lease and moving its entry, as release and startup do.\<close>

lemma snapshot_ok_unlease:
  assumes "snapshot_ok s" "sn_lease s = Some l" "st \<noteq> Active"
  shows "snapshot_ok (set_state now (ql_attemptId l) st (s\<lparr>sn_lease := None\<rparr>))"
  using snapshot_ok_drop [OF assms(1,3), of now "ql_attemptId l"] assms(2) by (simp add: drop_lease_of_def)

lemma leased_entry:
  assumes "snapshot_ok s" "sn_lease s = Some l"
  shows "\<exists>e. find_entry s (ql_attemptId l) = Some e \<and> qe_state e = Active"
proof -
  from assms have "ql_attemptId l \<in> set (active_ids s)"
    by (simp add: snapshot_ok_def leased_ids_def)
  then obtain e where "e \<in> set (sn_entries s)" "qe_attemptId e = ql_attemptId l" "qe_state e = Active"
    by (auto simp: active_ids_def)
  with assms show ?thesis by (auto simp: find_entry_Some snapshot_ok_def)
qed

lemma activate_first:
  assumes "filter (\<lambda>e. qe_state e = Active) es = []" "List.find (\<lambda>e. qe_state e = Queued) es = Some n"
  shows "map qe_attemptId (filter (\<lambda>e. qe_state e = Active)
           (update_first (\<lambda>e. qe_state e = Queued) (\<lambda>e. e\<lparr>qe_state := Active, qe_updatedAt := now\<rparr>) es)) =
         [qe_attemptId n]"
  using assms by (induction es) (auto split: if_splits)

lemma snapshot_ok_acquire:
  assumes ok: "snapshot_ok s" and no: "sn_lease s = None"
    and f: "List.find (\<lambda>e. qe_state e = Queued) (sn_entries s) = Some n"
  shows "snapshot_ok (s\<lparr>sn_entries := update_first (\<lambda>e. qe_state e = Queued)
            (\<lambda>e. e\<lparr>qe_state := Active, qe_updatedAt := now\<rparr>) (sn_entries s),
          sn_lease := Some \<lparr>ql_leaseId = u, ql_attemptId = qe_attemptId n, ql_acquiredAt = now\<rparr>\<rparr>)"
proof -
  from ok no have "filter (\<lambda>e. qe_state e = Active) (sn_entries s) = []"
    by (simp add: snapshot_ok_def active_ids_def leased_ids_def)
  from activate_first [OF this f] ok show ?thesis
    by (simp add: snapshot_ok_def active_ids_def leased_ids_def)
qed

lemma snapshot_ok_enqueue:
  assumes ok: "snapshot_ok s"
    and es: "find_entry s a = None \<and> es = sn_entries s @ [new] \<or>
             (\<exists>x. find_entry s a = Some x \<and> qe_state x \<noteq> Active \<and>
                  es = update_first (\<lambda>e. qe_attemptId e = a) (\<lambda>_. new) (sn_entries s))"
    and new: "qe_attemptId new = a" "qe_state new \<noteq> Active"
  shows "snapshot_ok (s\<lparr>sn_entries := es\<rparr>)"
  using es
proof (elim disjE exE conjE)
  assume "find_entry s a = None" "es = sn_entries s @ [new]"
  with ok new show ?thesis
    by (auto simp: snapshot_ok_def active_ids_def leased_ids_def find_entry_None)
next
  fix x
  assume x: "find_entry s a = Some x" "qe_state x \<noteq> Active"
    and es: "es = update_first (\<lambda>e. qe_attemptId e = a) (\<lambda>_. new) (sn_entries s)"
  from x(1) have "List.find (\<lambda>e. qe_attemptId e = a) (sn_entries s) = Some x" by (simp add: find_entry_def)
  then have "filter (\<lambda>e. qe_state e = Active) es = filter (\<lambda>e. qe_state e = Active) (sn_entries s)"
    unfolding es using x(2) new(2) by (rule filter_update_first)
  moreover have "map qe_attemptId es = map qe_attemptId (sn_entries s)"
    unfolding es using new by simp
  ultimately show ?thesis using ok by (simp add: snapshot_ok_def active_ids_def leased_ids_def)
qed



section \<open>The disk at every write\<close>

definition log_seqs :: "queue_disk \<Rightarrow> nat list" where
  "log_seqs d = concat (map (\<lambda>l. case l of Line e \<Rightarrow> [qv_seq e] | Torn \<Rightarrow> []) (dk_log d))"

definition disk_ok :: "queue_disk \<Rightarrow> bool" where
  "disk_ok d \<longleftrightarrow> snapshot_ok (loadSnapshot d) \<and> sorted_wrt (<) (log_seqs d) \<and>
     (\<forall>n\<in>set (log_seqs d). n < sn_nextEventSeq (loadSnapshot d))"

lemma loadSnapshot_write [simp]: "loadSnapshot (d\<lparr>dk_snapshot := Parsed (raw_of s)\<rparr>) = s"
  by (simp add: loadSnapshot_def raw_of_def)

lemma loadSnapshot_log [simp]: "loadSnapshot (d\<lparr>dk_log := ls\<rparr>) = loadSnapshot d"
  by (simp add: loadSnapshot_def)

lemma log_seqs_snapshot [simp]: "log_seqs (d\<lparr>dk_snapshot := f\<rparr>) = log_seqs d"
  by (simp add: log_seqs_def)

lemma log_seqs_append: "log_seqs (apply_write d (Append_event e)) \<in> {log_seqs d, log_seqs d @ [qv_seq e]}"
  by (simp add: log_seqs_def)

lemma disk_ok_write:
  "disk_ok d \<Longrightarrow> snapshot_ok s \<Longrightarrow> sn_nextEventSeq (loadSnapshot d) \<le> sn_nextEventSeq s \<Longrightarrow>
     disk_ok (apply_write d (Write_snapshot s))"
  by (fastforce simp: disk_ok_def)

lemma disk_ok_append:
  assumes "disk_ok d" "\<forall>n\<in>set (log_seqs d). n < qv_seq e" "qv_seq e < sn_nextEventSeq (loadSnapshot d)"
  shows "disk_ok (apply_write d (Append_event e))"
  using assms log_seqs_append [of d e] by (auto simp: disk_ok_def sorted_wrt_append simp del: apply_write.simps)
    (auto)

lemma disk_ok_truncate: "disk_ok d \<Longrightarrow> disk_ok (apply_write d Truncate_log)"
  by (simp add: disk_ok_def log_seqs_def)

text \<open>A crash may leave the line being appended incomplete.\<close>

definition tear :: "queue_disk \<Rightarrow> queue_disk" where
  "tear d = d\<lparr>dk_log := (if dk_log d \<noteq> [] \<and> last (dk_log d) = Torn then dk_log d else dk_log d @ [Torn])\<rparr>"

lemma disk_ok_tear: "disk_ok d \<Longrightarrow> disk_ok (tear d)"
  by (simp add: disk_ok_def tear_def log_seqs_def)

definition journal_ok :: "queue_disk \<Rightarrow> disk_write list \<Rightarrow> bool" where
  "journal_ok d ws \<longleftrightarrow> (\<forall>k. disk_ok (apply_writes d (take k ws)))"

lemma journal_ok_Nil: "journal_ok d [] \<longleftrightarrow> disk_ok d"
  by (simp add: journal_ok_def)

lemma journal_ok_last: "journal_ok d ws \<Longrightarrow> disk_ok (apply_writes d ws)"
  unfolding journal_ok_def by (metis order_refl take_all)

lemma journal_ok_snoc: "journal_ok d (ws @ [w]) \<longleftrightarrow> journal_ok d ws \<and> disk_ok (apply_write (apply_writes d ws) w)"
proof
  assume j: "journal_ok d (ws @ [w])"
  have "disk_ok (apply_writes d (take k ws))" for k
    using j [unfolded journal_ok_def, rule_format, of "min k (length ws)"]
    by (cases "k \<le> length ws") (simp_all add: min_def)
  then show "journal_ok d ws \<and> disk_ok (apply_write (apply_writes d ws) w)"
    using journal_ok_last [OF j] by (simp add: journal_ok_def)
next
  assume a: "journal_ok d ws \<and> disk_ok (apply_write (apply_writes d ws) w)"
  show "journal_ok d (ws @ [w])"
    unfolding journal_ok_def
  proof
    fix k
    show "disk_ok (apply_writes d (take k (ws @ [w])))"
      using a by (cases "k \<le> length ws") (simp_all add: journal_ok_def)
  qed
qed


section \<open>The store\<close>

definition recent_ok :: "queue_store \<Rightarrow> bool" where
  "recent_ok q \<longleftrightarrow> sorted_wrt (\<lambda>a b. qv_seq a < qv_seq b) (qs_recentEvents q) \<and>
     (\<forall>e\<in>set (qs_recentEvents q). qv_seq e < sn_nextEventSeq (qs_snapshot q)) \<and>
     length (qs_recentEvents q) \<le> MAX_REPLAY_EVENTS"

definition store_ok :: "queue_disk \<Rightarrow> queue_store \<Rightarrow> bool" where
  "store_ok d q \<longleftrightarrow> journal_ok d (qs_writes q) \<and> recent_ok q \<and>
     loadSnapshot (apply_writes d (qs_writes q)) = qs_snapshot q"

interpretation replay: bounded_log "\<lambda>r. r" push_recent "\<lambda>_. MAX_REPLAY_EVENTS"
proof
  fix s :: "ApplicationQueueEvent list" and e
  assume "length s \<le> MAX_REPLAY_EVENTS"
  then show "push_recent s e = keep_last MAX_REPLAY_EVENTS (s @ [e])"
    by (cases "length s = MAX_REPLAY_EVENTS")
      (simp_all add: push_recent_def Let_def keep_last_def drop_Suc del: drop_append)
qed simp

lemma recent_ok_push:
  assumes "recent_ok q" "qv_seq e = sn_nextEventSeq (qs_snapshot q)"
    and "qs_recentEvents q' = push_recent (qs_recentEvents q) e"
    and "sn_nextEventSeq (qs_snapshot q') = Suc (sn_nextEventSeq (qs_snapshot q))"
  shows "recent_ok q'"
proof -
  let ?r = "qs_recentEvents q @ [e]"
  have len: "length (qs_recentEvents q) \<le> MAX_REPLAY_EVENTS" using assms(1) by (simp add: recent_ok_def)
  have eq: "qs_recentEvents q' = keep_last MAX_REPLAY_EVENTS ?r"
    using replay.contents_push [OF len] assms(3) by simp
  have "sorted_wrt (\<lambda>a b. qv_seq a < qv_seq b) ?r"
    using assms(1,2) by (auto simp: recent_ok_def sorted_wrt_append)
  then have "sorted_wrt (\<lambda>a b. qv_seq a < qv_seq b) (qs_recentEvents q')"
    unfolding eq keep_last_def by (rule sorted_wrt_drop)
  moreover have "set (qs_recentEvents q') \<subseteq> set ?r" using eq set_keep_last by metis
  moreover have "length (qs_recentEvents q') \<le> MAX_REPLAY_EVENTS"
    using replay.bounded_push [OF len] assms(3) by simp
  ultimately show ?thesis
    using assms(1,2,4) by (auto simp: recent_ok_def less_Suc_eq)
qed

text \<open>
  Every operation that changes the queue changes the snapshot, persists it and emits one event; the
  sequence number of that event is on disk as used before the event is.
\<close>

lemma store_ok_emit:
  assumes ok: "store_ok d q" and s: "snapshot_ok s" "sn_nextEventSeq s = sn_nextEventSeq (qs_snapshot q)"
  shows "store_ok d (emit now ty a (persist (q\<lparr>qs_snapshot := s\<rparr>)))"
proof -
  let ?d0 = "apply_writes d (qs_writes q)" and ?n = "sn_nextEventSeq s"
  let ?s2 = "s\<lparr>sn_nextEventSeq := Suc ?n\<rparr>"
  let ?e = "\<lparr>qv_seq = ?n, qv_at = now, qv_type = ty, qv_attemptId = a\<rparr>"
  let ?d1 = "apply_write ?d0 (Write_snapshot s)" and ?d2 = "apply_write (apply_write ?d0 (Write_snapshot s)) (Write_snapshot ?s2)"
  from ok have j: "journal_ok d (qs_writes q)" and load: "loadSnapshot ?d0 = qs_snapshot q"
    by (simp_all add: store_ok_def)
  have d0: "disk_ok ?d0" by (rule journal_ok_last [OF j])
  then have seqs: "\<forall>n\<in>set (log_seqs ?d0). n < ?n" using s load by (simp add: disk_ok_def)
  have s2: "snapshot_ok ?s2" using s by (simp add: snapshot_ok_def active_ids_def leased_ids_def)
  have d1: "disk_ok ?d1" using disk_ok_write [OF d0 s(1)] s load by simp
  have d2: "disk_ok ?d2" using disk_ok_write [OF d1 s2] by simp
  have d3: "disk_ok (apply_write ?d2 (Append_event ?e))"
    using disk_ok_append [OF d2, of ?e] seqs by simp
  let ?q' = "emit now ty a (persist (q\<lparr>qs_snapshot := s\<rparr>))"
  have w: "qs_writes ?q' = ((qs_writes q @ [Write_snapshot s]) @ [Write_snapshot ?s2]) @ [Append_event ?e]"
    by (simp add: emit_def persist_def Let_def)
  have "journal_ok d (qs_writes ?q')"
    unfolding w journal_ok_snoc using j d1 d2 d3 by (simp del: apply_write.simps)
  moreover have "recent_ok ?q'"
  proof (rule recent_ok_push)
    show "recent_ok q" using ok by (simp add: store_ok_def)
    show "qv_seq ?e = sn_nextEventSeq (qs_snapshot q)" by (simp add: s(2))
  qed (simp_all add: emit_def persist_def Let_def s(2))
  moreover have "loadSnapshot (apply_writes d (qs_writes ?q')) = qs_snapshot ?q'"
    unfolding w by (simp add: emit_def persist_def Let_def)
  ultimately show ?thesis by (simp add: store_ok_def)
qed


lemma snapshot_of_store: "store_ok d q \<Longrightarrow> snapshot_ok (qs_snapshot q)"
  by (metis disk_ok_def journal_ok_last store_ok_def)

lemma drop_lease_of_seq [simp]: "sn_nextEventSeq (drop_lease_of a s) = sn_nextEventSeq s"
  by (simp add: drop_lease_of_def)

lemma store_ok_transition:
  "store_ok d q \<Longrightarrow> st \<noteq> Active \<Longrightarrow>
     store_ok d (snd (finish_transition now a e st ty (drop_lease_of a (qs_snapshot q)) q))"
  by (simp add: finish_transition_def store_ok_emit snapshot_ok_drop snapshot_of_store)

lemma store_ok_enqueue: "store_ok d q \<Longrightarrow> store_ok d (snd (enqueue now a q))"
proof -
  assume ok: "store_ok d q"
  let ?s = "qs_snapshot q" and ?new = "\<lparr>qe_attemptId = a, qe_state = Queued, qe_queuedAt = now, qe_updatedAt = now\<rparr>"
  have put: "store_ok d (emit now Ev_enqueued a (persist (q\<lparr>qs_snapshot := ?s\<lparr>sn_entries := es\<rparr>\<rparr>)))"
    if "find_entry ?s a = None \<and> es = sn_entries ?s @ [?new] \<or>
        (\<exists>x. find_entry ?s a = Some x \<and> qe_state x \<noteq> Active \<and>
             es = update_first (\<lambda>e. qe_attemptId e = a) (\<lambda>_. ?new) (sn_entries ?s))" for es
    using snapshot_ok_enqueue [OF snapshot_of_store [OF ok] that] by (simp add: store_ok_emit [OF ok])
  show ?thesis
  proof (cases "find_entry ?s a")
    case None
    then show ?thesis using put by (simp add: enqueue_def Let_def)
  next
    case (Some x)
    then show ?thesis
      using ok put [of "update_first (\<lambda>e. qe_attemptId e = a) (\<lambda>_. ?new) (sn_entries ?s)"]
      by (auto simp: enqueue_def Let_def TERMINAL_STATES_def)
  qed
qed

lemma store_ok_acquire: "store_ok d q \<Longrightarrow> store_ok d (snd (acquireNextLease now u q))"
proof -
  assume ok: "store_ok d q"
  let ?s = "qs_snapshot q"
  show ?thesis
  proof (cases "sn_lease ?s = None")
    case True
    show ?thesis
    proof (cases "List.find (\<lambda>e. qe_state e = Queued) (sn_entries ?s)")
      case None
      with ok True show ?thesis by (simp add: acquireNextLease_def SCHEDULABLE_STATES_def Let_def)
    next
      case (Some n)
      have "store_ok d (emit now Ev_lease_acquired (qe_attemptId n) (persist (q\<lparr>qs_snapshot :=
          ?s\<lparr>sn_entries := update_first (\<lambda>e. qe_state e = Queued)
              (\<lambda>e. e\<lparr>qe_state := Active, qe_updatedAt := now\<rparr>) (sn_entries ?s),
            sn_lease := Some \<lparr>ql_leaseId = u, ql_attemptId = qe_attemptId n, ql_acquiredAt = now\<rparr>\<rparr>\<rparr>)))"
        using snapshot_ok_acquire [OF snapshot_of_store [OF ok] True Some] by (simp add: store_ok_emit [OF ok])
      with Some True show ?thesis
        by (simp add: acquireNextLease_def SCHEDULABLE_STATES_def Let_def)
    qed
  qed (use ok in \<open>auto simp: acquireNextLease_def Let_def\<close>)
qed

lemma find_entry_lease [simp]: "find_entry (s\<lparr>sn_lease := l\<rparr>) a = find_entry s a"
  by (simp add: find_entry_def)

lemma released_state_inactive [simp]: "released_state out \<noteq> Active"
  by (cases out) (simp_all add: released_state_def)

lemma store_ok_release: "store_ok d q \<Longrightarrow> store_ok d (release now l out q)"
proof -
  assume ok: "store_ok d q"
  note s = snapshot_of_store [OF ok]
  show ?thesis
  proof (cases "sn_lease (qs_snapshot q)")
    case None
    with ok show ?thesis by (simp add: release_def)
  next
    case (Some lease)
    from leased_entry [OF s Some] obtain e where e: "find_entry (qs_snapshot q) (ql_attemptId lease) = Some e"
      by blast
    from snapshot_ok_unlease [OF s Some released_state_inactive] ok Some e show ?thesis
      by (simp add: release_def Let_def store_ok_emit)
  qed
qed

lemma store_ok_reconcile: "store_ok d q \<Longrightarrow> store_ok d (reconcileStaleLeaseOnStartup now q)"
proof -
  assume ok: "store_ok d q"
  note s = snapshot_of_store [OF ok]
  show ?thesis
  proof (cases "sn_lease (qs_snapshot q)")
    case None
    with ok show ?thesis by (simp add: reconcileStaleLeaseOnStartup_def)
  next
    case (Some lease)
    from leased_entry [OF s Some] obtain e
      where e: "find_entry (qs_snapshot q) (ql_attemptId lease) = Some e" "qe_state e = Active" by blast
    from snapshot_ok_unlease [OF s Some, of Queued] ok Some e show ?thesis
      by (simp add: reconcileStaleLeaseOnStartup_def Let_def TERMINAL_STATES_def store_ok_emit)
  qed
qed

lemma store_ok_clear: "store_ok d q \<Longrightarrow> store_ok d (snd (clear q))"
proof -
  assume ok: "store_ok d q"
  let ?e = "emptySnapshot (sn_nextEventSeq (qs_snapshot q))" and ?d0 = "apply_writes d (qs_writes q)"
  from ok have j: "journal_ok d (qs_writes q)" and load: "loadSnapshot ?d0 = qs_snapshot q"
    by (simp_all add: store_ok_def)
  have d1: "disk_ok (apply_write ?d0 (Write_snapshot ?e))"
  proof (rule disk_ok_write [OF journal_ok_last [OF j]])
    show "sn_nextEventSeq (loadSnapshot ?d0) \<le> sn_nextEventSeq ?e" by (simp add: load emptySnapshot_def)
  qed simp
  have w: "qs_writes (snd (clear q)) = (qs_writes q @ [Write_snapshot ?e]) @ [Truncate_log]"
    by (simp add: clear_def persist_def Let_def)
  have "journal_ok d (qs_writes (snd (clear q)))"
    unfolding w journal_ok_snoc using j d1 disk_ok_truncate [OF d1] by (simp del: apply_write.simps)
  moreover have "loadSnapshot (apply_writes d (qs_writes (snd (clear q)))) = qs_snapshot (snd (clear q))"
    unfolding w by (simp add: clear_def persist_def Let_def)
  ultimately show ?thesis
    by (simp add: store_ok_def recent_ok_def clear_def persist_def Let_def)
qed

lemma store_ok_step: "store_ok d q \<Longrightarrow> store_ok d (queue_step q op)"
proof (cases op)
  case (Op_resume now a)
  assume ok: "store_ok d q"
  show ?thesis
  proof (cases "find_entry (qs_snapshot q) a")
    case None
    with ok Op_resume show ?thesis by (simp add: resume_def)
  next
    case (Some e)
    from ok drop_lease_id [OF snapshot_of_store [OF ok] Some] store_ok_transition [OF ok, of Queued now a e Ev_resumed]
    show ?thesis by (auto simp: Op_resume resume_def Some)
  qed
next
  case (Op_subscribe n l)
  assume "store_ok d q"
  then show ?thesis by (simp add: Op_subscribe subscribe_def store_ok_def recent_ok_def)
next
  case (Op_unsubscribe l)
  assume "store_ok d q"
  then show ?thesis by (simp add: Op_unsubscribe unsubscribe_def store_ok_def recent_ok_def)
qed (auto simp: store_ok_enqueue store_ok_acquire store_ok_release store_ok_clear store_ok_transition
      pause_def skip_def cancel_def split: option.split)

lemma parse_log_seqs: "parse_log ls = Some es \<Longrightarrow>
  map qv_seq es = concat (map (\<lambda>l. case l of Line e \<Rightarrow> [qv_seq e] | Torn \<Rightarrow> []) ls)"
  by (induction ls arbitrary: es rule: parse_log.induct) auto

lemma loadRecentEvents_ok:
  assumes "disk_ok d"
  shows "sorted_wrt (\<lambda>a b. qv_seq a < qv_seq b) (loadRecentEvents d n)"
    and "e \<in> set (loadRecentEvents d n) \<Longrightarrow> qv_seq e < sn_nextEventSeq (loadSnapshot d)"
    and "length (loadRecentEvents d n) \<le> MAX_REPLAY_EVENTS"
proof -
  consider "parse_log (dk_log d) = None" | es where "parse_log (dk_log d) = Some es" by (cases "parse_log (dk_log d)") auto
  then have "sorted_wrt (\<lambda>a b. qv_seq a < qv_seq b) (loadRecentEvents d n) \<and>
    (\<forall>e\<in>set (loadRecentEvents d n). qv_seq e < sn_nextEventSeq (loadSnapshot d))"
  proof cases
    case (2 es)
    then have m: "map qv_seq es = log_seqs d" by (simp add: log_seqs_def parse_log_seqs)
    then have sorted: "sorted_wrt (\<lambda>a b. qv_seq a < qv_seq b) es"
      using assms by (metis disk_ok_def sorted_wrt_map)
    have "\<forall>e\<in>set es. qv_seq e < sn_nextEventSeq (loadSnapshot d)"
      using assms m by (metis disk_ok_def image_eqI list.set_map)
    moreover have "sorted_wrt (\<lambda>a b. qv_seq a < qv_seq b) (keep_last MAX_REPLAY_EVENTS (filter (\<lambda>e. n \<le> qv_seq e) es))"
      unfolding keep_last_def using sorted by (intro sorted_wrt_drop sorted_wrt_filter)
    ultimately show ?thesis
      using 2 set_keep_last [of MAX_REPLAY_EVENTS "filter (\<lambda>e. n \<le> qv_seq e) es"]
      by (auto simp: loadRecentEvents_def)
  qed (simp add: loadRecentEvents_def)
  then show "sorted_wrt (\<lambda>a b. qv_seq a < qv_seq b) (loadRecentEvents d n)"
    and "e \<in> set (loadRecentEvents d n) \<Longrightarrow> qv_seq e < sn_nextEventSeq (loadSnapshot d)" by auto
  show "length (loadRecentEvents d n) \<le> MAX_REPLAY_EVENTS"
    by (simp add: loadRecentEvents_def split: option.split)
qed

lemma open_store_eq:
  assumes "disk_ok d"
  shows "open_store now d = reconcileStaleLeaseOnStartup now
           \<lparr>qs_snapshot = loadSnapshot d, qs_recentEvents = loadRecentEvents d (sn_eventReplayFloor (loadSnapshot d)),
            qs_listeners = [], qs_delivered = [], qs_writes = []\<rparr>"
proof -
  let ?r = "loadRecentEvents d (sn_eventReplayFloor (loadSnapshot d))"
  have "(case ?r of [] \<Rightarrow> 0 | _ \<Rightarrow> qv_seq (last ?r) + 1) \<le> sn_nextEventSeq (loadSnapshot d)"
  proof (cases "?r = []")
    case False
    then have "qv_seq (last ?r) < sn_nextEventSeq (loadSnapshot d)"
      using loadRecentEvents_ok(2) [OF assms last_in_set [OF False]] by simp
    with False show ?thesis by (cases ?r) auto
  qed simp
  then show ?thesis by (simp add: open_store_def Let_def not_less)
qed

lemma store_ok_open: "disk_ok d \<Longrightarrow> store_ok d (open_store now d)"
proof -
  assume ok: "disk_ok d"
  then have "store_ok d \<lparr>qs_snapshot = loadSnapshot d,
      qs_recentEvents = loadRecentEvents d (sn_eventReplayFloor (loadSnapshot d)),
      qs_listeners = [], qs_delivered = [], qs_writes = []\<rparr>"
    by (simp add: store_ok_def recent_ok_def journal_ok_Nil loadRecentEvents_ok)
  from store_ok_reconcile [OF this] show ?thesis by (simp add: open_store_eq [OF ok])
qed


text \<open>
  The disks the queue can find at startup: a fresh one, or what a crash of an earlier life left after
  any number of its writes, the last append possibly torn.
\<close>

abbreviation fresh_disk :: queue_disk where
  "fresh_disk \<equiv> \<lparr>dk_snapshot = No_file, dk_log = []\<rparr>"

definition life_writes :: "string \<Rightarrow> queue_disk \<Rightarrow> queue_op list \<Rightarrow> disk_write list" where
  "life_writes now d ops = qs_writes (foldl queue_step (open_store now d) ops)"

inductive reachable_disk :: "queue_disk \<Rightarrow> bool" where
  rd_fresh: "reachable_disk fresh_disk"
| rd_crash: "reachable_disk d \<Longrightarrow> reachable_disk (apply_writes d (take k (life_writes now d ops)))"
| rd_torn: "reachable_disk d \<Longrightarrow> k < length (life_writes now d ops) \<Longrightarrow>
     life_writes now d ops ! k = Append_event e \<Longrightarrow>
     reachable_disk (tear (apply_writes d (take k (life_writes now d ops))))"

interpretation queue_life: step_system "open_store now d" queue_step "\<lambda>q. disk_ok d \<longrightarrow> store_ok d q" for now d
  by unfold_locales (auto intro: store_ok_open store_ok_step)

lemma reachable_disk_ok: "reachable_disk d \<Longrightarrow> disk_ok d"
proof (induction rule: reachable_disk.induct)
  case rd_fresh
  show ?case by (simp add: disk_ok_def loadSnapshot_def log_seqs_def)
next
  case (rd_crash d k now ops)
  with queue_life.invar_reached [of d now ops] show ?case
    by (simp add: life_writes_def store_ok_def journal_ok_def)
next
  case (rd_torn d k now ops e)
  with queue_life.invar_reached [of d now ops] show ?case
    by (simp add: life_writes_def store_ok_def journal_ok_def disk_ok_tear)
qed

lemma store_ok_life: "reachable_disk d \<Longrightarrow> store_ok d (foldl queue_step (open_store now d) ops)"
  using queue_life.invar_reached [of d now ops] reachable_disk_ok by blast

lemma emit_snapshot [simp]:
  "sn_entries (qs_snapshot (emit now ty a q)) = sn_entries (qs_snapshot q)"
  "sn_lease (qs_snapshot (emit now ty a q)) = sn_lease (qs_snapshot q)"
  "sn_nextEventSeq (qs_snapshot (emit now ty a q)) = Suc (sn_nextEventSeq (qs_snapshot q))"
  "qs_snapshot (persist q) = qs_snapshot q"
  by (simp_all add: emit_def persist_def Let_def)

lemma find_entry_emit [simp]: "find_entry (qs_snapshot (emit now ty a q)) b = find_entry (qs_snapshot q) b"
  by (simp add: find_entry_def)

lemma open_store_snapshot:
  assumes ok: "disk_ok d"
  shows "currentLease (open_store now d) = None"
    and "list_entries (open_store now d) =
           map (\<lambda>e. if qe_state e = Active then e\<lparr>qe_state := Queued, qe_updatedAt := now\<rparr> else e)
             (sn_entries (loadSnapshot d))"
    and "sn_nextEventSeq (loadSnapshot d) \<le> sn_nextEventSeq (qs_snapshot (open_store now d))"
proof -
  let ?s = "loadSnapshot d"
  from ok have s: "snapshot_ok ?s" by (simp add: disk_ok_def)
  have "currentLease (open_store now d) = None \<and>
    list_entries (open_store now d) =
      map (\<lambda>e. if qe_state e = Active then e\<lparr>qe_state := Queued, qe_updatedAt := now\<rparr> else e) (sn_entries ?s) \<and>
    sn_nextEventSeq ?s \<le> sn_nextEventSeq (qs_snapshot (open_store now d))"
  proof (cases "sn_lease ?s")
    case None
    with s have "filter (\<lambda>e. qe_state e = Active) (sn_entries ?s) = []"
      by (simp add: snapshot_ok_def active_ids_def leased_ids_def)
    then have "\<forall>e\<in>set (sn_entries ?s). qe_state e \<noteq> Active" by (simp add: filter_empty_conv)
    with None show ?thesis
      by (auto simp: open_store_eq [OF ok] reconcileStaleLeaseOnStartup_def currentLease_def list_entries_def
          intro!: map_idI [symmetric])
  next
    case (Some l)
    from leased_entry [OF s Some] obtain e where e: "find_entry ?s (ql_attemptId l) = Some e" "qe_state e = Active"
      by blast
    have active: "qe_state x = Active \<longleftrightarrow> qe_attemptId x = ql_attemptId l" if "x \<in> set (sn_entries ?s)" for x
    proof
      assume "qe_state x = Active"
      with that have "qe_attemptId x \<in> set (active_ids ?s)" by (auto simp: active_ids_def)
      with s Some show "qe_attemptId x = ql_attemptId l" by (simp add: snapshot_ok_def leased_ids_def)
    next
      assume "qe_attemptId x = ql_attemptId l"
      with that e s show "qe_state x = Active" by (metis find_entry_Some option.inject snapshot_ok_def)
    qed
    from s have "distinct (map qe_attemptId (sn_entries (?s\<lparr>sn_lease := None\<rparr>)))" by (simp add: snapshot_ok_def)
    from set_state_entries [OF this] Some e active show ?thesis
      by (auto simp: open_store_eq [OF ok] reconcileStaleLeaseOnStartup_def currentLease_def list_entries_def
          TERMINAL_STATES_def Let_def)
  qed
  then show "currentLease (open_store now d) = None"
    and "list_entries (open_store now d) =
           map (\<lambda>e. if qe_state e = Active then e\<lparr>qe_state := Queued, qe_updatedAt := now\<rparr> else e)
             (sn_entries (loadSnapshot d))"
    and "sn_nextEventSeq (loadSnapshot d) \<le> sn_nextEventSeq (qs_snapshot (open_store now d))"
    by blast+
qed


section \<open>The properties of the queue\<close>

lemmas queue_eval = currentLease_def list_entries_def open_store_def loadSnapshot_def loadRecentEvents_def
  emptySnapshot_def reconcileStaleLeaseOnStartup_def enqueue_def acquireNextLease_def pause_def
  finish_transition_def find_entry_def emit_def persist_def set_state_def drop_lease_of_def
  TERMINAL_STATES_def SCHEDULABLE_STATES_def keep_last_def Let_def life_writes_def

text \<open>
  C1. Single worker: in every life of the daemon, started on any disk a crash can leave, after any
  sequence of operations the active entries are exactly the leased one (none without a lease), and no
  attempt has two rows.
\<close>

theorem queue_single_worker:
  assumes "reachable_disk d"
  shows "map qe_attemptId (filter (\<lambda>e. qe_state e = Active) (list_entries (foldl queue_step (open_store now d) ops))) =
           (case currentLease (foldl queue_step (open_store now d) ops) of None \<Rightarrow> [] | Some l \<Rightarrow> [ql_attemptId l]) \<and>
         distinct (map qe_attemptId (list_entries (foldl queue_step (open_store now d) ops)))"
  using snapshot_of_store [OF store_ok_life [OF assms]]
  by (simp add: snapshot_ok_def active_ids_def leased_ids_def list_entries_def currentLease_def)

theorem queue_single_worker_witness:
  "map qe_attemptId (filter (\<lambda>e. qe_state e = Active) (list_entries (foldl queue_step (open_store ''t0'' fresh_disk)
     [Op_enqueue ''t1'' ''a'', Op_enqueue ''t2'' ''b'', Op_acquire ''t3'' ''L1'', Op_pause ''t4'' ''a'', Op_acquire ''t5'' ''L2'']))) = [''b'']"
  using queue_single_worker [OF rd_fresh, THEN conjunct1,
      of "''t0''" "[Op_enqueue ''t1'' ''a'', Op_enqueue ''t2'' ''b'', Op_acquire ''t3'' ''L1'', Op_pause ''t4'' ''a'', Op_acquire ''t5'' ''L2'']"]
  by simp (simp add: queue_eval)


text \<open>
  C2. Crash recovery: on every disk a crash can leave, startup holds no lease, requeues exactly the
  entry that was active, keeps every other entry as it was last persisted, and continues with event
  numbers above every number the log has ever seen; and everything a completed operation did is
  already on that disk.
\<close>

theorem queue_crash_recovery:
  assumes "reachable_disk d"
  shows "currentLease (open_store now d) = None \<and>
         list_entries (open_store now d) =
           map (\<lambda>e. if qe_state e = Active then e\<lparr>qe_state := Queued, qe_updatedAt := now\<rparr> else e)
             (sn_entries (loadSnapshot d)) \<and>
         (\<forall>n\<in>set (log_seqs d). n < sn_nextEventSeq (qs_snapshot (open_store now d))) \<and>
         loadSnapshot (apply_writes d (qs_writes (foldl queue_step (open_store now d) ops))) =
           qs_snapshot (foldl queue_step (open_store now d) ops)"
proof -
  note ok = reachable_disk_ok [OF assms]
  have "\<forall>n\<in>set (log_seqs d). n < sn_nextEventSeq (qs_snapshot (open_store now d))"
    using ok open_store_snapshot(3) [OF ok, of now] by (auto simp: disk_ok_def dest: less_le_trans)
  with open_store_snapshot(1,2) [OF ok] store_ok_life [OF assms] show ?thesis
    by (simp add: store_ok_def)
qed

theorem queue_crash_recovery_witness:
  "list_entries (open_store ''t9'' (tear (apply_writes fresh_disk
      (take 5 (life_writes ''t0'' fresh_disk [Op_enqueue ''t1'' ''a'', Op_acquire ''t2'' ''L''])))))
   = [\<lparr>qe_attemptId = ''a'', qe_state = Queued, qe_queuedAt = ''t1'', qe_updatedAt = ''t9''\<rparr>]"
proof -
  let ?ops = "[Op_enqueue ''t1'' ''a'', Op_acquire ''t2'' ''L'']"
  have w: "life_writes ''t0'' fresh_disk ?ops =
    [Write_snapshot \<lparr>sn_entries = [\<lparr>qe_attemptId = ''a'', qe_state = Queued, qe_queuedAt = ''t1'', qe_updatedAt = ''t1''\<rparr>],
       sn_lease = None, sn_nextEventSeq = 0, sn_eventReplayFloor = 0\<rparr>,
     Write_snapshot \<lparr>sn_entries = [\<lparr>qe_attemptId = ''a'', qe_state = Queued, qe_queuedAt = ''t1'', qe_updatedAt = ''t1''\<rparr>],
       sn_lease = None, sn_nextEventSeq = 1, sn_eventReplayFloor = 0\<rparr>,
     Append_event \<lparr>qv_seq = 0, qv_at = ''t1'', qv_type = Ev_enqueued, qv_attemptId = ''a''\<rparr>,
     Write_snapshot \<lparr>sn_entries = [\<lparr>qe_attemptId = ''a'', qe_state = Active, qe_queuedAt = ''t1'', qe_updatedAt = ''t2''\<rparr>],
       sn_lease = Some \<lparr>ql_leaseId = ''L'', ql_attemptId = ''a'', ql_acquiredAt = ''t2''\<rparr>, sn_nextEventSeq = 1, sn_eventReplayFloor = 0\<rparr>,
     Write_snapshot \<lparr>sn_entries = [\<lparr>qe_attemptId = ''a'', qe_state = Active, qe_queuedAt = ''t1'', qe_updatedAt = ''t2''\<rparr>],
       sn_lease = Some \<lparr>ql_leaseId = ''L'', ql_attemptId = ''a'', ql_acquiredAt = ''t2''\<rparr>, sn_nextEventSeq = 2, sn_eventReplayFloor = 0\<rparr>,
     Append_event \<lparr>qv_seq = 1, qv_at = ''t2'', qv_type = Ev_lease_acquired, qv_attemptId = ''a''\<rparr>]"
    by (simp add: queue_eval)
  have "reachable_disk (tear (apply_writes fresh_disk (take 5 (life_writes ''t0'' fresh_disk ?ops))))"
    by (rule rd_torn [OF rd_fresh]) (simp_all add: w)
  from queue_crash_recovery [OF this, THEN conjunct2, THEN conjunct1, of "''t9''"] show ?thesis
    by (simp add: w tear_def loadSnapshot_def raw_of_def)
qed

lemma find_set_state_other: "b \<noteq> a \<Longrightarrow> find_entry (set_state now a st s) b = find_entry s b"
proof -
  assume "b \<noteq> a"
  then have "List.find (\<lambda>e. qe_attemptId e = b) (update_first (\<lambda>e. qe_attemptId e = a) (\<lambda>e. e\<lparr>qe_state := st, qe_updatedAt := now\<rparr>) es) =
      List.find (\<lambda>e. qe_attemptId e = b) es" for es by (induction es) auto
  then show ?thesis by (simp add: find_entry_def set_state_def)
qed

lemma find_drop_lease [simp]: "find_entry (drop_lease_of a s) b = find_entry s b"
  by (simp add: drop_lease_of_def)

lemma find_update_key: "b \<noteq> a \<Longrightarrow> qe_attemptId new = a \<Longrightarrow>
  List.find (\<lambda>e. qe_attemptId e = b) (update_first (\<lambda>e. qe_attemptId e = a) (\<lambda>_. new) es) =
  List.find (\<lambda>e. qe_attemptId e = b) es"
  by (induction es) auto

lemma find_append_other: "qe_attemptId new \<noteq> b \<Longrightarrow>
  List.find (\<lambda>e. qe_attemptId e = b) (es @ [new]) = List.find (\<lambda>e. qe_attemptId e = b) es"
  by (induction es) auto

lemma find_activate:
  "List.find (\<lambda>e. qe_attemptId e = b) es = Some x \<Longrightarrow> qe_state x \<noteq> Queued \<Longrightarrow>
   List.find (\<lambda>e. qe_attemptId e = b) (update_first (\<lambda>e. qe_state e = Queued)
      (\<lambda>e. e\<lparr>qe_state := Active, qe_updatedAt := now\<rparr>) es) = Some x \<or> b \<in> qe_attemptId ` {e \<in> set es. qe_state e = Queued}"
  by (induction es) (auto split: if_splits)


lemma find_acquire_terminal:
  assumes ok: "snapshot_ok s" and x: "find_entry s b = Some x" "qe_state x \<noteq> Queued"
  shows "List.find (\<lambda>e. qe_attemptId e = b) (update_first (\<lambda>e. qe_state e = Queued)
      (\<lambda>e. e\<lparr>qe_state := Active, qe_updatedAt := now\<rparr>) (sn_entries s)) = Some x"
proof -
  have "b \<notin> qe_attemptId ` {e \<in> set (sn_entries s). qe_state e = Queued}"
  proof
    assume "b \<in> qe_attemptId ` {e \<in> set (sn_entries s). qe_state e = Queued}"
    then obtain y where "y \<in> set (sn_entries s)" "qe_attemptId y = b" "qe_state y = Queued" by auto
    with ok x show False by (metis find_entry_Some option.inject snapshot_ok_def)
  qed
  with find_activate [of b "sn_entries s" x now] x show ?thesis by (auto simp: find_entry_def)
qed

lemma terminal_not_leased:
  "snapshot_ok s \<Longrightarrow> find_entry s a = Some e \<Longrightarrow> qe_state e \<in> set TERMINAL_STATES \<Longrightarrow> sn_lease s = Some l \<Longrightarrow>
     ql_attemptId l \<noteq> a"
  using leased_entry [of s l] by (auto simp: TERMINAL_STATES_def)

lemma find_entry_entries [simp]: "find_entry (s\<lparr>sn_entries := es\<rparr>) a = List.find (\<lambda>e. qe_attemptId e = a) es"
  by (simp add: find_entry_def)

lemma terminal_kept_transition:
  "b \<noteq> a \<Longrightarrow> find_entry s b = r \<Longrightarrow> find_entry (qs_snapshot (snd (finish_transition now a e st ty s q))) b = r"
  by (simp add: finish_transition_def find_set_state_other)

lemma terminal_kept:
  assumes ok: "snapshot_ok (qs_snapshot q)" and e: "find_entry (qs_snapshot q) a = Some e"
    and t: "qe_state e \<in> set TERMINAL_STATES" and op: "op \<noteq> Op_clear" "\<forall>now. op \<noteq> Op_enqueue now a"
  shows "find_entry (qs_snapshot (queue_step q op)) a = Some e"
proof (cases op)
  case (Op_enqueue now b)
  with op have "b \<noteq> a" by auto
  with e show ?thesis
    by (simp add: Op_enqueue enqueue_def Let_def find_entry_def find_update_key find_append_other split: option.split)
next
  case (Op_acquire now u)
  from t have "qe_state e \<noteq> Queued" by (auto simp: TERMINAL_STATES_def)
  with e find_acquire_terminal [OF ok e, of now] show ?thesis
    by (simp add: Op_acquire acquireNextLease_def Let_def SCHEDULABLE_STATES_def find_entry_def split: option.split)
next
  case (Op_release now l out)
  with e terminal_not_leased [OF ok e t] show ?thesis
    by (auto simp: release_def Let_def find_set_state_other split: option.split)
next
  case (Op_pause now b)
  with e t show ?thesis
    by (cases "b = a") (auto simp: pause_def TERMINAL_STATES_def terminal_kept_transition split: option.split)
next
  case (Op_resume now b)
  with e t show ?thesis
    by (cases "b = a") (auto simp: resume_def TERMINAL_STATES_def terminal_kept_transition split: option.split)
next
  case (Op_skip now b)
  with e t show ?thesis
    by (cases "b = a") (auto simp: skip_def terminal_kept_transition split: option.split)
next
  case (Op_cancel now b)
  with e t show ?thesis
    by (cases "b = a") (auto simp: cancel_def terminal_kept_transition split: option.split)
qed (use e op in \<open>auto simp: subscribe_def unsubscribe_def\<close>)

text \<open>
  A finished entry is final: in any life of the daemon a cancelled, done or failed entry is left
  exactly as it is by every operation except re-enqueueing that very attempt or clearing the queue.
  In particular a late release, whatever lease id it carries, cannot revive or relabel it.
\<close>

theorem queue_terminal_final:
  assumes "reachable_disk d" and "q = foldl queue_step (open_store now d) ops"
    and "get_entry q a = Some e" and "qe_state e \<in> set TERMINAL_STATES"
    and "op \<noteq> Op_clear" and "\<forall>t. op \<noteq> Op_enqueue t a"
  shows "get_entry (queue_step q op) a = Some e"
  using terminal_kept [OF snapshot_of_store [OF store_ok_life [OF assms(1), of now ops]]] assms(2-)
  by (simp add: get_entry_def)

theorem queue_terminal_final_witness:
  "get_entry (queue_step (foldl queue_step (open_store ''t0'' fresh_disk)
       [Op_enqueue ''t1'' ''a'', Op_acquire ''t2'' ''L'', Op_cancel ''t3'' ''a'']) (Op_release ''t4'' ''L'' Completed)) ''a'' =
     Some \<lparr>qe_attemptId = ''a'', qe_state = Cancelled, qe_queuedAt = ''t1'', qe_updatedAt = ''t3''\<rparr>"
  by (rule queue_terminal_final [OF rd_fresh refl])
    (simp_all add: queue_eval cancel_def get_entry_def)

end
