(* ===== verification/Attempt_Transitions.thy ===== *)
theory Attempt_Transitions
  imports Application_Queue
begin

text \<open>
  The two state machines of one application attempt and how a restart reconciles them
  (\<^verbatim>\<open>apps/desktop/electron/application-attempt-transitions.ts\<close> and
  \<^verbatim>\<open>recoverInterruptedApplicationAttempts\<close> of \<^verbatim>\<open>application-pipeline.ts\<close>).

  The checkpoint of an attempt lives in the desktop's database, its queue state in the daemon's queue of
  theory \<open>Application_Queue\<close>. The fact tables are functions over the two enumerations. Recovery runs over
  the attempts of the database and the daemon's store at once; which of its calls to the daemon and to
  the receipt table fail is a parameter.
\<close>

section \<open>The fact tables\<close>

datatype ApplicationAttemptCheckpoint =
  Cp_queued | Cp_reading_jd | Cp_tailoring | Cp_rendering | Cp_filling | Cp_ready | Cp_submitting | Cp_submitted
| Cp_needs_user | Cp_skipped | Cp_failed | Cp_submission_unknown | Cp_user_reported

datatype ApplicationQueueStateKey = Absent | Present ApplicationQueueEntryState

definition queueStateKey :: "ApplicationQueueEntryState option \<Rightarrow> ApplicationQueueStateKey" where
  "queueStateKey state = (case state of None \<Rightarrow> Absent | Some s \<Rightarrow> Present s)"

definition APPLICATION_QUEUE_STATE_KEYS :: "ApplicationQueueStateKey list" where
  "APPLICATION_QUEUE_STATE_KEYS =
     [Absent, Present Queued, Present Active, Present Paused, Present Cancelled, Present Done, Present Failed]"

definition APPLICATION_ATTEMPT_CHECKPOINT_KEYS :: "ApplicationAttemptCheckpoint list" where
  "APPLICATION_ATTEMPT_CHECKPOINT_KEYS =
     [Cp_queued, Cp_reading_jd, Cp_tailoring, Cp_rendering, Cp_filling, Cp_ready, Cp_submitting, Cp_submitted,
      Cp_needs_user, Cp_skipped, Cp_failed, Cp_submission_unknown, Cp_user_reported]"

record ApplicationCheckpointRole =
  cr_preparationMayRun :: bool
  cr_interruptedWhenAtRest :: bool
  cr_awaitsScheduling :: bool

fun APPLICATION_ATTEMPT_CHECKPOINT_ROLES :: "ApplicationAttemptCheckpoint \<Rightarrow> ApplicationCheckpointRole" where
  "APPLICATION_ATTEMPT_CHECKPOINT_ROLES Cp_queued =
     \<lparr>cr_preparationMayRun = True, cr_interruptedWhenAtRest = False, cr_awaitsScheduling = True\<rparr>"
| "APPLICATION_ATTEMPT_CHECKPOINT_ROLES Cp_reading_jd =
     \<lparr>cr_preparationMayRun = True, cr_interruptedWhenAtRest = True, cr_awaitsScheduling = False\<rparr>"
| "APPLICATION_ATTEMPT_CHECKPOINT_ROLES Cp_tailoring =
     \<lparr>cr_preparationMayRun = True, cr_interruptedWhenAtRest = True, cr_awaitsScheduling = False\<rparr>"
| "APPLICATION_ATTEMPT_CHECKPOINT_ROLES Cp_rendering =
     \<lparr>cr_preparationMayRun = True, cr_interruptedWhenAtRest = True, cr_awaitsScheduling = False\<rparr>"
| "APPLICATION_ATTEMPT_CHECKPOINT_ROLES Cp_filling =
     \<lparr>cr_preparationMayRun = True, cr_interruptedWhenAtRest = True, cr_awaitsScheduling = False\<rparr>"
| "APPLICATION_ATTEMPT_CHECKPOINT_ROLES Cp_ready =
     \<lparr>cr_preparationMayRun = False, cr_interruptedWhenAtRest = False, cr_awaitsScheduling = False\<rparr>"
| "APPLICATION_ATTEMPT_CHECKPOINT_ROLES Cp_submitting =
     \<lparr>cr_preparationMayRun = False, cr_interruptedWhenAtRest = False, cr_awaitsScheduling = False\<rparr>"
| "APPLICATION_ATTEMPT_CHECKPOINT_ROLES Cp_submitted =
     \<lparr>cr_preparationMayRun = False, cr_interruptedWhenAtRest = False, cr_awaitsScheduling = False\<rparr>"
| "APPLICATION_ATTEMPT_CHECKPOINT_ROLES Cp_submission_unknown =
     \<lparr>cr_preparationMayRun = False, cr_interruptedWhenAtRest = False, cr_awaitsScheduling = False\<rparr>"
| "APPLICATION_ATTEMPT_CHECKPOINT_ROLES Cp_needs_user =
     \<lparr>cr_preparationMayRun = False, cr_interruptedWhenAtRest = False, cr_awaitsScheduling = False\<rparr>"
| "APPLICATION_ATTEMPT_CHECKPOINT_ROLES Cp_skipped =
     \<lparr>cr_preparationMayRun = False, cr_interruptedWhenAtRest = False, cr_awaitsScheduling = False\<rparr>"
| "APPLICATION_ATTEMPT_CHECKPOINT_ROLES Cp_failed =
     \<lparr>cr_preparationMayRun = False, cr_interruptedWhenAtRest = False, cr_awaitsScheduling = False\<rparr>"
| "APPLICATION_ATTEMPT_CHECKPOINT_ROLES Cp_user_reported =
     \<lparr>cr_preparationMayRun = False, cr_interruptedWhenAtRest = False, cr_awaitsScheduling = False\<rparr>"

record ApplicationAttemptHalt =
  ah_checkpoint :: ApplicationAttemptCheckpoint
  ah_detail :: string

datatype ApplicationQueueDirective = Continue | Halt ApplicationAttemptHalt

definition CONTINUE :: ApplicationQueueDirective where
  "CONTINUE = Continue"

record ApplicationQueueStateRole =
  qr_duringRun :: ApplicationQueueDirective
  qr_recoveryMayReQueue :: bool

fun APPLICATION_QUEUE_STATE_ROLES :: "ApplicationQueueStateKey \<Rightarrow> ApplicationQueueStateRole" where
  "APPLICATION_QUEUE_STATE_ROLES Absent = \<lparr>qr_duringRun = CONTINUE, qr_recoveryMayReQueue = True\<rparr>"
| "APPLICATION_QUEUE_STATE_ROLES (Present Queued) = \<lparr>qr_duringRun = CONTINUE, qr_recoveryMayReQueue = False\<rparr>"
| "APPLICATION_QUEUE_STATE_ROLES (Present Active) = \<lparr>qr_duringRun = CONTINUE, qr_recoveryMayReQueue = False\<rparr>"
| "APPLICATION_QUEUE_STATE_ROLES (Present Paused) =
     \<lparr>qr_duringRun = Halt \<lparr>ah_checkpoint = Cp_queued, ah_detail = ''paused; it will pick up again when you resume it''\<rparr>,
      qr_recoveryMayReQueue = False\<rparr>"
| "APPLICATION_QUEUE_STATE_ROLES (Present Cancelled) =
     \<lparr>qr_duringRun = Halt \<lparr>ah_checkpoint = Cp_skipped, ah_detail = ''this application was cancelled from the queue''\<rparr>,
      qr_recoveryMayReQueue = False\<rparr>"
| "APPLICATION_QUEUE_STATE_ROLES (Present Done) = \<lparr>qr_duringRun = CONTINUE, qr_recoveryMayReQueue = True\<rparr>"
| "APPLICATION_QUEUE_STATE_ROLES (Present Failed) = \<lparr>qr_duringRun = CONTINUE, qr_recoveryMayReQueue = True\<rparr>"


section \<open>The combined verdicts\<close>

datatype ApplicationAttemptTransition = Already_settled | Halt_attempt ApplicationAttemptHalt | Prepare

record ApplicationAttemptRestart =
  ar_checkpoint :: ApplicationAttemptCheckpoint
  ar_detail :: string

datatype ApplicationAttemptRecovery = Restart ApplicationAttemptRestart | Recovery_requeue | Leave

definition INTERRUPTED_ATTEMPT_RESTART :: ApplicationAttemptRestart where
  "INTERRUPTED_ATTEMPT_RESTART = \<lparr>ar_checkpoint = Cp_queued,
     ar_detail = ''the app closed while this was being prepared; it will start again from the beginning''\<rparr>"

definition INTERRUPTED_SUBMISSION_RECOVERY :: ApplicationAttemptRestart where
  "INTERRUPTED_SUBMISSION_RECOVERY = \<lparr>ar_checkpoint = Cp_submission_unknown,
     ar_detail = ''the app closed during submission; this application may or may not have been sent, so it will not be sent again automatically''\<rparr>"

definition isInterruptedSubmission :: "ApplicationAttemptCheckpoint \<Rightarrow> bool" where
  "isInterruptedSubmission checkpoint \<longleftrightarrow> checkpoint = Cp_submitting"

definition isSettledCheckpoint :: "ApplicationAttemptCheckpoint \<Rightarrow> bool" where
  "isSettledCheckpoint checkpoint \<longleftrightarrow> \<not> cr_preparationMayRun (APPLICATION_ATTEMPT_CHECKPOINT_ROLES checkpoint)"

definition isInterruptedCheckpoint :: "ApplicationAttemptCheckpoint \<Rightarrow> bool" where
  "isInterruptedCheckpoint checkpoint = cr_interruptedWhenAtRest (APPLICATION_ATTEMPT_CHECKPOINT_ROLES checkpoint)"

definition awaitsScheduling :: "ApplicationAttemptCheckpoint \<Rightarrow> bool" where
  "awaitsScheduling checkpoint = cr_awaitsScheduling (APPLICATION_ATTEMPT_CHECKPOINT_ROLES checkpoint)"

definition resolveQueueDirective :: "ApplicationQueueEntryState option \<Rightarrow> ApplicationQueueDirective" where
  "resolveQueueDirective state = qr_duringRun (APPLICATION_QUEUE_STATE_ROLES (queueStateKey state))"

definition resolveAttemptTransition ::
  "ApplicationAttemptCheckpoint \<Rightarrow> ApplicationQueueEntryState option \<Rightarrow> ApplicationAttemptTransition" where
  "resolveAttemptTransition checkpoint queueState =
     (if isSettledCheckpoint checkpoint then Already_settled
      else case resolveQueueDirective queueState of Halt h \<Rightarrow> Halt_attempt h | Continue \<Rightarrow> Prepare)"

definition resolveAttemptRecovery ::
  "ApplicationAttemptCheckpoint \<Rightarrow> ApplicationQueueEntryState option \<Rightarrow> ApplicationAttemptRecovery" where
  "resolveAttemptRecovery checkpoint queueState =
     (if isInterruptedCheckpoint checkpoint then Restart INTERRUPTED_ATTEMPT_RESTART
      else if \<not> awaitsScheduling checkpoint then Leave
      else if qr_recoveryMayReQueue (APPLICATION_QUEUE_STATE_ROLES (queueStateKey queueState)) then Recovery_requeue else Leave)"


section \<open>Recovery after a restart\<close>

text \<open>The columns of an attempt that recovery reads or writes; \<open>at_preparedFields\<close> is whether any are recorded.\<close>

record application_attempt =
  at_id :: string
  at_checkpoint :: ApplicationAttemptCheckpoint
  at_checkpointDetail :: string
  at_preparedFields :: bool
  at_submittedAt :: "string option"
  at_canonicalUrl :: string

record submission_receipt =
  sr_attemptId :: string
  sr_destination :: string
  sr_detail :: string
  sr_observedAt :: string

record recovery_state =
  rc_attempts :: "application_attempt list"
  rc_receipts :: "submission_receipt list"
  rc_queue :: queue_store
  rc_recovered :: "(string \<times> ApplicationAttemptCheckpoint) list"

text \<open>Which calls of the pipeline's dependencies succeed, and the clocks of the two processes.\<close>

record recovery_env =
  en_enqueue_up :: "string \<Rightarrow> bool"
  en_read_up :: "string \<Rightarrow> bool"
  en_receipt_up :: "string \<Rightarrow> bool"
  en_daemonNow :: "string \<Rightarrow> string"
  en_nowIso :: "string \<Rightarrow> string"

definition updateApplicationAttempt ::
  "string \<Rightarrow> (application_attempt \<Rightarrow> application_attempt) \<Rightarrow> application_attempt list \<Rightarrow> application_attempt list" where
  "updateApplicationAttempt i f attempts = update_first (\<lambda>a. at_id a = i) f attempts"

definition recovery_enqueue :: "recovery_env \<Rightarrow> string \<Rightarrow> queue_store \<Rightarrow> queue_store" where
  "recovery_enqueue env attemptId q =
     (if en_enqueue_up env attemptId then snd (enqueue (en_daemonNow env attemptId) attemptId q) else q)"

definition recover_interrupted :: "recovery_env \<Rightarrow> recovery_state \<Rightarrow> application_attempt \<Rightarrow> recovery_state" where
  "recover_interrupted env s attempt =
     s\<lparr>rc_attempts := updateApplicationAttempt (at_id attempt)
         (\<lambda>a. a\<lparr>at_checkpoint := ar_checkpoint INTERRUPTED_ATTEMPT_RESTART,
                 at_checkpointDetail := ar_detail INTERRUPTED_ATTEMPT_RESTART, at_preparedFields := False\<rparr>) (rc_attempts s),
       rc_queue := recovery_enqueue env (at_id attempt) (rc_queue s),
       rc_recovered := rc_recovered s @ [(at_id attempt, at_checkpoint attempt)]\<rparr>"

definition recover_submission :: "recovery_env \<Rightarrow> recovery_state \<Rightarrow> application_attempt \<Rightarrow> recovery_state" where
  "recover_submission env s attempt =
     (let observedAt = en_nowIso env (at_id attempt);
          receipt = \<lparr>sr_attemptId = at_id attempt, sr_destination = at_canonicalUrl attempt,
                     sr_detail = ar_detail INTERRUPTED_SUBMISSION_RECOVERY, sr_observedAt = observedAt\<rparr>
      in s\<lparr>rc_receipts := (if en_receipt_up env (at_id attempt) then rc_receipts s @ [receipt] else rc_receipts s),
           rc_attempts := updateApplicationAttempt (at_id attempt)
             (\<lambda>a. a\<lparr>at_checkpoint := ar_checkpoint INTERRUPTED_SUBMISSION_RECOVERY,
                     at_checkpointDetail := ar_detail INTERRUPTED_SUBMISSION_RECOVERY, at_submittedAt := Some observedAt\<rparr>) (rc_attempts s),
           rc_recovered := rc_recovered s @ [(at_id attempt, at_checkpoint attempt)]\<rparr>)"

definition recover_stranded :: "recovery_env \<Rightarrow> recovery_state \<Rightarrow> application_attempt \<Rightarrow> recovery_state" where
  "recover_stranded env s attempt =
     (if at_id attempt \<in> fst ` set (rc_recovered s) \<or> \<not> en_read_up env (at_id attempt) then s
      else if resolveAttemptRecovery (at_checkpoint attempt) (map_option qe_state (get_entry (rc_queue s) (at_id attempt))) \<noteq> Recovery_requeue
      then s
      else s\<lparr>rc_queue := recovery_enqueue env (at_id attempt) (rc_queue s),
             rc_recovered := rc_recovered s @ [(at_id attempt, Cp_queued)]\<rparr>)"

definition recoverInterruptedApplicationAttempts ::
  "recovery_env \<Rightarrow> application_attempt list \<Rightarrow> submission_receipt list \<Rightarrow> queue_store \<Rightarrow> recovery_state" where
  "recoverInterruptedApplicationAttempts env attempts receipts q =
     (let s0 = \<lparr>rc_attempts = attempts, rc_receipts = receipts, rc_queue = q, rc_recovered = []\<rparr>;
          s1 = foldl (recover_interrupted env) s0 (filter (\<lambda>a. isInterruptedCheckpoint (at_checkpoint a)) attempts);
          s2 = foldl (recover_submission env) s1 (filter (\<lambda>a. isInterruptedSubmission (at_checkpoint a)) attempts)
      in foldl (recover_stranded env) s2 (filter (\<lambda>a. at_checkpoint a = Cp_queued) attempts))"



section \<open>What recovery does to the queue\<close>

definition live_entry :: "queue_store \<Rightarrow> string \<Rightarrow> bool" where
  "live_entry q i \<longleftrightarrow> (\<exists>e. get_entry q i = Some e \<and> qe_state e \<notin> set TERMINAL_STATES)"

lemma find_update_hit:
  "List.find (\<lambda>e. qe_attemptId e = i) es = Some x \<Longrightarrow> qe_attemptId new = i \<Longrightarrow>
   List.find (\<lambda>e. qe_attemptId e = i) (update_first (\<lambda>e. qe_attemptId e = i) (\<lambda>_. new) es) = Some new"
  by (induction es) auto

lemma find_append_hit:
  "List.find (\<lambda>e. qe_attemptId e = i) es = None \<Longrightarrow> qe_attemptId new = i \<Longrightarrow>
   List.find (\<lambda>e. qe_attemptId e = i) (es @ [new]) = Some new"
  by (induction es) (auto split: if_splits)

lemma enqueue_other: "j \<noteq> i \<Longrightarrow> get_entry (snd (enqueue now j q)) i = get_entry q i"
  by (auto simp: get_entry_def enqueue_def Let_def find_entry_def find_update_key find_append_other split: option.split)

lemma enqueue_live: "live_entry (snd (enqueue now i q)) i"
proof (cases "find_entry (qs_snapshot q) i")
  case None
  then show ?thesis
    by (auto simp: live_entry_def get_entry_def enqueue_def Let_def find_entry_def find_append_hit TERMINAL_STATES_def)
next
  case (Some x)
  show ?thesis
  proof (cases "qe_state x \<in> set TERMINAL_STATES")
    case False
    with Some show ?thesis by (auto simp: live_entry_def get_entry_def enqueue_def Let_def)
  next
    case True
    with Some find_update_hit [of i "sn_entries (qs_snapshot q)" x] show ?thesis
      by (auto simp: live_entry_def get_entry_def enqueue_def Let_def find_entry_def TERMINAL_STATES_def)
  qed
qed

lemma enqueue_keeps_live: "live_entry q i \<Longrightarrow> live_entry (snd (enqueue now j q)) i"
proof (cases "j = i")
  case True
  then show ?thesis by (simp add: enqueue_live)
next
  case False
  moreover assume "live_entry q i"
  ultimately show ?thesis by (simp add: live_entry_def enqueue_other)
qed

lemma recovery_enqueue_other: "j \<noteq> i \<Longrightarrow> get_entry (recovery_enqueue env j q) i = get_entry q i"
  by (simp add: recovery_enqueue_def enqueue_other)

lemma recovery_enqueue_keeps: "live_entry q i \<Longrightarrow> live_entry (recovery_enqueue env j q) i"
  by (simp add: recovery_enqueue_def enqueue_keeps_live)

lemma recovery_enqueue_live: "en_enqueue_up env i \<Longrightarrow> live_entry (recovery_enqueue env i q) i"
  by (simp add: recovery_enqueue_def enqueue_live)

text \<open>Each of the three loops: what it keeps, and what it does for the attempts it visits.\<close>

lemma interrupted_loop:
  fixes s :: recovery_state and env :: recovery_env
  defines "t \<equiv> \<lambda>s L. foldl (recover_interrupted env) s L"
  shows "live_entry (rc_queue s) i \<Longrightarrow> live_entry (rc_queue (t s L)) i"
    and "a \<in> set L \<Longrightarrow> en_enqueue_up env (at_id a) \<Longrightarrow> live_entry (rc_queue (t s L)) (at_id a)"
    and "i \<notin> at_id ` set L \<Longrightarrow> get_entry (rc_queue (t s L)) i = get_entry (rc_queue s) i"
    and "fst ` set (rc_recovered (t s L)) = fst ` set (rc_recovered s) \<union> at_id ` set L"
    and "rc_attempts (t s L) = foldl (\<lambda>ys a. update_first (\<lambda>x. at_id x = at_id a)
        (\<lambda>x. x\<lparr>at_checkpoint := ar_checkpoint INTERRUPTED_ATTEMPT_RESTART,
              at_checkpointDetail := ar_detail INTERRUPTED_ATTEMPT_RESTART, at_preparedFields := False\<rparr>) ys) (rc_attempts s) L"
proof -
  show keep: "live_entry (rc_queue s) i \<Longrightarrow> live_entry (rc_queue (t s L)) i" for s i L
    unfolding t_def by (induction L arbitrary: s) (auto simp: recover_interrupted_def recovery_enqueue_keeps)
  show "a \<in> set L \<Longrightarrow> en_enqueue_up env (at_id a) \<Longrightarrow> live_entry (rc_queue (t s L)) (at_id a)"
  proof (induction L arbitrary: s)
    case (Cons b L)
    show ?case
    proof (cases "a = b")
      case True
      with Cons.prems keep [of "recover_interrupted env s b" "at_id a" L] show ?thesis
        by (simp add: t_def recover_interrupted_def recovery_enqueue_live)
    qed (use Cons in \<open>auto simp: t_def\<close>)
  qed simp
  show "i \<notin> at_id ` set L \<Longrightarrow> get_entry (rc_queue (t s L)) i = get_entry (rc_queue s) i"
    unfolding t_def by (induction L arbitrary: s) (auto simp: recover_interrupted_def recovery_enqueue_other)
  show "fst ` set (rc_recovered (t s L)) = fst ` set (rc_recovered s) \<union> at_id ` set L"
    unfolding t_def by (induction L arbitrary: s) (auto simp: recover_interrupted_def)
  show "rc_attempts (t s L) = foldl (\<lambda>ys a. update_first (\<lambda>x. at_id x = at_id a)
        (\<lambda>x. x\<lparr>at_checkpoint := ar_checkpoint INTERRUPTED_ATTEMPT_RESTART,
              at_checkpointDetail := ar_detail INTERRUPTED_ATTEMPT_RESTART, at_preparedFields := False\<rparr>) ys) (rc_attempts s) L"
    unfolding t_def by (induction L arbitrary: s) (auto simp: recover_interrupted_def updateApplicationAttempt_def)
qed

lemma submission_loop:
  "rc_queue (foldl (recover_submission env) s L) = rc_queue s"
  "fst ` set (rc_recovered (foldl (recover_submission env) s L)) = fst ` set (rc_recovered s) \<union> at_id ` set L"
  "rc_attempts (foldl (recover_submission env) s L) = foldl (\<lambda>ys a. update_first (\<lambda>x. at_id x = at_id a)
     (\<lambda>x. x\<lparr>at_checkpoint := ar_checkpoint INTERRUPTED_SUBMISSION_RECOVERY,
           at_checkpointDetail := ar_detail INTERRUPTED_SUBMISSION_RECOVERY, at_submittedAt := Some (en_nowIso env (at_id a))\<rparr>) ys)
     (rc_attempts s) L"
  by (induction L arbitrary: s) (auto simp: recover_submission_def Let_def updateApplicationAttempt_def)

lemma stranded_loop:
  fixes s :: recovery_state and env :: recovery_env
  defines "t \<equiv> \<lambda>s L. foldl (recover_stranded env) s L"
  shows "rc_attempts (t s L) = rc_attempts s"
    and "live_entry (rc_queue s) i \<Longrightarrow> live_entry (rc_queue (t s L)) i"
    and "i \<notin> at_id ` set L \<Longrightarrow> get_entry (rc_queue (t s L)) i = get_entry (rc_queue s) i"
  unfolding t_def
  by (induction L arbitrary: s) (auto simp: recover_stranded_def recovery_enqueue_keeps recovery_enqueue_other)

lemma stranded_visited:
  assumes "distinct (map at_id L)" "a \<in> set L" "at_checkpoint a = Cp_queued" "en_enqueue_up env (at_id a)" "en_read_up env (at_id a)"
    and "at_id a \<notin> fst ` set (rc_recovered s)"
    and "\<not> (\<exists>e. get_entry (rc_queue s) (at_id a) = Some e \<and> qe_state e = Cancelled)"
  shows "live_entry (rc_queue (foldl (recover_stranded env) s L)) (at_id a)"
  using assms
proof (induction L arbitrary: s)
  case (Cons b L)
  let ?s = "recover_stranded env s b"
  show ?case
  proof (cases "a = b")
    case False
    with Cons.prems have ne: "at_id b \<noteq> at_id a" by (auto simp: image_iff)
    have "at_id a \<notin> fst ` set (rc_recovered ?s)" "get_entry (rc_queue ?s) (at_id a) = get_entry (rc_queue s) (at_id a)"
      using Cons.prems(6) ne by (auto simp: recover_stranded_def recovery_enqueue_other)
    with Cons False show ?thesis by simp
  next
    case True
    have "live_entry (rc_queue ?s) (at_id a)"
    proof (cases "live_entry (rc_queue s) (at_id a)")
      case live: True
      then show ?thesis by (auto simp: recover_stranded_def recovery_enqueue_keeps)
    next
      case False
      with Cons.prems(7) have "qr_recoveryMayReQueue (APPLICATION_QUEUE_STATE_ROLES
          (queueStateKey (map_option qe_state (get_entry (rc_queue s) (at_id a)))))"
        by (cases "get_entry (rc_queue s) (at_id a)")
          (auto simp: live_entry_def TERMINAL_STATES_def queueStateKey_def elim: APPLICATION_QUEUE_STATE_ROLES.elims)
      with Cons.prems True show ?thesis
        by (simp add: recover_stranded_def resolveAttemptRecovery_def isInterruptedCheckpoint_def awaitsScheduling_def recovery_enqueue_live)
    qed
    then show ?thesis using stranded_loop(2) [of ?s "at_id a" env L] by simp
  qed
qed simp


text \<open>What recovery leaves in the row of one attempt.\<close>

definition recovered_attempt :: "recovery_env \<Rightarrow> application_attempt \<Rightarrow> application_attempt" where
  "recovered_attempt env a =
     (if isInterruptedCheckpoint (at_checkpoint a)
      then a\<lparr>at_checkpoint := Cp_queued, at_checkpointDetail := ar_detail INTERRUPTED_ATTEMPT_RESTART, at_preparedFields := False\<rparr>
      else if at_checkpoint a = Cp_submitting
      then a\<lparr>at_checkpoint := Cp_submission_unknown, at_checkpointDetail := ar_detail INTERRUPTED_SUBMISSION_RECOVERY,
             at_submittedAt := Some (en_nowIso env (at_id a))\<rparr>
      else a)"

lemma recovery_attempts:
  assumes d: "distinct (map at_id attempts)"
  shows "rc_attempts (recoverInterruptedApplicationAttempts env attempts receipts q) = map (recovered_attempt env) attempts"
proof -
  let ?P = "\<lambda>a. isInterruptedCheckpoint (at_checkpoint a)" and ?Q = "\<lambda>a. isInterruptedSubmission (at_checkpoint a)"
  let ?f = "\<lambda>x. x\<lparr>at_checkpoint := ar_checkpoint INTERRUPTED_ATTEMPT_RESTART,
              at_checkpointDetail := ar_detail INTERRUPTED_ATTEMPT_RESTART, at_preparedFields := False\<rparr>"
  let ?g = "\<lambda>a x. x\<lparr>at_checkpoint := ar_checkpoint INTERRUPTED_SUBMISSION_RECOVERY,
           at_checkpointDetail := ar_detail INTERRUPTED_SUBMISSION_RECOVERY, at_submittedAt := Some (en_nowIso env (at_id a))\<rparr>"
  let ?h = "\<lambda>x. if ?P x then ?f x else x"
  let ?loop1 = "foldl (\<lambda>ys a. update_first (\<lambda>x. at_id x = at_id a) ?f ys) attempts (filter ?P attempts)"
  have l1: "?loop1 = map ?h attempts"
    using foldl_update_filter [where k = at_id and f = "\<lambda>_. ?f" and g = "\<lambda>x. x" and P = ?P, OF d] by simp
  have l2: "foldl (\<lambda>ys a. update_first (\<lambda>x. at_id x = at_id a) (?g a) ys) (map ?h attempts) (filter ?Q attempts) =
      map (\<lambda>x. if ?Q x then ?g x (?h x) else ?h x) attempts"
    by (rule foldl_update_filter [where k = at_id and f = ?g and g = ?h and P = ?Q, OF d]) simp_all
  have "rc_attempts (recoverInterruptedApplicationAttempts env attempts receipts q) = map (\<lambda>x. if ?Q x then ?g x (?h x) else ?h x) attempts"
    unfolding recoverInterruptedApplicationAttempts_def Let_def stranded_loop(1) submission_loop(3) interrupted_loop(5)
    by (simp only: recovery_state.simps l1 l2)
  also have "\<dots> = map (recovered_attempt env) attempts"
    by (auto simp: recovered_attempt_def isInterruptedSubmission_def isInterruptedCheckpoint_def
        INTERRUPTED_ATTEMPT_RESTART_def INTERRUPTED_SUBMISSION_RECOVERY_def)
  finally show ?thesis .
qed

lemma checkpoint_partition:
  "isSettledCheckpoint c \<and> \<not> isInterruptedCheckpoint c \<and> \<not> awaitsScheduling c \<or>
   \<not> isSettledCheckpoint c \<and> isInterruptedCheckpoint c \<and> \<not> awaitsScheduling c \<or>
   \<not> isSettledCheckpoint c \<and> \<not> isInterruptedCheckpoint c \<and> awaitsScheduling c"
  by (cases c) (simp_all add: isSettledCheckpoint_def isInterruptedCheckpoint_def awaitsScheduling_def)

lemma id_in_filter:
  "distinct (map at_id xs) \<Longrightarrow> a \<in> set xs \<Longrightarrow> at_id a \<in> at_id ` set (filter P xs) \<longleftrightarrow> P a"
  by (auto simp: distinct_map inj_on_def)

lemma recovery_queue:
  assumes d: "distinct (map at_id attempts)" and a: "a \<in> set attempts"
    and up: "\<forall>i. en_enqueue_up env i \<and> en_read_up env i"
  shows "isInterruptedCheckpoint (at_checkpoint a) \<Longrightarrow>
           live_entry (rc_queue (recoverInterruptedApplicationAttempts env attempts receipts q)) (at_id a)"
    and "at_checkpoint a = Cp_queued \<Longrightarrow> \<not> (\<exists>e. get_entry q (at_id a) = Some e \<and> qe_state e = Cancelled) \<Longrightarrow>
           live_entry (rc_queue (recoverInterruptedApplicationAttempts env attempts receipts q)) (at_id a)"
    and "isSettledCheckpoint (at_checkpoint a) \<Longrightarrow>
           get_entry (rc_queue (recoverInterruptedApplicationAttempts env attempts receipts q)) (at_id a) = get_entry q (at_id a)"
proof -
  let ?F = "\<lambda>P. filter (\<lambda>a. P (at_checkpoint a)) attempts"
  let ?s0 = "\<lparr>rc_attempts = attempts, rc_receipts = receipts, rc_queue = q, rc_recovered = []\<rparr>"
  let ?s1 = "foldl (recover_interrupted env) ?s0 (?F isInterruptedCheckpoint)"
  let ?s2 = "foldl (recover_submission env) ?s1 (?F isInterruptedSubmission)"
  let ?s3 = "foldl (recover_stranded env) ?s2 (?F (\<lambda>c. c = Cp_queued))"
  have eq: "recoverInterruptedApplicationAttempts env attempts receipts q = ?s3"
    by (simp add: recoverInterruptedApplicationAttempts_def Let_def)
  note mem = id_in_filter [OF d a]
  note part = checkpoint_partition [of "at_checkpoint a"]
  have q2: "rc_queue ?s2 = rc_queue ?s1" by (rule submission_loop(1))
  show "isInterruptedCheckpoint (at_checkpoint a) \<Longrightarrow>
      live_entry (rc_queue (recoverInterruptedApplicationAttempts env attempts receipts q)) (at_id a)"
    unfolding eq using a up by (intro stranded_loop(2)) (simp add: q2 interrupted_loop(2))
  show "isSettledCheckpoint (at_checkpoint a) \<Longrightarrow>
      get_entry (rc_queue (recoverInterruptedApplicationAttempts env attempts receipts q)) (at_id a) = get_entry q (at_id a)"
  proof -
    assume st: "isSettledCheckpoint (at_checkpoint a)"
    then have "at_checkpoint a \<noteq> Cp_queued" by (auto simp: isSettledCheckpoint_def)
    then have "get_entry (rc_queue ?s3) (at_id a) = get_entry (rc_queue ?s2) (at_id a)"
      by (intro stranded_loop(3)) (simp only: mem, simp)
    also have "\<dots> = get_entry (rc_queue ?s0) (at_id a)"
      unfolding q2 using st part by (intro interrupted_loop(3)) (simp only: mem, simp)
    finally show ?thesis by (simp add: eq)
  qed
  show "at_checkpoint a = Cp_queued \<Longrightarrow> \<not> (\<exists>e. get_entry q (at_id a) = Some e \<and> qe_state e = Cancelled) \<Longrightarrow>
      live_entry (rc_queue (recoverInterruptedApplicationAttempts env attempts receipts q)) (at_id a)"
  proof -
    assume c: "at_checkpoint a = Cp_queued" and nc: "\<not> (\<exists>e. get_entry q (at_id a) = Some e \<and> qe_state e = Cancelled)"
    have ni: "\<not> isInterruptedCheckpoint (at_checkpoint a)" "\<not> isInterruptedSubmission (at_checkpoint a)"
      by (simp_all add: c isInterruptedCheckpoint_def isInterruptedSubmission_def)
    then have "at_id a \<notin> fst ` set (rc_recovered ?s2)"
      unfolding submission_loop(2) interrupted_loop(4) by (simp only: mem Un_iff) simp
    moreover have "get_entry (rc_queue ?s2) (at_id a) = get_entry (rc_queue ?s0) (at_id a)"
      unfolding q2 using ni by (intro interrupted_loop(3)) (simp only: mem, simp)
    moreover have "distinct (map at_id (?F (\<lambda>c. c = Cp_queued)))" using d by (simp add: distinct_map_filter)
    ultimately show ?thesis
      unfolding eq using a c nc up by (intro stranded_visited) auto
  qed
qed


section \<open>The properties of the transitions and of recovery\<close>

text \<open>
  C3. Recovery after a restart, with the daemon reachable: every interrupted attempt is back at the queued
  checkpoint with its half-written fields cleared and has a live entry in the daemon's queue; an attempt
  caught while submitting becomes an unknown submission; every other row is untouched. An attempt that
  was waiting is live in the queue again unless its entry was cancelled, and nothing that is settled is
  ever put into the queue, so no application that may already have been sent is prepared again.
\<close>

theorem restart_recovery:
  assumes "distinct (map at_id attempts)" and "\<forall>i. en_enqueue_up env i \<and> en_read_up env i" and "a \<in> set attempts"
    and "s = recoverInterruptedApplicationAttempts env attempts receipts q"
  shows "rc_attempts s = map (recovered_attempt env) attempts \<and>
         (isInterruptedCheckpoint (at_checkpoint a) \<longrightarrow> live_entry (rc_queue s) (at_id a)) \<and>
         (at_checkpoint a = Cp_queued \<longrightarrow>
            live_entry (rc_queue s) (at_id a) \<or> (\<exists>e. get_entry q (at_id a) = Some e \<and> qe_state e = Cancelled)) \<and>
         (isSettledCheckpoint (at_checkpoint a) \<longrightarrow> get_entry (rc_queue s) (at_id a) = get_entry q (at_id a)) \<and>
         (\<forall>st. resolveAttemptTransition (at_checkpoint (recovered_attempt env a)) st = Prepare \<longrightarrow>
            \<not> isSettledCheckpoint (at_checkpoint a))"
proof -
  have "\<not> isSettledCheckpoint (at_checkpoint a)"
    if "resolveAttemptTransition (at_checkpoint (recovered_attempt env a)) st = Prepare" for st
    using that by (cases "at_checkpoint a")
      (auto simp: resolveAttemptTransition_def recovered_attempt_def isSettledCheckpoint_def isInterruptedCheckpoint_def)
  with recovery_attempts [OF assms(1)] recovery_queue [OF assms(1,3,2)] show ?thesis
    unfolding assms(4) by blast
qed

definition ex_attempt :: "string \<Rightarrow> ApplicationAttemptCheckpoint \<Rightarrow> application_attempt" where
  "ex_attempt i c = \<lparr>at_id = i, at_checkpoint = c, at_checkpointDetail = [], at_preparedFields = True,
     at_submittedAt = None, at_canonicalUrl = ''https://x''\<rparr>"

definition ex_env :: recovery_env where
  "ex_env = \<lparr>en_enqueue_up = (\<lambda>_. True), en_read_up = (\<lambda>_. True), en_receipt_up = (\<lambda>_. True),
     en_daemonNow = (\<lambda>_. ''t8''), en_nowIso = (\<lambda>_. ''t9'')\<rparr>"

theorem restart_recovery_witness:
  "map at_checkpoint (rc_attempts (recoverInterruptedApplicationAttempts ex_env
     [ex_attempt ''a'' Cp_tailoring, ex_attempt ''b'' Cp_submitting, ex_attempt ''c'' Cp_ready] [] (open_store ''t0'' fresh_disk))) =
   [Cp_queued, Cp_submission_unknown, Cp_ready]"
proof -
  have d: "distinct (map at_id [ex_attempt ''a'' Cp_tailoring, ex_attempt ''b'' Cp_submitting, ex_attempt ''c'' Cp_ready])"
    and up: "\<forall>i. en_enqueue_up ex_env i \<and> en_read_up ex_env i"
    by (simp_all add: ex_attempt_def ex_env_def)
  show ?thesis
    using restart_recovery [OF d up _ refl, of "ex_attempt ''a'' Cp_tailoring", THEN conjunct1]
    by (simp add: ex_attempt_def recovered_attempt_def isInterruptedCheckpoint_def)
qed

text \<open>
  The one decision recovery undoes: an attempt whose queue entry was cancelled while its run was still
  at a preparing checkpoint, when the app closed, is queued again and may be prepared, although the table
  says that recovery must not re-queue a cancelled entry.
\<close>

theorem cancelled_while_preparing_is_revived:
  "qr_recoveryMayReQueue (APPLICATION_QUEUE_STATE_ROLES (Present Cancelled)) = False \<and>
   map_option qe_state (get_entry (foldl queue_step (open_store ''t0'' fresh_disk)
      [Op_enqueue ''t1'' ''a'', Op_acquire ''t2'' ''L'', Op_cancel ''t3'' ''a'']) ''a'') = Some Cancelled \<and>
   map_option qe_state (get_entry (rc_queue (recoverInterruptedApplicationAttempts ex_env [ex_attempt ''a'' Cp_tailoring] []
      (foldl queue_step (open_store ''t0'' fresh_disk)
         [Op_enqueue ''t1'' ''a'', Op_acquire ''t2'' ''L'', Op_cancel ''t3'' ''a'']))) ''a'') = Some Queued"
  by (simp add: queue_eval cancel_def get_entry_def recoverInterruptedApplicationAttempts_def recover_interrupted_def
      recovery_enqueue_def ex_env_def ex_attempt_def isInterruptedCheckpoint_def isInterruptedSubmission_def)

end
