(* ===== verification/Submission_Guards.thy ===== *)
theory Submission_Guards
  imports Js_Strings
begin

text \<open>
  What stands between a prepared application and an unattended submit
  (\<^verbatim>\<open>apps/desktop/electron/{automatic-submission-guardrails,application-submit-gate,automatic-submission-grant}.ts\<close>).

  The rate limits and the pre-submit gate are ordered gates. \<^verbatim>\<open>Date.parse\<close> is an argument: every theorem
  holds for whatever it makes of a string, \<open>None\<close> standing for \<^verbatim>\<open>NaN\<close>. The regular expressions of the gate
  are matchers on strings, and each is shown to find exactly what its expression describes.
\<close>

section \<open>Rate limits\<close>

record RateLimits =
  rl_perDay :: int
  rl_perEmployerPerDay :: int
  rl_minIntervalMs :: int

record RecentAutomaticSubmission =
  ra_company :: string
  ra_submittedAt :: string

record RateLimitCheckInput =
  ri_rateLimits :: RateLimits
  ri_company :: string
  ri_now :: string
  ri_recent :: "RecentAutomaticSubmission list"

datatype RateLimitRefusalReason = Daily_cap_reached | Per_employer_daily_cap_reached | Min_interval_not_elapsed

datatype RateLimitCheckResult = Rate_ok | Rate_refused (rate_reason: RateLimitRefusalReason) (rate_detail: string)

definition ONE_DAY_MS :: int where
  "ONE_DAY_MS = 24 * 60 * 60 * 1000"

text \<open>Arithmetic and comparison on numbers that may be \<^verbatim>\<open>NaN\<close>.\<close>

fun num_minus :: "int option \<Rightarrow> int option \<Rightarrow> int option" where
  "num_minus (Some a) (Some b) = Some (a - b)"
| "num_minus _ _ = None"

fun num_less :: "int option \<Rightarrow> int option \<Rightarrow> bool" where
  "num_less (Some a) (Some b) = (a < b)"
| "num_less _ _ = False"

fun num_max0 :: "int option \<Rightarrow> int option" where
  "num_max0 (Some a) = Some (max 0 a)"
| "num_max0 None = None"

text \<open>\<^verbatim>\<open>Math.ceil(n / 1000)\<close>\<close>

definition ceil_seconds :: "int \<Rightarrow> int" where
  "ceil_seconds n = (n + 999) div 1000"

definition within_window :: "(string \<Rightarrow> int option) \<Rightarrow> RateLimitCheckInput \<Rightarrow> RecentAutomaticSubmission list" where
  "within_window date_parse input =
     (let windowStart = num_minus (date_parse (ri_now input)) (Some ONE_DAY_MS)
      in filter (\<lambda>entry. num_less windowStart (date_parse (ra_submittedAt entry))) (ri_recent input))"

text \<open>The reduction: \<open>None\<close> before the first entry, afterwards the latest value, which may be \<^verbatim>\<open>NaN\<close>.\<close>

definition most_recent :: "(string \<Rightarrow> int option) \<Rightarrow> RecentAutomaticSubmission list \<Rightarrow> int option option" where
  "most_recent date_parse entries =
     foldl (\<lambda>latest entry.
              let at = date_parse (ra_submittedAt entry)
              in case latest of None \<Rightarrow> Some at | Some l \<Rightarrow> if num_less l at then Some at else latest)
       None entries"

definition checkRateLimits :: "(string \<Rightarrow> int option) \<Rightarrow> RateLimitCheckInput \<Rightarrow> RateLimitCheckResult" where
  "checkRateLimits date_parse input =
     (let nowMs = date_parse (ri_now input);
          limits = ri_rateLimits input;
          withinWindow = within_window date_parse input;
          withinWindowForEmployer = filter (\<lambda>entry. ra_company entry = ri_company input) withinWindow
      in if int (length withinWindow) \<ge> rl_perDay limits
         then Rate_refused Daily_cap_reached
                (show_nat (length withinWindow) @ '' automatic submissions already sent in the last 24 hours (cap: '' @
                 show_int (rl_perDay limits) @ '')'')
         else if int (length withinWindowForEmployer) \<ge> rl_perEmployerPerDay limits
         then Rate_refused Per_employer_daily_cap_reached
                (show_nat (length withinWindowForEmployer) @ '' automatic submissions already sent to '' @ [quote_char] @
                 ri_company input @ [quote_char] @ '' in the last 24 hours (cap: '' @ show_int (rl_perEmployerPerDay limits) @ '')'')
         else case most_recent date_parse (ri_recent input) of
                None \<Rightarrow> Rate_ok
              | Some mostRecent \<Rightarrow>
                  (let elapsedMs = num_max0 (num_minus nowMs mostRecent)
                   in if num_less elapsedMs (Some (rl_minIntervalMs limits))
                      then Rate_refused Min_interval_not_elapsed
                             (''the minimum interval between automatic submissions hasn'' @ [CHR 0x27] @ ''t elapsed yet ('' @
                              show_int (ceil_seconds (rl_minIntervalMs limits - the elapsedMs)) @ ''s remaining)'')
                      else Rate_ok))"


section \<open>Eligibility of an employer\<close>

record PriorSubmittedAttempt =
  pa_company :: string
  pa_formStructureHash :: "string option"
  pa_submittedAt :: string

record AutomaticEligibilityInput =
  ei_company :: string
  ei_currentFormStructureHash :: string
  ei_priorSubmittedAttempts :: "PriorSubmittedAttempt list"

datatype AutomaticEligibilityRefusalReason = No_prior_manual_submission_for_employer | Form_structure_changed_since_last_review

datatype AutomaticEligibilityResult = Eligible | Ineligible (eligibility_reason: AutomaticEligibilityRefusalReason) (eligibility_detail: string)

text \<open>
  Here the argument is total: it is applied to the instants the application itself recorded. (For a
  string that does not parse, the order of the source's sort is left open by the language.)
\<close>

definition checkAutomaticEligibility :: "(string \<Rightarrow> int) \<Rightarrow> AutomaticEligibilityInput \<Rightarrow> AutomaticEligibilityResult" where
  "checkAutomaticEligibility date_parse input =
     (let priorForEmployer = sort_key (\<lambda>a. - date_parse (pa_submittedAt a))
            (filter (\<lambda>a. pa_company a = ei_company input) (ei_priorSubmittedAttempts input))
      in case priorForEmployer of
           [] \<Rightarrow> Ineligible No_prior_manual_submission_for_employer
                  (''no prior submission for '' @ [quote_char] @ ei_company input @ [quote_char] @
                   '' exists yet -- the first attempt at any employer is always manually reviewed'')
         | mostRecent # _ \<Rightarrow>
             if pa_formStructureHash mostRecent = None \<or> pa_formStructureHash mostRecent \<noteq> Some (ei_currentFormStructureHash input)
             then Ineligible Form_structure_changed_since_last_review
                    (''this attempt'' @ [CHR 0x27] @ ''s form does not match the structure of the last application a human reviewed for '' @
                     [quote_char] @ ei_company input @ [quote_char])
             else Eligible)"


section \<open>The pre-submit gate\<close>

datatype PreSubmitGateRefusalReason =
  Source_cv_changed | Jd_changed | Company_not_found_in_documents | Role_not_found_in_documents | Placeholder_text_detected

record PreSubmitGateAttempt =
  ga_company :: string
  ga_role :: string
  ga_sourceCvContentHash :: string
  ga_jdSnapshotHash :: string

record PreSubmitGateInput =
  gi_attempt :: PreSubmitGateAttempt
  gi_currentSourceCvContentHash :: string
  gi_currentJdSnapshotHash :: string
  gi_renderedCvText :: string
  gi_renderedLetterText :: "string option"

datatype PreSubmitGateResult = Gate_ok | Gate_refused (gate_reason: PreSubmitGateRefusalReason) (gate_detail: string)

text \<open>
  A pattern is matched at a position, given the character before it; \<open>exec\<close> is the leftmost match. A
  match is the text it covers.
\<close>

type_synonym matcher = "char option \<Rightarrow> string \<Rightarrow> string option"

fun exec_from :: "matcher \<Rightarrow> char option \<Rightarrow> string \<Rightarrow> string option" where
  "exec_from m prev [] = m prev []"
| "exec_from m prev (c # s) = (case m prev (c # s) of Some t \<Rightarrow> Some t | None \<Rightarrow> exec_from m (Some c) s)"

definition exec :: "matcher \<Rightarrow> string \<Rightarrow> string option" where
  "exec m s = exec_from m None s"

definition ascii_lower :: "char \<Rightarrow> char" where
  "ascii_lower c = (if is_upper c then char_of (code c + 32) else c)"

definition starts_ci :: "string \<Rightarrow> string \<Rightarrow> bool" where
  "starts_ci p s \<longleftrightarrow> map ascii_lower (take (length p) s) = p"

text \<open>\<^verbatim>\<open>/\[name[^\]]*\]/i\<close>\<close>

definition bracket_pattern :: "string \<Rightarrow> matcher" where
  "bracket_pattern name prev s =
     (let p = CHR ''['' # name; rest = drop (length p) s
      in if starts_ci p s \<and> CHR '']'' \<in> set rest
         then Some (take (length p) s @ takeWhile (\<lambda>c. c \<noteq> CHR '']'') rest @ '']'') else None)"

text \<open>\<^verbatim>\<open>/\{\{[^}]*\}\}/\<close>\<close>

definition braces_pattern :: matcher where
  "braces_pattern prev s =
     (let rest = drop 2 s; body = takeWhile (\<lambda>c. c \<noteq> CHR ''}'') rest
      in if take 2 s = ''{{'' \<and> take 2 (drop (length body) rest) = ''}}'' then Some (''{{'' @ body @ ''}}'') else None)"

text \<open>\<^verbatim>\<open>\b\<close> before and after a literal that begins and ends with a word character.\<close>

definition word_at :: "char option \<Rightarrow> bool" where
  "word_at c = (case c of None \<Rightarrow> False | Some x \<Rightarrow> is_word x)"

definition word_pattern :: "bool \<Rightarrow> string \<Rightarrow> matcher" where
  "word_pattern ci w prev s =
     (let rest = drop (length w) s
      in if \<not> word_at prev \<and> (if ci then starts_ci w s else take (length w) s = w) \<and>
            \<not> word_at (case rest of [] \<Rightarrow> None | c # _ \<Rightarrow> Some c)
         then Some (take (length w) s) else None)"

definition PLACEHOLDER_PATTERNS :: "matcher list" where
  "PLACEHOLDER_PATTERNS =
     [bracket_pattern ''insert'', bracket_pattern ''your'', bracket_pattern ''company'', bracket_pattern ''role'',
      bracket_pattern ''position'', braces_pattern, word_pattern True ''lorem ipsum'', word_pattern False ''TODO'']"

definition containsCaseInsensitive :: "string \<Rightarrow> string \<Rightarrow> bool" where
  "containsCaseInsensitive haystack needle \<longleftrightarrow>
     (length (js_trim needle) = 0 \<or> js_includes (js_to_lower haystack) (js_to_lower needle))"

fun first_match :: "matcher list \<Rightarrow> string \<Rightarrow> string option" where
  "first_match [] s = None"
| "first_match (m # ms) s = (case exec m s of Some t \<Rightarrow> Some t | None \<Rightarrow> first_match ms s)"

definition runPreSubmitGate :: "PreSubmitGateInput \<Rightarrow> PreSubmitGateResult" where
  "runPreSubmitGate input =
     (let attempt = gi_attempt input; company = ga_company attempt; role = ga_role attempt
      in if gi_currentSourceCvContentHash input \<noteq> ga_sourceCvContentHash attempt
         then Gate_refused Source_cv_changed ''the source CV has changed since this attempt was created''
         else if gi_currentJdSnapshotHash input \<noteq> ga_jdSnapshotHash attempt
         then Gate_refused Jd_changed ''the job description has changed since this attempt was created''
         else
           let combinedText = gi_renderedCvText input @ [CHR 0x0A] @ (case gi_renderedLetterText input of None \<Rightarrow> [] | Some l \<Rightarrow> l);
               named = (case gi_renderedLetterText input of
                   Some letter \<Rightarrow>
                     if \<not> containsCaseInsensitive letter company
                     then Some (Gate_refused Company_not_found_in_documents
                            ([quote_char] @ company @ [quote_char] @ '' does not appear in the rendered cover letter''))
                     else if \<not> containsCaseInsensitive letter role
                     then Some (Gate_refused Role_not_found_in_documents
                            ([quote_char] @ role @ [quote_char] @ '' does not appear in the rendered cover letter''))
                     else None
                 | None \<Rightarrow>
                     if \<not> containsCaseInsensitive (gi_renderedCvText input) role
                     then Some (Gate_refused Role_not_found_in_documents
                            ([quote_char] @ role @ [quote_char] @ '' does not appear in the rendered CV''))
                     else None)
           in case named of
                Some r \<Rightarrow> r
              | None \<Rightarrow>
                  (case first_match PLACEHOLDER_PATTERNS combinedText of
                     Some t \<Rightarrow> Gate_refused Placeholder_text_detected
                                 (''matched placeholder-shaped text: '' @ [quote_char] @ t @ [quote_char])
                   | None \<Rightarrow> Gate_ok))"


section \<open>The automation grant\<close>

definition MAX_AUTOMATION_GRANT_DURATION_MS :: int where
  "MAX_AUTOMATION_GRANT_DURATION_MS = 30 * 24 * 60 * 60 * 1000"

definition CANCEL_BUTTON_INDEX :: int where
  "CANCEL_BUTTON_INDEX = 0"

definition ALLOW_BUTTON_INDEX :: int where
  "ALLOW_BUTTON_INDEX = 1"

datatype RequestAutomationGrantRefusalReason = Unknown_policy | Not_eligible_for_automation | Invalid_duration | Declined

text \<open>The members of a target policy that are read here.\<close>

record target_policy =
  tp_displayName :: string
  tp_termsEligibleForAutomation :: bool

record AutomationGrantRecord =
  ag_policyId :: string
  ag_expiresAt :: int

definition showConfirmDialog :: "int \<Rightarrow> bool" where
  "showConfirmDialog response \<longleftrightarrow> response = ALLOW_BUTTON_INDEX"

text \<open>
  \<open>policies\<close> is the compiled policy table, \<open>dialog\<close> the button index the native dialog answers for a display
  name and an expiry, \<open>now\<close> the clock, \<open>grants\<close> the grant table. Instants are milliseconds.
\<close>

definition requestAutomationGrant ::
  "(string \<rightharpoonup> target_policy) \<Rightarrow> (string \<Rightarrow> int \<Rightarrow> int) \<Rightarrow> int \<Rightarrow> string \<Rightarrow> int \<Rightarrow> AutomationGrantRecord list \<Rightarrow>
     (RequestAutomationGrantRefusalReason + AutomationGrantRecord) \<times> AutomationGrantRecord list" where
  "requestAutomationGrant policies dialog now policyId durationMs grants =
     (case policies policyId of
        None \<Rightarrow> (Inl Unknown_policy, grants)
      | Some policy \<Rightarrow>
          if \<not> tp_termsEligibleForAutomation policy then (Inl Not_eligible_for_automation, grants)
          else if durationMs \<le> 0 \<or> durationMs > MAX_AUTOMATION_GRANT_DURATION_MS then (Inl Invalid_duration, grants)
          else
            let expiresAt = now + durationMs;
                approved = showConfirmDialog (dialog (tp_displayName policy) expiresAt)
            in if \<not> approved then (Inl Declined, grants)
               else let grant = \<lparr>ag_policyId = policyId, ag_expiresAt = expiresAt\<rparr>
                    in (Inr grant, grants @ [grant]))"



section \<open>The matchers\<close>

lemma exec_from_iff:
  "exec_from m prev s \<noteq> None \<longleftrightarrow> (\<exists>a b. s = a @ b \<and> m (if a = [] then prev else Some (last a)) b \<noteq> None)"
proof (induction s arbitrary: prev)
  case Nil
  show ?case by simp
next
  case (Cons c s)
  have "(\<exists>a b. c # s = a @ b \<and> m (if a = [] then prev else Some (last a)) b \<noteq> None) \<longleftrightarrow>
      m prev (c # s) \<noteq> None \<or> (\<exists>a b. s = a @ b \<and> m (if a = [] then Some c else Some (last a)) b \<noteq> None)" (is "?L \<longleftrightarrow> ?R")
  proof
    assume ?L
    then obtain a b where ab: "c # s = a @ b" "m (if a = [] then prev else Some (last a)) b \<noteq> None" by blast
    show ?R
    proof (cases a)
      case (Cons x a')
      with ab have "s = a' @ b" "m (if a' = [] then Some c else Some (last a')) b \<noteq> None" by (auto split: if_splits)
      then show ?thesis by blast
    qed (use ab in auto)
  next
    assume ?R
    then show ?L
    proof
      assume "\<exists>a b. s = a @ b \<and> m (if a = [] then Some c else Some (last a)) b \<noteq> None"
      then obtain a b where "s = a @ b" "m (if a = [] then Some c else Some (last a)) b \<noteq> None" by blast
      then have "c # s = (c # a) @ b" "m (if c # a = [] then prev else Some (last (c # a))) b \<noteq> None" by (auto split: if_splits)
      then show ?L by blast
    qed (metis append_Nil)
  qed
  with Cons [of "Some c"] show ?case by (auto split: option.split)
qed

lemma starts_ci_split:
  "starts_ci p s \<and> Q (drop (length p) s) \<longleftrightarrow> (\<exists>x r. s = x @ r \<and> map ascii_lower x = p \<and> Q r)"
proof
  assume "starts_ci p s \<and> Q (drop (length p) s)"
  then show "\<exists>x r. s = x @ r \<and> map ascii_lower x = p \<and> Q r"
    unfolding starts_ci_def by (metis append_take_drop_id)
next
  assume "\<exists>x r. s = x @ r \<and> map ascii_lower x = p \<and> Q r"
  then show "starts_ci p s \<and> Q (drop (length p) s)" by (auto simp: starts_ci_def)
qed

lemma bracket_pattern_iff:
  "bracket_pattern name prev s \<noteq> None \<longleftrightarrow>
     (\<exists>x b c. s = x @ b @ CHR '']'' # c \<and> map ascii_lower x = CHR ''['' # name)"
proof -
  let ?p = "CHR ''['' # name"
  have "bracket_pattern name prev s \<noteq> None \<longleftrightarrow> starts_ci ?p s \<and> CHR '']'' \<in> set (drop (length ?p) s)"
    by (simp add: bracket_pattern_def Let_def)
  also have "\<dots> \<longleftrightarrow> (\<exists>x r. s = x @ r \<and> map ascii_lower x = ?p \<and> CHR '']'' \<in> set r)"
    by (rule starts_ci_split)
  also have "\<dots> \<longleftrightarrow> (\<exists>x b c. s = x @ b @ CHR '']'' # c \<and> map ascii_lower x = ?p)"
  proof
    assume "\<exists>x r. s = x @ r \<and> map ascii_lower x = ?p \<and> CHR '']'' \<in> set r"
    then obtain x r where x: "s = x @ r" "map ascii_lower x = ?p" and r: "CHR '']'' \<in> set r" by (elim exE conjE)
    from split_list [OF r] obtain b c where "r = b @ CHR '']'' # c" by (elim exE)
    with x show "\<exists>x b c. s = x @ b @ CHR '']'' # c \<and> map ascii_lower x = ?p" by (intro exI conjI) auto
  next
    assume "\<exists>x b c. s = x @ b @ CHR '']'' # c \<and> map ascii_lower x = ?p"
    then obtain x b c where x: "s = x @ b @ CHR '']'' # c" "map ascii_lower x = ?p" by (elim exE conjE)
    then show "\<exists>x r. s = x @ r \<and> map ascii_lower x = ?p \<and> CHR '']'' \<in> set r"
      by (intro exI [of _ x] exI [of _ "b @ CHR '']'' # c"]) simp
  qed
  finally show ?thesis .
qed

lemma braces_pattern_iff:
  "braces_pattern prev s \<noteq> None \<longleftrightarrow> (\<exists>b c. s = ''{{'' @ b @ ''}}'' @ c \<and> CHR ''}'' \<notin> set b)"
proof
  assume "braces_pattern prev s \<noteq> None"
  then have s: "take 2 s = ''{{''"
    and e: "take 2 (drop (length (takeWhile (\<lambda>c. c \<noteq> CHR ''}'') (drop 2 s))) (drop 2 s)) = ''}}''"
    by (auto simp: braces_pattern_def Let_def split: if_splits)
  let ?b = "takeWhile (\<lambda>c. c \<noteq> CHR ''}'') (drop 2 s)" let ?r = "drop (length ?b) (drop 2 s)"
  have "drop 2 s = ?b @ ?r" by (metis append_take_drop_id takeWhile_eq_take)
  moreover have "?r = ''}}'' @ drop 2 ?r" using e by (metis append_take_drop_id)
  moreover have "s = ''{{'' @ drop 2 s" using s by (metis append_take_drop_id)
  moreover have "CHR ''}'' \<notin> set ?b" by (auto dest: set_takeWhileD)
  ultimately show "\<exists>b c. s = ''{{'' @ b @ ''}}'' @ c \<and> CHR ''}'' \<notin> set b" by metis
next
  assume "\<exists>b c. s = ''{{'' @ b @ ''}}'' @ c \<and> CHR ''}'' \<notin> set b"
  then obtain b c where s: "s = ''{{'' @ b @ ''}}'' @ c" and b: "CHR ''}'' \<notin> set b" by blast
  have "takeWhile (\<lambda>c. c \<noteq> CHR ''}'') (b @ ''}}'' @ c) = b @ takeWhile (\<lambda>c. c \<noteq> CHR ''}'') (''}}'' @ c)"
    using b by (intro takeWhile_append2) auto
  then have "takeWhile (\<lambda>c. c \<noteq> CHR ''}'') (drop 2 s) = b" by (simp add: s)
  with s show "braces_pattern prev s \<noteq> None" by (simp add: braces_pattern_def Let_def)
qed

text \<open>The first character of a string, if any.\<close>

definition first_char :: "string \<Rightarrow> char option" where
  "first_char s = (case s of [] \<Rightarrow> None | c # _ \<Rightarrow> Some c)"

lemma word_pattern_iff:
  "word_pattern ci w prev s \<noteq> None \<longleftrightarrow>
     (\<exists>x r. s = x @ r \<and> (if ci then map ascii_lower x = w else x = w) \<and> \<not> word_at prev \<and> \<not> word_at (first_char r))"
proof -
  have "word_pattern ci w prev s \<noteq> None \<longleftrightarrow>
      (if ci then starts_ci w s else take (length w) s = w) \<and> \<not> word_at prev \<and> \<not> word_at (first_char (drop (length w) s))"
    by (auto simp: word_pattern_def first_char_def Let_def)
  also have "\<dots> \<longleftrightarrow> (\<exists>x r. s = x @ r \<and> (if ci then map ascii_lower x = w else x = w) \<and> \<not> word_at prev \<and> \<not> word_at (first_char r))"
  proof (cases ci)
    case True
    then show ?thesis using starts_ci_split [of w s "\<lambda>r. \<not> word_at prev \<and> \<not> word_at (first_char r)"] by simp
  next
    case False
    then show ?thesis by (auto) (metis append_take_drop_id)
  qed
  finally show ?thesis .
qed

text \<open>What counts as placeholder text: the declarative reading of the eight expressions.\<close>

definition bracketed :: "string \<Rightarrow> string \<Rightarrow> bool" where
  "bracketed name t \<longleftrightarrow> (\<exists>a x b c. t = a @ x @ b @ CHR '']'' # c \<and> map ascii_lower x = CHR ''['' # name)"

definition braced :: "string \<Rightarrow> bool" where
  "braced t \<longleftrightarrow> (\<exists>a b c. t = a @ ''{{'' @ b @ ''}}'' @ c \<and> CHR ''}'' \<notin> set b)"

definition whole_word :: "bool \<Rightarrow> string \<Rightarrow> string \<Rightarrow> bool" where
  "whole_word ci w t \<longleftrightarrow>
     (\<exists>a x r. t = a @ x @ r \<and> (if ci then map ascii_lower x = w else x = w) \<and>
        \<not> word_at (if a = [] then None else Some (last a)) \<and> \<not> word_at (first_char r))"

definition placeholder_in :: "string \<Rightarrow> bool" where
  "placeholder_in t \<longleftrightarrow>
     bracketed ''insert'' t \<or> bracketed ''your'' t \<or> bracketed ''company'' t \<or> bracketed ''role'' t \<or> bracketed ''position'' t \<or>
     braced t \<or> whole_word True ''lorem ipsum'' t \<or> whole_word False ''TODO'' t"

lemma exec_bracket: "exec (bracket_pattern name) t \<noteq> None \<longleftrightarrow> bracketed name t"
  unfolding exec_def exec_from_iff bracket_pattern_iff bracketed_def
proof
  assume "\<exists>a s. t = a @ s \<and> (\<exists>x b c. s = x @ b @ CHR '']'' # c \<and> map ascii_lower x = CHR ''['' # name)"
  then obtain a s x b c where "t = a @ s" "s = x @ b @ CHR '']'' # c" "map ascii_lower x = CHR ''['' # name"
    by (elim exE conjE)
  then show "\<exists>a x b c. t = a @ x @ b @ CHR '']'' # c \<and> map ascii_lower x = CHR ''['' # name"
    by (intro exI conjI) (rule trans, assumption, simp)
next
  assume "\<exists>a x b c. t = a @ x @ b @ CHR '']'' # c \<and> map ascii_lower x = CHR ''['' # name"
  then show "\<exists>a s. t = a @ s \<and> (\<exists>x b c. s = x @ b @ CHR '']'' # c \<and> map ascii_lower x = CHR ''['' # name)"
    by (elim exE conjE) (intro exI conjI, assumption, rule refl, assumption)
qed

lemma exec_braces: "exec braces_pattern t \<noteq> None \<longleftrightarrow> braced t"
  unfolding exec_def exec_from_iff braces_pattern_iff braced_def by blast

lemma exec_word: "exec (word_pattern ci w) t \<noteq> None \<longleftrightarrow> whole_word ci w t"
  unfolding exec_def exec_from_iff word_pattern_iff whole_word_def by blast

lemmas exec_patterns = exec_bracket exec_braces exec_word

lemma first_match_iff: "first_match ms t \<noteq> None \<longleftrightarrow> (\<exists>m\<in>set ms. exec m t \<noteq> None)"
  by (induction ms) (auto split: option.splits)

lemma placeholder_iff: "first_match PLACEHOLDER_PATTERNS t \<noteq> None \<longleftrightarrow> placeholder_in t"
  unfolding first_match_iff PLACEHOLDER_PATTERNS_def placeholder_in_def exec_patterns [symmetric] by simp



section \<open>The pre-submit gate is an ordered gate\<close>

definition combined_text :: "PreSubmitGateInput \<Rightarrow> string" where
  "combined_text i = gi_renderedCvText i @ [CHR 0x0A] @ (case gi_renderedLetterText i of None \<Rightarrow> [] | Some l \<Rightarrow> l)"

definition presubmit_checks :: "(PreSubmitGateInput \<Rightarrow> PreSubmitGateRefusalReason option) list" where
  "presubmit_checks =
     [\<lambda>i. if gi_currentSourceCvContentHash i = ga_sourceCvContentHash (gi_attempt i) then None else Some Source_cv_changed,
      \<lambda>i. if gi_currentJdSnapshotHash i = ga_jdSnapshotHash (gi_attempt i) then None else Some Jd_changed,
      \<lambda>i. case gi_renderedLetterText i of
            Some l \<Rightarrow> if containsCaseInsensitive l (ga_company (gi_attempt i)) then None else Some Company_not_found_in_documents
          | None \<Rightarrow> None,
      \<lambda>i. if containsCaseInsensitive (case gi_renderedLetterText i of Some l \<Rightarrow> l | None \<Rightarrow> gi_renderedCvText i) (ga_role (gi_attempt i))
          then None else Some Role_not_found_in_documents,
      \<lambda>i. if placeholder_in (combined_text i) then Some Placeholder_text_detected else None]"

fun gate_refusal :: "PreSubmitGateResult \<Rightarrow> PreSubmitGateRefusalReason option" where
  "gate_refusal Gate_ok = None"
| "gate_refusal (Gate_refused r d) = Some r"

interpretation submit_gate: ordered_gate "\<lambda>i. gate_refusal (runPreSubmitGate i)" presubmit_checks
proof
  fix i
  have plain: "first_match PLACEHOLDER_PATTERNS (combined_text i) = None \<longleftrightarrow> \<not> placeholder_in (combined_text i)"
    using placeholder_iff [of "combined_text i"] by auto
  show "gate_refusal (runPreSubmitGate i) = first_refusal presubmit_checks i"
  proof (cases "placeholder_in (combined_text i)")
    case True
    with plain obtain t where "first_match PLACEHOLDER_PATTERNS (combined_text i) = Some t" by auto
    with True show ?thesis
      by (cases "gi_renderedLetterText i") (simp_all add: runPreSubmitGate_def presubmit_checks_def Let_def combined_text_def)
  next
    case False
    with plain show ?thesis
      by (cases "gi_renderedLetterText i") (simp_all add: runPreSubmitGate_def presubmit_checks_def Let_def combined_text_def)
  qed
qed


section \<open>The head of a stable sort\<close>

lemma insort_key_head:
  "insort_key k x s = (case s of [] \<Rightarrow> [x] | y # r \<Rightarrow> if k x \<le> k y then x # s else y # insort_key k x r)"
  by (cases s) auto

lemma sort_key_head_iff:
  fixes k :: "'a \<Rightarrow> 'b::linorder"
  shows "(\<exists>r. sort_key k l = a # r) \<longleftrightarrow>
     (\<exists>xs ys. l = xs @ a # ys \<and> (\<forall>b\<in>set xs. k a < k b) \<and> (\<forall>b\<in>set ys. k a \<le> k b))"
proof (induction l arbitrary: a)
  case Nil
  show ?case by simp
next
  case (Cons x l)
  show ?case
  proof
    assume "\<exists>r. sort_key k (x # l) = a # r"
    then obtain r where r: "insort_key k x (sort_key k l) = a # r" by auto
    show "\<exists>xs ys. x # l = xs @ a # ys \<and> (\<forall>b\<in>set xs. k a < k b) \<and> (\<forall>b\<in>set ys. k a \<le> k b)"
    proof (cases "sort_key k l = [] \<or> k x \<le> k (hd (sort_key k l))")
      case True
      then have "a = x" using r by (cases "sort_key k l") auto
      moreover have "k x \<le> k b" if "b \<in> set l" for b
      proof -
        have "b \<in> set (sort_key k l)" using that by simp
        with True sorted_sort_key [of k l] show ?thesis by (cases "sort_key k l") auto
      qed
      ultimately show ?thesis by (intro exI [of _ "[]"] exI [of _ l]) auto
    next
      case False
      then obtain s where "sort_key k l = a # s" and less: "k a < k x" using r by (cases "sort_key k l") auto
      with Cons.IH obtain xs ys where "l = xs @ a # ys" "\<forall>b\<in>set xs. k a < k b" "\<forall>b\<in>set ys. k a \<le> k b" by blast
      with less show ?thesis by (intro exI [of _ "x # xs"] exI [of _ ys]) auto
    qed
  next
    assume "\<exists>xs ys. x # l = xs @ a # ys \<and> (\<forall>b\<in>set xs. k a < k b) \<and> (\<forall>b\<in>set ys. k a \<le> k b)"
    then obtain xs ys where d: "x # l = xs @ a # ys" "\<forall>b\<in>set xs. k a < k b" "\<forall>b\<in>set ys. k a \<le> k b" by blast
    show "\<exists>r. sort_key k (x # l) = a # r"
    proof (cases xs)
      case Nil
      with d have "a = x" "\<forall>b\<in>set (sort_key k l). k x \<le> k b" by auto
      then show ?thesis by (cases "sort_key k l") auto
    next
      case (Cons y xs')
      with d have "l = xs' @ a # ys" "k a < k x" by auto
      moreover have "\<forall>b\<in>set xs'. k a < k b" using d(2) Cons by simp
      ultimately obtain r where "sort_key k l = a # r" using Cons.IH [of a] d(3) by blast
      with \<open>k a < k x\<close> show ?thesis by auto
    qed
  qed
qed


section \<open>Rate limits along a history\<close>

abbreviation submitted_ms :: "(string \<Rightarrow> int option) \<Rightarrow> RecentAutomaticSubmission \<Rightarrow> int" where
  "submitted_ms parse e \<equiv> the (parse (ra_submittedAt e))"

text \<open>An automatic submission: it is made, and recorded with its instant, only when the check passes.\<close>

definition submit_if_allowed ::
  "(string \<Rightarrow> int option) \<Rightarrow> RateLimits \<Rightarrow> RecentAutomaticSubmission list \<Rightarrow> string \<times> string \<Rightarrow> RecentAutomaticSubmission list" where
  "submit_if_allowed parse limits history request =
     (if checkRateLimits parse \<lparr>ri_rateLimits = limits, ri_company = fst request, ri_now = snd request, ri_recent = history\<rparr> = Rate_ok
      then history @ [\<lparr>ra_company = fst request, ra_submittedAt = snd request\<rparr>] else history)"

definition admitted :: "(string \<Rightarrow> int option) \<Rightarrow> RateLimits \<Rightarrow> RecentAutomaticSubmission list \<Rightarrow> bool" where
  "admitted parse limits h \<longleftrightarrow>
     (\<forall>n<length h. checkRateLimits parse \<lparr>ri_rateLimits = limits, ri_company = ra_company (h ! n),
        ri_now = ra_submittedAt (h ! n), ri_recent = take n h\<rparr> = Rate_ok)"

interpretation automatic: step_system "[]" "submit_if_allowed parse limits" "admitted parse limits" for parse limits
proof
  show "admitted parse limits []" by (simp add: admitted_def)
  fix h and r :: "string \<times> string"
  assume "admitted parse limits h"
  then show "admitted parse limits (submit_if_allowed parse limits h r)"
    by (auto simp: admitted_def submit_if_allowed_def nth_append less_Suc_eq)
qed

lemma submit_instants: "ra_submittedAt ` set (foldl (submit_if_allowed parse limits) h rs) \<subseteq> ra_submittedAt ` set h \<union> snd ` set rs"
proof (induction rs arbitrary: h)
  case (Cons r rs)
  have "ra_submittedAt ` set (submit_if_allowed parse limits h r) \<subseteq> ra_submittedAt ` set h \<union> {snd r}"
    by (auto simp: submit_if_allowed_def)
  with Cons [of "submit_if_allowed parse limits h r"] show ?case by auto
qed simp

lemma most_recent_ge:
  assumes "\<forall>e\<in>set es. parse (ra_submittedAt e) \<noteq> None" "e \<in> set es"
  obtains l where "most_recent parse es = Some (Some l)" "submitted_ms parse e \<le> l"
proof -
  have "(\<exists>l. most_recent parse es = Some (Some l) \<and> (\<forall>e\<in>set es. submitted_ms parse e \<le> l)) \<or> es = []"
    using assms(1)
  proof (induction es rule: rev_induct)
    case (snoc x es)
    then obtain t where t: "parse (ra_submittedAt x) = Some t" by auto
    have step: "most_recent parse (es @ [x]) =
        (case most_recent parse es of None \<Rightarrow> Some (Some t) | Some l \<Rightarrow> if num_less l (Some t) then Some (Some t) else Some l)"
      by (simp add: most_recent_def t Let_def split: option.split)
    show ?case
    proof (cases "es = []")
      case True
      then show ?thesis by (simp add: most_recent_def t)
    next
      case False
      with snoc obtain l where "most_recent parse es = Some (Some l)" "\<forall>e\<in>set es. submitted_ms parse e \<le> l" by auto
      with step t show ?thesis by (auto intro: order.trans)
    qed
  qed simp
  with assms(2) that show thesis by auto
qed

lemma rate_ok_bounds:
  assumes ok: "checkRateLimits parse \<lparr>ri_rateLimits = limits, ri_company = c, ri_now = now, ri_recent = h\<rparr> = Rate_ok"
    and t: "parse now = Some t" and p: "\<forall>e\<in>set h. parse (ra_submittedAt e) \<noteq> None"
  shows "int (length (filter (\<lambda>e. submitted_ms parse e > t - ONE_DAY_MS) h)) < rl_perDay limits"
    and "int (length (filter (\<lambda>e. ra_company e = c \<and> submitted_ms parse e > t - ONE_DAY_MS) h)) < rl_perEmployerPerDay limits"
    and "e \<in> set h \<Longrightarrow> rl_minIntervalMs limits \<le> max 0 (t - submitted_ms parse e)"
proof -
  let ?i = "\<lparr>ri_rateLimits = limits, ri_company = c, ri_now = now, ri_recent = h\<rparr>"
  have w: "within_window parse ?i = filter (\<lambda>e. submitted_ms parse e > t - ONE_DAY_MS) h"
    unfolding within_window_def using t p by (auto simp: Let_def intro!: filter_cong)
  show "int (length (filter (\<lambda>e. submitted_ms parse e > t - ONE_DAY_MS) h)) < rl_perDay limits"
    "int (length (filter (\<lambda>e. ra_company e = c \<and> submitted_ms parse e > t - ONE_DAY_MS) h)) < rl_perEmployerPerDay limits"
    using ok by (auto simp: checkRateLimits_def Let_def w conj_commute split: if_splits option.splits)
  show "rl_minIntervalMs limits \<le> max 0 (t - submitted_ms parse e)" if "e \<in> set h"
  proof -
    from most_recent_ge [OF p that] obtain l where l: "most_recent parse h = Some (Some l)" "submitted_ms parse e \<le> l" .
    then have "\<not> max 0 (t - l) < rl_minIntervalMs limits"
      using ok t by (auto simp: checkRateLimits_def Let_def split: if_splits)
    with l(2) show ?thesis by linarith
  qed
qed


text \<open>
  The pre-submit gate passes exactly when the source CV and the job description are the ones the
  attempt was made from, the employer and the role are named in the letter (the role in the CV when there
  is no letter), and no placeholder text is left in the documents.
\<close>

theorem presubmit_gate_iff:
  "runPreSubmitGate i = Gate_ok \<longleftrightarrow>
     gi_currentSourceCvContentHash i = ga_sourceCvContentHash (gi_attempt i) \<and>
     gi_currentJdSnapshotHash i = ga_jdSnapshotHash (gi_attempt i) \<and>
     (case gi_renderedLetterText i of
        Some l \<Rightarrow> containsCaseInsensitive l (ga_company (gi_attempt i)) \<and> containsCaseInsensitive l (ga_role (gi_attempt i))
      | None \<Rightarrow> containsCaseInsensitive (gi_renderedCvText i) (ga_role (gi_attempt i))) \<and>
     \<not> placeholder_in (combined_text i)"
proof -
  have "runPreSubmitGate i = Gate_ok \<longleftrightarrow> gate_refusal (runPreSubmitGate i) = None"
    by (cases "runPreSubmitGate i") auto
  also have "\<dots> \<longleftrightarrow> (\<forall>c\<in>set presubmit_checks. c i = None)" by (rule submit_gate.passes_iff)
  finally show ?thesis by (auto simp: presubmit_checks_def split: option.splits if_splits)
qed

text \<open>
  An employer is eligible exactly when there is an earlier submission to it and the latest of them
  (the first such, where several share the instant) was reviewed on the form structure seen now.
\<close>

theorem eligibility_iff:
  "checkAutomaticEligibility parse i = Eligible \<longleftrightarrow>
     (\<exists>xs a ys. filter (\<lambda>a. pa_company a = ei_company i) (ei_priorSubmittedAttempts i) = xs @ a # ys \<and>
        pa_formStructureHash a = Some (ei_currentFormStructureHash i) \<and>
        list_all (\<lambda>b. parse (pa_submittedAt b) < parse (pa_submittedAt a)) xs \<and>
        list_all (\<lambda>b. parse (pa_submittedAt b) \<le> parse (pa_submittedAt a)) ys)"
proof -
  let ?k = "\<lambda>a. - parse (pa_submittedAt a)" and ?l = "filter (\<lambda>a. pa_company a = ei_company i) (ei_priorSubmittedAttempts i)"
  have "checkAutomaticEligibility parse i = Eligible \<longleftrightarrow>
      (\<exists>a. pa_formStructureHash a = Some (ei_currentFormStructureHash i) \<and> (\<exists>r. sort_key ?k ?l = a # r))"
    by (auto simp: checkAutomaticEligibility_def Let_def split: list.split)
  then show ?thesis unfolding sort_key_head_iff neg_less_iff_less neg_le_iff_le list_all_iff by blast
qed

text \<open>
  A grant is recorded in exactly one case: the policy is known, its terms allow automation, the
  duration is positive and at most thirty days, and the person pressed the allow button; it then names
  that policy and ends within thirty days. In every other case the grant table is unchanged.
\<close>

theorem grant_needs_consent:
  "(case requestAutomationGrant policies dialog now policyId durationMs grants of (r, grants') \<Rightarrow>
      (case r of
         Inr g \<Rightarrow> grants' = grants @ [g] \<and> ag_policyId g = policyId \<and> now < ag_expiresAt g \<and>
                  ag_expiresAt g \<le> now + MAX_AUTOMATION_GRANT_DURATION_MS
       | Inl _ \<Rightarrow> grants' = grants)) \<and>
   ((\<exists>g. fst (requestAutomationGrant policies dialog now policyId durationMs grants) = Inr g) \<longleftrightarrow>
      (\<exists>p. policies policyId = Some p \<and> tp_termsEligibleForAutomation p \<and>
         0 < durationMs \<and> durationMs \<le> 30 * 24 * 60 * 60 * 1000 \<and> dialog (tp_displayName p) (now + durationMs) = 1))"
  by (auto simp: requestAutomationGrant_def MAX_AUTOMATION_GRANT_DURATION_MS_def showConfirmDialog_def ALLOW_BUTTON_INDEX_def
      Let_def split: option.splits)

definition ex_limits :: RateLimits where
  "ex_limits = \<lparr>rl_perDay = 2, rl_perEmployerPerDay = 1, rl_minIntervalMs = 10\<rparr>"

definition ex_parse :: "string \<Rightarrow> int option" where
  "ex_parse s = Some (10 * int (length s))"

definition ex_requests :: "(string \<times> string) list" where
  "ex_requests = [(''A'', ''x''), (''A'', ''xx''), (''B'', ''xx''), (''C'', ''xxx'')]"


end
