(* ===== verification/Session_Limiter.thy ===== *)
theory Session_Limiter
  imports Stage_Routing
begin

text \<open>
  The admission gate for active sessions (\<^verbatim>\<open>apps/daemon/src/active-session-limiter.ts\<close>).

  The state is the source's two maps: which provider each admitted session runs on, and a counter per
  provider. The counter is redundant information that the code keeps by hand; the invariant says that it
  always equals the number of held sessions of that provider, so the underflow branch of \<^verbatim>\<open>release\<close> is
  unreachable and the two caps hold of the sessions themselves, not only of the counters.
\<close>

section \<open>Limits and errors\<close>

record active_session_limits =
  lim_global :: nat
  lim_perProvider :: nat

definition ACTIVE_SESSION_LIMITS :: active_session_limits where
  "ACTIVE_SESSION_LIMITS = \<lparr>lim_global = 4, lim_perProvider = 2\<rparr>"

datatype ActiveSessionLimitScope = Scope_global | Scope_provider

record ActiveSessionCapacity =
  cap_global_active :: nat
  cap_global_limit :: nat
  cap_provider_active :: nat
  cap_provider_limit :: nat

datatype limiter_error =
  Already_holds string
| ActiveSessionLimitError ActiveSessionLimitScope ProviderId ActiveSessionCapacity
| Accounting_underflow string ProviderId


section \<open>The limiter\<close>

record ActiveSessionLimiter =
  lm_held :: "(string, ProviderId) jmap"
  lm_perProvider :: "(ProviderId, nat) jmap"

definition new_limiter :: ActiveSessionLimiter where
  "new_limiter = \<lparr>lm_held = [], lm_perProvider = []\<rparr>"

definition capacity :: "nat \<Rightarrow> nat \<Rightarrow> ActiveSessionCapacity" where
  "capacity globalActive providerActive =
     \<lparr>cap_global_active = globalActive, cap_global_limit = lim_global ACTIVE_SESSION_LIMITS,
      cap_provider_active = providerActive, cap_provider_limit = lim_perProvider ACTIVE_SESSION_LIMITS\<rparr>"

definition provider_active :: "ActiveSessionLimiter \<Rightarrow> ProviderId \<Rightarrow> nat" where
  "provider_active l provider = (case jget (lm_perProvider l) provider of Some n \<Rightarrow> n | None \<Rightarrow> 0)"

definition reserve :: "ProviderId \<Rightarrow> string \<Rightarrow> ActiveSessionLimiter \<Rightarrow> (limiter_error + unit) \<times> ActiveSessionLimiter" where
  "reserve provider sessionId l =
     (if jhas (lm_held l) sessionId then (Inl (Already_holds sessionId), l)
      else
        let globalActive = length (lm_held l);
            providerActive = provider_active l provider
        in if globalActive \<ge> lim_global ACTIVE_SESSION_LIMITS
           then (Inl (ActiveSessionLimitError Scope_global provider (capacity globalActive providerActive)), l)
           else if providerActive \<ge> lim_perProvider ACTIVE_SESSION_LIMITS
           then (Inl (ActiveSessionLimitError Scope_provider provider (capacity globalActive providerActive)), l)
           else (Inr (), l\<lparr>lm_held := jset (lm_held l) sessionId provider,
                           lm_perProvider := jset (lm_perProvider l) provider (providerActive + 1)\<rparr>))"

definition limiter_release :: "string \<Rightarrow> ActiveSessionLimiter \<Rightarrow> (limiter_error + bool) \<times> ActiveSessionLimiter" where
  "limiter_release sessionId l =
     (case jget (lm_held l) sessionId of
        None \<Rightarrow> (Inr False, l)
      | Some provider \<Rightarrow>
          (let l1 = l\<lparr>lm_held := jdelete (lm_held l) sessionId\<rparr>;
               providerActive = provider_active l provider
           in if providerActive = 0 then (Inl (Accounting_underflow sessionId provider), l1)
              else if providerActive = 1
              then (Inr True, l1\<lparr>lm_perProvider := jdelete (lm_perProvider l) provider\<rparr>)
              else (Inr True, l1\<lparr>lm_perProvider := jset (lm_perProvider l) provider (providerActive - 1)\<rparr>)))"

definition holds :: "ActiveSessionLimiter \<Rightarrow> string \<Rightarrow> bool" where
  "holds l sessionId = jhas (lm_held l) sessionId"

definition capacityFor :: "ActiveSessionLimiter \<Rightarrow> ProviderId \<Rightarrow> ActiveSessionCapacity" where
  "capacityFor l provider = capacity (length (lm_held l)) (provider_active l provider)"

definition limiter_snapshot :: "ActiveSessionLimiter \<Rightarrow> nat \<times> (ProviderId, nat) jmap" where
  "limiter_snapshot l = (length (lm_held l), lm_perProvider l)"

datatype limiter_op = Reserve ProviderId string | Release string

fun limiter_step :: "ActiveSessionLimiter \<Rightarrow> limiter_op \<Rightarrow> ActiveSessionLimiter" where
  "limiter_step l (Reserve p s) = snd (reserve p s l)"
| "limiter_step l (Release s) = snd (limiter_release s l)"


section \<open>The invariant\<close>

text \<open>The number of held sessions that run on a provider: what the counter stands for.\<close>

definition held_by :: "ActiveSessionLimiter \<Rightarrow> ProviderId \<Rightarrow> nat" where
  "held_by l provider = length (filter (\<lambda>(s, p). p = provider) (lm_held l))"

definition limiter_ok :: "ActiveSessionLimiter \<Rightarrow> bool" where
  "limiter_ok l \<longleftrightarrow> jmap_ok (lm_held l) \<and> jmap_ok (lm_perProvider l) \<and>
     (\<forall>p. jget (lm_perProvider l) p = (if held_by l p = 0 then None else Some (held_by l p))) \<and>
     length (lm_held l) \<le> lim_global ACTIVE_SESSION_LIMITS \<and>
     (\<forall>p. held_by l p \<le> lim_perProvider ACTIVE_SESSION_LIMITS)"

lemma provider_active_held: "limiter_ok l \<Longrightarrow> provider_active l p = held_by l p"
  by (simp add: limiter_ok_def provider_active_def)

lemma held_by_insert:
  "\<not> jhas (lm_held l) s \<Longrightarrow> held_by (l\<lparr>lm_held := jset (lm_held l) s p, lm_perProvider := pp\<rparr>) q =
     (if q = p then Suc (held_by l q) else held_by l q)"
  by (simp add: held_by_def jhas_iff_keys jset_new)

lemma filter_delete_key:
  "jmap_ok m \<Longrightarrow> jget m s = Some p \<Longrightarrow>
     length (filter (\<lambda>(s, x). x = q) m) = (if q = p then 1 else 0) + length (filter (\<lambda>(s, x). x = q) (jdelete m s))"
proof (induction m)
  case (Cons a m)
  obtain k v where a: "a = (k, v)" by (cases a)
  show ?case
  proof (cases "k = s")
    case True
    with Cons.prems a have "s \<notin> fst ` set m" "v = p" by (auto simp: jmap_ok_def)
    with True a show ?thesis by (simp add: jdelete_absent)
  next
    case False
    with Cons a show ?thesis by (auto simp: jmap_ok_def)
  qed
qed simp

lemma held_by_delete:
  assumes "limiter_ok l" "jget (lm_held l) s = Some p"
  shows "held_by l q = (if q = p then 1 else 0) + held_by (l\<lparr>lm_held := jdelete (lm_held l) s, lm_perProvider := pp\<rparr>) q"
  using assms filter_delete_key [of "lm_held l" s p q] by (simp add: limiter_ok_def held_by_def)

lemma limiter_ok_reserve: "limiter_ok l \<Longrightarrow> limiter_ok (snd (reserve p s l))"
proof -
  assume ok: "limiter_ok l"
  show ?thesis
  proof (cases "\<not> jhas (lm_held l) s \<and> length (lm_held l) < lim_global ACTIVE_SESSION_LIMITS \<and>
      held_by l p < lim_perProvider ACTIVE_SESSION_LIMITS")
    case True
    then have "snd (reserve p s l) = l\<lparr>lm_held := jset (lm_held l) s p,
        lm_perProvider := jset (lm_perProvider l) p (held_by l p + 1)\<rparr>"
      by (simp add: reserve_def Let_def provider_active_held [OF ok])
    with True ok show ?thesis
      by (auto simp: limiter_ok_def held_by_insert jget_jset length_jset)
  next
    case False
    with ok show ?thesis by (auto simp: reserve_def Let_def provider_active_held)
  qed
qed

lemma release_held:
  assumes ok: "limiter_ok l" and h: "jget (lm_held l) s = Some p"
  shows "fst (limiter_release s l) = Inr True" "limiter_ok (snd (limiter_release s l))"
proof -
  let ?l' = "\<lambda>pp. l\<lparr>lm_held := jdelete (lm_held l) s, lm_perProvider := pp\<rparr>"
  note del = held_by_delete [OF ok h]
  have pos: "held_by l p \<noteq> 0" using del [of p "[]"] by simp
  then show "fst (limiter_release s l) = Inr True"
    by (simp add: limiter_release_def h Let_def provider_active_held [OF ok])
  define pp where "pp = (if held_by l p = 1 then jdelete (lm_perProvider l) p
    else jset (lm_perProvider l) p (held_by l p - 1))"
  have eq: "snd (limiter_release s l) = ?l' pp"
    using pos by (simp add: limiter_release_def h Let_def provider_active_held [OF ok] pp_def)
  have counts: "held_by (?l' pp) q = (if q = p then held_by l q - 1 else held_by l q)" for q
    using del [of q pp] by (auto split: if_splits)
  have "length (jdelete (lm_held l) s) \<le> length (lm_held l)" by (rule length_delete_le)
  moreover have "held_by l q - Suc 0 \<le> lim_perProvider ACTIVE_SESSION_LIMITS" for q
    using ok by (meson diff_le_self le_trans limiter_ok_def)
  ultimately show "limiter_ok (snd (limiter_release s l))"
    using ok pos counts unfolding eq by (auto simp: limiter_ok_def pp_def jget_jset jget_jdelete intro: le_trans)
qed

lemma limiter_ok_step: "limiter_ok l \<Longrightarrow> limiter_ok (limiter_step l op)"
proof (cases op)
  case (Release s)
  assume "limiter_ok l"
  then show ?thesis
    using release_held(2) [of l s] Release by (cases "jget (lm_held l) s") (auto simp: limiter_release_def)
qed (simp add: limiter_ok_reserve)

interpretation limiter: step_system new_limiter limiter_step limiter_ok
proof
  show "limiter_ok new_limiter" by (simp add: limiter_ok_def new_limiter_def held_by_def)
qed (rule limiter_ok_step)


section \<open>The properties of the limiter\<close>

text \<open>
  Whatever the order of reservations and releases, at most four sessions are held, at most two of
  them on one provider, and the counter the daemon reports for a provider is exactly the number of
  sessions held on it.
\<close>

theorem limiter_caps:
  "length (lm_held (foldl limiter_step new_limiter ops)) \<le> 4 \<and>
   held_by (foldl limiter_step new_limiter ops) p \<le> 2 \<and>
   capacityFor (foldl limiter_step new_limiter ops) p =
     \<lparr>cap_global_active = length (lm_held (foldl limiter_step new_limiter ops)), cap_global_limit = 4,
      cap_provider_active = held_by (foldl limiter_step new_limiter ops) p, cap_provider_limit = 2\<rparr>"
  using limiter.invar_reached [of ops] provider_active_held [OF limiter.invar_reached [of ops], of p]
  by (simp add: limiter_ok_def capacityFor_def capacity_def ACTIVE_SESSION_LIMITS_def)

text \<open>
  Admission is exact: on every reachable state a session is admitted iff it holds nothing yet and
  both caps have room; otherwise nothing changes, and with the machine full the reported scope is the
  global one. A release never underflows: it answers whether the session was held, and afterwards the
  session is not held.
\<close>

theorem limiter_exact:
  assumes "l = foldl limiter_step new_limiter ops"
  shows "(fst (reserve p s l) = Inr () \<longleftrightarrow> \<not> holds l s \<and> length (lm_held l) < 4 \<and> held_by l p < 2) \<and>
         (fst (reserve p s l) \<noteq> Inr () \<longrightarrow> snd (reserve p s l) = l) \<and>
         (fst (reserve p s l) = Inr () \<longrightarrow> holds (snd (reserve p s l)) s) \<and>
         (\<not> holds l s \<and> length (lm_held l) = 4 \<longrightarrow>
            fst (reserve p s l) = Inl (ActiveSessionLimitError Scope_global p (capacityFor l p))) \<and>
         fst (limiter_release s l) = Inr (holds l s) \<and>
         \<not> holds (snd (limiter_release s l)) s"
proof -
  have ok: "limiter_ok l" unfolding assms by (rule limiter.invar_reached)
  have "fst (limiter_release s l) = Inr (holds l s) \<and> \<not> holds (snd (limiter_release s l)) s"
    using release_held(1) [OF ok, of s] ok
    by (auto simp: holds_def jhas_def limiter_release_def Let_def jget_jdelete provider_active_held split: option.split)
  then show ?thesis
    by (auto simp: reserve_def Let_def holds_def jhas_def provider_active_held [OF ok] capacityFor_def
        ACTIVE_SESSION_LIMITS_def jget_jset)
qed

theorem limiter_exact_witness:
  "fst (reserve Claude ''s3'' (foldl limiter_step new_limiter [Reserve Claude ''s1'', Reserve Claude ''s2''])) \<noteq> Inr () \<and>
   fst (reserve Codex ''s3'' (foldl limiter_step new_limiter [Reserve Claude ''s1'', Reserve Claude ''s2''])) = Inr ()"
proof -
  note x = limiter_exact [OF refl, THEN conjunct1, of _ "''s3''" "[Reserve Claude ''s1'', Reserve Claude ''s2'']"]
  show ?thesis
    unfolding x by (simp add: new_limiter_def reserve_def Let_def jhas_def provider_active_def
        ACTIVE_SESSION_LIMITS_def holds_def held_by_def)
qed

end
