(* ===== verification/Workspace_Lease.thy ===== *)
theory Workspace_Lease
  imports Js_Strings
begin

text \<open>
  Reader/writer leases over a workspace (\<^verbatim>\<open>apps/daemon/src/workspace-execution-lease.ts\<close>).

  \<^verbatim>\<open>acquire\<close> holds a reference to the workspace's lease set across its only \<^verbatim>\<open>await\<close>, and the set may
  have been pruned from the map meanwhile. The model therefore keeps the sets in an explicit store:
  the map holds addresses, \<open>acquire_begin\<close> runs up to the dirty check or to the end, and
  \<open>acquire_resume\<close> is the continuation of a suspended reader on the address it captured. Fresh ids, the
  clock and the answer of the dirty check are arguments.
\<close>

section \<open>Leases and requests\<close>

datatype WorkspaceLeaseMode = Read | Write

record WorkspaceLease =
  wl_leaseId :: string
  wl_workspaceId :: string
  wl_sessionId :: string
  wl_mode :: WorkspaceLeaseMode
  wl_acquiredAt :: nat

datatype WorkspaceLeaseConflictReason = Writer_active | Reader_active | Workspace_dirty

record AcquireLeaseRequest =
  rq_workspaceId :: string
  rq_sessionId :: string
  rq_mode :: WorkspaceLeaseMode
  rq_canonicalPath :: string
  rq_allowDirtyRead :: bool

text \<open>\<open>runGit args cwd\<close> is the output of a successful git run, \<open>None\<close> for one that failed in any way.\<close>

definition isWorkspaceDirty :: "(string list \<Rightarrow> string \<Rightarrow> string option) \<Rightarrow> string \<Rightarrow> bool" where
  "isWorkspaceDirty runGit canonicalPath =
     (case runGit [''status'', ''--porcelain'', ''--untracked-files=normal''] canonicalPath of
        None \<Rightarrow> True
      | Some stdout \<Rightarrow> length (js_trim stdout) > 0)"

datatype transport_id = Legacy_one_shot

definition workspaceLeaseModeFor :: "transport_id \<Rightarrow> WorkspaceLeaseMode" where
  "workspaceLeaseModeFor transportId = Write"


section \<open>The manager\<close>

record WorkspaceLeaseSet =
  ls_writer :: "WorkspaceLease option"
  ls_readers :: "(string, WorkspaceLease) jmap"
  ls_pendingWriter :: "string option"

record suspended_reader =
  su_request :: AcquireLeaseRequest
  su_set :: nat
  su_marker :: string

record WorkspaceExecutionLeaseManager =
  wm_byWorkspace :: "(string, nat) jmap"
  wm_byLeaseId :: "(string, WorkspaceLease) jmap"
  wm_sets :: "WorkspaceLeaseSet list"
  wm_suspended :: "suspended_reader list"

definition new_manager :: WorkspaceExecutionLeaseManager where
  "new_manager = \<lparr>wm_byWorkspace = [], wm_byLeaseId = [], wm_sets = [], wm_suspended = []\<rparr>"

datatype acquire_result =
  Granted WorkspaceLease
| WorkspaceLeaseConflictError WorkspaceLeaseConflictReason string
| Awaiting_dirty_check

definition empty_set :: WorkspaceLeaseSet where
  "empty_set = \<lparr>ls_writer = None, ls_readers = [], ls_pendingWriter = None\<rparr>"

text \<open>An assignment to a field of the set object at an address.\<close>

definition modify_set :: "nat \<Rightarrow> (WorkspaceLeaseSet \<Rightarrow> WorkspaceLeaseSet) \<Rightarrow> WorkspaceExecutionLeaseManager \<Rightarrow> WorkspaceExecutionLeaseManager" where
  "modify_set a f m = m\<lparr>wm_sets := (wm_sets m)[a := f (wm_sets m ! a)]\<rparr>"

definition set_is_empty :: "WorkspaceLeaseSet \<Rightarrow> bool" where
  "set_is_empty s \<longleftrightarrow> ls_writer s = None \<and> ls_readers s = [] \<and> ls_pendingWriter s = None"

definition pruneIfEmpty :: "string \<Rightarrow> nat \<Rightarrow> WorkspaceExecutionLeaseManager \<Rightarrow> WorkspaceExecutionLeaseManager" where
  "pruneIfEmpty workspaceId a m =
     (if set_is_empty (wm_sets m ! a) then m\<lparr>wm_byWorkspace := jdelete (wm_byWorkspace m) workspaceId\<rparr> else m)"

text \<open>The lookup that creates and publishes a set for a workspace that has none.\<close>

definition find_or_create :: "string \<Rightarrow> WorkspaceExecutionLeaseManager \<Rightarrow> nat \<times> WorkspaceExecutionLeaseManager" where
  "find_or_create workspaceId m =
     (case jget (wm_byWorkspace m) workspaceId of
        Some a \<Rightarrow> (a, m)
      | None \<Rightarrow> (length (wm_sets m),
                 m\<lparr>wm_byWorkspace := jset (wm_byWorkspace m) workspaceId (length (wm_sets m)),
                   wm_sets := wm_sets m @ [empty_set]\<rparr>))"

text \<open>The \<^verbatim>\<open>finally\<close> block.\<close>

definition acquire_finally :: "AcquireLeaseRequest \<Rightarrow> nat \<Rightarrow> string \<Rightarrow> WorkspaceExecutionLeaseManager \<Rightarrow> WorkspaceExecutionLeaseManager" where
  "acquire_finally req a marker m =
     pruneIfEmpty (rq_workspaceId req) a
       (modify_set a (\<lambda>s. if ls_pendingWriter s = Some marker then s\<lparr>ls_pendingWriter := None\<rparr> else s) m)"

text \<open>The rest of the \<^verbatim>\<open>try\<close> block once the dirty check is passed or not needed.\<close>

definition acquire_grant :: "AcquireLeaseRequest \<Rightarrow> nat \<Rightarrow> string \<Rightarrow> string \<Rightarrow> nat \<Rightarrow> WorkspaceExecutionLeaseManager \<Rightarrow> acquire_result \<times> WorkspaceExecutionLeaseManager" where
  "acquire_grant req a marker leaseId now m =
     (let lease = \<lparr>wl_leaseId = leaseId, wl_workspaceId = rq_workspaceId req, wl_sessionId = rq_sessionId req,
                   wl_mode = rq_mode req, wl_acquiredAt = now\<rparr>;
          m1 = modify_set a (\<lambda>s. if rq_mode req = Write then s\<lparr>ls_writer := Some lease\<rparr>
                                 else s\<lparr>ls_readers := jset (ls_readers s) leaseId lease\<rparr>) m;
          m2 = m1\<lparr>wm_byLeaseId := jset (wm_byLeaseId m1) leaseId lease\<rparr>
      in (Granted lease, acquire_finally req a marker m2))"

definition acquire_begin :: "AcquireLeaseRequest \<Rightarrow> string \<Rightarrow> string \<Rightarrow> nat \<Rightarrow> WorkspaceExecutionLeaseManager \<Rightarrow> acquire_result \<times> WorkspaceExecutionLeaseManager" where
  "acquire_begin req marker leaseId now m =
     (let (a, m1) = find_or_create (rq_workspaceId req) m;
          s = wm_sets m1 ! a
      in if ls_writer s \<noteq> None \<or> ls_pendingWriter s \<noteq> None
         then (WorkspaceLeaseConflictError Writer_active (rq_workspaceId req), m1)
         else if rq_mode req = Write \<and> length (ls_readers s) > 0
         then (WorkspaceLeaseConflictError Reader_active (rq_workspaceId req), m1)
         else
           let m2 = (if rq_mode req = Write then modify_set a (\<lambda>s. s\<lparr>ls_pendingWriter := Some marker\<rparr>) m1 else m1)
           in if rq_mode req = Read \<and> length (ls_readers (wm_sets m2 ! a)) > 0 \<and> \<not> rq_allowDirtyRead req
              then (Awaiting_dirty_check,
                    m2\<lparr>wm_suspended := wm_suspended m2 @ [\<lparr>su_request = req, su_set = a, su_marker = marker\<rparr>]\<rparr>)
              else acquire_grant req a marker leaseId now m2)"

definition acquire_resume :: "nat \<Rightarrow> bool \<Rightarrow> string \<Rightarrow> nat \<Rightarrow> WorkspaceExecutionLeaseManager \<Rightarrow> acquire_result \<times> WorkspaceExecutionLeaseManager" where
  "acquire_resume i dirty leaseId now m =
     (if i < length (wm_suspended m)
      then let su = wm_suspended m ! i;
               m1 = m\<lparr>wm_suspended := take i (wm_suspended m) @ drop (Suc i) (wm_suspended m)\<rparr>
           in if dirty
              then (WorkspaceLeaseConflictError Workspace_dirty (rq_workspaceId (su_request su)),
                    acquire_finally (su_request su) (su_set su) (su_marker su) m1)
              else acquire_grant (su_request su) (su_set su) (su_marker su) leaseId now m1
      else (Awaiting_dirty_check, m))"

definition lease_release :: "string \<Rightarrow> WorkspaceExecutionLeaseManager \<Rightarrow> WorkspaceExecutionLeaseManager" where
  "lease_release leaseId m =
     (case jget (wm_byLeaseId m) leaseId of
        None \<Rightarrow> m
      | Some lease \<Rightarrow>
          (let m1 = m\<lparr>wm_byLeaseId := jdelete (wm_byLeaseId m) leaseId\<rparr>
           in case jget (wm_byWorkspace m1) (wl_workspaceId lease) of
                None \<Rightarrow> m1
              | Some a \<Rightarrow>
                  pruneIfEmpty (wl_workspaceId lease) a
                    (modify_set a (\<lambda>s. let s1 = (if map_option wl_leaseId (ls_writer s) = Some leaseId
                                                 then s\<lparr>ls_writer := None\<rparr> else s)
                                       in s1\<lparr>ls_readers := jdelete (ls_readers s1) leaseId\<rparr>) m1)))"

definition releaseForSession :: "string \<Rightarrow> WorkspaceExecutionLeaseManager \<Rightarrow> WorkspaceExecutionLeaseManager" where
  "releaseForSession sessionId m =
     foldl (\<lambda>m lease. if wl_sessionId lease = sessionId then lease_release (wl_leaseId lease) m else m)
       m (map snd (wm_byLeaseId m))"

definition leasesFor :: "WorkspaceExecutionLeaseManager \<Rightarrow> string \<Rightarrow> WorkspaceLease list" where
  "leasesFor m workspaceId =
     (case jget (wm_byWorkspace m) workspaceId of
        None \<Rightarrow> []
      | Some a \<Rightarrow> (case ls_writer (wm_sets m ! a) of Some w \<Rightarrow> [w] | None \<Rightarrow> []) @ map snd (ls_readers (wm_sets m ! a)))"

definition activeLeaseCount :: "WorkspaceExecutionLeaseManager \<Rightarrow> nat" where
  "activeLeaseCount m = length (wm_byLeaseId m)"

datatype lease_op =
  Acquire AcquireLeaseRequest string string nat
| Resume nat bool string nat
| Lease_release string
| Release_session string

fun lease_step :: "WorkspaceExecutionLeaseManager \<Rightarrow> lease_op \<Rightarrow> WorkspaceExecutionLeaseManager" where
  "lease_step m (Acquire req marker leaseId now) = snd (acquire_begin req marker leaseId now m)"
| "lease_step m (Resume i dirty leaseId now) = snd (acquire_resume i dirty leaseId now m)"
| "lease_step m (Lease_release leaseId) = lease_release leaseId m"
| "lease_step m (Release_session sessionId) = releaseForSession sessionId m"


section \<open>Runs without suspension\<close>

text \<open>
  A request that never waits for the dirty check: every writer (the only mode the daemon asks for
  today), and a reader that opted in to sharing a dirty workspace.
\<close>

fun immediate :: "lease_op \<Rightarrow> bool" where
  "immediate (Acquire req marker leaseId now) = (rq_mode req = Write \<or> rq_allowDirtyRead req)"
| "immediate (Resume i dirty leaseId now) = False"
| "immediate _ = True"

definition lease_backed :: "WorkspaceExecutionLeaseManager \<Rightarrow> string \<Rightarrow> WorkspaceLease \<Rightarrow> bool" where
  "lease_backed m i l \<longleftrightarrow> wl_leaseId l = i \<and>
     (case jget (wm_byWorkspace m) (wl_workspaceId l) of
        None \<Rightarrow> False
      | Some a \<Rightarrow> (if wl_mode l = Write then ls_writer (wm_sets m ! a) = Some l
                  else jget (ls_readers (wm_sets m ! a)) i = Some l))"

definition set_ok :: "WorkspaceLeaseSet \<Rightarrow> bool" where
  "set_ok s \<longleftrightarrow> ls_pendingWriter s = None \<and> (ls_writer s = None \<or> ls_readers s = []) \<and> jmap_ok (ls_readers s)"

definition lease_inv :: "WorkspaceExecutionLeaseManager \<Rightarrow> bool" where
  "lease_inv m \<longleftrightarrow>
     jmap_ok (wm_byLeaseId m) \<and>
     (\<forall>w a. jget (wm_byWorkspace m) w = Some a \<longrightarrow> a < length (wm_sets m) \<and> set_ok (wm_sets m ! a)) \<and>
     (\<forall>v w a. jget (wm_byWorkspace m) v = Some a \<and> jget (wm_byWorkspace m) w = Some a \<longrightarrow> v = w) \<and>
     (\<forall>i l. jget (wm_byLeaseId m) i = Some l \<longrightarrow> lease_backed m i l)"


lemmas lease_inv_defs = lease_inv_def lease_backed_def set_ok_def

lemma lease_invI:
  assumes "jmap_ok (wm_byLeaseId m)"
    and "\<And>w a. jget (wm_byWorkspace m) w = Some a \<Longrightarrow> a < length (wm_sets m) \<and> set_ok (wm_sets m ! a)"
    and "\<And>v w a. jget (wm_byWorkspace m) v = Some a \<Longrightarrow> jget (wm_byWorkspace m) w = Some a \<Longrightarrow> v = w"
    and "\<And>i l. jget (wm_byLeaseId m) i = Some l \<Longrightarrow> lease_backed m i l"
  shows "lease_inv m"
  using assms unfolding lease_inv_def by blast

lemma lease_invD:
  assumes "lease_inv m"
  shows "jmap_ok (wm_byLeaseId m)"
    and "jget (wm_byWorkspace m) w = Some a \<Longrightarrow> a < length (wm_sets m)"
    and "jget (wm_byWorkspace m) w = Some a \<Longrightarrow> set_ok (wm_sets m ! a)"
    and "jget (wm_byWorkspace m) v = Some a \<Longrightarrow> jget (wm_byWorkspace m) w = Some a \<Longrightarrow> v = w"
    and "jget (wm_byLeaseId m) i = Some l \<Longrightarrow> lease_backed m i l"
  using assms unfolding lease_inv_def by blast+

text \<open>Replacing one workspace's set and the table of leases together.\<close>

definition set_backs :: "WorkspaceLeaseSet \<Rightarrow> WorkspaceLease \<Rightarrow> bool" where
  "set_backs s l \<longleftrightarrow> (if wl_mode l = Write then ls_writer s = Some l else jget (ls_readers s) (wl_leaseId l) = Some l)"

lemma lease_backed_iff:
  "lease_backed m i l \<longleftrightarrow> wl_leaseId l = i \<and>
     (\<exists>a. jget (wm_byWorkspace m) (wl_workspaceId l) = Some a \<and> set_backs (wm_sets m ! a) l)"
  by (auto simp: lease_backed_def set_backs_def split: option.splits)

lemma inv_set_update:
  assumes inv: "lease_inv m" and w: "jget (wm_byWorkspace m) w = Some a" and s: "set_ok s" and B: "jmap_ok B"
    and leases: "\<And>i l. jget B i = Some l \<Longrightarrow> wl_leaseId l = i \<and>
      (if wl_workspaceId l = w then set_backs s l else jget (wm_byLeaseId m) i = Some l)"
  shows "lease_inv (m\<lparr>wm_sets := (wm_sets m)[a := s], wm_byLeaseId := B\<rparr>)"
proof (rule lease_invI)
  fix i l
  assume "jget (wm_byLeaseId (m\<lparr>wm_sets := (wm_sets m)[a := s], wm_byLeaseId := B\<rparr>)) i = Some l"
  with leases [of i l] have l: "wl_leaseId l = i"
    "if wl_workspaceId l = w then set_backs s l else jget (wm_byLeaseId m) i = Some l" by auto
  show "lease_backed (m\<lparr>wm_sets := (wm_sets m)[a := s], wm_byLeaseId := B\<rparr>) i l"
  proof (cases "wl_workspaceId l = w")
    case True
    with l w lease_invD(2) [OF inv w] show ?thesis by (simp add: lease_backed_iff)
  next
    case False
    with l lease_invD(5) [OF inv, of i l] obtain b
      where b: "jget (wm_byWorkspace m) (wl_workspaceId l) = Some b" "set_backs (wm_sets m ! b) l"
      by (auto simp: lease_backed_iff)
    with False lease_invD(4) [OF inv, of w a "wl_workspaceId l"] w have "b \<noteq> a" by auto
    with b l show ?thesis by (simp add: lease_backed_iff)
  qed
next
  fix v b
  assume "jget (wm_byWorkspace (m\<lparr>wm_sets := (wm_sets m)[a := s], wm_byLeaseId := B\<rparr>)) v = Some b"
  with lease_invD(2,3) [OF inv, of v b] s
  show "b < length (wm_sets (m\<lparr>wm_sets := (wm_sets m)[a := s], wm_byLeaseId := B\<rparr>)) \<and>
      set_ok (wm_sets (m\<lparr>wm_sets := (wm_sets m)[a := s], wm_byLeaseId := B\<rparr>) ! b)"
    by (cases "b = a") simp_all
qed (use B lease_invD(4) [OF inv] in simp_all)

lemma empty_set_backs: "set_is_empty s \<Longrightarrow> \<not> set_backs s l"
  by (simp add: set_is_empty_def set_backs_def)

lemma inv_prune: "lease_inv m \<Longrightarrow> jget (wm_byWorkspace m) w = Some a \<Longrightarrow> lease_inv (pruneIfEmpty w a m)"
proof (cases "set_is_empty (wm_sets m ! a)")
  case True
  assume inv: "lease_inv m" and w: "jget (wm_byWorkspace m) w = Some a"
  have eq: "pruneIfEmpty w a m = m\<lparr>wm_byWorkspace := jdelete (wm_byWorkspace m) w\<rparr>"
    using True by (simp add: pruneIfEmpty_def)
  show ?thesis unfolding eq
  proof (rule lease_invI)
    fix i l
    assume "jget (wm_byLeaseId (m\<lparr>wm_byWorkspace := jdelete (wm_byWorkspace m) w\<rparr>)) i = Some l"
    then have "lease_backed m i l" using lease_invD(5) [OF inv] by simp
    with True w empty_set_backs show "lease_backed (m\<lparr>wm_byWorkspace := jdelete (wm_byWorkspace m) w\<rparr>) i l"
      by (auto simp: lease_backed_iff jget_jdelete)
  qed (use lease_invD(1-4) [OF inv] in \<open>auto simp: jget_jdelete split: if_splits\<close>)
qed (simp add: pruneIfEmpty_def)

lemma inv_find_or_create:
  assumes inv: "lease_inv m" and f: "find_or_create w m = (a, m1)"
  shows "lease_inv m1" "jget (wm_byWorkspace m1) w = Some a" "wm_byLeaseId m1 = wm_byLeaseId m"
    and "wm_sets m1 ! a = (case jget (wm_byWorkspace m) w of Some b \<Rightarrow> wm_sets m ! b | None \<Rightarrow> empty_set)"
proof -
  show "jget (wm_byWorkspace m1) w = Some a" "wm_byLeaseId m1 = wm_byLeaseId m"
    "wm_sets m1 ! a = (case jget (wm_byWorkspace m) w of Some b \<Rightarrow> wm_sets m ! b | None \<Rightarrow> empty_set)"
    using f by (auto simp: find_or_create_def jget_jset split: option.splits)
  show "lease_inv m1"
  proof (cases "jget (wm_byWorkspace m) w")
    case (Some b)
    with inv f show ?thesis by (simp add: find_or_create_def)
  next
    case None
    then have m1: "m1 = m\<lparr>wm_byWorkspace := jset (wm_byWorkspace m) w (length (wm_sets m)), wm_sets := wm_sets m @ [empty_set]\<rparr>"
      using f by (auto simp: find_or_create_def)
    show ?thesis
    proof (rule lease_invI)
      fix v b
      assume "jget (wm_byWorkspace m1) v = Some b"
      with lease_invD(2,3) [OF inv, of v b] show "b < length (wm_sets m1) \<and> set_ok (wm_sets m1 ! b)"
        by (auto simp: m1 jget_jset nth_append set_ok_def empty_set_def split: if_splits)
    next
      fix u v b
      assume "jget (wm_byWorkspace m1) u = Some b" "jget (wm_byWorkspace m1) v = Some b"
      with lease_invD(2,4) [OF inv] show "u = v"
        by (fastforce simp: m1 jget_jset split: if_splits)
    next
      fix i l
      assume "jget (wm_byLeaseId m1) i = Some l"
      then have "lease_backed m i l" using lease_invD(5) [OF inv] by (simp add: m1)
      with None lease_invD(2) [OF inv] show "lease_backed m1 i l"
        by (auto simp: m1 lease_backed_iff jget_jset nth_append)
    qed (use lease_invD(1) [OF inv] m1 in simp)
  qed
qed

definition new_lease :: "AcquireLeaseRequest \<Rightarrow> string \<Rightarrow> nat \<Rightarrow> WorkspaceLease" where
  "new_lease req leaseId now =
     \<lparr>wl_leaseId = leaseId, wl_workspaceId = rq_workspaceId req, wl_sessionId = rq_sessionId req,
      wl_mode = rq_mode req, wl_acquiredAt = now\<rparr>"

definition with_lease :: "WorkspaceLease \<Rightarrow> WorkspaceLeaseSet \<Rightarrow> WorkspaceLeaseSet" where
  "with_lease l s = (if wl_mode l = Write then s\<lparr>ls_writer := Some l, ls_pendingWriter := None\<rparr>
     else s\<lparr>ls_readers := jset (ls_readers s) (wl_leaseId l) l, ls_pendingWriter := None\<rparr>)"

lemma jset_nonempty [simp]: "jset m k v \<noteq> []"
  by (cases m) auto

lemma pending_none: "ls_pendingWriter s = None \<Longrightarrow> s\<lparr>ls_pendingWriter := None\<rparr> = s"
  by (cases s) simp

lemma acquire_grant_eq:
  assumes "a < length (wm_sets m)" "ls_pendingWriter (wm_sets m ! a) \<in> {None, Some marker}"
  shows "acquire_grant req a marker leaseId now m =
    (Granted (new_lease req leaseId now),
     m\<lparr>wm_sets := (wm_sets m)[a := with_lease (new_lease req leaseId now) (wm_sets m ! a)],
       wm_byLeaseId := jset (wm_byLeaseId m) leaseId (new_lease req leaseId now)\<rparr>)"
  using assms
  by (auto simp: acquire_grant_def acquire_finally_def modify_set_def pruneIfEmpty_def set_is_empty_def
      new_lease_def with_lease_def Let_def pending_none)


lemma acquire_immediate:
  assumes inv: "lease_inv m" and im: "rq_mode req = Write \<or> rq_allowDirtyRead req"
    and f: "find_or_create (rq_workspaceId req) m = (a, m1)"
  shows "acquire_begin req marker leaseId now m =
    (if ls_writer (wm_sets m1 ! a) \<noteq> None then (WorkspaceLeaseConflictError Writer_active (rq_workspaceId req), m1)
     else if rq_mode req = Write \<and> ls_readers (wm_sets m1 ! a) \<noteq> []
     then (WorkspaceLeaseConflictError Reader_active (rq_workspaceId req), m1)
     else (Granted (new_lease req leaseId now),
           m1\<lparr>wm_sets := (wm_sets m1)[a := with_lease (new_lease req leaseId now) (wm_sets m1 ! a)],
              wm_byLeaseId := jset (wm_byLeaseId m1) leaseId (new_lease req leaseId now)\<rparr>))"
proof -
  note c = inv_find_or_create [OF inv f]
  from lease_invD(2,3) [OF c(1,2)] have a: "a < length (wm_sets m1)" and ok: "ls_pendingWriter (wm_sets m1 ! a) = None"
    by (simp_all add: set_ok_def)
  let ?m2 = "modify_set a (\<lambda>s. s\<lparr>ls_pendingWriter := Some marker\<rparr>) m1"
  have w: "with_lease l (s\<lparr>ls_pendingWriter := p\<rparr>) = with_lease l s" for l s p
    by (simp add: with_lease_def)
  have "acquire_grant req a marker leaseId now ?m2 =
      (Granted (new_lease req leaseId now),
       m1\<lparr>wm_sets := (wm_sets m1)[a := with_lease (new_lease req leaseId now) (wm_sets m1 ! a)],
          wm_byLeaseId := jset (wm_byLeaseId m1) leaseId (new_lease req leaseId now)\<rparr>)"
    using a acquire_grant_eq [of a ?m2 marker req leaseId now] by (simp add: modify_set_def w)
  with a ok im acquire_grant_eq [of a m1 marker req leaseId now] show ?thesis
    by (cases "rq_mode req") (auto simp: acquire_begin_def f Let_def)
qed

lemma inv_acquire:
  assumes inv: "lease_inv m" and im: "rq_mode req = Write \<or> rq_allowDirtyRead req"
  shows "lease_inv (snd (acquire_begin req marker leaseId now m))"
proof -
  obtain a m1 where f: "find_or_create (rq_workspaceId req) m = (a, m1)" by fastforce
  note c = inv_find_or_create [OF inv f]
  let ?w = "rq_workspaceId req" and ?l = "new_lease req leaseId now" and ?s = "wm_sets m1 ! a"
  have ok: "set_ok ?s" by (rule lease_invD(3) [OF c(1,2)])
  have "lease_inv (m1\<lparr>wm_sets := (wm_sets m1)[a := with_lease ?l ?s], wm_byLeaseId := jset (wm_byLeaseId m1) leaseId ?l\<rparr>)"
    if free: "ls_writer ?s = None" "rq_mode req = Write \<Longrightarrow> ls_readers ?s = []"
  proof (rule inv_set_update [OF c(1,2)])
    show "set_ok (with_lease ?l ?s)"
      using ok free by (auto simp: set_ok_def with_lease_def new_lease_def)
    show "jmap_ok (jset (wm_byLeaseId m1) leaseId ?l)" using lease_invD(1) [OF c(1)] by simp
    fix i l
    assume i: "jget (jset (wm_byLeaseId m1) leaseId ?l) i = Some l"
    show "wl_leaseId l = i \<and> (if wl_workspaceId l = ?w then set_backs (with_lease ?l ?s) l else jget (wm_byLeaseId m1) i = Some l)"
    proof (cases "i = leaseId")
      case True
      with i show ?thesis by (auto simp: jget_jset new_lease_def with_lease_def set_backs_def)
    next
      case False
      with i have l: "jget (wm_byLeaseId m1) i = Some l" by (simp add: jget_jset)
      from lease_invD(5) [OF c(1) l] c(2) have "wl_leaseId l = i" "wl_workspaceId l = ?w \<Longrightarrow> set_backs ?s l"
        by (auto simp: lease_backed_iff)
      with l False free show ?thesis
        by (cases "rq_mode req") (auto simp: set_backs_def with_lease_def new_lease_def jget_jset)
    qed
  qed
  then show ?thesis using c(1) by (auto simp: acquire_immediate [OF inv im f])
qed

definition without_lease :: "string \<Rightarrow> WorkspaceLeaseSet \<Rightarrow> WorkspaceLeaseSet" where
  "without_lease i s = (if map_option wl_leaseId (ls_writer s) = Some i then s\<lparr>ls_writer := None, ls_readers := jdelete (ls_readers s) i\<rparr>
     else s\<lparr>ls_readers := jdelete (ls_readers s) i\<rparr>)"

lemma sets_before_leases:
  "m\<lparr>wm_byLeaseId := B, wm_sets := S\<rparr> = m\<lparr>wm_sets := S, wm_byLeaseId := B\<rparr>"
  by (cases m) simp

lemma release_eq:
  assumes inv: "lease_inv m" and l: "jget (wm_byLeaseId m) i = Some l"
  obtains a where "jget (wm_byWorkspace m) (wl_workspaceId l) = Some a" "set_backs (wm_sets m ! a) l" "wl_leaseId l = i"
    "lease_release i m = pruneIfEmpty (wl_workspaceId l) a
       (m\<lparr>wm_sets := (wm_sets m)[a := without_lease i (wm_sets m ! a)], wm_byLeaseId := jdelete (wm_byLeaseId m) i\<rparr>)"
proof -
  from lease_invD(5) [OF inv l] obtain a
    where a: "jget (wm_byWorkspace m) (wl_workspaceId l) = Some a" "set_backs (wm_sets m ! a) l" "wl_leaseId l = i"
    by (auto simp: lease_backed_iff)
  then have "lease_release i m = pruneIfEmpty (wl_workspaceId l) a
       (m\<lparr>wm_sets := (wm_sets m)[a := without_lease i (wm_sets m ! a)], wm_byLeaseId := jdelete (wm_byLeaseId m) i\<rparr>)"
    by (auto simp: lease_release_def l Let_def modify_set_def without_lease_def sets_before_leases)
  with a that show thesis by blast
qed

lemma without_lease_ok: "set_ok s \<Longrightarrow> set_ok (without_lease i s)"
  by (auto simp: set_ok_def without_lease_def)

lemma without_lease_backs: "set_backs s l \<Longrightarrow> wl_leaseId l \<noteq> i \<Longrightarrow> set_backs (without_lease i s) l"
  by (auto simp: set_backs_def without_lease_def jget_jdelete)

lemma inv_release_mid:
  assumes inv: "lease_inv m" and l: "jget (wm_byLeaseId m) i = Some l" and a: "jget (wm_byWorkspace m) (wl_workspaceId l) = Some a"
  shows "lease_inv (m\<lparr>wm_sets := (wm_sets m)[a := without_lease i (wm_sets m ! a)], wm_byLeaseId := jdelete (wm_byLeaseId m) i\<rparr>)"
proof (rule inv_set_update [OF inv a])
  show "set_ok (without_lease i (wm_sets m ! a))" by (rule without_lease_ok [OF lease_invD(3) [OF inv a]])
  show "jmap_ok (jdelete (wm_byLeaseId m) i)" using lease_invD(1) [OF inv] by simp
  fix j k
  assume "jget (jdelete (wm_byLeaseId m) i) j = Some k"
  then have j: "j \<noteq> i" "jget (wm_byLeaseId m) j = Some k" by (auto simp: jget_jdelete split: if_splits)
  from lease_invD(5) [OF inv j(2)] a j show "wl_leaseId k = j \<and>
    (if wl_workspaceId k = wl_workspaceId l then set_backs (without_lease i (wm_sets m ! a)) k else jget (wm_byLeaseId m) j = Some k)"
    by (auto simp: lease_backed_iff without_lease_backs)
qed

lemma inv_release: "lease_inv m \<Longrightarrow> lease_inv (lease_release i m)"
proof (cases "jget (wm_byLeaseId m) i")
  case (Some l)
  assume inv: "lease_inv m"
  from release_eq [OF inv Some] obtain a where a: "jget (wm_byWorkspace m) (wl_workspaceId l) = Some a"
    and eq: "lease_release i m = pruneIfEmpty (wl_workspaceId l) a
       (m\<lparr>wm_sets := (wm_sets m)[a := without_lease i (wm_sets m ! a)], wm_byLeaseId := jdelete (wm_byLeaseId m) i\<rparr>)"
    by metis
  from inv_prune [OF inv_release_mid [OF inv Some a], of "wl_workspaceId l" a] a show ?thesis
    by (simp add: eq)
qed (simp add: lease_release_def)

lemma inv_releaseForSession: "lease_inv m \<Longrightarrow> lease_inv (releaseForSession s m)"
proof -
  have "lease_inv m \<Longrightarrow> lease_inv (foldl (\<lambda>m lease. if wl_sessionId lease = s then lease_release (wl_leaseId lease) m else m) m ls)" for ls m
    by (induction ls arbitrary: m) (auto intro: inv_release)
  then show "lease_inv m \<Longrightarrow> ?thesis" by (simp add: releaseForSession_def)
qed

definition immediate_step :: "WorkspaceExecutionLeaseManager \<Rightarrow> lease_op \<Rightarrow> WorkspaceExecutionLeaseManager" where
  "immediate_step m op = (if immediate op then lease_step m op else m)"

interpretation lease: step_system new_manager immediate_step lease_inv
proof
  show "lease_inv new_manager" by (simp add: lease_inv_def new_manager_def)
  show "lease_inv (immediate_step m op)" if "lease_inv m" for m op
    using that by (cases op) (auto simp: immediate_step_def inv_acquire inv_release inv_releaseForSession)
qed

lemma immediate_run: "list_all immediate ops \<Longrightarrow> foldl lease_step m ops = foldl immediate_step m ops"
  by (induction ops arbitrary: m) (auto simp: immediate_step_def)

lemma backed_exclusive:
  assumes inv: "lease_inv m" and l: "jget (wm_byLeaseId m) i = Some l" and k: "jget (wm_byLeaseId m) j = Some k"
    and w: "wl_workspaceId l = wl_workspaceId k" "wl_mode l = Write"
  shows "l = k \<and> i = j"
proof -
  from lease_invD(5) [OF inv l] lease_invD(5) [OF inv k] w(1) obtain a
    where a: "jget (wm_byWorkspace m) (wl_workspaceId l) = Some a" "set_backs (wm_sets m ! a) l" "set_backs (wm_sets m ! a) k"
      "wl_leaseId l = i" "wl_leaseId k = j" by (auto simp: lease_backed_iff)
  with lease_invD(3) [OF inv a(1)] w(2) show ?thesis
    by (auto simp: set_backs_def set_ok_def split: if_splits)
qed


section \<open>The properties of the leases\<close>


definition ex_req :: "string \<Rightarrow> WorkspaceLeaseMode \<Rightarrow> AcquireLeaseRequest" where
  "ex_req sid md = \<lparr>rq_workspaceId = ''w'', rq_sessionId = sid, rq_mode = md, rq_canonicalPath = ''/p'', rq_allowDirtyRead = False\<rparr>"

lemmas lease_eval = new_manager_def acquire_begin_def find_or_create_def empty_set_def acquire_grant_def
  acquire_resume_def acquire_finally_def modify_set_def pruneIfEmpty_def set_is_empty_def lease_release_def Let_def ex_req_def


text \<open>
  Hand-over: once a write lease is released the workspace is free again, so the next request for
  it is granted, whatever its mode; and releasing the same id again changes nothing.
\<close>

theorem release_frees_workspace:
  assumes "list_all immediate ops" and "m = foldl lease_step new_manager ops"
    and "jget (wm_byLeaseId m) i = Some l" and "wl_mode l = Write" and "rq_workspaceId req = wl_workspaceId l"
  shows "fst (acquire_begin req marker leaseId now (lease_release i m)) = Granted (new_lease req leaseId now) \<and>
         lease_release i (lease_release i m) = lease_release i m"
proof -
  have inv: "lease_inv m" unfolding assms(2) immediate_run [OF assms(1)] by (rule lease.invar_reached)
  from release_eq [OF inv assms(3)] obtain a where a: "jget (wm_byWorkspace m) (wl_workspaceId l) = Some a"
    "set_backs (wm_sets m ! a) l" "wl_leaseId l = i"
    and eq: "lease_release i m = pruneIfEmpty (wl_workspaceId l) a
       (m\<lparr>wm_sets := (wm_sets m)[a := without_lease i (wm_sets m ! a)], wm_byLeaseId := jdelete (wm_byLeaseId m) i\<rparr>)" by metis
  note len = lease_invD(2) [OF inv a(1)] and ok = lease_invD(3) [OF inv a(1)]
  have "set_is_empty (without_lease i (wm_sets m ! a))"
    using a ok assms(4) by (auto simp: set_is_empty_def without_lease_def set_backs_def set_ok_def)
  then have rel: "lease_release i m = m\<lparr>wm_sets := (wm_sets m)[a := without_lease i (wm_sets m ! a)],
      wm_byLeaseId := jdelete (wm_byLeaseId m) i, wm_byWorkspace := jdelete (wm_byWorkspace m) (wl_workspaceId l)\<rparr>"
    using len by (simp add: eq pruneIfEmpty_def)
  have "jget (wm_byLeaseId (lease_release i m)) i = None" "jget (wm_byWorkspace (lease_release i m)) (wl_workspaceId l) = None"
    by (simp_all add: rel jget_jdelete)
  then show ?thesis
    using assms(5) by (cases "rq_mode req")
      (simp_all add: lease_release_def acquire_begin_def find_or_create_def Let_def empty_set_def acquire_grant_def new_lease_def modify_set_def)
qed

theorem release_frees_workspace_witness:
  "fst (acquire_begin (ex_req ''s2'' Write) ''m2'' ''L2'' 2
     (lease_release ''L1'' (foldl lease_step new_manager [Acquire (ex_req ''s1'' Write) ''m1'' ''L1'' 1]))) =
   Granted (new_lease (ex_req ''s2'' Write) ''L2'' 2)"
proof -
  let ?ops = "[Acquire (ex_req ''s1'' Write) ''m1'' ''L1'' 1]"
  let ?l = "\<lparr>wl_leaseId = ''L1'', wl_workspaceId = ''w'', wl_sessionId = ''s1'', wl_mode = Write, wl_acquiredAt = 1\<rparr>"
  have "jget (wm_byLeaseId (foldl lease_step new_manager ?ops)) ''L1'' = Some ?l"
    by (simp add: lease_eval)
  from release_frees_workspace [OF _ refl this, of "ex_req ''s2'' Write" "''m2''" "''L2''" 2] show ?thesis
    by (simp add: ex_req_def)
qed


end
