(* ===== verification/Accepted_Work.thy ===== *)
theory Accepted_Work
  imports Stage_Routing
begin

text \<open>
  The retry-safety state of a session and what is built on it
  (\<^verbatim>\<open>packages/agent-runtime/src/providers/common/{accepted-work,launch-scope,fallback-gate}.ts\<close> and
  \<^verbatim>\<open>providers/compatibility-manifest.ts\<close>).

  \<open>AcceptedWorkState\<close> is made a linear order by the source's rank table, and the latch is a ratchet over
  it. The fallback gate is an ordered gate: the list of its six checks, the first refusal of which it
  returns. The manifest supplies the boundary of an adapter and fails closed.
\<close>

section \<open>The accepted-work lattice\<close>

datatype AcceptedWorkState = Not_accepted | Accepted | Acceptance_unknown

fun ACCEPTED_WORK_RANK :: "AcceptedWorkState \<Rightarrow> nat" where
  "ACCEPTED_WORK_RANK Not_accepted = 0"
| "ACCEPTED_WORK_RANK Acceptance_unknown = 1"
| "ACCEPTED_WORK_RANK Accepted = 2"

lemma rank_inject [simp]: "ACCEPTED_WORK_RANK a = ACCEPTED_WORK_RANK b \<longleftrightarrow> a = b"
  by (cases a; cases b) simp_all

instantiation AcceptedWorkState :: linorder
begin

definition less_eq_AcceptedWorkState :: "AcceptedWorkState \<Rightarrow> AcceptedWorkState \<Rightarrow> bool" where
  "less_eq_AcceptedWorkState a b \<longleftrightarrow> ACCEPTED_WORK_RANK a \<le> ACCEPTED_WORK_RANK b"

definition less_AcceptedWorkState :: "AcceptedWorkState \<Rightarrow> AcceptedWorkState \<Rightarrow> bool" where
  "less_AcceptedWorkState a b \<longleftrightarrow> ACCEPTED_WORK_RANK a < ACCEPTED_WORK_RANK b"

instance
  by standard (auto simp: less_eq_AcceptedWorkState_def less_AcceptedWorkState_def)

end

text \<open>The latch: its state, and the value with which its promise has settled.\<close>

record AcceptedWorkLatch =
  la_current :: AcceptedWorkState
  la_accepted :: "AcceptedWorkState option"

definition new_latch :: AcceptedWorkLatch where
  "new_latch = \<lparr>la_current = Not_accepted, la_accepted = None\<rparr>"

text \<open>Resolving a promise that is already resolved does nothing.\<close>

definition settle :: "AcceptedWorkState \<Rightarrow> AcceptedWorkLatch \<Rightarrow> AcceptedWorkLatch" where
  "settle st l = (if la_accepted l = None then l\<lparr>la_accepted := Some st\<rparr> else l)"

definition observe :: "AcceptedWorkLatch \<Rightarrow> AcceptedWorkState \<Rightarrow> AcceptedWorkLatch" where
  "observe l nxt =
     (if ACCEPTED_WORK_RANK nxt > ACCEPTED_WORK_RANK (la_current l)
      then (let wasNotAccepted = (la_current l = Not_accepted);
                l1 = l\<lparr>la_current := nxt\<rparr>
            in if wasNotAccepted then settle (la_current l1) l1 else l1)
      else l)"


section \<open>The launch scope\<close>

record FrozenLaunchScope =
  sc_provider :: ProviderId
  sc_cwd :: string
  sc_executablePath :: "string option"
  sc_providerVersion :: "string option"
  sc_authenticated :: AuthStatus
  sc_model :: "string option"
  sc_platform :: string
  sc_transportId :: string
  sc_accountEvidence :: unit

text \<open>The members of a provider status and of the start options that a scope is built from.\<close>

record ProviderStatus =
  ps_id :: ProviderId
  ps_executablePath :: "string option"
  ps_version :: "string option"
  ps_authenticated :: AuthStatus

record StartSessionOptions =
  st_cwd :: string
  st_model :: "string option"

definition freezeLaunchScope :: "string \<Rightarrow> ProviderStatus \<Rightarrow> StartSessionOptions \<Rightarrow> string \<Rightarrow> FrozenLaunchScope" where
  "freezeLaunchScope platform status start transportId =
     \<lparr>sc_provider = ps_id status, sc_cwd = st_cwd start, sc_executablePath = ps_executablePath status,
      sc_providerVersion = ps_version status, sc_authenticated = ps_authenticated status,
      sc_model = st_model start, sc_platform = platform, sc_transportId = transportId, sc_accountEvidence = ()\<rparr>"

datatype scope_field =
  F_provider | F_cwd | F_executablePath | F_providerVersion | F_authenticated | F_model | F_platform
| F_transportId | F_accountEvidence

definition SCOPE_FIELDS :: "scope_field list" where
  "SCOPE_FIELDS = [F_provider, F_cwd, F_executablePath, F_providerVersion, F_authenticated, F_model,
     F_platform, F_accountEvidence]"

definition SCOPE_FIELDS_EXCLUDED_FROM_EQUALITY :: "scope_field list" where
  "SCOPE_FIELDS_EXCLUDED_FROM_EQUALITY = [F_transportId]"

text \<open>\<^verbatim>\<open>a[field] === b[field]\<close>\<close>

fun field_eq :: "FrozenLaunchScope \<Rightarrow> FrozenLaunchScope \<Rightarrow> scope_field \<Rightarrow> bool" where
  "field_eq a b F_provider = (sc_provider a = sc_provider b)"
| "field_eq a b F_cwd = (sc_cwd a = sc_cwd b)"
| "field_eq a b F_executablePath = (sc_executablePath a = sc_executablePath b)"
| "field_eq a b F_providerVersion = (sc_providerVersion a = sc_providerVersion b)"
| "field_eq a b F_authenticated = (sc_authenticated a = sc_authenticated b)"
| "field_eq a b F_model = (sc_model a = sc_model b)"
| "field_eq a b F_platform = (sc_platform a = sc_platform b)"
| "field_eq a b F_transportId = (sc_transportId a = sc_transportId b)"
| "field_eq a b F_accountEvidence = (sc_accountEvidence a = sc_accountEvidence b)"

definition launchScopesEqual :: "FrozenLaunchScope \<Rightarrow> FrozenLaunchScope \<Rightarrow> bool" where
  "launchScopesEqual a b = list_all (field_eq a b) SCOPE_FIELDS"


section \<open>The fallback gate\<close>

datatype ProviderDeliveryState = Not_delivered | Delivery_is_ambiguous | Delivered

datatype FallbackDeniedReason =
  No_alternate_transport | Work_accepted | Work_acceptance_unknown | Delivery_ambiguous | Delivery_confirmed
| Fallback_already_consumed | Scope_mismatch | Session_terminal

datatype FallbackDecision = Fallback_allowed FrozenLaunchScope | Fallback_denied FallbackDeniedReason

record FallbackAuthorizeInput =
  fa_candidate :: FrozenLaunchScope
  fa_acceptedWork :: AcceptedWorkState
  fa_delivery :: ProviderDeliveryState
  fa_alternateTransportIds :: "string list"
  fa_terminal :: bool

record FallbackGate =
  fg_primary :: FrozenLaunchScope
  fg_consumed :: nat

definition new_gate :: "FrozenLaunchScope \<Rightarrow> FallbackGate" where
  "new_gate primary = \<lparr>fg_primary = primary, fg_consumed = 0\<rparr>"

definition authorize :: "FallbackGate \<Rightarrow> FallbackAuthorizeInput \<Rightarrow> FallbackDecision" where
  "authorize g input =
     (if length (fa_alternateTransportIds input) = 0 then Fallback_denied No_alternate_transport
      else if fa_terminal input then Fallback_denied Session_terminal
      else if fg_consumed g \<noteq> 0 then Fallback_denied Fallback_already_consumed
      else if fa_delivery input \<noteq> Not_delivered
      then Fallback_denied (if fa_delivery input = Delivery_is_ambiguous then Delivery_ambiguous else Delivery_confirmed)
      else if fa_acceptedWork input \<noteq> Not_accepted
      then Fallback_denied (if fa_acceptedWork input = Accepted then Work_accepted else Work_acceptance_unknown)
      else if \<not> launchScopesEqual (fg_primary g) (fa_candidate input) then Fallback_denied Scope_mismatch
      else Fallback_allowed (fa_candidate input))"

datatype gate_error = Budget_already_consumed

definition consume :: "FallbackGate \<Rightarrow> gate_error + FallbackGate" where
  "consume g = (if fg_consumed g \<noteq> 0 then Inl Budget_already_consumed else Inr (g\<lparr>fg_consumed := fg_consumed g + 1\<rparr>))"


section \<open>The compatibility manifest\<close>

definition LEGACY_ONE_SHOT_TRANSPORT_ID :: string where
  "LEGACY_ONE_SHOT_TRANSPORT_ID = ''legacy-one-shot''"

definition CODEX_APP_SERVER_TRANSPORT_ID :: string where
  "CODEX_APP_SERVER_TRANSPORT_ID = ''codex-app-server''"

datatype ProviderImplementation = Impl_claude | Impl_codex | Impl_fake

datatype AcceptedWorkBoundary = First_prompt_byte_to_stdin | Process_spawn_attempt | Turn_start_write_attempt

record ProviderCompatibilityManifestEntry =
  pc_provider :: ProviderImplementation
  pc_providerVersion :: string
  pc_transportId :: string
  pc_acceptedWorkBoundary :: AcceptedWorkBoundary
  pc_fixtureSet :: string

definition CLAUDE_LEGACY_COMPATIBILITY :: ProviderCompatibilityManifestEntry where
  "CLAUDE_LEGACY_COMPATIBILITY = \<lparr>pc_provider = Impl_claude, pc_providerVersion = ''2.1.228'',
     pc_transportId = LEGACY_ONE_SHOT_TRANSPORT_ID, pc_acceptedWorkBoundary = First_prompt_byte_to_stdin,
     pc_fixtureSet = ''claude-legacy-2.1.228-v1''\<rparr>"

definition CODEX_LEGACY_COMPATIBILITY :: ProviderCompatibilityManifestEntry where
  "CODEX_LEGACY_COMPATIBILITY = \<lparr>pc_provider = Impl_codex, pc_providerVersion = ''0.147.0'',
     pc_transportId = LEGACY_ONE_SHOT_TRANSPORT_ID, pc_acceptedWorkBoundary = First_prompt_byte_to_stdin,
     pc_fixtureSet = ''codex-legacy-0.147.0-v1''\<rparr>"

definition CODEX_APP_SERVER_COMPATIBILITY :: ProviderCompatibilityManifestEntry where
  "CODEX_APP_SERVER_COMPATIBILITY = \<lparr>pc_provider = Impl_codex, pc_providerVersion = ''0.147.0'',
     pc_transportId = CODEX_APP_SERVER_TRANSPORT_ID, pc_acceptedWorkBoundary = Turn_start_write_attempt,
     pc_fixtureSet = ''codex-app-server-0.147.0-live-fixture-v1''\<rparr>"

definition PROVIDER_COMPATIBILITY_MANIFEST :: "ProviderCompatibilityManifestEntry list" where
  "PROVIDER_COMPATIBILITY_MANIFEST =
     [CLAUDE_LEGACY_COMPATIBILITY, CODEX_LEGACY_COMPATIBILITY, CODEX_APP_SERVER_COMPATIBILITY]"

definition findProviderCompatibility ::
  "ProviderImplementation \<Rightarrow> string option \<Rightarrow> string \<Rightarrow> ProviderCompatibilityManifestEntry option" where
  "findProviderCompatibility provider providerVersion transportId =
     (case providerVersion of
        None \<Rightarrow> None
      | Some v \<Rightarrow>
          if v = [] then None
          else List.find (\<lambda>entry. pc_provider entry = provider \<and> pc_providerVersion entry = v \<and>
                            pc_transportId entry = transportId) PROVIDER_COMPATIBILITY_MANIFEST)"

definition acceptedWorkBoundaryFor :: "ProviderCompatibilityManifestEntry option \<Rightarrow> AcceptedWorkBoundary" where
  "acceptedWorkBoundaryFor entry =
     (case entry of Some e \<Rightarrow> pc_acceptedWorkBoundary e | None \<Rightarrow> Process_spawn_attempt)"


section \<open>The latch is a ratchet\<close>

lemma observe_current: "la_current (observe l x) = max (la_current l) x"
  by (auto simp: observe_def settle_def Let_def max_def less_eq_AcceptedWorkState_def)

interpretation latch: ratchet la_current observe "\<lambda>x. x"
  by unfold_locales (rule observe_current)

lemma not_accepted_least: "Not_accepted \<le> x"
  by (simp add: less_eq_AcceptedWorkState_def)

lemma le_not_accepted: "x \<le> Not_accepted \<longleftrightarrow> x = Not_accepted"
  by (cases x) (simp_all add: less_eq_AcceptedWorkState_def)

definition latch_ok :: "AcceptedWorkLatch \<Rightarrow> bool" where
  "latch_ok l \<longleftrightarrow> (la_accepted l = None \<longleftrightarrow> la_current l = Not_accepted)"

lemma latch_settle_step:
  "latch_ok l \<Longrightarrow> latch_ok (observe l x) \<and>
     la_accepted (observe l x) = (case la_accepted l of Some y \<Rightarrow> Some y | None \<Rightarrow> if x = Not_accepted then None else Some x)"
  by (cases x; cases "la_current l") (auto simp: latch_ok_def observe_def settle_def Let_def split: option.splits)

lemma latch_settles:
  "latch_ok l \<Longrightarrow> la_accepted (foldl observe l es) =
     (case la_accepted l of Some y \<Rightarrow> Some y | None \<Rightarrow> List.find (\<lambda>x. x \<noteq> Not_accepted) es)"
proof (induction es arbitrary: l)
  case (Cons x es)
  with latch_settle_step [of l x] show ?case by (auto split: option.splits)
qed (simp split: option.split)

lemma new_latch_ok: "latch_ok new_latch"
  by (simp add: latch_ok_def new_latch_def)

lemma latch_bottom_iff: "la_current (foldl observe new_latch es) = Not_accepted \<longleftrightarrow> (\<forall>x\<in>set es. x = Not_accepted)"
proof -
  have "la_current (foldl observe new_latch es) = Not_accepted \<longleftrightarrow>
      Max (insert Not_accepted (set es)) \<le> Not_accepted"
    by (simp add: latch.level_observes new_latch_def le_not_accepted)
  also have "\<dots> \<longleftrightarrow> (\<forall>x\<in>set es. x = Not_accepted)"
    by (subst Max_le_iff) (auto simp: le_not_accepted)
  finally show ?thesis .
qed


section \<open>The gate is an ordered gate\<close>

definition fallback_checks :: "FallbackGate \<Rightarrow> (FallbackAuthorizeInput \<Rightarrow> FallbackDeniedReason option) list" where
  "fallback_checks g =
     [\<lambda>i. if fa_alternateTransportIds i = [] then Some No_alternate_transport else None,
      \<lambda>i. if fa_terminal i then Some Session_terminal else None,
      \<lambda>i. if fg_consumed g \<noteq> 0 then Some Fallback_already_consumed else None,
      \<lambda>i. case fa_delivery i of Not_delivered \<Rightarrow> None | Delivery_is_ambiguous \<Rightarrow> Some Delivery_ambiguous | Delivered \<Rightarrow> Some Delivery_confirmed,
      \<lambda>i. case fa_acceptedWork i of Not_accepted \<Rightarrow> None | Accepted \<Rightarrow> Some Work_accepted | Acceptance_unknown \<Rightarrow> Some Work_acceptance_unknown,
      \<lambda>i. if launchScopesEqual (fg_primary g) (fa_candidate i) then None else Some Scope_mismatch]"

fun denial :: "FallbackDecision \<Rightarrow> FallbackDeniedReason option" where
  "denial (Fallback_allowed s) = None"
| "denial (Fallback_denied r) = Some r"

interpretation fallback: ordered_gate "\<lambda>i. denial (authorize g i)" "fallback_checks g" for g
proof
  fix i
  show "denial (authorize g i) = first_refusal (fallback_checks g) i"
    by (simp add: authorize_def fallback_checks_def split: ProviderDeliveryState.split AcceptedWorkState.split)
qed

lemma launchScopesEqual_iff: "launchScopesEqual a b \<longleftrightarrow> a\<lparr>sc_transportId := sc_transportId b\<rparr> = b"
  by (cases a; cases b) (auto simp: launchScopesEqual_def SCOPE_FIELDS_def)

lemma allowed_iff:
  "denial (authorize g i) = None \<longleftrightarrow>
     fa_alternateTransportIds i \<noteq> [] \<and> \<not> fa_terminal i \<and> fg_consumed g = 0 \<and> fa_delivery i = Not_delivered \<and>
     fa_acceptedWork i = Not_accepted \<and> (fg_primary g)\<lparr>sc_transportId := sc_transportId (fa_candidate i)\<rparr> = fa_candidate i"
  unfolding fallback.passes_iff launchScopesEqual_iff [symmetric]
  by (auto simp: fallback_checks_def split: ProviderDeliveryState.splits AcceptedWorkState.splits if_splits)

datatype gate_call = Call_authorize FallbackAuthorizeInput | Call_consume

definition gate_step :: "FallbackGate \<Rightarrow> gate_call \<Rightarrow> FallbackGate" where
  "gate_step g c = (case c of Call_authorize i \<Rightarrow> g | Call_consume \<Rightarrow> (case consume g of Inr g' \<Rightarrow> g' | Inl e \<Rightarrow> g))"

interpretation gate_budget: monotone_system "new_gate s" gate_step "\<lambda>g. fg_consumed g \<le> 1" fg_consumed for s
  by unfold_locales (auto simp: new_gate_def gate_step_def consume_def split: gate_call.splits)


section \<open>The properties of the retry-safety state\<close>

text \<open>
  The latch is a join: after any observations its state is the highest of them in the rank order,
  so any permutation, duplication or delay of them gives the same state; it is back at the only
  retry-safe state iff nothing else was ever observed; and its promise settles with the first
  observation above that state and never changes afterwards.
\<close>

theorem latch_is_join:
  "la_current (foldl observe new_latch es) = Max (insert Not_accepted (set es)) \<and>
   (la_current (foldl observe new_latch es) = Not_accepted \<longleftrightarrow> set es \<subseteq> {Not_accepted}) \<and>
   la_accepted (foldl observe new_latch es) = List.find (\<lambda>x. x \<noteq> Not_accepted) es"
  using latch.level_observes [of new_latch es] latch_bottom_iff [of es] latch_settles [OF new_latch_ok, of es]
  by (auto simp: new_latch_def)

text \<open>
  C29. A restart on another transport is authorized only when nothing can have been delivered: if any
  observation of the session's latch was not \<^verbatim>\<open>not_accepted\<close>, or the transport does not rule delivery
  out, the gate denies it; and an allowed restart runs in exactly the primary launch scope, the
  transport apart, with the budget unspent.
\<close>

theorem fallback_only_when_safe:
  assumes "authorize g i = Fallback_allowed s" and "fa_acceptedWork i = la_current (foldl observe new_latch es)"
  shows "set es \<subseteq> {Not_accepted} \<and> fa_delivery i = Not_delivered \<and> \<not> fa_terminal i \<and> fg_consumed g = 0 \<and>
         fa_alternateTransportIds i \<noteq> [] \<and> s = fa_candidate i \<and>
         s = (fg_primary g)\<lparr>sc_transportId := sc_transportId s\<rparr>"
proof -
  from assms(1) have "denial (authorize g i) = None" "s = fa_candidate i"
    by (auto simp: authorize_def split: if_splits)
  with assms(2) latch_bottom_iff [of es] show ?thesis by (auto simp: allowed_iff)
qed

definition ex_scope :: "string \<Rightarrow> FrozenLaunchScope" where
  "ex_scope t = freezeLaunchScope ''linux''
     \<lparr>ps_id = Codex, ps_executablePath = Some ''/bin/codex'', ps_version = Some ''0.147.0'', ps_authenticated = Authenticated\<rparr>
     \<lparr>st_cwd = ''/w'', st_model = None\<rparr> t"

theorem fallback_only_when_safe_witness:
  "ex_scope LEGACY_ONE_SHOT_TRANSPORT_ID =
     (fg_primary (new_gate (ex_scope CODEX_APP_SERVER_TRANSPORT_ID)))
       \<lparr>sc_transportId := sc_transportId (ex_scope LEGACY_ONE_SHOT_TRANSPORT_ID)\<rparr>"
proof -
  let ?g = "new_gate (ex_scope CODEX_APP_SERVER_TRANSPORT_ID)"
  let ?i = "\<lparr>fa_candidate = ex_scope LEGACY_ONE_SHOT_TRANSPORT_ID, fa_acceptedWork = Not_accepted, fa_delivery = Not_delivered,
     fa_alternateTransportIds = [LEGACY_ONE_SHOT_TRANSPORT_ID], fa_terminal = False\<rparr>"
  have a: "authorize ?g ?i = Fallback_allowed (ex_scope LEGACY_ONE_SHOT_TRANSPORT_ID)"
    by (simp add: authorize_def new_gate_def launchScopesEqual_def SCOPE_FIELDS_def ex_scope_def freezeLaunchScope_def)
  have "fa_acceptedWork ?i = la_current (foldl observe new_latch [Not_accepted])"
    by (simp add: new_latch_def observe_def)
  from fallback_only_when_safe [OF a this] show ?thesis by blast
qed

text \<open>
  At most one fallback per session: once a consumption has succeeded, whatever calls follow, every
  later authorization is denied and every later consumption throws.
\<close>

theorem fallback_at_most_once:
  assumes "consume (foldl gate_step (new_gate s) cs) = Inr g"
  shows "(\<forall>x. authorize (foldl gate_step g ds) i \<noteq> Fallback_allowed x) \<and>
         consume (foldl gate_step g ds) = Inl Budget_already_consumed"
proof -
  from assms have "fg_consumed g = 1" by (auto simp: consume_def split: if_splits)
  then have "1 \<le> fg_consumed (foldl gate_step g ds)"
    using gate_budget.level_run [of g ds] by simp
  then show ?thesis by (auto simp: authorize_def consume_def)
qed

theorem fallback_at_most_once_witness:
  "consume (foldl gate_step ((new_gate (ex_scope ''t''))\<lparr>fg_consumed := 1\<rparr>) [Call_consume]) = Inl Budget_already_consumed"
proof -
  have c: "consume (foldl gate_step (new_gate (ex_scope ''t'')) []) = Inr ((new_gate (ex_scope ''t''))\<lparr>fg_consumed := 1\<rparr>)"
    by (simp add: consume_def new_gate_def)
  show ?thesis by (rule fallback_at_most_once [OF c, THEN conjunct2])
qed

text \<open>
  The boundary of an adapter fails closed: a boundary later than the spawn is only ever reported for
  the exact provider, version and transport of a reviewed manifest entry.
\<close>

theorem boundary_fails_closed:
  assumes "acceptedWorkBoundaryFor (findProviderCompatibility p v t) \<noteq> Process_spawn_attempt"
  shows "\<exists>e\<in>set PROVIDER_COMPATIBILITY_MANIFEST. pc_provider e = p \<and> v = Some (pc_providerVersion e) \<and> pc_transportId e = t \<and>
           acceptedWorkBoundaryFor (findProviderCompatibility p v t) = pc_acceptedWorkBoundary e"
  using assms
  by (auto simp: acceptedWorkBoundaryFor_def findProviderCompatibility_def dest!: find_SomeD split: option.splits if_splits)

theorem boundary_fails_closed_witness:
  "\<exists>e. e \<in> set PROVIDER_COMPATIBILITY_MANIFEST \<and> pc_transportId e = ''codex-app-server''"
proof -
  have "acceptedWorkBoundaryFor (findProviderCompatibility Impl_codex (Some ''0.147.0'') ''codex-app-server'') \<noteq> Process_spawn_attempt"
    by (simp add: acceptedWorkBoundaryFor_def findProviderCompatibility_def PROVIDER_COMPATIBILITY_MANIFEST_def
        CLAUDE_LEGACY_COMPATIBILITY_def CODEX_LEGACY_COMPATIBILITY_def CODEX_APP_SERVER_COMPATIBILITY_def
        LEGACY_ONE_SHOT_TRANSPORT_ID_def CODEX_APP_SERVER_TRANSPORT_ID_def)
  from boundary_fails_closed [OF this] show ?thesis by blast
qed

end
