(* ===== verification/Json_Bounds.thy ===== *)
theory Json_Bounds
  imports Js_Strings
begin

text \<open>
  The bounded-JSON check of the wire (\<^verbatim>\<open>packages/shared/src/capabilities-v2.ts\<close>, \<^verbatim>\<open>validateJsonBounds\<close>).

  The value under test is any JavaScript value, so it lives on a heap: arrays and objects are references,
  they may be shared, and they may be cyclic. The check is the source's loop over an explicit stack; it
  is shown to terminate on every heap and to accept exactly the values that unfold to a finite JSON tree
  within the bounds.
\<close>

section \<open>Values on a heap\<close>

text \<open>
  A finite number carries the text it prints as; \<open>JNum None\<close> is an infinity or \<^verbatim>\<open>NaN\<close>; \<open>JOther\<close> is
  \<^verbatim>\<open>undefined\<close>, a function, a symbol or a bigint. An array may have holes. An object records whether its
  prototype is the plain one (or null), its enumerable string keys in order, and how many further own keys
  it has.
\<close>

datatype js_value = JNull | JBool bool | JNum "string option" | JStr string | JOther | JRef nat

datatype js_object =
    JArr "js_value option list"
  | JObj (obj_plain: bool) (obj_keys: "(string \<times> js_value) list") (obj_hidden: nat)

type_synonym heap = "nat \<Rightarrow> js_object"

record JsonBounds =
  jb_maxBytes :: nat
  jb_maxDepth :: nat
  jb_maxItems :: nat
  jb_maxStringBytes :: nat

definition OPAQUE_JSON_BOUNDS :: JsonBounds where
  "OPAQUE_JSON_BOUNDS = \<lparr>jb_maxBytes = 64 * 1024, jb_maxDepth = 16, jb_maxItems = 1024, jb_maxStringBytes = 256\<rparr>"

datatype json_issue =
    Nesting_exceeds_depth | Number_not_finite | String_too_long | Not_json_compatible | Cyclic_value
  | Too_many_items | Sparse_array | Not_a_plain_object | Hidden_keys | Key_too_long | Encoding_too_long

fun issue_text :: "JsonBounds \<Rightarrow> json_issue \<Rightarrow> string" where
  "issue_text b Nesting_exceeds_depth = ''JSON nesting exceeds depth '' @ show_nat (jb_maxDepth b)"
| "issue_text b Number_not_finite = ''JSON numbers must be finite''"
| "issue_text b String_too_long = ''JSON strings must be at most '' @ show_nat (jb_maxStringBytes b) @ '' UTF-8 bytes''"
| "issue_text b Not_json_compatible = ''value is not JSON-compatible''"
| "issue_text b Cyclic_value = ''cyclic values are not JSON-compatible''"
| "issue_text b Too_many_items = ''JSON aggregate items exceed '' @ show_nat (jb_maxItems b)"
| "issue_text b Sparse_array = ''sparse arrays are not JSON-compatible''"
| "issue_text b Not_a_plain_object = ''JSON objects must be plain objects''"
| "issue_text b Hidden_keys = ''JSON objects may only have enumerable string keys''"
| "issue_text b Key_too_long = ''JSON keys must be at most '' @ show_nat (jb_maxStringBytes b) @ '' UTF-8 bytes''"
| "issue_text b Encoding_too_long = ''encoded JSON exceeds '' @ show_nat (jb_maxBytes b) @ '' bytes''"


section \<open>The walk\<close>

text \<open>
  A frame of the stack: a value with its depth, or the exit mark of an object. The head of the list is the
  top of the stack. \<open>active\<close> is the set of objects on the current path.
\<close>

datatype walk_frame = Visit js_value nat | Exit nat

definition long_text :: "JsonBounds \<Rightarrow> string \<Rightarrow> bool" where
  "long_text b s \<longleftrightarrow> utf8ByteLength s > jb_maxStringBytes b"

fun frame_weight :: "walk_frame \<Rightarrow> nat" where
  "frame_weight (Visit _ _) = 2"
| "frame_weight (Exit _) = 1"

lemma weights_map_Visit: "sum_list (map frame_weight (map (\<lambda>x. Visit (f x) d) xs)) = 2 * length xs"
  by (induction xs) auto

lemma weights_rev_Visit: "sum_list (map frame_weight (rev (map (\<lambda>x. Visit (f x) d) xs))) = 2 * length xs"
  by (induction xs) auto

function walk :: "heap \<Rightarrow> JsonBounds \<Rightarrow> walk_frame list \<Rightarrow> nat list \<Rightarrow> nat \<Rightarrow> json_issue option" where
  "walk h b [] active items = None"
| "walk h b (Exit a # stack) active items = walk h b stack (filter (\<lambda>x. x \<noteq> a) active) items"
| "walk h b (Visit v d # stack) active items =
     (if d > jb_maxDepth b then Some Nesting_exceeds_depth
      else case v of
        JNull \<Rightarrow> walk h b stack active items
      | JBool _ \<Rightarrow> walk h b stack active items
      | JNum n \<Rightarrow> if n = None then Some Number_not_finite else walk h b stack active items
      | JStr s \<Rightarrow> if long_text b s then Some String_too_long else walk h b stack active items
      | JOther \<Rightarrow> Some Not_json_compatible
      | JRef a \<Rightarrow>
          if a \<in> set active then Some Cyclic_value
          else case h a of
            JArr xs \<Rightarrow>
              if items + length xs > jb_maxItems b then Some Too_many_items
              else if None \<in> set xs then Some Sparse_array
              else walk h b (map (\<lambda>x. Visit (the x) (Suc d)) xs @ Exit a # stack) (a # active) (items + length xs)
          | JObj plain kvs hidden \<Rightarrow>
              if \<not> plain then Some Not_a_plain_object
              else if hidden > 0 then Some Hidden_keys
              else if items + length kvs > jb_maxItems b then Some Too_many_items
              else if list_ex (\<lambda>kv. long_text b (fst kv)) kvs then Some Key_too_long
              else walk h b (rev (map (\<lambda>kv. Visit (snd kv) (Suc d)) kvs) @ Exit a # stack) (a # active) (items + length kvs))"
  by pat_completeness auto

termination
  by (relation "measure (\<lambda>(h, b, stack, active, items). 3 * (jb_maxItems b - items) + sum_list (map frame_weight stack))")
    (auto simp: weights_map_Visit weights_rev_Visit simp del: map_map rev_map)

text \<open>
  \<^verbatim>\<open>JSON.stringify\<close>, by depth: \<open>None\<close> stands for the exception it throws on a cycle. The source calls it
  only on values the walk accepted; \<open>stringify_tree\<close> below shows that on those the depth chosen is enough
  and that it does not fail (what it makes of \<open>JOther\<close> is never asked).
\<close>

fun stringify :: "heap \<Rightarrow> nat \<Rightarrow> js_value \<Rightarrow> string option" where
  "stringify h n JNull = Some ''null''"
| "stringify h n (JBool v) = Some (if v then ''true'' else ''false'')"
| "stringify h n (JNum t) = Some (case t of Some s \<Rightarrow> s | None \<Rightarrow> ''null'')"
| "stringify h n (JStr s) = Some (json_quote s)"
| "stringify h n JOther = None"
| "stringify h 0 (JRef a) = None"
| "stringify h (Suc n) (JRef a) =
     (case h a of
        JArr xs \<Rightarrow> map_option (\<lambda>ts. ''['' @ js_join '','' ts @ '']'')
                     (those (map (\<lambda>x. case x of None \<Rightarrow> Some ''null'' | Some v \<Rightarrow> stringify h n v) xs))
      | JObj plain kvs hidden \<Rightarrow> map_option (\<lambda>ts. ''{'' @ js_join '','' ts @ ''}'')
                     (those (map (\<lambda>kv. map_option (\<lambda>t. json_quote (fst kv) @ '':'' @ t) (stringify h n (snd kv))) kvs)))"

definition validateJsonBounds :: "heap \<Rightarrow> JsonBounds \<Rightarrow> js_value \<Rightarrow> json_issue option" where
  "validateJsonBounds h b value =
     (case walk h b [Visit value 0] [] 0 of
        Some issue \<Rightarrow> Some issue
      | None \<Rightarrow>
          (case stringify h (Suc (jb_maxDepth b)) value of
             None \<Rightarrow> Some Not_json_compatible
           | Some encoded \<Rightarrow> if utf8ByteLength encoded > jb_maxBytes b then Some Encoding_too_long else None))"


section \<open>What is accepted: finite trees within the bounds\<close>

datatype json =
  TNull | TBool bool | TNum string | TStr string | TArr "json list" | TObj "(string \<times> json) list"

inductive unfolds :: "heap \<Rightarrow> js_value \<Rightarrow> json \<Rightarrow> bool" for h where
  unf_null: "unfolds h JNull TNull"
| unf_bool: "unfolds h (JBool v) (TBool v)"
| unf_num: "unfolds h (JNum (Some s)) (TNum s)"
| unf_str: "unfolds h (JStr s) (TStr s)"
| unf_arr: "h a = JArr (map Some vs) \<Longrightarrow> list_all2 (unfolds h) vs ts \<Longrightarrow> unfolds h (JRef a) (TArr ts)"
| unf_obj: "h a = JObj True kvs 0 \<Longrightarrow> map fst kvs = map fst kts \<Longrightarrow> list_all2 (unfolds h) (map snd kvs) (map snd kts) \<Longrightarrow>
    unfolds h (JRef a) (TObj kts)"

inductive_cases unfolds_RefE: "unfolds h (JRef a) t"
inductive_simps unfolds_simps [simp]: "unfolds h JNull t" "unfolds h (JBool v) t" "unfolds h (JNum n) t" "unfolds h (JStr s) t" "unfolds h JOther t"

text \<open>The bounds, on a tree whose root is at depth \<open>d\<close>: depth, lengths of strings and keys.\<close>

fun tree_ok :: "JsonBounds \<Rightarrow> nat \<Rightarrow> json \<Rightarrow> bool" where
  "tree_ok b d (TStr s) \<longleftrightarrow> d \<le> jb_maxDepth b \<and> \<not> long_text b s"
| "tree_ok b d (TArr ts) \<longleftrightarrow> d \<le> jb_maxDepth b \<and> list_all (tree_ok b (Suc d)) ts"
| "tree_ok b d (TObj kts) \<longleftrightarrow> d \<le> jb_maxDepth b \<and> list_all (\<lambda>kt. \<not> long_text b (fst kt) \<and> tree_ok b (Suc d) (snd kt)) kts"
| "tree_ok b d _ \<longleftrightarrow> d \<le> jb_maxDepth b"

text \<open>The number of array elements and object members anywhere in the tree.\<close>

fun tree_items :: "json \<Rightarrow> nat" where
  "tree_items (TArr ts) = length ts + sum_list (map tree_items ts)"
| "tree_items (TObj kts) = length kts + sum_list (map (\<lambda>kt. tree_items (snd kt)) kts)"
| "tree_items _ = 0"

text \<open>The JSON text of a tree.\<close>

fun render :: "json \<Rightarrow> string" where
  "render TNull = ''null''"
| "render (TBool v) = (if v then ''true'' else ''false'')"
| "render (TNum s) = s"
| "render (TStr s) = json_quote s"
| "render (TArr ts) = ''['' @ js_join '','' (map render ts) @ '']''"
| "render (TObj kts) = ''{'' @ js_join '','' (map (\<lambda>kt. json_quote (fst kt) @ '':'' @ render (snd kt)) kts) @ ''}''"

lemma unfolds_unique: "unfolds h v t \<Longrightarrow> unfolds h v t' \<Longrightarrow> t = t'"
proof (induction arbitrary: t' rule: unfolds.induct)
  case (unf_arr a vs ts)
  from unf_arr.prems obtain ts' where "t' = TArr ts'" "list_all2 (unfolds h) vs ts'"
    using unf_arr.hyps by (auto elim!: unfolds_RefE)
  moreover have "ts = ts'"
    using unf_arr.IH \<open>list_all2 (unfolds h) vs ts'\<close> by (induction arbitrary: ts' rule: list_all2_induct) (auto simp: list_all2_Cons1)
  ultimately show ?case by simp
next
  case (unf_obj a kvs kts)
  from unf_obj.prems obtain kts' where t': "t' = TObj kts'" "map fst kvs = map fst kts'" "list_all2 (unfolds h) (map snd kvs) (map snd kts')"
    using unf_obj.hyps by (auto elim!: unfolds_RefE)
  have "ts = ts'" if "list_all2 (\<lambda>x y. unfolds h x y \<and> (\<forall>z. unfolds h x z \<longrightarrow> y = z)) vs ts" "list_all2 (unfolds h) vs ts'" for vs ts ts'
    using that by (induction arbitrary: ts' rule: list_all2_induct) (auto simp: list_all2_Cons1)
  from this [OF unf_obj.IH t'(3)] have "map snd kts = map snd kts'" .
  with unf_obj.hyps(2) t' show ?case by (metis zip_map_fst_snd)
qed auto


section \<open>The walk accepts exactly those trees\<close>

lemma child_smaller: "t \<in> set ts \<Longrightarrow> size t < size (TArr ts)"
  by (simp add: size_list_estimation' less_Suc_eq_le)

lemma member_smaller: "t \<in> snd ` set kts \<Longrightarrow> size t < size (TObj kts)"
  by (auto simp: less_Suc_eq_le intro!: size_list_estimation' [where f = "size_prod (\<lambda>x. 0) size"])

lemma filter_absent: "a \<notin> set xs \<Longrightarrow> filter (\<lambda>x. x \<noteq> a) xs = xs"
  by (simp add: filter_id_conv) blast

text \<open>The children of one object, visited one after the other.\<close>

definition walks_over :: "heap \<Rightarrow> JsonBounds \<Rightarrow> nat \<Rightarrow> nat list \<Rightarrow> js_value \<Rightarrow> json \<Rightarrow> bool" where
  "walks_over h b d active v t \<longleftrightarrow>
     (\<forall>items stack. items + tree_items t \<le> jb_maxItems b \<longrightarrow>
        walk h b (Visit v d # stack) active items = walk h b stack active (items + tree_items t))"

lemma walk_children:
  assumes "list_all2 (walks_over h b d active) vs ts" and "items + sum_list (map tree_items ts) \<le> jb_maxItems b"
  shows "walk h b (map (\<lambda>v. Visit v d) vs @ stack) active items = walk h b stack active (items + sum_list (map tree_items ts))"
  using assms by (induction arbitrary: items rule: list_all2_induct) (auto simp: walks_over_def add.assoc simp del: walk.simps)

lemma walk_children_rev:
  assumes "list_all2 (walks_over h b d active) (map snd kvs) (map snd kts)"
    and "items + sum_list (map (\<lambda>kt. tree_items (snd kt)) kts) \<le> jb_maxItems b"
  shows "walk h b (rev (map (\<lambda>kv. Visit (snd kv) d) kvs) @ stack) active items =
         walk h b stack active (items + sum_list (map (\<lambda>kt. tree_items (snd kt)) kts))"
proof -
  have "list_all2 (walks_over h b d active) (rev (map snd kvs)) (rev (map snd kts))" using assms(1) by simp
  from walk_children [OF this, of items stack] assms(2) show ?thesis
    by (simp add: rev_map [symmetric] comp_def sum_list_rev)
qed

lemma walk_tree:
  assumes "unfolds h v t" and "tree_ok b d t"
    and "\<forall>a\<in>set active. \<exists>ta. unfolds h (JRef a) ta \<and> size t < size ta"
  shows "walks_over h b d active v t"
  using assms
proof (induction arbitrary: d active rule: unfolds.induct)
  case (unf_arr a vs ts)
  have root: "unfolds h (JRef a) (TArr ts)"
    using unf_arr.hyps unf_arr.IH by (auto intro!: unfolds.unf_arr elim: list_all2_mono)
  then have "a \<notin> set active" using unf_arr.prems(2) unfolds_unique by fastforce
  have "list_all2 (walks_over h b (Suc d) (a # active)) vs ts"
    unfolding list_all2_conv_all_nth
  proof (intro conjI allI impI)
    show len: "length vs = length ts" using unf_arr.IH by (rule list_all2_lengthD)
    fix i assume "i < length vs"
    with len have "ts ! i \<in> set ts" by simp
    then have "size (ts ! i) < size (TArr ts)" "tree_ok b (Suc d) (ts ! i)"
      using unf_arr.prems(1) by (auto simp: list_all_iff child_smaller simp del: json.size)
    moreover have "\<forall>x\<in>set (a # active). \<exists>ta. unfolds h (JRef x) ta \<and> size (ts ! i) < size ta"
      using root unf_arr.prems(2) \<open>size (ts ! i) < size (TArr ts)\<close> by (auto intro: less_trans simp del: json.size)
    ultimately show "walks_over h b (Suc d) (a # active) (vs ! i) (ts ! i)"
      using list_all2_nthD [OF unf_arr.IH \<open>i < length vs\<close>] by blast
  qed
  then show ?case
    using \<open>a \<notin> set active\<close> unf_arr.hyps unf_arr.prems(1) list_all2_lengthD [OF unf_arr.IH]
    by (auto simp: walks_over_def walk_children comp_def add.assoc filter_absent)
next
  case (unf_obj a kvs kts)
  have root: "unfolds h (JRef a) (TObj kts)"
    using unf_obj.hyps unf_obj.IH by (auto intro!: unfolds.unf_obj elim: list_all2_mono)
  then have "a \<notin> set active" using unf_obj.prems(2) unfolds_unique by fastforce
  have len: "length kvs = length kts" using unf_obj.hyps(2) by (metis length_map)
  have "list_all2 (walks_over h b (Suc d) (a # active)) (map snd kvs) (map snd kts)"
    unfolding list_all2_conv_all_nth
  proof (intro conjI allI impI)
    show "length (map snd kvs) = length (map snd kts)" using len by simp
    fix i assume i: "i < length (map snd kvs)"
    with len have "kts ! i \<in> set kts" by simp
    then have "size (snd (kts ! i)) < size (TObj kts)" "tree_ok b (Suc d) (snd (kts ! i))"
      using unf_obj.prems(1) by (auto simp: list_all_iff member_smaller simp del: json.size)
    moreover have "\<forall>x\<in>set (a # active). \<exists>ta. unfolds h (JRef x) ta \<and> size (snd (kts ! i)) < size ta"
      using root unf_obj.prems(2) \<open>size (snd (kts ! i)) < size (TObj kts)\<close> by (auto intro: less_trans simp del: json.size)
    ultimately show "walks_over h b (Suc d) (a # active) (map snd kvs ! i) (map snd kts ! i)"
      using list_all2_nthD [OF unf_obj.IH i] i len by auto
  qed
  moreover have "\<not> list_ex (\<lambda>kv. long_text b (fst kv)) kvs"
  proof -
    have "list_ex (\<lambda>kv. long_text b (fst kv)) kvs \<longleftrightarrow> list_ex (long_text b) (map fst kts)"
      unfolding unf_obj.hyps(2) [symmetric] by (simp add: list_ex_iff)
    then show ?thesis using unf_obj.prems(1) by (auto simp: list_ex_iff list_all_iff)
  qed
  ultimately show ?case
    using \<open>a \<notin> set active\<close> unf_obj.hyps unf_obj.prems(1) len
    by (auto simp: walks_over_def walk_children_rev add.assoc filter_absent)
qed (auto simp: walks_over_def)

text \<open>Conversely, a walk that ends without an issue has unfolded the value on top of its stack.\<close>

definition accepts :: "heap \<Rightarrow> JsonBounds \<Rightarrow> nat \<Rightarrow> js_value \<Rightarrow> nat list \<Rightarrow> nat \<Rightarrow> walk_frame list \<Rightarrow> json \<Rightarrow> bool" where
  "accepts h b d v active items stack t \<longleftrightarrow>
     unfolds h v t \<and> tree_ok b d t \<and> items + tree_items t \<le> jb_maxItems b \<and> walk h b stack active (items + tree_items t) = None"

lemma accepts_children:
  assumes step: "\<And>v items stack. walk h b (Visit v d # stack) active items = None \<Longrightarrow> items \<le> jb_maxItems b \<Longrightarrow>
      \<exists>t. accepts h b d v active items stack t"
    and "walk h b (map (\<lambda>v. Visit v d) vs @ stack) active items = None" and "items \<le> jb_maxItems b"
  shows "\<exists>ts. list_all2 (unfolds h) vs ts \<and> list_all (tree_ok b d) ts \<and>
     items + sum_list (map tree_items ts) \<le> jb_maxItems b \<and> walk h b stack active (items + sum_list (map tree_items ts)) = None"
  using assms(2,3)
proof (induction vs arbitrary: items)
  case Nil
  then show ?case by (intro exI [of _ "[]"]) simp
next
  case (Cons v vs)
  from step [of v "map (\<lambda>v. Visit v d) vs @ stack" items] Cons.prems
  obtain t where t: "accepts h b d v active items (map (\<lambda>v. Visit v d) vs @ stack) t" by auto
  then have w: "walk h b (map (\<lambda>v. Visit v d) vs @ stack) active (items + tree_items t) = None"
    and le: "items + tree_items t \<le> jb_maxItems b" by (simp_all add: accepts_def)
  from Cons.IH [OF w le] obtain ts where
    "list_all2 (unfolds h) vs ts" "list_all (tree_ok b d) ts" "items + tree_items t + sum_list (map tree_items ts) \<le> jb_maxItems b"
    "walk h b stack active (items + tree_items t + sum_list (map tree_items ts)) = None"
    by (elim exE conjE)
  with t show ?case unfolding accepts_def by (intro exI [of _ "t # ts"]) (simp add: add.assoc)
qed

lemma map_snd_zip_tree: "length xs = length ys \<Longrightarrow> map (\<lambda>kt. f (snd kt)) (zip xs ys) = map f ys"
  by (induction xs ys rule: list_induct2) auto

lemma walk_accepts:
  assumes "walk h b (Visit v d # stack) active items = None" and "items \<le> jb_maxItems b"
  shows "\<exists>t. accepts h b d v active items stack t"
  using assms
proof (induction "Suc (jb_maxDepth b) - d" arbitrary: d v stack active items rule: less_induct)
  case less
  have d: "d \<le> jb_maxDepth b" using less.prems(1) by (cases "d > jb_maxDepth b") auto
  have step: "\<exists>t. accepts h b (Suc d) v active items stack t"
    if "walk h b (Visit v (Suc d) # stack) active items = None" "items \<le> jb_maxItems b" for v active items stack
    by (rule less.hyps) (use that d in auto)
  show ?case
  proof (cases v)
    case (JRef a)
    with less.prems(1) d have a: "a \<notin> set active" by (auto split: if_splits)
    show ?thesis
    proof (cases "h a")
      case (JArr xs)
      with less.prems JRef d have no: "None \<notin> set xs" and len: "items + length xs \<le> jb_maxItems b"
        and w: "walk h b (map (\<lambda>v. Visit v (Suc d)) (map the xs) @ Exit a # stack) (a # active) (items + length xs) = None"
        by (auto split: if_splits simp: comp_def)
      have xs: "xs = map Some (map the xs)" using no by (induction xs) auto
      from accepts_children [OF step w len] obtain ts where ts: "list_all2 (unfolds h) (map the xs) ts" "list_all (tree_ok b (Suc d)) ts"
        "items + length xs + sum_list (map tree_items ts) \<le> jb_maxItems b"
        "walk h b (Exit a # stack) (a # active) (items + length xs + sum_list (map tree_items ts)) = None" by blast
      then have "length ts = length xs" by (auto dest: list_all2_lengthD)
      moreover have "unfolds h v (TArr ts)" unfolding JRef by (rule unf_arr [OF _ ts(1)]) (metis JArr xs)
      ultimately show ?thesis using ts d a by (intro exI [of _ "TArr ts"]) (simp add: accepts_def add.assoc filter_absent)
    next
      case (JObj plain kvs hidden)
      have rev_frames: "rev (map (\<lambda>kv. Visit (snd kv) (Suc d)) kvs) = map (\<lambda>v. Visit v (Suc d)) (rev (map snd kvs))"
        by (simp add: rev_map)
      from JObj less.prems JRef d have plain: "plain" "hidden = 0" and len: "items + length kvs \<le> jb_maxItems b"
        and keys: "\<not> list_ex (\<lambda>kv. long_text b (fst kv)) kvs"
        and w: "walk h b (map (\<lambda>v. Visit v (Suc d)) (rev (map snd kvs)) @ Exit a # stack) (a # active) (items + length kvs) = None"
        unfolding rev_frames [symmetric] by (auto split: if_splits)
      from accepts_children [OF step w len] obtain ts where ts: "list_all2 (unfolds h) (rev (map snd kvs)) ts" "list_all (tree_ok b (Suc d)) ts"
        "items + length kvs + sum_list (map tree_items ts) \<le> jb_maxItems b"
        "walk h b (Exit a # stack) (a # active) (items + length kvs + sum_list (map tree_items ts)) = None" by blast
      let ?kts = "zip (map fst kvs) (rev ts)"
      have n: "length ts = length kvs" using ts(1) by (auto dest: list_all2_lengthD)
      have "list_all2 (unfolds h) (map snd kvs) (rev ts)" using ts(1) list_all2_rev [of "unfolds h" "map snd kvs" "rev ts"] by simp
      then have "unfolds h v (TObj ?kts)"
        using JRef JObj plain n by (auto intro!: unf_obj)
      moreover have "tree_items (TObj ?kts) = length kvs + sum_list (map tree_items ts)"
      proof -
        have "map (\<lambda>kt. tree_items (snd kt)) ?kts = rev (map tree_items ts)"
          using n by (simp add: rev_map map_snd_zip_tree)
        then show ?thesis using n by (simp add: sum_list_rev)
      qed
      moreover have "tree_ok b d (TObj ?kts)"
        using d keys ts(2) n by (auto simp: list_all_iff list_ex_iff elim!: in_set_zipE)
      ultimately show ?thesis using ts a by (intro exI [of _ "TObj ?kts"]) (simp add: accepts_def add.assoc filter_absent del: tree_items.simps tree_ok.simps)
    qed
  qed (use less.prems d in \<open>auto simp: accepts_def [abs_def] split: if_splits\<close>)
qed

lemma stringify_tree:
  assumes "unfolds h v t" and "tree_ok b d t"
  shows "stringify h (Suc (jb_maxDepth b) - d) v = Some (render t)"
  using assms
proof (induction arbitrary: d rule: unfolds.induct)
  case (unf_arr a vs ts)
  then obtain n where n: "Suc (jb_maxDepth b) - d = Suc n" "Suc (jb_maxDepth b) - Suc d = n" by (cases "Suc (jb_maxDepth b) - d") auto
  have "those (map (stringify h n) vs) = Some (map render ts)"
    using unf_arr.IH unf_arr.prems unfolding n(2) [symmetric] by (induction rule: list_all2_induct) auto
  with n(1) unf_arr.hyps show ?case by (simp add: comp_def)
next
  case (unf_obj a kvs kts)
  then obtain n where n: "Suc (jb_maxDepth b) - d = Suc n" "Suc (jb_maxDepth b) - Suc d = n" by (cases "Suc (jb_maxDepth b) - d") auto
  have len: "length kvs = length kts" using unf_obj.hyps(2) by (metis length_map)
  have "those (map (\<lambda>kv. map_option (\<lambda>t. json_quote (fst kv) @ '':'' @ t) (stringify h n (snd kv))) kvs) =
      Some (map (\<lambda>kt. json_quote (fst kt) @ '':'' @ render (snd kt)) kts)"
    using len unf_obj.IH unf_obj.hyps(2) unf_obj.prems unfolding n(2) [symmetric]
    by (induction kvs kts rule: list_induct2) auto
  with n(1) unf_obj.hyps show ?case by simp
qed auto

text \<open>
  C37. The check accepts a value, on any heap, exactly when it unfolds to a finite JSON tree (no cycle, no hole,
  no function, no infinite number, only plain objects without hidden keys) whose depth, strings and keys are
  within the bounds, which has at most the allowed number of elements and members in all, and whose JSON
  text is not too long. In particular it ends on cyclic values, and never throws.
\<close>

theorem bounds_check_exact:
  "validateJsonBounds h b v = None \<longleftrightarrow>
     (\<exists>t. unfolds h v t \<and> tree_ok b 0 t \<and> tree_items t \<le> jb_maxItems b \<and> utf8ByteLength (render t) \<le> jb_maxBytes b)"
proof
  assume ok: "validateJsonBounds h b v = None"
  then have "walk h b [Visit v 0] [] 0 = None" by (simp add: validateJsonBounds_def split: option.splits)
  from walk_accepts [OF this] obtain t where t: "unfolds h v t" "tree_ok b 0 t" "tree_items t \<le> jb_maxItems b"
    by (auto simp: accepts_def)
  with ok stringify_tree [OF t(1,2)] show "\<exists>t. unfolds h v t \<and> tree_ok b 0 t \<and> tree_items t \<le> jb_maxItems b \<and> utf8ByteLength (render t) \<le> jb_maxBytes b"
    by (intro exI [of _ t]) (simp add: validateJsonBounds_def split: option.splits if_splits)
next
  assume "\<exists>t. unfolds h v t \<and> tree_ok b 0 t \<and> tree_items t \<le> jb_maxItems b \<and> utf8ByteLength (render t) \<le> jb_maxBytes b"
  then obtain t where t: "unfolds h v t" "tree_ok b 0 t" "tree_items t \<le> jb_maxItems b" "utf8ByteLength (render t) \<le> jb_maxBytes b" by blast
  have "walk h b [Visit v 0] [] 0 = None"
    using walk_tree [OF t(1,2), of "[]"] t(3) by (auto simp: walks_over_def simp del: walk.simps(3))
  with t(4) stringify_tree [OF t(1,2)] show "validateJsonBounds h b v = None"
    by (simp add: validateJsonBounds_def del: walk.simps)
qed

end
