(* ===== verification/Unicode_Units.thy ===== *)
theory Unicode_Units
  imports Js_Strings
begin

text \<open>
  Strings of any characters: lists of UTF-16 code units, surrogates included. Iteration by code points, the
  byte length of the UTF-8 encoding and the cut of the encoding at a byte are written out, and
  \<^verbatim>\<open>truncateToBytes\<close> (\<^verbatim>\<open>packages/shared/src/content-digest.ts\<close>) is shown to keep its budget.
\<close>

section \<open>Code units, code points, bytes\<close>

type_synonym units = "nat list"

definition high_surrogate :: "nat \<Rightarrow> bool" where
  "high_surrogate u \<longleftrightarrow> 0xD800 \<le> u \<and> u \<le> 0xDBFF"

definition low_surrogate :: "nat \<Rightarrow> bool" where
  "low_surrogate u \<longleftrightarrow> 0xDC00 \<le> u \<and> u \<le> 0xDFFF"

text \<open>The characters \<^verbatim>\<open>for ... of\<close> yields: a surrogate pair is one, a lone surrogate is one by itself.\<close>

fun characters :: "units \<Rightarrow> units list" where
  "characters [] = []"
| "characters [u] = [[u]]"
| "characters (u # v # r) =
     (if high_surrogate u \<and> low_surrogate v then [u, v] # characters r else [u] # characters (v # r))"

fun codePointAt0 :: "units \<Rightarrow> nat" where
  "codePointAt0 [] = 0"
| "codePointAt0 [u] = u"
| "codePointAt0 (u # v # r) =
     (if high_surrogate u \<and> low_surrogate v then 0x10000 + (u - 0xD800) * 0x400 + (v - 0xDC00) else u)"

text \<open>The bytes of one character in UTF-8; a lone surrogate is encoded as U+FFFD.\<close>

definition char_bytes :: "units \<Rightarrow> nat" where
  "char_bytes c =
     (let n = codePointAt0 c in if n < 0x80 then 1 else if n < 0x800 then 2 else if n < 0x10000 then 3 else 4)"

definition utf8_units :: "units \<Rightarrow> nat" where
  "utf8_units s = sum_list (map char_bytes (characters s))"

definition REPLACEMENT :: units where
  "REPLACEMENT = [0xFFFD]"

definition scalar :: "units \<Rightarrow> units" where
  "scalar c = (case c of [u] \<Rightarrow> if high_surrogate u \<or> low_surrogate u then REPLACEMENT else c | _ \<Rightarrow> c)"

text \<open>
  \<^verbatim>\<open>Buffer.from(s, 'utf8').subarray(0, b).toString('utf8')\<close>, by characters: those that fit entirely come
  back (a lone surrogate as U+FFFD), and the bytes of one cut short decode to a single U+FFFD.
\<close>

fun cut_utf8 :: "nat \<Rightarrow> units list \<Rightarrow> units list" where
  "cut_utf8 b [] = []"
| "cut_utf8 b (c # cs) =
     (if b = 0 then [] else if char_bytes c \<le> b then scalar c # cut_utf8 (b - char_bytes c) cs else [REPLACEMENT])"

definition ascii_units :: "string \<Rightarrow> units" where
  "ascii_units s = map of_char s"

definition truncateToBytes :: "units \<Rightarrow> nat \<Rightarrow> units" where
  "truncateToBytes text maxBytes =
     (if utf8_units text \<le> maxBytes then text
      else let cut = concat (cut_utf8 maxBytes (characters text))
           in if utf8_units cut \<le> maxBytes then cut else butlast cut)"


section \<open>Characters and their encodings\<close>

definition is_character :: "units \<Rightarrow> bool" where
  "is_character c \<longleftrightarrow> (\<exists>u. c = [u]) \<or> (\<exists>u v. c = [u, v] \<and> high_surrogate u \<and> low_surrogate v)"

definition is_scalar :: "units \<Rightarrow> bool" where
  "is_scalar c \<longleftrightarrow> (\<exists>u. c = [u] \<and> \<not> high_surrogate u \<and> \<not> low_surrogate u) \<or>
     (\<exists>u v. c = [u, v] \<and> high_surrogate u \<and> low_surrogate v)"

lemma characters_are: "c \<in> set (characters s) \<Longrightarrow> is_character c"
  by (induction s rule: characters.induct) (auto simp: is_character_def split: if_splits)

lemma concat_characters [simp]: "concat (characters s) = s"
  by (induction s rule: characters.induct) auto

lemma surrogates_disjoint: "high_surrogate u \<Longrightarrow> \<not> low_surrogate u"
  by (simp add: high_surrogate_def low_surrogate_def)

lemma characters_plain: "\<not> high_surrogate u \<Longrightarrow> characters (u # s) = [u] # characters s"
  by (cases s) auto

lemma characters_concat_scalars: "list_all is_scalar cs \<Longrightarrow> characters (concat cs) = cs"
  by (induction cs) (auto simp: is_scalar_def characters_plain)

lemma scalar_is_scalar: "is_character c \<Longrightarrow> is_scalar (scalar c)"
  by (auto simp: is_character_def is_scalar_def scalar_def REPLACEMENT_def high_surrogate_def low_surrogate_def)

lemma scalar_bytes: "is_character c \<Longrightarrow> char_bytes (scalar c) = char_bytes c"
  unfolding is_character_def
proof (elim disjE exE conjE)
  fix u assume c: "c = [u]"
  show ?thesis
  proof (cases "high_surrogate u \<or> low_surrogate u")
    case True
    then show ?thesis using c
      by (auto simp: scalar_def REPLACEMENT_def char_bytes_def Let_def high_surrogate_def low_surrogate_def)
  qed (simp add: c scalar_def)
qed (simp add: scalar_def)

lemma cut_utf8_shape:
  assumes "list_all is_character cs"
  obtains k where "sum_list (map char_bytes (take k cs)) \<le> b"
    "cut_utf8 b cs = map scalar (take k cs) \<or> cut_utf8 b cs = map scalar (take k cs) @ [REPLACEMENT]"
proof -
  have "\<exists>k. sum_list (map char_bytes (take k cs)) \<le> b \<and>
      (cut_utf8 b cs = map scalar (take k cs) \<or> cut_utf8 b cs = map scalar (take k cs) @ [REPLACEMENT])"
  proof (induction cs arbitrary: b)
    case (Cons c cs)
    show ?case
    proof (cases "b \<noteq> 0 \<and> char_bytes c \<le> b")
      case True
      with Cons [of "b - char_bytes c"] obtain k where "sum_list (map char_bytes (take k cs)) \<le> b - char_bytes c"
        "cut_utf8 (b - char_bytes c) cs = map scalar (take k cs) \<or> cut_utf8 (b - char_bytes c) cs = map scalar (take k cs) @ [REPLACEMENT]"
        by blast
      with True show ?thesis by (intro exI [of _ "Suc k"]) auto
    qed (auto intro!: exI [of _ 0])
  qed simp
  then show thesis using that by blast
qed

lemma utf8_units_scalars: "list_all is_character cs \<Longrightarrow> utf8_units (concat (map scalar cs)) = sum_list (map char_bytes cs)"
proof -
  assume cs: "list_all is_character cs"
  then have "characters (concat (map scalar cs)) = map scalar cs"
    by (intro characters_concat_scalars) (auto simp: list_all_iff scalar_is_scalar)
  then show ?thesis using cs by (auto simp: utf8_units_def list_all_iff comp_def scalar_bytes intro!: arg_cong [where f = sum_list])
qed

lemma cut_bytes:
  "utf8_units (concat (cut_utf8 b (characters s))) \<le> b \<or> utf8_units (butlast (concat (cut_utf8 b (characters s)))) \<le> b"
proof -
  have chars: "list_all is_character (characters s)" by (simp add: list_all_iff characters_are)
  from cut_utf8_shape [OF chars, of b] obtain k where k: "sum_list (map char_bytes (take k (characters s))) \<le> b"
    "cut_utf8 b (characters s) = map scalar (take k (characters s)) \<or>
     cut_utf8 b (characters s) = map scalar (take k (characters s)) @ [REPLACEMENT]" .
  have "utf8_units (concat (map scalar (take k (characters s)))) \<le> b"
    using k(1) chars by (subst utf8_units_scalars) (auto simp: list_all_iff dest: in_set_takeD)
  then show ?thesis using k(2) by (auto simp: REPLACEMENT_def butlast_append)
qed

lemma cut_utf8_units: "c \<in> set (cut_utf8 b cs) \<Longrightarrow> u \<in> set c \<Longrightarrow> u = 0xFFFD \<or> u \<in> set (concat cs)"
  by (induction b cs rule: cut_utf8.induct)
    (auto simp: scalar_def REPLACEMENT_def split: if_splits list.splits)

lemma length_le_utf8_units: "length s \<le> utf8_units s"
  by (induction s rule: characters.induct) (auto simp: utf8_units_def char_bytes_def Let_def)

lemma truncateToBytes_bytes: "utf8_units (truncateToBytes t n) \<le> n"
  using cut_bytes [of n t] by (auto simp: truncateToBytes_def Let_def)

lemma truncateToBytes_id: "utf8_units t \<le> n \<Longrightarrow> truncateToBytes t n = t"
  by (simp add: truncateToBytes_def)

end
