(* ===== verification/Unknown_Frames.thy ===== *)
theory Unknown_Frames
  imports Json_Bounds Unicode_Units
begin

text \<open>
  The bounded tally of provider output the daemon does not understand
  (\<^verbatim>\<open>packages/agent-runtime/src/providers/common/unknown-frames.ts\<close>).

  Event types come from a third-party process, so strings are lists of UTF-16 code units here. The SHA-256
  of a line is an argument of the recording operation.
\<close>

section \<open>Event types\<close>

definition MAX_EVENT_TYPE_BYTES :: nat where
  "MAX_EVENT_TYPE_BYTES = 128"

definition NORMALIZE_PRE_SLICE_CODE_UNITS :: nat where
  "NORMALIZE_PRE_SLICE_CODE_UNITS = MAX_EVENT_TYPE_BYTES * 8"

definition isControlCodePoint :: "nat \<Rightarrow> bool" where
  "isControlCodePoint n \<longleftrightarrow> n \<le> 0x1f \<or> (n \<ge> 0x7f \<and> n \<le> 0x9f)"

definition strip_controls :: "units \<Rightarrow> units" where
  "strip_controls eventType =
     (let candidate = (if length eventType > NORMALIZE_PRE_SLICE_CODE_UNITS
                       then take NORMALIZE_PRE_SLICE_CODE_UNITS eventType else eventType)
      in concat (filter (\<lambda>c. \<not> isControlCodePoint (codePointAt0 c)) (characters candidate)))"

definition normalizeEventType :: "units \<Rightarrow> units" where
  "normalizeEventType eventType =
     (let stripped = strip_controls eventType
      in if utf8_units stripped \<le> MAX_EVENT_TYPE_BYTES then stripped
         else let truncated = concat (cut_utf8 MAX_EVENT_TYPE_BYTES (characters stripped))
              in if utf8_units truncated \<le> MAX_EVENT_TYPE_BYTES then truncated else butlast truncated)"


section \<open>The ledger\<close>

definition PROVIDER_FRAME_BOUNDS :: JsonBounds where
  "PROVIDER_FRAME_BOUNDS =
     \<lparr>jb_maxBytes = 1024 * 1024, jb_maxDepth = 16, jb_maxItems = 1024, jb_maxStringBytes = 256 * 1024\<rparr>"

datatype UnknownFrameKind = Unrecognized_event_type | Unparseable_line | Frame_bounds_exceeded | Non_object_frame

fun kind_units :: "UnknownFrameKind \<Rightarrow> units" where
  "kind_units Unrecognized_event_type = ascii_units ''unrecognized_event_type''"
| "kind_units Unparseable_line = ascii_units ''unparseable_line''"
| "kind_units Frame_bounds_exceeded = ascii_units ''frame_bounds_exceeded''"
| "kind_units Non_object_frame = ascii_units ''non_object_frame''"

record NormalizedUnknownFrame =
  uf_kind :: UnknownFrameKind
  uf_eventType :: "units option"
  uf_bytes :: nat
  uf_sha256 :: string
  uf_boundsViolation :: "string option"
  uf_occurrences :: nat
  uf_firstSeenAtMs :: nat
  uf_lastSeenAtMs :: nat

definition DEFAULT_MAX_KINDS :: nat where
  "DEFAULT_MAX_KINDS = 64"

definition DEFAULT_MAX_OBSERVATIONS :: nat where
  "DEFAULT_MAX_OBSERVATIONS = 100000"

definition OVERFLOW_SENTINEL :: units where
  "OVERFLOW_SENTINEL = ascii_units ''<overflow>''"

record UnknownFrameLedger =
  ul_entries :: "(units, NormalizedUnknownFrame) jmap"
  ul_maxKinds :: nat
  ul_maxObservations :: nat

definition new_unknown_ledger :: "nat option \<Rightarrow> nat option \<Rightarrow> UnknownFrameLedger" where
  "new_unknown_ledger maxKinds maxObservations =
     \<lparr>ul_entries = [], ul_maxKinds = (case maxKinds of None \<Rightarrow> DEFAULT_MAX_KINDS | Some n \<Rightarrow> n),
      ul_maxObservations = (case maxObservations of None \<Rightarrow> DEFAULT_MAX_OBSERVATIONS | Some n \<Rightarrow> n)\<rparr>"

definition frame_key :: "UnknownFrameKind \<Rightarrow> units option \<Rightarrow> units" where
  "frame_key kind normalizedType =
     kind_units kind @ ascii_units '':'' @ (case normalizedType of None \<Rightarrow> [] | Some t \<Rightarrow> t)"

definition record_frame ::
  "(units \<Rightarrow> string) \<Rightarrow> nat \<Rightarrow> UnknownFrameKind \<Rightarrow> units \<Rightarrow> units option \<Rightarrow> string option \<Rightarrow> UnknownFrameLedger \<Rightarrow> UnknownFrameLedger" where
  "record_frame sha256Of now kind rawLine eventType boundsViolation l =
     (let normalizedType = map_option normalizeEventType eventType;
          key0 = frame_key kind normalizedType;
          overflow = (\<not> jhas (ul_entries l) key0 \<and> length (ul_entries l) \<ge> ul_maxKinds l);
          key = (if overflow then OVERFLOW_SENTINEL else key0);
          entryType = (if overflow then None else normalizedType)
      in case jget (ul_entries l) key of
           Some existing \<Rightarrow>
             l\<lparr>ul_entries := jset (ul_entries l) key
                 (existing\<lparr>uf_occurrences := min (uf_occurrences existing + 1) (ul_maxObservations l), uf_lastSeenAtMs := now\<rparr>)\<rparr>
         | None \<Rightarrow>
             let isOverflow = (key = OVERFLOW_SENTINEL)
             in l\<lparr>ul_entries := jset (ul_entries l) key
                 \<lparr>uf_kind = kind, uf_eventType = entryType,
                  uf_bytes = utf8_units (if isOverflow then OVERFLOW_SENTINEL else rawLine),
                  uf_sha256 = sha256Of (if isOverflow then OVERFLOW_SENTINEL else rawLine),
                  uf_boundsViolation = boundsViolation, uf_occurrences = 1, uf_firstSeenAtMs = now, uf_lastSeenAtMs = now\<rparr>\<rparr>)"

definition ledger_entries :: "UnknownFrameLedger \<Rightarrow> NormalizedUnknownFrame list" where
  "ledger_entries l = map snd (ul_entries l)"

definition checkProviderFrameBounds :: "heap \<Rightarrow> js_value \<Rightarrow> string option" where
  "checkProviderFrameBounds h frame = map_option (issue_text PROVIDER_FRAME_BOUNDS) (validateJsonBounds h PROVIDER_FRAME_BOUNDS frame)"


section \<open>Normalized event types\<close>

lemma normalize_bytes: "utf8_units (normalizeEventType s) \<le> 128"
  using cut_bytes [of 128 "strip_controls s"] by (auto simp: normalizeEventType_def Let_def MAX_EVENT_TYPE_BYTES_def)

lemma control_unit: "is_character c \<Longrightarrow> \<not> isControlCodePoint (codePointAt0 c) \<Longrightarrow> u \<in> set c \<Longrightarrow> \<not> isControlCodePoint u"
  by (auto simp: is_character_def isControlCodePoint_def high_surrogate_def low_surrogate_def)

lemma strip_printable: "u \<in> set (strip_controls s) \<Longrightarrow> \<not> isControlCodePoint u"
  by (auto simp: strip_controls_def Let_def dest: characters_are control_unit simp del: concat_characters)

lemma normalize_printable: "u \<in> set (normalizeEventType s) \<Longrightarrow> \<not> isControlCodePoint u"
proof -
  let ?t = "concat (cut_utf8 MAX_EVENT_TYPE_BYTES (characters (strip_controls s)))"
  have "u \<in> set ?t \<Longrightarrow> u = 0xFFFD \<or> u \<in> set (strip_controls s)"
    using cut_utf8_units [of _ MAX_EVENT_TYPE_BYTES "characters (strip_controls s)" u] by auto
  moreover assume "u \<in> set (normalizeEventType s)"
  then have "u \<in> set (strip_controls s) \<or> u \<in> set ?t"
    by (auto simp: normalizeEventType_def Let_def simp del: set_concat split: if_splits dest: in_set_butlastD)
  ultimately have "u = 0xFFFD \<or> u \<in> set (strip_controls s)" by blast
  then show ?thesis using strip_printable by (auto simp: isControlCodePoint_def)
qed

lemma codePoint_in_unit: "is_character c \<Longrightarrow> isControlCodePoint (codePointAt0 c) \<Longrightarrow> \<exists>u\<in>set c. isControlCodePoint u"
  by (auto simp: is_character_def isControlCodePoint_def)

lemma normalize_id:
  assumes "utf8_units s \<le> 128" and "\<forall>u\<in>set s. \<not> isControlCodePoint u"
  shows "normalizeEventType s = s"
proof -
  have "\<not> isControlCodePoint (codePointAt0 c)" if "c \<in> set (characters s)" for c
  proof
    assume "isControlCodePoint (codePointAt0 c)"
    from codePoint_in_unit [OF characters_are [OF that] this] obtain u where "u \<in> set c" "isControlCodePoint u" by blast
    moreover have "set c \<subseteq> set s" using that by (metis UN_upper concat_characters set_concat)
    ultimately show False using assms(2) by blast
  qed
  then have "filter (\<lambda>c. \<not> isControlCodePoint (codePointAt0 c)) (characters s) = characters s" by (simp add: filter_id_conv)
  then have "strip_controls s = s"
    using length_le_utf8_units [of s] assms(1)
    by (simp add: strip_controls_def Let_def NORMALIZE_PRE_SLICE_CODE_UNITS_def MAX_EVENT_TYPE_BYTES_def)
  then show ?thesis using assms(1) by (simp add: normalizeEventType_def MAX_EVENT_TYPE_BYTES_def)
qed


section \<open>What the ledger counts\<close>

text \<open>One observation: its time, kind, line, event type and bounds violation.\<close>

type_synonym observation = "nat \<times> UnknownFrameKind \<times> units \<times> units option \<times> string option"

fun record_step :: "(units \<Rightarrow> string) \<Rightarrow> UnknownFrameLedger \<Rightarrow> observation \<Rightarrow> UnknownFrameLedger" where
  "record_step sha l (now, kind, raw, ty, bv) = record_frame sha now kind raw ty bv l"

fun obs_key :: "observation \<Rightarrow> units" where
  "obs_key (now, kind, raw, ty, bv) = frame_key kind (map_option normalizeEventType ty)"

text \<open>The distinct keys in the order of their first observation, and where an observation is counted.\<close>

definition firsts :: "'a list \<Rightarrow> 'a list" where
  "firsts ks = foldl (\<lambda>acc k. if k \<in> set acc then acc else acc @ [k]) [] ks"

definition slot_in :: "nat \<Rightarrow> units list \<Rightarrow> units \<Rightarrow> units" where
  "slot_in m ks k = (if k \<in> set (take m (firsts ks)) then k else OVERFLOW_SENTINEL)"

lemma firsts_snoc: "firsts (ks @ [k]) = (if k \<in> set (firsts ks) then firsts ks else firsts ks @ [k])"
  by (simp add: firsts_def)

lemma set_firsts [simp]: "set (firsts ks) = set ks"
  by (induction ks rule: rev_induct) (auto simp: firsts_snoc firsts_def [of "[]"])

lemma distinct_firsts [simp]: "distinct (firsts ks)"
  by (induction ks rule: rev_induct) (auto simp: firsts_snoc firsts_def [of "[]"])

lemma frame_key_not_overflow: "frame_key kind t \<noteq> OVERFLOW_SENTINEL"
  by (cases kind) (auto simp: frame_key_def OVERFLOW_SENTINEL_def ascii_units_def)

definition counted :: "nat \<Rightarrow> nat \<Rightarrow> units list \<Rightarrow> (units, NormalizedUnknownFrame) jmap \<Rightarrow> bool" where
  "counted m n ks E \<longleftrightarrow>
     OVERFLOW_SENTINEL \<notin> set ks \<and>
     map fst E = take m (firsts ks) @ (if length (firsts ks) > m then [OVERFLOW_SENTINEL] else []) \<and>
     (\<forall>k e. jget E k = Some e \<longrightarrow> uf_occurrences e = min n (count_list (map (slot_in m ks) ks) k))"


lemma slot_old: "x \<in> set ks \<Longrightarrow> slot_in m (ks @ [k]) x = slot_in m ks x"
  by (auto simp: slot_in_def firsts_snoc dest: in_set_takeD)

lemma slot_new:
  assumes "map fst E = take m (firsts ks) @ (if length (firsts ks) > m then [OVERFLOW_SENTINEL] else [])" and "k \<noteq> OVERFLOW_SENTINEL"
  shows "(if \<not> jhas E k \<and> length E \<ge> m then OVERFLOW_SENTINEL else k) = slot_in m (ks @ [k]) k"
proof -
  have "fst ` set E = set (take m (firsts ks)) \<union> (if length (firsts ks) > m then {OVERFLOW_SENTINEL} else {})"
    unfolding set_map [symmetric] assms(1) by simp
  then have "jhas E k \<longleftrightarrow> k \<in> set (take m (firsts ks))" using assms(2) by (auto simp: jhas_iff_keys)
  moreover have "length E \<ge> m \<longleftrightarrow> length (firsts ks) \<ge> m"
    using arg_cong [OF assms(1), of length] by auto
  moreover have "k \<in> set (take m (firsts ks)) \<Longrightarrow> k \<in> set ks" using set_take_subset [of m "firsts ks"] by auto
  moreover have "length (firsts ks) < m \<Longrightarrow> k \<in> set ks \<Longrightarrow> k \<in> set (take m (firsts ks))" by simp
  ultimately show ?thesis by (auto simp: slot_in_def firsts_snoc)
qed

lemma slot_keys:
  assumes "map fst E = take m (firsts ks) @ (if length (firsts ks) > m then [OVERFLOW_SENTINEL] else [])" and "x \<in> set ks"
  shows "slot_in m ks x \<in> fst ` set E"
proof -
  have "x \<notin> set (take m (firsts ks)) \<Longrightarrow> length (firsts ks) > m"
    using assms(2) by (metis linorder_not_le set_firsts take_all)
  then show ?thesis unfolding set_map [symmetric] assms(1) by (auto simp: slot_in_def)
qed

lemma counted_step:
  assumes c: "counted m n ks E" and n: "n \<ge> 1" and k: "k \<noteq> OVERFLOW_SENTINEL"
    and key: "key = (if \<not> jhas E k \<and> length E \<ge> m then OVERFLOW_SENTINEL else k)"
    and e: "uf_occurrences e' = (case jget E key of Some e \<Rightarrow> min (uf_occurrences e + 1) n | None \<Rightarrow> 1)"
  shows "counted m n (ks @ [k]) (jset E key e')"
proof -
  from c have keys: "map fst E = take m (firsts ks) @ (if length (firsts ks) > m then [OVERFLOW_SENTINEL] else [])"
    and no: "OVERFLOW_SENTINEL \<notin> set ks"
    and occ: "\<And>j d. jget E j = Some d \<Longrightarrow> uf_occurrences d = min n (count_list (map (slot_in m ks) ks) j)"
    by (auto simp: counted_def)
  have slot: "key = slot_in m (ks @ [k]) k" using slot_new [OF keys k] key by simp
  have old: "map (slot_in m (ks @ [k])) ks = map (slot_in m ks) ks" by (simp add: slot_old)
  have count: "count_list (map (slot_in m (ks @ [k])) (ks @ [k])) j = count_list (map (slot_in m ks) ks) j + (if j = key then 1 else 0)" for j
    unfolding map_append old by (simp add: slot)
  have fresh: "count_list (map (slot_in m ks) ks) key = 0" if "jget E key = None"
    using that slot_keys [OF keys] by (auto simp: count_list_0_iff map_of_eq_None_iff)
  have "uf_occurrences e' = min n (count_list (map (slot_in m (ks @ [k])) (ks @ [k])) key)"
    unfolding count using e n occ [of key] fresh by (cases "jget E key") auto
  then have "\<forall>j d. jget (jset E key e') j = Some d \<longrightarrow> uf_occurrences d = min n (count_list (map (slot_in m (ks @ [k])) (ks @ [k])) j)"
    unfolding count using occ by (auto simp: jget_jset)
  moreover have "map fst (jset E key e') = take m (firsts (ks @ [k])) @ (if length (firsts (ks @ [k])) > m then [OVERFLOW_SENTINEL] else [])"
    unfolding update_keys keys slot using k no by (auto simp: slot_in_def firsts_snoc)
  ultimately show ?thesis using k no by (simp add: counted_def)
qed


lemma record_frame_caps [simp]:
  "ul_maxKinds (record_frame sha now kind raw ty bv l) = ul_maxKinds l"
  "ul_maxObservations (record_frame sha now kind raw ty bv l) = ul_maxObservations l"
  by (auto simp: record_frame_def Let_def split: option.split)

lemma counted_record:
  assumes "counted (ul_maxKinds l) (ul_maxObservations l) ks (ul_entries l)" and "ul_maxObservations l \<ge> 1"
  shows "counted (ul_maxKinds l) (ul_maxObservations l) (ks @ [obs_key ob]) (ul_entries (record_step sha l ob))"
proof -
  obtain now kind raw ty bv where ob: "ob = (now, kind, raw, ty, bv)" by (metis prod_cases5)
  let ?k = "frame_key kind (map_option normalizeEventType ty)"
  let ?key = "if \<not> jhas (ul_entries l) ?k \<and> length (ul_entries l) \<ge> ul_maxKinds l then OVERFLOW_SENTINEL else ?k"
  obtain e' where "ul_entries (record_step sha l ob) = jset (ul_entries l) ?key e'"
    and "uf_occurrences e' = (case jget (ul_entries l) ?key of Some e \<Rightarrow> min (uf_occurrences e + 1) (ul_maxObservations l) | None \<Rightarrow> 1)"
    by (cases "jget (ul_entries l) ?key") (auto simp: ob record_frame_def Let_def)
  with counted_step [OF assms frame_key_not_overflow refl] show ?thesis by (simp add: ob)
qed

lemma counted_run:
  assumes "counted (ul_maxKinds l) (ul_maxObservations l) ks (ul_entries l)" and "ul_maxObservations l \<ge> 1"
  shows "counted (ul_maxKinds l) (ul_maxObservations l) (ks @ map obs_key obs) (ul_entries (foldl (record_step sha) l obs))"
  using assms
proof (induction obs arbitrary: l ks)
  case (Cons ob obs)
  have caps: "ul_maxKinds (record_step sha l ob) = ul_maxKinds l" "ul_maxObservations (record_step sha l ob) = ul_maxObservations l"
    by (cases ob; simp)+
  from Cons.IH [of "record_step sha l ob" "ks @ [obs_key ob]"] counted_record [OF Cons.prems] Cons.prems(2) show ?case
    by (simp add: caps)
qed simp

lemma counted_new: "counted m n [] []"
  by (simp add: counted_def firsts_def)


section \<open>The properties of the ledger\<close>

text \<open>
  What a provider calls an event is stored safely: the normalized type has at most 128 bytes of UTF-8 and
  no control character, whatever code units came in, and a type that is already of that kind is kept as it
  is (so normalizing twice changes nothing).
\<close>

theorem event_type_safe:
  "utf8_units (normalizeEventType s) \<le> 128 \<and>
   list_all (\<lambda>u. \<not> isControlCodePoint u) (normalizeEventType s) \<and>
   normalizeEventType (normalizeEventType s) = normalizeEventType s"
  using normalize_bytes normalize_printable normalize_id by (auto simp: list_all_iff)


definition ex_obs :: "observation list" where
  "ex_obs = [(1, Unparseable_line, [65], None, None), (2, Non_object_frame, [66], None, None), (3, Unparseable_line, [67], None, None)]"


end
