(* ===== verification/Session_Supervisor.thy ===== *)
theory Session_Supervisor
  imports Accepted_Work Unknown_Frames
begin

text \<open>
  The session supervisor (\<^verbatim>\<open>packages/agent-runtime/src/providers/common/session-supervisor.ts\<close>).

  The supervisor watches a provider session through a probe and through the events it passes on, and
  settles one outcome. What happens next is not its choice: the probe's callbacks, the provider's events,
  the consumer who may walk away, and the answers to cancellations interleave freely. So the model is a
  transition relation over the supervisor's variables; each rule applies one of its functions. The trace of
  what happened is kept beside the state, for the statements only.
\<close>

section \<open>Events and outcomes\<close>

datatype SupervisedTerminal = T_completed | T_failed | T_cancelled

text \<open>The members of a provider event that are read; \<open>ag_rest\<close> is everything else in it.\<close>

record AgentEvent =
  ag_type :: string
  ag_providerSessionId :: "string option"
  ag_code :: "string option"
  ag_rest :: string

definition TERMINAL_BY_EVENT :: "string \<Rightarrow> SupervisedTerminal option" where
  "TERMINAL_BY_EVENT ty =
     (if ty = ''session.completed'' then Some T_completed
      else if ty = ''session.failed'' then Some T_failed
      else if ty = ''session.cancelled'' then Some T_cancelled else None)"

record SupervisedOutcome =
  so_terminal :: SupervisedTerminal
  so_acceptedWork :: AcceptedWorkState
  so_delivery :: ProviderDeliveryState
  so_providerSessionId :: "string option"
  so_failureReasonCode :: "string option"
  so_unknownFrames :: "NormalizedUnknownFrame list"
  so_reaped :: bool

definition asProviderImplementation :: "string \<Rightarrow> ProviderImplementation option" where
  "asProviderImplementation i =
     (if i = ''claude'' then Some Impl_claude else if i = ''codex'' then Some Impl_codex
      else if i = ''fake'' then Some Impl_fake else None)"


section \<open>The state\<close>

text \<open>
  Where the generator is: not started (a consumer that walks away now ends it without running its body),
  between two events, waiting for the cancellation it ordered after being abandoned, or over.
\<close>

datatype generator = Not_started | Running | Cancelling | Over

datatype happening =
    Spawn_attempt bool
  | Prompt_delivered
  | Spawn_failed
  | Unknown_frame observation
  | Provider_event AgentEvent
  | Stream_ended
  | Walked_away
  | Own_cancel bool
  | Caller_cancel bool

record supervisor =
  sp_boundary :: AcceptedWorkBoundary
  sp_latch :: AcceptedWorkLatch
  sp_ledger :: UnknownFrameLedger
  sp_delivery :: ProviderDeliveryState
  sp_reaped :: bool
  sp_providerSessionId :: "string option"
  sp_failureReasonCode :: "string option"
  sp_outcome :: "SupervisedOutcome option"
  sp_manifestWarnings :: nat
  sp_terminal :: "SupervisedTerminal option"
  sp_generator :: generator
  sp_yielded :: "AgentEvent list"
  sp_trace :: "happening list"
  sp_settledAt :: "happening list"

record SupervisedSessionHandle =
  sh_transportId :: string
  sh_compatibility :: "ProviderCompatibilityManifestEntry option"
  sh_frozenScope :: FrozenLaunchScope

definition superviseProviderSession ::
  "string \<Rightarrow> ProviderStatus \<Rightarrow> StartSessionOptions \<Rightarrow> string option \<Rightarrow> nat option \<Rightarrow> nat option \<Rightarrow> SupervisedSessionHandle \<times> supervisor" where
  "superviseProviderSession platform status start transport maxKinds maxObservations =
     (let transportId = (case transport of None \<Rightarrow> LEGACY_ONE_SHOT_TRANSPORT_ID | Some t \<Rightarrow> t);
          compatibility = (case asProviderImplementation (provider_name (ps_id status)) of
                             Some implementation \<Rightarrow> findProviderCompatibility implementation (ps_version status) transportId
                           | None \<Rightarrow> None)
      in (\<lparr>sh_transportId = transportId, sh_compatibility = compatibility,
           sh_frozenScope = freezeLaunchScope platform status start transportId\<rparr>,
          \<lparr>sp_boundary = acceptedWorkBoundaryFor compatibility, sp_latch = new_latch,
           sp_ledger = new_unknown_ledger maxKinds maxObservations, sp_delivery = Not_delivered, sp_reaped = True,
           sp_providerSessionId = None, sp_failureReasonCode = None, sp_outcome = None, sp_manifestWarnings = 0,
           sp_terminal = None, sp_generator = Not_started, sp_yielded = [], sp_trace = [], sp_settledAt = []\<rparr>))"


section \<open>The probe\<close>

definition onSpawnAttempt :: "bool \<Rightarrow> supervisor \<Rightarrow> supervisor" where
  "onSpawnAttempt viaStdin s =
     (let expectedViaStdin = (sp_boundary s = First_prompt_byte_to_stdin);
          s1 = (if viaStdin \<noteq> expectedViaStdin then s\<lparr>sp_manifestWarnings := sp_manifestWarnings s + 1\<rparr> else s)
      in if viaStdin then s1 else s1\<lparr>sp_delivery := Delivered, sp_latch := observe (sp_latch s1) Accepted\<rparr>)"

definition onPromptDelivered :: "supervisor \<Rightarrow> supervisor" where
  "onPromptDelivered s = s\<lparr>sp_delivery := Delivered, sp_latch := observe (sp_latch s) Accepted\<rparr>"

definition onSpawnFailed :: "supervisor \<Rightarrow> supervisor" where
  "onSpawnFailed s = (if sp_delivery s \<noteq> Delivered then s\<lparr>sp_delivery := Not_delivered\<rparr> else s)"

definition onUnknownFrame :: "(units \<Rightarrow> string) \<Rightarrow> observation \<Rightarrow> supervisor \<Rightarrow> supervisor" where
  "onUnknownFrame sha ob s = s\<lparr>sp_ledger := record_step sha (sp_ledger s) ob\<rparr>"


section \<open>Settling, cancelling, and the generator\<close>

definition finish_session :: "SupervisedTerminal \<Rightarrow> supervisor \<Rightarrow> supervisor" where
  "finish_session terminal s =
     (if sp_outcome s \<noteq> None then s
      else s\<lparr>sp_outcome := Some \<lparr>so_terminal = terminal, so_acceptedWork = la_current (sp_latch s), so_delivery = sp_delivery s,
               so_providerSessionId = sp_providerSessionId s, so_failureReasonCode = sp_failureReasonCode s,
               so_unknownFrames = ledger_entries (sp_ledger s), so_reaped = sp_reaped s\<rparr>,
             sp_settledAt := sp_trace s\<rparr>)"

text \<open>A cancellation that came back: confirmed, or rejected or past its budget.\<close>

definition performCancel :: "bool \<Rightarrow> supervisor \<Rightarrow> supervisor" where
  "performCancel confirmed s = (if confirmed then s else s\<lparr>sp_reaped := False\<rparr>)"

definition supervise_event :: "AgentEvent \<Rightarrow> supervisor \<Rightarrow> supervisor" where
  "supervise_event event s =
     (let s1 = (case TERMINAL_BY_EVENT (ag_type event) of Some t \<Rightarrow> s\<lparr>sp_terminal := Some t\<rparr> | None \<Rightarrow> s);
          s2 = (case ag_providerSessionId event of
                  Some i \<Rightarrow> if ag_type event = ''session.completed'' \<and> i \<noteq> [] then s1\<lparr>sp_providerSessionId := Some i\<rparr> else s1
                | None \<Rightarrow> s1);
          s3 = (if ag_type event = ''error'' \<and> sp_failureReasonCode s2 = None
                then s2\<lparr>sp_failureReasonCode := Some (case ag_code event of Some c \<Rightarrow> c | None \<Rightarrow> ''PROVIDER_ERROR'')\<rparr> else s2)
      in s3\<lparr>sp_yielded := sp_yielded s3 @ [event], sp_generator := Running\<rparr>)"

text \<open>The \<^verbatim>\<open>finally\<close> block, up to its \<^verbatim>\<open>await\<close> when no terminal event was seen.\<close>

definition supervise_finally :: "supervisor \<Rightarrow> supervisor" where
  "supervise_finally s =
     (case sp_terminal s of
        None \<Rightarrow> s\<lparr>sp_failureReasonCode := (case sp_failureReasonCode s of None \<Rightarrow> Some ''SUPERVISED_STREAM_ABANDONED'' | c \<Rightarrow> c),
                  sp_generator := Cancelling\<rparr>
      | Some t \<Rightarrow> (finish_session t s)\<lparr>sp_generator := Over\<rparr>)"

definition supervise_cancelled :: "bool \<Rightarrow> supervisor \<Rightarrow> supervisor" where
  "supervise_cancelled confirmed s =
     (finish_session (case sp_terminal s of Some t \<Rightarrow> t | None \<Rightarrow> T_failed) (performCancel confirmed s))\<lparr>sp_generator := Over\<rparr>"


section \<open>What may happen\<close>

definition note_happening :: "happening \<Rightarrow> supervisor \<Rightarrow> supervisor" where
  "note_happening x s = s\<lparr>sp_trace := sp_trace s @ [x]\<rparr>"

inductive supervises :: "(units \<Rightarrow> string) \<Rightarrow> supervisor \<Rightarrow> supervisor \<Rightarrow> bool" for sha where
  sv_spawn: "supervises sha s (onSpawnAttempt v (note_happening (Spawn_attempt v) s))"
| sv_delivered: "supervises sha s (onPromptDelivered (note_happening Prompt_delivered s))"
| sv_spawn_failed: "supervises sha s (onSpawnFailed (note_happening Spawn_failed s))"
| sv_unknown: "supervises sha s (onUnknownFrame sha ob (note_happening (Unknown_frame ob) s))"
| sv_event: "sp_generator s \<in> {Not_started, Running} \<Longrightarrow> supervises sha s (supervise_event e (note_happening (Provider_event e) s))"
| sv_ended: "sp_generator s \<in> {Not_started, Running} \<Longrightarrow> supervises sha s (supervise_finally (note_happening Stream_ended s))"
| sv_walked_away: "sp_generator s = Running \<Longrightarrow> supervises sha s (supervise_finally (note_happening Walked_away s))"
| sv_never_started: "sp_generator s = Not_started \<Longrightarrow> supervises sha s ((note_happening Walked_away s)\<lparr>sp_generator := Over\<rparr>)"
| sv_own_cancel: "sp_generator s = Cancelling \<Longrightarrow> supervises sha s (supervise_cancelled ok (note_happening (Own_cancel ok) s))"
| sv_caller_cancel: "supervises sha s (performCancel ok (note_happening (Caller_cancel ok) s))"


section \<open>What a trace says\<close>

fun event_in :: "happening \<Rightarrow> AgentEvent list" where
  "event_in (Provider_event e) = [e]"
| "event_in _ = []"

fun frame_in :: "happening \<Rightarrow> observation list" where
  "frame_in (Unknown_frame ob) = [ob]"
| "frame_in _ = []"

fun delivers :: "happening \<Rightarrow> bool" where
  "delivers (Spawn_attempt v) = (\<not> v)"
| "delivers Prompt_delivered = True"
| "delivers _ = False"

definition events_of :: "happening list \<Rightarrow> AgentEvent list" where
  "events_of tr = concat (map event_in tr)"

definition frames_of :: "happening list \<Rightarrow> observation list" where
  "frames_of tr = concat (map frame_in tr)"

definition unconfirmed_cancel :: "happening list \<Rightarrow> bool" where
  "unconfirmed_cancel tr \<longleftrightarrow> Own_cancel False \<in> set tr \<or> Caller_cancel False \<in> set tr"

definition last_option :: "'a list \<Rightarrow> 'a option" where
  "last_option xs = (if xs = [] then None else Some (last xs))"

definition last_terminal :: "AgentEvent list \<Rightarrow> SupervisedTerminal option" where
  "last_terminal evs = last_option (List.map_filter (\<lambda>e. TERMINAL_BY_EVENT (ag_type e)) evs)"

definition session_id_of :: "AgentEvent \<Rightarrow> string option" where
  "session_id_of e = (if ag_type e = ''session.completed'' \<and> ag_providerSessionId e \<noteq> Some [] then ag_providerSessionId e else None)"

definition first_error :: "AgentEvent list \<Rightarrow> string option" where
  "first_error evs = map_option (\<lambda>e. case ag_code e of Some c \<Rightarrow> c | None \<Rightarrow> ''PROVIDER_ERROR'')
     (List.find (\<lambda>e. ag_type e = ''error'') evs)"

text \<open>The outcome that a trace, up to the moment of settling, deserves.\<close>

definition outcome_of :: "(units \<Rightarrow> string) \<Rightarrow> UnknownFrameLedger \<Rightarrow> happening list \<Rightarrow> SupervisedOutcome" where
  "outcome_of sha l0 tr =
     \<lparr>so_terminal = (case last_terminal (events_of tr) of Some t \<Rightarrow> t | None \<Rightarrow> T_failed),
      so_acceptedWork = (if list_ex delivers tr then Accepted else Not_accepted),
      so_delivery = (if list_ex delivers tr then Delivered else Not_delivered),
      so_providerSessionId = last_option (List.map_filter session_id_of (events_of tr)),
      so_failureReasonCode =
        (case first_error (events_of tr) of
           Some c \<Rightarrow> Some c
         | None \<Rightarrow> if last_terminal (events_of tr) = None then Some ''SUPERVISED_STREAM_ABANDONED'' else None),
      so_unknownFrames = ledger_entries (foldl (record_step sha) l0 (frames_of tr)),
      so_reaped = (\<not> unconfirmed_cancel tr)\<rparr>"


section \<open>The invariant\<close>

definition sup_tracks :: "(units \<Rightarrow> string) \<Rightarrow> UnknownFrameLedger \<Rightarrow> supervisor \<Rightarrow> bool" where
  "sup_tracks sha l0 s \<longleftrightarrow>
     sp_delivery s = (if list_ex delivers (sp_trace s) then Delivered else Not_delivered) \<and>
     la_current (sp_latch s) = (if list_ex delivers (sp_trace s) then Accepted else Not_accepted) \<and>
     sp_ledger s = foldl (record_step sha) l0 (frames_of (sp_trace s)) \<and>
     sp_reaped s = (\<not> unconfirmed_cancel (sp_trace s)) \<and>
     sp_yielded s = events_of (sp_trace s) \<and>
     sp_terminal s = last_terminal (events_of (sp_trace s)) \<and>
     sp_providerSessionId s = last_option (List.map_filter session_id_of (events_of (sp_trace s)))"

definition sup_phase :: "(units \<Rightarrow> string) \<Rightarrow> UnknownFrameLedger \<Rightarrow> supervisor \<Rightarrow> bool" where
  "sup_phase sha l0 s \<longleftrightarrow>
     (case sp_generator s of
        Not_started \<Rightarrow> sp_failureReasonCode s = first_error (sp_yielded s) \<and> sp_outcome s = None \<and> sp_yielded s = []
      | Running \<Rightarrow> sp_failureReasonCode s = first_error (sp_yielded s) \<and> sp_outcome s = None \<and> sp_yielded s \<noteq> []
      | Cancelling \<Rightarrow> sp_terminal s = None \<and> sp_outcome s = None \<and>
          sp_failureReasonCode s =
            (case first_error (sp_yielded s) of Some c \<Rightarrow> Some c | None \<Rightarrow> Some ''SUPERVISED_STREAM_ABANDONED'')
      | Over \<Rightarrow> (case sp_outcome s of
                    Some out \<Rightarrow> out = outcome_of sha l0 (sp_settledAt s) \<and>
                      (last_terminal (events_of (sp_settledAt s)) \<noteq> None \<or> (\<exists>ok. last (sp_settledAt s) = Own_cancel ok))
                  | None \<Rightarrow> sp_yielded s = [])) \<and>
     prefix (sp_settledAt s) (sp_trace s)"

definition sup_inv :: "(units \<Rightarrow> string) \<Rightarrow> UnknownFrameLedger \<Rightarrow> supervisor \<Rightarrow> bool" where
  "sup_inv sha l0 s \<longleftrightarrow> sup_tracks sha l0 s \<and> sup_phase sha l0 s"

lemma trace_snoc [simp]:
  "events_of (tr @ [x]) = events_of tr @ event_in x"
  "frames_of (tr @ [x]) = frames_of tr @ frame_in x"
  "unconfirmed_cancel (tr @ [x]) \<longleftrightarrow> unconfirmed_cancel tr \<or> x = Own_cancel False \<or> x = Caller_cancel False"
  by (auto simp: events_of_def frames_of_def unconfirmed_cancel_def)

lemma last_option_snoc [simp]: "last_option (xs @ [x]) = Some x" "last_option [] = None"
  by (simp_all add: last_option_def)

lemma find_snoc: "List.find P (xs @ [x]) = (case List.find P xs of Some y \<Rightarrow> Some y | None \<Rightarrow> if P x then Some x else None)"
  by (induction xs) auto

lemma first_error_snoc [simp]:
  "first_error (evs @ [e]) = (case first_error evs of Some c \<Rightarrow> Some c
     | None \<Rightarrow> if ag_type e = ''error'' then Some (case ag_code e of Some c \<Rightarrow> c | None \<Rightarrow> ''PROVIDER_ERROR'') else None)"
  by (simp add: first_error_def find_snoc split: option.split)

lemma map_filter_snoc [simp]:
  "List.map_filter f (xs @ [x]) = List.map_filter f xs @ (case f x of None \<Rightarrow> [] | Some y \<Rightarrow> [y])"
  by (simp add: List.map_filter_def split: option.split)

lemma last_terminal_snoc [simp]:
  "last_terminal (evs @ [e]) = (case TERMINAL_BY_EVENT (ag_type e) of Some t \<Rightarrow> Some t | None \<Rightarrow> last_terminal evs)"
  by (simp add: last_terminal_def split: option.split)

lemma observe_accepted [simp]: "la_current (observe l Accepted) = Accepted"
  by (simp add: observe_current max_def less_eq_AcceptedWorkState_def split: if_split) (cases "la_current l"; simp)

lemmas sup_ops = note_happening_def onSpawnAttempt_def onPromptDelivered_def onSpawnFailed_def onUnknownFrame_def
  performCancel_def Let_def

lemma finish_session_fields [simp]:
  "sp_delivery (finish_session t s) = sp_delivery s" "sp_latch (finish_session t s) = sp_latch s"
  "sp_ledger (finish_session t s) = sp_ledger s" "sp_reaped (finish_session t s) = sp_reaped s"
  "sp_yielded (finish_session t s) = sp_yielded s" "sp_terminal (finish_session t s) = sp_terminal s"
  "sp_providerSessionId (finish_session t s) = sp_providerSessionId s" "sp_trace (finish_session t s) = sp_trace s"
  by (simp_all add: finish_session_def)

lemma tracks_event:
  assumes "sup_tracks sha l0 s"
  shows "sup_tracks sha l0 (supervise_event e (note_happening (Provider_event e) s))"
  using assms
  by (auto simp: sup_tracks_def supervise_event_def note_happening_def Let_def session_id_of_def split: option.split)

lemma tracks_step:
  assumes "supervises sha s t" and "sup_tracks sha l0 s"
  shows "sup_tracks sha l0 t"
  using assms
proof (cases rule: supervises.cases)
  case (sv_event e)
  with assms(2) tracks_event show ?thesis by simp
qed (auto simp: sup_tracks_def sup_ops supervise_finally_def supervise_cancelled_def split: option.splits)

lemma tracks_outcome:
  assumes "sup_tracks sha l0 s" "sp_outcome s = None"
    and "t = (case last_terminal (events_of (sp_trace s)) of Some t \<Rightarrow> t | None \<Rightarrow> T_failed)"
    and "sp_failureReasonCode s = (case first_error (events_of (sp_trace s)) of Some c \<Rightarrow> Some c
         | None \<Rightarrow> if last_terminal (events_of (sp_trace s)) = None then Some ''SUPERVISED_STREAM_ABANDONED'' else None)"
  shows "sp_outcome (finish_session t s) = Some (outcome_of sha l0 (sp_trace s)) \<and> sp_settledAt (finish_session t s) = sp_trace s"
  using assms by (auto simp: finish_session_def sup_tracks_def outcome_of_def)


lemma phase_quiet:
  assumes "sup_phase sha l0 s" and "sp_generator t = sp_generator s" "sp_failureReasonCode t = sp_failureReasonCode s"
    "sp_outcome t = sp_outcome s" "sp_yielded t = sp_yielded s" "sp_terminal t = sp_terminal s" "sp_settledAt t = sp_settledAt s"
    "prefix (sp_trace s) (sp_trace t)"
  shows "sup_phase sha l0 t"
proof -
  have "prefix (sp_settledAt t) (sp_trace t)"
    using assms by (auto simp: sup_phase_def intro: prefix_order.order_trans)
  then show ?thesis using assms(1) unfolding sup_phase_def assms(2-7) by blast
qed

lemma supervise_event_fields:
  "sp_generator (supervise_event e s) = Running" "sp_outcome (supervise_event e s) = sp_outcome s"
  "sp_yielded (supervise_event e s) = sp_yielded s @ [e]" "sp_settledAt (supervise_event e s) = sp_settledAt s"
  "sp_trace (supervise_event e s) = sp_trace s"
  "sp_failureReasonCode (supervise_event e s) = (case sp_failureReasonCode s of Some c \<Rightarrow> Some c
     | None \<Rightarrow> if ag_type e = ''error'' then Some (case ag_code e of Some c \<Rightarrow> c | None \<Rightarrow> ''PROVIDER_ERROR'') else None)"
  by (simp_all add: supervise_event_def Let_def split: option.split)

lemma phase_settled:
  assumes "sup_tracks sha l0 s" "sp_outcome s = None"
    and "t = (case sp_terminal s of Some t \<Rightarrow> t | None \<Rightarrow> T_failed)"
    and "sp_failureReasonCode s = (case first_error (sp_yielded s) of Some c \<Rightarrow> Some c
         | None \<Rightarrow> if sp_terminal s = None then Some ''SUPERVISED_STREAM_ABANDONED'' else None)"
    and "sp_terminal s \<noteq> None \<or> (\<exists>ok. last (sp_trace s) = Own_cancel ok)"
  shows "sup_phase sha l0 ((finish_session t s)\<lparr>sp_generator := Over\<rparr>)"
proof -
  have y: "sp_yielded s = events_of (sp_trace s)" "sp_terminal s = last_terminal (events_of (sp_trace s))"
    using assms(1) by (simp_all add: sup_tracks_def)
  from tracks_outcome [OF assms(1,2), of t] assms(3-) show ?thesis unfolding y by (simp add: sup_phase_def)
qed

lemma phase_finally:
  assumes "sup_tracks sha l0 s" "sp_outcome s = None" "sp_failureReasonCode s = first_error (sp_yielded s)"
    and "prefix (sp_settledAt s) (sp_trace s)"
  shows "sup_phase sha l0 (supervise_finally s)"
proof (cases "sp_terminal s")
  case None
  then show ?thesis using assms(2-4) by (simp add: supervise_finally_def sup_phase_def split: option.split)
next
  case (Some t)
  with phase_settled [OF assms(1,2), of t] assms(3) show ?thesis
    by (simp add: supervise_finally_def option.case_eq_if split: if_splits)
qed

lemma phase_open:
  assumes "sup_phase sha l0 s" "sp_generator s \<in> {Not_started, Running}"
  shows "sp_failureReasonCode s = first_error (sp_yielded s)" "sp_outcome s = None" "prefix (sp_settledAt s) (sp_trace s)"
  using assms by (auto simp: sup_phase_def)

lemma phase_step:
  assumes "supervises sha s t" and trk: "sup_tracks sha l0 s" and ph: "sup_phase sha l0 s"
  shows "sup_phase sha l0 t"
  using assms(1)
proof (cases rule: supervises.cases)
  case (sv_spawn v)
  with ph show ?thesis by (elim phase_quiet) (simp_all add: sup_ops)
next
  case sv_delivered
  with ph show ?thesis by (elim phase_quiet) (simp_all add: sup_ops)
next
  case sv_spawn_failed
  with ph show ?thesis by (elim phase_quiet) (simp_all add: sup_ops)
next
  case (sv_unknown ob)
  with ph show ?thesis by (elim phase_quiet) (simp_all add: sup_ops)
next
  case (sv_caller_cancel ok)
  with ph show ?thesis by (elim phase_quiet) (simp_all add: sup_ops)
next
  case (sv_event e)
  with phase_open [OF ph] show ?thesis
    by (simp add: sup_phase_def supervise_event_fields note_happening_def)
next
  case sv_ended
  with phase_open [OF ph] trk show ?thesis
    by (auto intro!: phase_finally simp: sup_tracks_def note_happening_def)
next
  case sv_walked_away
  with phase_open [OF ph] trk show ?thesis
    by (auto intro!: phase_finally simp: sup_tracks_def note_happening_def)
next
  case sv_never_started
  with ph show ?thesis by (simp add: sup_phase_def note_happening_def)
next
  case (sv_own_cancel ok)
  let ?u = "performCancel ok (note_happening (Own_cancel ok) s)"
  have u: "sup_tracks sha l0 ?u" using trk by (auto simp: sup_tracks_def sup_ops)
  have f: "sp_outcome s = None" "sp_terminal s = None"
    "sp_failureReasonCode s = (case first_error (sp_yielded s) of Some c \<Rightarrow> Some c | None \<Rightarrow> Some ''SUPERVISED_STREAM_ABANDONED'')"
    using sv_own_cancel(2) ph by (simp_all add: sup_phase_def)
  then have "sup_phase sha l0 ((finish_session T_failed ?u)\<lparr>sp_generator := Over\<rparr>)"
    by (intro phase_settled [OF u]) (auto simp: sup_ops)
  then show ?thesis using sv_own_cancel(1) f(2) by (simp add: supervise_cancelled_def sup_ops)
qed

interpretation supervision: transition_system
  "\<lambda>s. s = snd (superviseProviderSession platform status start transport maxKinds maxObservations)"
  "supervises sha" "sup_inv sha (new_unknown_ledger maxKinds maxObservations)"
  for platform status start transport maxKinds maxObservations sha
proof
  fix s assume "s = snd (superviseProviderSession platform status start transport maxKinds maxObservations)"
  then show "sup_inv sha (new_unknown_ledger maxKinds maxObservations) s"
    by (simp add: superviseProviderSession_def Let_def sup_inv_def sup_tracks_def sup_phase_def new_latch_def events_of_def
        frames_of_def unconfirmed_cancel_def last_terminal_def first_error_def List.map_filter_def)
next
  fix s t assume "sup_inv sha (new_unknown_ledger maxKinds maxObservations) s" "supervises sha s t"
  then show "sup_inv sha (new_unknown_ledger maxKinds maxObservations) t"
    using tracks_step phase_step unfolding sup_inv_def by blast
qed


section \<open>The properties of the supervisor\<close>

text \<open>
  C35. The supervisor is transparent and its outcome is faithful. Whatever happens in whatever order, the
  consumer got exactly the provider's events in order. Once an outcome is settled it equals what the trace
  up to that moment deserves: the last terminal event, the first error, the session id, the unknown frames,
  whether every cancellation was confirmed, and accepted work and delivery exactly when the prompt was handed
  over. Without a terminal event it was settled only after the supervisor's own cancellation came back. A
  generator that is over after at least one event has settled.
\<close>

theorem supervised_outcome_faithful:
  assumes "(supervises sha)\<^sup>*\<^sup>* (snd (superviseProviderSession platform status start transport maxKinds maxObservations)) s"
  shows "sp_yielded s = events_of (sp_trace s) \<and>
         (sp_outcome s = Some out \<longrightarrow>
            out = outcome_of sha (new_unknown_ledger maxKinds maxObservations) (sp_settledAt s) \<and> prefix (sp_settledAt s) (sp_trace s) \<and>
            (last_terminal (events_of (sp_settledAt s)) \<noteq> None \<or> (\<exists>ok. last (sp_settledAt s) = Own_cancel ok))) \<and>
         (sp_generator s = Over \<and> sp_yielded s \<noteq> [] \<longrightarrow> sp_outcome s \<noteq> None)"
proof -
  from supervision.invar_reachable [OF refl assms]
  have "sup_tracks sha (new_unknown_ledger maxKinds maxObservations) s" "sup_phase sha (new_unknown_ledger maxKinds maxObservations) s"
    by (simp_all add: sup_inv_def)
  then show ?thesis
    by (cases "sp_generator s"; cases "sp_outcome s") (auto simp: sup_tracks_def sup_phase_def)
qed

lemma outcome_kept: "supervises sha s t \<Longrightarrow> sp_outcome s = Some out \<Longrightarrow> sp_outcome t = Some out"
  by (auto elim!: supervises.cases
      simp: sup_ops supervise_event_fields supervise_finally_def supervise_cancelled_def finish_session_def split: option.split)

text \<open>
  One outcome: once settled it never changes, whatever the probe, the provider or a caller's cancellation
  still report.
\<close>

theorem supervised_outcome_final:
  assumes "(supervises sha)\<^sup>*\<^sup>* s t" and "sp_outcome s = Some out"
  shows "sp_outcome t = Some out"
  using assms by (induction rule: rtranclp_induct) (auto dest: outcome_kept)

lemma unstarted_stays:
  assumes "supervises sha s t" "sp_generator s = Over" "sp_outcome s = None"
  shows "sp_generator t = Over \<and> sp_outcome t = None"
  using assms by (auto elim!: supervises.cases simp: sup_ops)

text \<open>
  The one way to lose a session: a consumer that returns the event stream before pulling from it ends the
  generator without running its body. Then nothing is cancelled and the outcome never settles, although the
  provider may still hand over the prompt.
\<close>

theorem unstarted_never_settles:
  "(\<exists>s. supervises sha (snd (superviseProviderSession platform status start transport maxKinds maxObservations)) s \<and>
      sp_generator s = Over \<and> (\<nexists>t. (supervises sha)\<^sup>*\<^sup>* s t \<and> sp_outcome t \<noteq> None) \<and>
      (\<exists>t. (supervises sha)\<^sup>*\<^sup>* s t \<and> la_current (sp_latch t) = Accepted))"
proof -
  let ?init = "snd (superviseProviderSession platform status start transport maxKinds maxObservations)"
  let ?gone = "(note_happening Walked_away ?init)\<lparr>sp_generator := Over\<rparr>"
  have g: "sp_generator ?init = Not_started" "sp_outcome ?init = None" by (simp_all add: superviseProviderSession_def Let_def)
  have "sp_generator t = Over \<and> sp_outcome t = None" if "(supervises sha)\<^sup>*\<^sup>* ?gone t" for t
    using that by (induction rule: rtranclp_induct) (auto simp: g note_happening_def dest: unstarted_stays)
  moreover have "(supervises sha)\<^sup>*\<^sup>* ?gone (onPromptDelivered (note_happening Prompt_delivered ?gone))" by (blast intro: sv_delivered)
  moreover have "la_current (sp_latch (onPromptDelivered (note_happening Prompt_delivered ?gone))) = Accepted"
    by (simp add: onPromptDelivered_def)
  ultimately show ?thesis using sv_never_started [OF g(1), of sha] by (intro exI [of _ ?gone]) auto
qed

definition ex_status :: ProviderStatus where
  "ex_status = \<lparr>ps_id = Codex, ps_executablePath = None, ps_version = Some ''0.147.0'', ps_authenticated = Authenticated\<rparr>"

definition ex_done :: AgentEvent where
  "ex_done = \<lparr>ag_type = ''session.completed'', ag_providerSessionId = Some ''p1'', ag_code = None, ag_rest = []\<rparr>"

definition ex_settled :: supervisor where
  "ex_settled = supervise_finally (note_happening Stream_ended (supervise_event ex_done (note_happening (Provider_event ex_done)
     (onPromptDelivered (note_happening Prompt_delivered
       (snd (superviseProviderSession ''linux'' ex_status \<lparr>st_cwd = ''/w'', st_model = None\<rparr> None None None)))))))"

lemma ex_settled_reached:
  "(supervises sha)\<^sup>*\<^sup>* (snd (superviseProviderSession ''linux'' ex_status \<lparr>st_cwd = ''/w'', st_model = None\<rparr> None None None)) ex_settled"
  unfolding ex_settled_def
  by (rule rtranclp.rtrancl_into_rtrancl [OF rtranclp.rtrancl_into_rtrancl [OF r_into_rtranclp [of "supervises sha"]]])
    (rule sv_delivered sv_event sv_ended;
     simp add: superviseProviderSession_def Let_def onPromptDelivered_def note_happening_def supervise_event_fields)+

lemmas settled_eval = ex_settled_def supervise_finally_def note_happening_def supervise_event_def onPromptDelivered_def finish_session_def
  superviseProviderSession_def Let_def ex_done_def TERMINAL_BY_EVENT_def

theorem supervised_outcome_faithful_witness:
  "map_option so_terminal (sp_outcome ex_settled) = Some T_completed \<and>
   sp_outcome ex_settled = Some (outcome_of (\<lambda>_. []) (new_unknown_ledger None None) [Prompt_delivered, Provider_event ex_done, Stream_ended])"
proof -
  have "sp_settledAt ex_settled = [Prompt_delivered, Provider_event ex_done, Stream_ended]" "sp_outcome ex_settled \<noteq> None"
    "map_option so_terminal (sp_outcome ex_settled) = Some T_completed"
    by (simp_all add: settled_eval)
  with supervised_outcome_faithful [OF ex_settled_reached [of "\<lambda>_. []"], of "the (sp_outcome ex_settled)"] show ?thesis by auto
qed

theorem supervised_outcome_final_witness:
  "map_option so_reaped (sp_outcome (performCancel False (note_happening (Caller_cancel False) ex_settled))) = Some True"
proof -
  have "map_option so_reaped (sp_outcome ex_settled) = Some True" by (simp add: settled_eval)
  then obtain out where out: "sp_outcome ex_settled = Some out" "so_reaped out" by auto
  have step: "(supervises (\<lambda>_. []))\<^sup>*\<^sup>* ex_settled (performCancel False (note_happening (Caller_cancel False) ex_settled))"
    by (rule r_into_rtranclp [of "supervises (\<lambda>_. [])"], rule sv_caller_cancel)
  show ?thesis unfolding supervised_outcome_final [OF step out(1)] using out(2) by simp
qed

end
