(* ===== verification/Async_Channel.thy ===== *)
theory Async_Channel
  imports Radar_Prelude
begin

text \<open>
  The bounded queue between a provider's process and the reader of its events
  (\<^verbatim>\<open>packages/agent-runtime/src/process/async-channel.ts\<close>). A reader that finds nothing waits; a value goes to the
  reader that waits longest or to the queue. The results handed to readers and the values taken from the
  producer are kept beside the state, for the statements only.
\<close>

section \<open>The channel\<close>

text \<open>\<open>None\<close> as a result is the end of the iteration.\<close>

record 'a channel =
  ac_queue :: "'a list"
  ac_waiters :: nat
  ac_closed :: bool
  ac_maxBufferedItems :: nat
  ac_results :: "'a option list"
  ac_taken :: "'a list"

definition new_channel :: "nat option \<Rightarrow> 'a channel" where
  "new_channel maxBufferedItems =
     \<lparr>ac_queue = [], ac_waiters = 0, ac_closed = False,
       ac_maxBufferedItems = (case maxBufferedItems of None \<Rightarrow> 10000 | Some n \<Rightarrow> n), ac_results = [], ac_taken = []\<rparr>"

definition hand_over :: "'a \<Rightarrow> 'a channel \<Rightarrow> 'a channel" where
  "hand_over v c =
     (if 0 < ac_waiters c
      then c\<lparr>ac_waiters := ac_waiters c - 1, ac_results := ac_results c @ [Some v], ac_taken := ac_taken c @ [v]\<rparr>
      else c\<lparr>ac_queue := ac_queue c @ [v], ac_taken := ac_taken c @ [v]\<rparr>)"

definition channel_push :: "'a \<Rightarrow> 'a channel \<Rightarrow> bool \<times> 'a channel" where
  "channel_push v c =
     (if ac_closed c then (False, c)
      else if length (ac_queue c) \<ge> ac_maxBufferedItems c then (False, c)
      else (True, hand_over v c))"

definition channel_close :: "'a channel \<Rightarrow> 'a channel" where
  "channel_close c =
     (if ac_closed c then c
      else c\<lparr>ac_closed := True, ac_waiters := 0, ac_results := ac_results c @ replicate (ac_waiters c) None\<rparr>)"

definition closeWith :: "'a list \<Rightarrow> 'a channel \<Rightarrow> 'a channel" where
  "closeWith finalValues c = (if ac_closed c then c else channel_close (foldl (\<lambda>c v. hand_over v c) c finalValues))"

text \<open>One pull of the iterator, up to its suspension.\<close>

definition channel_next :: "'a channel \<Rightarrow> 'a channel" where
  "channel_next c =
     (case ac_queue c of
        v # rest \<Rightarrow> c\<lparr>ac_queue := rest, ac_results := ac_results c @ [Some v]\<rparr>
      | [] \<Rightarrow> if ac_closed c then c\<lparr>ac_results := ac_results c @ [None]\<rparr> else c\<lparr>ac_waiters := ac_waiters c + 1\<rparr>)"


section \<open>First in, first out\<close>

definition given :: "'a option list \<Rightarrow> 'a list" where
  "given rs = List.map_filter (\<lambda>r. r) rs"

lemma given_simps [simp]: "given [] = []" "given (rs @ ss) = given rs @ given ss" "given [Some v] = [v]" "given [None] = []" "given (replicate n None) = []"
  by (simp_all add: given_def List.map_filter_simps map_filter_append) (induction n; simp add: List.map_filter_simps)

text \<open>A reader is told of the end only when everything that was taken has been handed out.\<close>

definition channel_ok :: "'a channel \<Rightarrow> bool" where
  "channel_ok c \<longleftrightarrow>
     given (ac_results c) @ ac_queue c = ac_taken c \<and>
     (0 < ac_waiters c \<longrightarrow> ac_queue c = [] \<and> \<not> ac_closed c) \<and>
     (None \<in> set (ac_results c) \<longrightarrow> ac_closed c \<and> ac_queue c = []) \<and>
     (\<not> ac_closed c \<longrightarrow> length (ac_queue c) \<le> ac_maxBufferedItems c)"

definition fed :: "'a channel \<Rightarrow> bool" where
  "fed c \<longleftrightarrow> given (ac_results c) @ ac_queue c = ac_taken c \<and> (0 < ac_waiters c \<longrightarrow> ac_queue c = []) \<and> None \<notin> set (ac_results c) \<and> \<not> ac_closed c"

lemma fed_hand_over: "fed c \<Longrightarrow> fed (hand_over v c)"
  by (auto simp: fed_def hand_over_def)

lemma hand_over_fields [simp]:
  "ac_closed (hand_over v c) = ac_closed c" "ac_maxBufferedItems (hand_over v c) = ac_maxBufferedItems c"
  "ac_taken (hand_over v c) = ac_taken c @ [v]" "length (ac_queue (hand_over v c)) \<le> Suc (length (ac_queue c))"
  by (simp_all add: hand_over_def)

lemma fed_hand_overs: "fed c \<Longrightarrow> fed (foldl (\<lambda>c v. hand_over v c) c vs)"
  by (induction vs arbitrary: c) (auto intro: fed_hand_over)

lemma taken_hand_overs [simp]: "ac_taken (foldl (\<lambda>c v. hand_over v c) c vs) = ac_taken c @ vs"
  by (induction vs arbitrary: c) auto

lemma fed_open: "channel_ok c \<Longrightarrow> \<not> ac_closed c \<Longrightarrow> fed c"
  by (auto simp: channel_ok_def fed_def)

lemma ok_close: "fed c \<Longrightarrow> channel_ok (channel_close c)"
  by (cases "ac_waiters c = 0") (auto simp: fed_def channel_close_def channel_ok_def)

lemma channel_ok_new: "channel_ok (new_channel n)"
  by (simp add: channel_ok_def new_channel_def)

lemma channel_ok_push: "channel_ok c \<Longrightarrow> channel_ok (snd (channel_push v c))"
  by (auto simp: channel_push_def channel_ok_def hand_over_def)

lemma channel_ok_closeWith: "channel_ok c \<Longrightarrow> channel_ok (closeWith vs c)"
  by (auto simp: closeWith_def intro!: ok_close fed_hand_overs fed_open)

lemma channel_ok_close: "channel_ok c \<Longrightarrow> channel_ok (channel_close c)"
  by (cases "ac_closed c") (simp add: channel_close_def, blast intro: ok_close fed_open)

lemma channel_ok_next: "channel_ok c \<Longrightarrow> channel_ok (channel_next c)"
  by (auto simp: channel_next_def channel_ok_def split: list.split)

datatype 'a channel_call = Push 'a | Close | Close_with "'a list" | Next

fun channel_apply :: "'a channel \<Rightarrow> 'a channel_call \<Rightarrow> 'a channel" where
  "channel_apply c (Push v) = snd (channel_push v c)"
| "channel_apply c Close = channel_close c"
| "channel_apply c (Close_with vs) = closeWith vs c"
| "channel_apply c Next = channel_next c"

interpretation event_channel: step_system "new_channel n" channel_apply channel_ok
proof
  show "channel_ok (new_channel n)" by (rule channel_ok_new)
  show "channel_ok c \<Longrightarrow> channel_ok (channel_apply c e)" for c :: "'a channel" and e
    by (cases e) (auto intro: channel_ok_push channel_ok_close channel_ok_closeWith channel_ok_next)
qed

text \<open>
  What the producer gave and the channel took: the pushes that fit while it was open, and the final values of the
  one call that closed it, whatever the size of the queue.
\<close>

lemma taken_call:
  "ac_taken (channel_apply c e) = ac_taken c @
     (case e of
        Push v \<Rightarrow> if fst (channel_push v c) then [v] else []
      | Close_with vs \<Rightarrow> if ac_closed c then [] else vs
      | _ \<Rightarrow> [])"
  by (cases e) (auto simp: channel_push_def channel_close_def closeWith_def channel_next_def split: list.split)

lemma closed_stays: "ac_closed c \<Longrightarrow> ac_closed (channel_apply c e)"
  by (cases e) (auto simp: channel_push_def channel_close_def closeWith_def channel_next_def split: list.split)

text \<open>
  The channel is a bounded queue, whatever its producer and its readers do and in whatever order: the values
  handed to readers, in the order of their pulls, followed by those still queued are exactly the values taken; a push is refused
  only when the channel is closed or full; while it is open no more than the limit is queued; and a reader is told that the
  iteration is over only when the channel is closed and every value taken was handed out.
\<close>

theorem channel_is_fifo:
  "let c = foldl channel_apply (new_channel n) calls
   in given (ac_results c) @ ac_queue c = ac_taken c \<and>
      (fst (channel_push v c) \<longleftrightarrow> \<not> ac_closed c \<and> length (ac_queue c) < ac_maxBufferedItems c) \<and>
      (ac_closed c \<or> length (ac_queue c) \<le> ac_maxBufferedItems c) \<and>
      (if None \<in> set (ac_results c) then ac_closed c \<and> ac_taken c = given (ac_results c) else True) \<and>
      (ac_waiters c = 0 \<or> ac_queue c = [] \<and> \<not> ac_closed c)"
  using event_channel.invar_reached [of n calls] by (auto simp: Let_def channel_ok_def channel_push_def)

end
