(* ===== verification/Provider_Parsers.thy ===== *)
theory Provider_Parsers
  imports Json_Bounds
begin

text \<open>
  The parsers of the two providers' output (\<^verbatim>\<open>providers/claude/parser.ts\<close> and \<^verbatim>\<open>providers/codex/parser.ts\<close> of
  \<^verbatim>\<open>packages/agent-runtime\<close>): one parsed JSON line becomes a list of normalized events
  (\<^verbatim>\<open>packages/shared/src/events.ts\<close>). A value of JSON is the tree of \<open>Json_Bounds\<close>; an object has each key once, as
  \<^verbatim>\<open>JSON.parse\<close> leaves it, and a number is given by its text, \<open>Infinity\<close> included.
\<close>

section \<open>Values\<close>

text \<open>A member of a value: only objects have any of the names that are read here. \<open>None\<close> is \<^verbatim>\<open>undefined\<close>.\<close>

definition member :: "json option \<Rightarrow> string \<Rightarrow> json option" where
  "member value key = (case value of Some (TObj members) \<Rightarrow> map_of members key | _ \<Rightarrow> None)"

fun truthy :: "json option \<Rightarrow> bool" where
  "truthy (Some (TBool b)) = b"
| "truthy (Some (TNum s)) = (s \<noteq> ''0'')"
| "truthy (Some (TStr s)) = (s \<noteq> [])"
| "truthy (Some TNull) = False"
| "truthy (Some _) = True"
| "truthy None = False"

fun is_object :: "json option \<Rightarrow> bool" where
  "is_object (Some (TArr _)) = True"
| "is_object (Some (TObj _)) = True"
| "is_object _ = False"

fun as_string :: "json option \<Rightarrow> string option" where
  "as_string (Some (TStr s)) = Some s"
| "as_string _ = None"

fun is_number :: "json option \<Rightarrow> bool" where
  "is_number (Some (TNum s)) = True"
| "is_number _ = False"

fun sequence_parts :: "string option list \<Rightarrow> string list option" where
  "sequence_parts [] = Some []"
| "sequence_parts (None # ps) = None"
| "sequence_parts (Some p # ps) = map_option (Cons p) (sequence_parts ps)"

text \<open>
  \<^verbatim>\<open>String(value)\<close>: an object with a member \<^verbatim>\<open>toString\<close> of its own cannot be converted and throws (\<open>None\<close>); the null
  elements of an array are written as nothing.
\<close>

fun js_text :: "json \<Rightarrow> string option" where
  "js_text TNull = Some ''null''"
| "js_text (TBool b) = Some (if b then ''true'' else ''false'')"
| "js_text (TNum s) = Some s"
| "js_text (TStr s) = Some s"
| "js_text (TObj members) = (if ''toString'' \<in> fst ` set members then None else Some ''[object Object]'')"
| "js_text (TArr elements) = map_option (js_join '','') (sequence_parts (map (\<lambda>e. if e = TNull then Some [] else js_text e) elements))"

definition js_String :: "json option \<Rightarrow> string option" where
  "js_String value = (case value of None \<Rightarrow> Some ''undefined'' | Some v \<Rightarrow> js_text v)"


section \<open>Events\<close>

text \<open>The events a run can emit. What the parsers copy without looking is a JSON value.\<close>

datatype provider_event =
    Ev_session_started string string
  | Ev_status string
  | Ev_assistant_message string
  | Ev_thinking_delta string
  | Ev_tool_started string "string option" "json option"
  | Ev_tool_completed "string option" "string option" "json option" bool
  | Ev_usage "json option" "json option" "json option" "json option"
  | Ev_error "string option" string bool
  | Ev_session_completed "string option"
  | Ev_session_failed string
  | Ev_session_cancelled

fun is_terminal :: "provider_event \<Rightarrow> bool" where
  "is_terminal (Ev_session_completed _) = True"
| "is_terminal (Ev_session_failed _) = True"
| "is_terminal Ev_session_cancelled = True"
| "is_terminal _ = False"

record ParsedLine =
  pl_events :: "provider_event list"
  pl_providerSessionId :: "string option"
  pl_unrecognized :: "string option"

definition parsed :: "provider_event list \<Rightarrow> ParsedLine" where
  "parsed events = \<lparr>pl_events = events, pl_providerSessionId = None, pl_unrecognized = None\<rparr>"

definition unrecognized_line :: "json option \<Rightarrow> ParsedLine option" where
  "unrecognized_line ty = map_option (\<lambda>t. \<lparr>pl_events = [], pl_providerSessionId = None, pl_unrecognized = Some t\<rparr>) (js_String ty)"

definition or_text :: "string option \<Rightarrow> string \<Rightarrow> string" where
  "or_text t fallback = (case t of None \<Rightarrow> fallback | Some s \<Rightarrow> s)"

definition nonempty_text :: "json option \<Rightarrow> (string \<Rightarrow> provider_event) \<Rightarrow> provider_event list" where
  "nonempty_text value mk = (case as_string value of Some (c # cs) \<Rightarrow> [mk (c # cs)] | _ \<Rightarrow> [])"


section \<open>Claude\<close>

definition claude_usageEvent :: "json option \<Rightarrow> json option \<Rightarrow> provider_event list" where
  "claude_usageEvent usage cost =
     (if \<not> is_object usage then []
      else [Ev_usage (member usage ''input_tokens'') (member usage ''output_tokens'') (member usage ''cache_read_input_tokens'')
              (if is_number cost then cost else None)])"

definition claude_block :: "json \<Rightarrow> provider_event list" where
  "claude_block block =
     (let b = Some block; ty = as_string (member b ''type'')
      in if \<not> is_object b then []
         else if ty = Some ''text'' then nonempty_text (member b ''text'') Ev_assistant_message
         else if ty = Some ''thinking'' then nonempty_text (member b ''thinking'') Ev_thinking_delta
         else if ty = Some ''tool_use'' then [Ev_tool_started (or_text (as_string (member b ''name'')) ''unknown'') (as_string (member b ''id'')) (member b ''input'')]
         else if ty = Some ''tool_result'' then
           [Ev_tool_completed None (as_string (member b ''tool_use_id'')) (member b ''content'') (member b ''is_error'' = Some (TBool True))]
         else [])"

definition parseContentBlocks :: "json option \<Rightarrow> provider_event list" where
  "parseContentBlocks content = (case content of Some (TArr blocks) \<Rightarrow> concat (map claude_block blocks) | _ \<Rightarrow> [])"

text \<open>\<open>None\<close> as a result: the parser threw.\<close>

definition parseClaudeLine :: "json \<Rightarrow> ParsedLine option" where
  "parseClaudeLine raw =
     (let obj = Some raw; ty = as_string (member obj ''type'')
      in if \<not> is_object obj then Some (parsed [])
         else if ty = Some ''system'' then
           (if member obj ''subtype'' = Some (TStr ''init'')
            then Some ((parsed [Ev_status ''initialized''])\<lparr>pl_providerSessionId := as_string (member obj ''session_id'')\<rparr>)
            else Some (parsed []))
         else if ty = Some ''assistant'' \<or> ty = Some ''user'' then
           (let message = member obj ''message''
            in if \<not> truthy message then Some (parsed [])
               else Some (parsed (parseContentBlocks (member message ''content'') @ claude_usageEvent (member message ''usage'') None)))
         else if ty = Some ''result'' then
           Some ((parsed
             ((if member obj ''is_error'' = Some (TBool True)
               then [Ev_error (as_string (member obj ''subtype'')) (or_text (as_string (member obj ''result'')) ''Claude Code reported an error result'') False]
               else []) @
              claude_usageEvent (member obj ''usage'') (member obj ''total_cost_usd'')))\<lparr>pl_providerSessionId := as_string (member obj ''session_id'')\<rparr>)
         else unrecognized_line (member obj ''type''))"


section \<open>Codex\<close>

definition codex_usageEvent :: "json option \<Rightarrow> provider_event list" where
  "codex_usageEvent usage =
     (if \<not> is_object usage then []
      else [Ev_usage (member usage ''input_tokens'') (member usage ''output_tokens'') (member usage ''cached_input_tokens'') None])"

text \<open>An object built from members that may be \<^verbatim>\<open>undefined\<close>; those are not seen by any reader.\<close>

definition object_of :: "(string \<times> json option) list \<Rightarrow> json option" where
  "object_of members = Some (TObj (List.map_filter (\<lambda>(k, v). map_option (Pair k) v) members))"

definition tool_event :: "bool \<Rightarrow> string \<Rightarrow> string option \<Rightarrow> json option \<Rightarrow> json option \<Rightarrow> bool \<Rightarrow> provider_event list" where
  "tool_event started name i input result isError =
     (if started then [Ev_tool_started name i input] else [Ev_tool_completed (Some name) i result isError])"

definition itemEvent :: "bool \<Rightarrow> json option \<Rightarrow> provider_event list" where
  "itemEvent started item =
     (let i = as_string (member item ''id''); isError = (as_string (member item ''status'') = Some ''failed''); ty = as_string (member item ''type'')
      in if ty = Some ''agent_message'' then (if \<not> started then nonempty_text (member item ''text'') Ev_assistant_message else [])
         else if ty = Some ''reasoning'' then nonempty_text (member item ''text'') Ev_thinking_delta
         else if ty = Some ''error'' then
           (if \<not> started then [Ev_error None (or_text (as_string (member item ''message'')) ''Codex reported an error'') True] else [])
         else if ty = Some ''command_execution'' then
           tool_event started ''shell'' i (object_of [(''command'', member item ''command'')])
             (object_of [(''command'', member item ''command''), (''output'', member item ''aggregated_output''), (''exitCode'', member item ''exit_code'')]) isError
         else if ty = Some ''file_change'' then
           tool_event started ''file_change'' i (object_of [(''changes'', member item ''changes'')]) (object_of [(''changes'', member item ''changes'')]) isError
         else if ty = Some ''mcp_tool_call'' then
           tool_event started (or_text (as_string (member item ''tool'')) ''mcp_tool'') i (member item ''arguments'') (member item ''result'') isError
         else [])"

definition codex_item :: "bool \<Rightarrow> json option \<Rightarrow> ParsedLine option" where
  "codex_item started item = Some (parsed (if truthy item then itemEvent started item else []))"

definition parseCodexLine :: "json \<Rightarrow> ParsedLine option" where
  "parseCodexLine raw =
     (let obj = Some raw; ty = as_string (member obj ''type'')
      in if \<not> is_object obj then Some (parsed [])
         else if ty = Some ''thread.started'' then
           Some ((parsed [Ev_status ''thread_started''])\<lparr>pl_providerSessionId := as_string (member obj ''thread_id'')\<rparr>)
         else if ty = Some ''turn.started'' then Some (parsed [Ev_status ''turn_started''])
         else if ty = Some ''item.started'' then codex_item True (member obj ''item'')
         else if ty = Some ''item.completed'' then codex_item False (member obj ''item'')
         else if ty = Some ''turn.completed'' then Some (parsed (codex_usageEvent (member obj ''usage'')))
         else if ty = Some ''turn.failed'' then
           Some (parsed [Ev_error None (or_text (as_string (member (member obj ''error'') ''message'')) ''Codex turn failed'') False])
         else unrecognized_line (member obj ''type''))"


section \<open>What the parsers emit\<close>

lemmas parser_defs =
  parseClaudeLine_def parseCodexLine_def parsed_def unrecognized_line_def codex_item_def Let_def

text \<open>A parser reports on a running session only: neither its start nor its end is its to announce.\<close>

fun in_session :: "provider_event \<Rightarrow> bool" where
  "in_session (Ev_session_started _ _) = False"
| "in_session e = (\<not> is_terminal e)"

lemma in_session_not_terminal: "in_session e \<Longrightarrow> \<not> is_terminal e"
  by (cases e) auto

lemma nonempty_text_in: "e \<in> set (nonempty_text v mk) \<Longrightarrow> \<exists>t. e = mk t"
  by (auto simp: nonempty_text_def split: option.splits list.splits)

lemma claude_usageEvent_in: "e \<in> set (claude_usageEvent u c) \<Longrightarrow> \<exists>a b d k. e = Ev_usage a b d k"
  by (auto simp: claude_usageEvent_def split: if_splits)

lemma codex_usageEvent_in: "e \<in> set (codex_usageEvent u) \<Longrightarrow> \<exists>a b d k. e = Ev_usage a b d k"
  by (auto simp: codex_usageEvent_def split: if_splits)

text \<open>What a content block or an item becomes is no usage report either.\<close>

definition no_report :: "provider_event \<Rightarrow> bool" where
  "no_report e \<longleftrightarrow> in_session e \<and> \<not> (\<exists>a b d k. e = Ev_usage a b d k)"

lemma claude_block_events: "e \<in> set (claude_block b) \<Longrightarrow> no_report e"
  by (auto simp: claude_block_def Let_def no_report_def split: if_splits dest!: nonempty_text_in)

lemma parseContentBlocks_events: "e \<in> set (parseContentBlocks c) \<Longrightarrow> no_report e"
  by (auto simp: parseContentBlocks_def split: option.splits json.splits dest: claude_block_events)

lemma itemEvent_events: "e \<in> set (itemEvent started item) \<Longrightarrow> no_report e"
  by (auto simp: itemEvent_def tool_event_def Let_def no_report_def split: if_splits dest!: nonempty_text_in)

lemma no_report_in_session: "no_report e \<Longrightarrow> in_session e"
  by (simp add: no_report_def)

lemma claude_in_session: "parseClaudeLine raw = Some l \<Longrightarrow> e \<in> set (pl_events l) \<Longrightarrow> in_session e"
  by (auto simp: parser_defs split: if_splits dest!: claude_usageEvent_in parseContentBlocks_events no_report_in_session)

lemma codex_in_session: "parseCodexLine raw = Some l \<Longrightarrow> e \<in> set (pl_events l) \<Longrightarrow> in_session e"
  by (auto simp: parser_defs split: if_splits dest!: codex_usageEvent_in itemEvent_events no_report_in_session)


section \<open>The declared types\<close>

text \<open>
  The one member of an event whose declared type the parsers do not establish is a token count of a usage report
  (\<^verbatim>\<open>number | undefined\<close>): it is copied as it came.
\<close>

definition count_ok :: "json option \<Rightarrow> bool" where
  "count_ok c \<longleftrightarrow> c = None \<or> is_number c"

fun declared_types :: "provider_event \<Rightarrow> bool" where
  "declared_types (Ev_usage i out c cost) = (count_ok i \<and> count_ok out \<and> count_ok c \<and> count_ok cost)"
| "declared_types _ = True"

lemma no_report_typed: "no_report e \<Longrightarrow> declared_types e"
  by (cases e) (auto simp: no_report_def)

definition counts_ok :: "string \<Rightarrow> json option \<Rightarrow> bool" where
  "counts_ok cached usage \<longleftrightarrow> count_ok (member usage ''input_tokens'') \<and> count_ok (member usage ''output_tokens'') \<and> count_ok (member usage cached)"

text \<open>Where a line of either provider carries its usage.\<close>

definition claude_usage_of :: "json \<Rightarrow> json option" where
  "claude_usage_of raw =
     (let obj = Some raw; ty = as_string (member obj ''type'')
      in if ty = Some ''assistant'' \<or> ty = Some ''user'' then member (member obj ''message'') ''usage''
         else if ty = Some ''result'' then member obj ''usage'' else None)"

definition codex_usage_of :: "json \<Rightarrow> json option" where
  "codex_usage_of raw = (if as_string (member (Some raw) ''type'') = Some ''turn.completed'' then member (Some raw) ''usage'' else None)"

lemma member_not_object [simp]: "\<not> is_object v \<Longrightarrow> member v k = None"
  by (cases v) (auto simp: member_def split: json.splits)

lemma counts_ok_none [simp]: "counts_ok k None"
  by (simp add: counts_ok_def count_ok_def member_def)

lemma claude_usageEvent_typed [simp]:
  "list_all declared_types (claude_usageEvent u c) \<longleftrightarrow> counts_ok ''cache_read_input_tokens'' u"
  by (auto simp: claude_usageEvent_def counts_ok_def count_ok_def)

lemma codex_usageEvent_typed [simp]:
  "list_all declared_types (codex_usageEvent u) \<longleftrightarrow> counts_ok ''cached_input_tokens'' u"
  by (auto simp: codex_usageEvent_def counts_ok_def count_ok_def)

lemma parseContentBlocks_typed [simp]: "list_all declared_types (parseContentBlocks c)"
  by (auto simp: list_all_iff dest: parseContentBlocks_events no_report_typed)

lemma itemEvent_typed [simp]: "list_all declared_types (itemEvent started item)"
  by (auto simp: list_all_iff dest: itemEvent_events no_report_typed)

lemma falsy_member [simp]: "\<not> truthy v \<Longrightarrow> member v k = None"
  by (cases v) (auto simp: member_def split: json.splits)

lemma js_String_text [simp]: "as_string v = Some t \<Longrightarrow> js_String v = Some t"
  by (cases v rule: as_string.cases) (auto simp: js_String_def)

lemma claude_throws_iff: "parseClaudeLine raw = None \<longleftrightarrow> js_String (member (Some raw) ''type'') = None"
  by (auto simp: parser_defs) (auto simp: js_String_def)

lemma codex_throws_iff: "parseCodexLine raw = None \<longleftrightarrow> js_String (member (Some raw) ''type'') = None"
  by (auto simp: parser_defs) (auto simp: js_String_def)

lemma claude_typed_iff:
  "parseClaudeLine raw = Some l \<Longrightarrow>
     list_all declared_types (pl_events l) \<longleftrightarrow> counts_ok ''cache_read_input_tokens'' (claude_usage_of raw)"
  by (auto simp: parser_defs claude_usage_of_def split: if_splits)

lemma codex_typed_iff:
  "parseCodexLine raw = Some l \<Longrightarrow>
     list_all declared_types (pl_events l) \<longleftrightarrow> counts_ok ''cached_input_tokens'' (codex_usage_of raw)"
  by (auto simp: parser_defs codex_usage_of_def split: if_splits)

text \<open>
  C26. The type of what the parsers emit, for every JSON line. A parser throws exactly when the line's type has no
  text. Otherwise it announces neither the start nor the end of the session, and each member of each event has its
  declared type exactly when the token counts of the line's usage are numbers or absent: these are copied
  unchecked, so that a count that is null or a text becomes an event of the wrong type.
\<close>

theorem parsed_events_typed:
  "if js_String (member (Some raw) ''type'') = None then parseClaudeLine raw = None \<and> parseCodexLine raw = None
   else \<exists>claude codex. parseClaudeLine raw = Some claude \<and> parseCodexLine raw = Some codex \<and>
          list_all in_session (pl_events claude @ pl_events codex) \<and>
          (list_all declared_types (pl_events claude) \<longleftrightarrow> counts_ok ''cache_read_input_tokens'' (claude_usage_of raw)) \<and>
          (list_all declared_types (pl_events codex) \<longleftrightarrow> counts_ok ''cached_input_tokens'' (codex_usage_of raw))"
proof (cases "parseClaudeLine raw")
  case None
  then show ?thesis by (simp add: claude_throws_iff codex_throws_iff)
next
  case (Some claude)
  then have named: "js_String (member (Some raw) ''type'') \<noteq> None"
    using claude_throws_iff [of raw] by simp
  then obtain codex where "parseCodexLine raw = Some codex"
    using codex_throws_iff [of raw] by auto
  then show ?thesis
    using Some named claude_in_session codex_in_session claude_typed_iff codex_typed_iff
    by (auto simp: list_all_iff)
qed

end
