(* ===== verification/Provider_Run.thy ===== *)
theory Provider_Run
  imports Async_Channel Provider_Parsers Unknown_Frames
begin

text \<open>
  One run of a provider's command line tool (\<^verbatim>\<open>providers/common/run-session.ts\<close> and \<^verbatim>\<open>agent-event-terminal.ts\<close> of
  \<^verbatim>\<open>packages/agent-runtime/src\<close>, with the configurations of the Claude and Codex adapters).

  The asynchronous body of \<^verbatim>\<open>runProviderSession\<close> is cut at its awaits: looking for the executable, reading lines, waiting
  for the process tree to be reaped after an overflow, waiting for the exit. Between them the reader pulls, the
  caller cancels and the process writes to its standard error, in any order. What the file system, the process and
  \<^verbatim>\<open>JSON.parse\<close> answer is chosen by the transition relation.
\<close>

section \<open>Configuration\<close>

datatype 'a attempt = Returned 'a | Threw

record ProviderRunConfig =
  rc_providerId :: string
  rc_executableName :: string
  rc_parseLine :: "json \<Rightarrow> ParsedLine option"
  rc_describeFailure :: "(string \<Rightarrow> int option \<Rightarrow> string option \<Rightarrow> string) option"
  rc_promptViaStdin :: bool
  rc_buildStdinPayload :: bool

text \<open>\<open>rc_buildStdinPayload\<close>: the adapter computes what it writes to the standard input, which may throw.\<close>

definition claude_config :: ProviderRunConfig where
  "claude_config =
     \<lparr>rc_providerId = ''claude'', rc_executableName = ''claude'', rc_parseLine = parseClaudeLine, rc_describeFailure = None,
       rc_promptViaStdin = True, rc_buildStdinPayload = True\<rparr>"

definition codex_config :: ProviderRunConfig where
  "codex_config =
     \<lparr>rc_providerId = ''codex'', rc_executableName = ''codex'', rc_parseLine = parseCodexLine, rc_describeFailure = None,
       rc_promptViaStdin = True, rc_buildStdinPayload = False\<rparr>"

record run_options =
  ro_sessionId :: string
  ro_cwd :: string
  ro_probed :: bool

text \<open>The calls made on the probe of a supervisor.\<close>

datatype probe_call =
    Call_onSpawnAttempt bool
  | Call_onSpawnFailed
  | Call_onPromptDelivered
  | Call_onUnknownFrame UnknownFrameKind string "string option" "string option"


section \<open>The state\<close>

datatype run_phase = Resolving | Streaming | Reaping | Exiting | Finished

record provider_run =
  pr_channel :: "provider_event channel"
  pr_cancelled :: bool
  pr_phase :: run_phase
  pr_spawned :: bool
  pr_stdinEnded :: bool
  pr_killOrdered :: bool
  pr_exitSeen :: bool
  pr_providerSessionId :: "string option"
  pr_stderrChunks :: "string list"
  pr_stderrBytes :: nat
  pr_probe :: "probe_call list"

definition overflowTerminalEvents :: "provider_event list" where
  "overflowTerminalEvents =
     [Ev_error (Some ''EVENT_OVERFLOW'') ''session event buffer overflowed'' False,
      Ev_session_failed ''session event buffer overflowed'']"

definition finish_with :: "provider_event list \<Rightarrow> provider_run \<Rightarrow> provider_run" where
  "finish_with finalValues s = s\<lparr>pr_channel := closeWith finalValues (pr_channel s), pr_phase := Finished\<rparr>"

definition closeWithOverflow :: "provider_run \<Rightarrow> provider_run" where
  "closeWithOverflow s = finish_with overflowTerminalEvents s"

definition adapter_crashed :: "provider_run \<Rightarrow> provider_run" where
  "adapter_crashed s =
     finish_with [Ev_error (Some ''ADAPTER_CRASH'') ''internal adapter error'' False, Ev_session_failed ''internal adapter error''] s"

definition notify :: "run_options \<Rightarrow> probe_call \<Rightarrow> provider_run \<Rightarrow> provider_run" where
  "notify opts call s = (if ro_probed opts then s\<lparr>pr_probe := pr_probe s @ [call]\<rparr> else s)"


section \<open>From the call to the process\<close>

text \<open>The part that runs at once, up to the search for the executable.\<close>

definition new_run :: provider_run where
  "new_run =
     \<lparr>pr_channel = new_channel None, pr_cancelled = False, pr_phase = Resolving, pr_spawned = False, pr_stdinEnded = False,
       pr_killOrdered = False, pr_exitSeen = False, pr_providerSessionId = None, pr_stderrChunks = [], pr_stderrBytes = 0, pr_probe = []\<rparr>"

definition runProviderSession :: "ProviderRunConfig \<Rightarrow> run_options \<Rightarrow> bool attempt \<Rightarrow> provider_run" where
  "runProviderSession config opts cwdIsDirectory =
     (let (ok, channel) = channel_push (Ev_session_started (ro_sessionId opts) (rc_providerId config)) (pr_channel new_run);
          s1 = new_run\<lparr>pr_channel := channel\<rparr>
      in if \<not> ok then closeWithOverflow s1
         else case cwdIsDirectory of
                Threw \<Rightarrow> adapter_crashed s1
              | Returned False \<Rightarrow>
                  finish_with [Ev_error (Some ''INVALID_CWD'') (''working directory does not exist: '' @ ro_cwd opts) False,
                               Ev_session_failed ''invalid working directory''] s1
              | Returned True \<Rightarrow> s1)"

text \<open>What happened when the process was to be started.\<close>

datatype launch = Args_threw | Spawn_threw | Payload_threw | Launched

definition launch_possible :: "ProviderRunConfig \<Rightarrow> launch \<Rightarrow> bool" where
  "launch_possible config l \<longleftrightarrow> l \<noteq> Payload_threw \<or> (rc_promptViaStdin config \<and> rc_buildStdinPayload config)"

definition start_process :: "ProviderRunConfig \<Rightarrow> run_options \<Rightarrow> launch \<Rightarrow> provider_run \<Rightarrow> provider_run" where
  "start_process config opts l s =
     (if l = Args_threw then adapter_crashed s
      else let s1 = notify opts (Call_onSpawnAttempt (rc_promptViaStdin config)) s
           in if l = Spawn_threw then adapter_crashed (notify opts Call_onSpawnFailed s1)
              else let s2 = s1\<lparr>pr_spawned := True\<rparr>
                   in if l = Payload_threw then adapter_crashed s2
                      else let s3 = (if rc_promptViaStdin config then notify opts Call_onPromptDelivered s2 else s2)
                           in s3\<lparr>pr_stdinEnded := True, pr_phase := Streaming\<rparr>)"

definition on_resolved :: "ProviderRunConfig \<Rightarrow> run_options \<Rightarrow> bool attempt \<Rightarrow> launch \<Rightarrow> provider_run \<Rightarrow> provider_run" where
  "on_resolved config opts found l s =
     (case found of
        Threw \<Rightarrow> adapter_crashed s
      | Returned False \<Rightarrow>
          finish_with [Ev_error (Some ''PROVIDER_NOT_INSTALLED'') (rc_executableName config @ '' executable not found on this machine'') False,
                       Ev_session_failed ''provider executable not found''] s
      | Returned True \<Rightarrow> if pr_cancelled s then finish_with [Ev_session_cancelled] s else start_process config opts l s)"


section \<open>Reading the output\<close>

definition on_stderr :: "string \<Rightarrow> nat \<Rightarrow> provider_run \<Rightarrow> provider_run" where
  "on_stderr chunk bytes s =
     (if pr_stderrBytes s < 200000
      then s\<lparr>pr_stderrChunks := pr_stderrChunks s @ [chunk], pr_stderrBytes := pr_stderrBytes s + bytes\<rparr> else s)"

fun push_events :: "provider_event list \<Rightarrow> provider_event channel \<Rightarrow> bool \<times> provider_event channel" where
  "push_events [] c = (True, c)"
| "push_events (e # es) c = (let (ok, c1) = channel_push e c in if ok then push_events es c1 else (False, c1))"

definition read_failed :: "ProviderRunConfig \<Rightarrow> string \<Rightarrow> provider_run \<Rightarrow> provider_run" where
  "read_failed config message s =
     s\<lparr>pr_channel := snd (channel_push
          (Ev_error (Some ''STREAM_READ_FAILED'') (''failed reading '' @ rc_providerId config @ '' output: '' @ message) False) (pr_channel s)),
       pr_phase := Exiting\<rparr>"

text \<open>What the probe learns of a frame before the parser sees it. The last argument is the answer of the bounds check.\<close>

definition probe_frame :: "run_options \<Rightarrow> string \<Rightarrow> json \<Rightarrow> string option \<Rightarrow> provider_run \<Rightarrow> provider_run" where
  "probe_frame opts line raw violation s =
     (case raw of
        TObj _ \<Rightarrow>
          if utf8ByteLength line > jb_maxBytes PROVIDER_FRAME_BOUNDS
          then notify opts (Call_onUnknownFrame Frame_bounds_exceeded line None
                 (Some (''encoded JSON exceeds '' @ show_nat (jb_maxBytes PROVIDER_FRAME_BOUNDS) @ '' bytes''))) s
          else (case violation of
                  None \<Rightarrow> s
                | Some v \<Rightarrow> if v = [] then s else notify opts (Call_onUnknownFrame Frame_bounds_exceeded line None (Some v)) s)
      | _ \<Rightarrow> notify opts (Call_onUnknownFrame Non_object_frame line None None) s)"

definition on_line :: "ProviderRunConfig \<Rightarrow> run_options \<Rightarrow> string \<Rightarrow> json option \<Rightarrow> string option \<Rightarrow> string \<Rightarrow> provider_run \<Rightarrow> provider_run" where
  "on_line config opts line parsedJson violation thrown s =
     (case parsedJson of
        None \<Rightarrow> notify opts (Call_onUnknownFrame Unparseable_line line None None) s
      | Some raw \<Rightarrow>
          (let s1 = probe_frame opts line raw violation s
           in case rc_parseLine config raw of
                None \<Rightarrow> read_failed config thrown s1
              | Some p \<Rightarrow>
                  (let s2 = (case pl_unrecognized p of
                               None \<Rightarrow> s1
                             | Some eventType \<Rightarrow> notify opts (Call_onUnknownFrame Unrecognized_event_type line (Some eventType) None) s1);
                       s3 = (case pl_providerSessionId p of
                               Some i \<Rightarrow> if i \<noteq> [] then s2\<lparr>pr_providerSessionId := Some i\<rparr> else s2
                             | None \<Rightarrow> s2);
                       (ok, channel) = push_events (pl_events p) (pr_channel s3);
                       s4 = s3\<lparr>pr_channel := channel\<rparr>
                   in if ok then s4 else s4\<lparr>pr_phase := Reaping, pr_killOrdered := True\<rparr>)))"


section \<open>The end\<close>

definition defaultFailureMessage :: "string \<Rightarrow> string \<Rightarrow> int option \<Rightarrow> string option \<Rightarrow> string" where
  "defaultFailureMessage providerId stderr exitCode signal =
     (let base = providerId @ '' exited with code '' @ (case exitCode of None \<Rightarrow> ''null'' | Some n \<Rightarrow> show_int n) @
                 (case signal of Some g \<Rightarrow> if g = [] then [] else '' (signal '' @ g @ '')'' | None \<Rightarrow> []);
          snippet = take 500 (js_trim stderr)
      in if snippet = [] then base else base @ '': '' @ snippet)"

definition on_exit :: "ProviderRunConfig \<Rightarrow> int option \<Rightarrow> string option \<Rightarrow> provider_run \<Rightarrow> provider_run" where
  "on_exit config exitCode signal s0 =
     (let s = s0\<lparr>pr_exitSeen := True\<rparr>
      in if pr_cancelled s then finish_with [Ev_session_cancelled] s
      else if exitCode = Some 0 then finish_with [Ev_session_completed (pr_providerSessionId s)] s
      else let stderrText = concat (pr_stderrChunks s);
               message = (case rc_describeFailure config of
                            Some describe \<Rightarrow> describe stderrText exitCode signal
                          | None \<Rightarrow> defaultFailureMessage (rc_providerId config) stderrText exitCode signal)
           in finish_with [Ev_error (Some ''PROCESS_EXIT'') message False, Ev_session_failed message] s)"

definition cancel_run :: "provider_run \<Rightarrow> provider_run" where
  "cancel_run s = s\<lparr>pr_cancelled := True, pr_killOrdered := pr_killOrdered s \<or> pr_spawned s\<rparr>"

definition pull :: "provider_run \<Rightarrow> provider_run" where
  "pull s = s\<lparr>pr_channel := channel_next (pr_channel s)\<rparr>"

inductive run_step :: "ProviderRunConfig \<Rightarrow> run_options \<Rightarrow> provider_run \<Rightarrow> provider_run \<Rightarrow> bool" for config opts where
  rs_pull: "run_step config opts s (pull s)"
| rs_cancel: "run_step config opts s (cancel_run s)"
| rs_stderr: "pr_stdinEnded s \<Longrightarrow> run_step config opts s (on_stderr chunk bytes s)"
| rs_resolved: "pr_phase s = Resolving \<Longrightarrow> launch_possible config l \<Longrightarrow> run_step config opts s (on_resolved config opts found l s)"
| rs_line: "pr_phase s = Streaming \<Longrightarrow> run_step config opts s (on_line config opts line raw (checkProviderFrameBounds h v) thrown s)"
| rs_stream_failed: "pr_phase s = Streaming \<Longrightarrow> run_step config opts s (read_failed config message s)"
| rs_stream_ended: "pr_phase s = Streaming \<Longrightarrow> run_step config opts s (s\<lparr>pr_phase := Exiting\<rparr>)"
| rs_reaped: "pr_phase s = Reaping \<Longrightarrow> run_step config opts s (closeWithOverflow s)"
| rs_exited: "pr_phase s = Exiting \<Longrightarrow> run_step config opts s (on_exit config exitCode signal s)"

definition run_started :: "ProviderRunConfig \<Rightarrow> run_options \<Rightarrow> provider_run \<Rightarrow> bool" where
  "run_started config opts s \<longleftrightarrow> (\<exists>cwdIsDirectory. s = runProviderSession config opts cwdIsDirectory)"


section \<open>One terminal event, always last\<close>

text \<open>A stream that ended: its start, what happened in between, and exactly one terminal event; without the last while it runs.\<close>

definition session_stream :: "bool \<Rightarrow> provider_event list \<Rightarrow> bool" where
  "session_stream ended evs =
     (case evs of
        Ev_session_started _ _ # rest \<Rightarrow>
          if ended then rest \<noteq> [] \<and> is_terminal (last rest) \<and> list_all in_session (butlast rest) else list_all in_session rest
      | _ \<Rightarrow> False)"

lemma session_stream_append:
  "session_stream False evs \<Longrightarrow> list_all in_session more_evs \<Longrightarrow> session_stream False (evs @ more_evs)"
  by (auto simp: session_stream_def split: list.splits provider_event.splits)

lemma session_stream_close:
  "session_stream False evs \<Longrightarrow> finals \<noteq> [] \<Longrightarrow> is_terminal (last finals) \<Longrightarrow> list_all in_session (butlast finals) \<Longrightarrow>
     session_stream True (evs @ finals)"
  by (auto simp: session_stream_def butlast_append split: list.splits provider_event.splits)

definition run_ok :: "provider_run \<Rightarrow> bool" where
  "run_ok s \<longleftrightarrow>
     channel_ok (pr_channel s) \<and> ac_closed (pr_channel s) = (pr_phase s = Finished) \<and>
     session_stream (pr_phase s = Finished) (ac_taken (pr_channel s))"

lemma taken_push: "ac_taken (snd (channel_push v c)) = ac_taken c @ (if fst (channel_push v c) then [v] else [])"
  by (simp add: channel_push_def)

lemma closed_push [simp]: "ac_closed (snd (channel_push v c)) = ac_closed c"
  by (simp add: channel_push_def)

lemma closed_next [simp]: "ac_closed (channel_next c) = ac_closed c" and taken_next [simp]: "ac_taken (channel_next c) = ac_taken c"
  by (simp_all add: channel_next_def split: list.split)

lemma closed_closeWith [simp]: "ac_closed (closeWith vs c)"
  by (auto simp: closeWith_def channel_close_def)

lemma taken_closeWith: "\<not> ac_closed c \<Longrightarrow> ac_taken (closeWith vs c) = ac_taken c @ vs"
  by (simp add: closeWith_def channel_close_def)

lemma push_events_ok:
  "push_events es c = (b, c') \<Longrightarrow> channel_ok c \<Longrightarrow>
     channel_ok c' \<and> ac_closed c' = ac_closed c \<and> (\<exists>k. ac_taken c' = ac_taken c @ take k es)"
proof (induction es arbitrary: c)
  case (Cons e es)
  obtain ok c1 where push: "channel_push e c = (ok, c1)" by fastforce
  have c1: "channel_ok c1" "ac_closed c1 = ac_closed c" "ac_taken c1 = ac_taken c @ (if ok then [e] else [])"
    using channel_ok_push [OF Cons.prems(2), of e] closed_push [of e c] taken_push [of e c] by (simp_all add: push)
  show ?case
  proof (cases ok)
    case True
    then obtain k where "channel_ok c'" "ac_closed c' = ac_closed c" "ac_taken c' = ac_taken c @ take (Suc k) (e # es)"
      using Cons.IH [of c1] Cons.prems(1) c1 push by auto
    then show ?thesis by blast
  next
    case False
    then have "ac_taken c' = ac_taken c @ take 0 (e # es)" using Cons.prems(1) c1 push by simp
    then show ?thesis using Cons.prems(1) c1 push False by auto
  qed
qed auto

text \<open>The steps change the channel in three ways only.\<close>

lemma run_ok_finish:
  "run_ok s \<Longrightarrow> pr_phase s \<noteq> Finished \<Longrightarrow> pr_channel t = pr_channel s \<Longrightarrow> finals \<noteq> [] \<Longrightarrow> is_terminal (last finals) \<Longrightarrow>
     list_all in_session (butlast finals) \<Longrightarrow> run_ok (finish_with finals t)"
  by (auto simp: run_ok_def finish_with_def taken_closeWith intro: channel_ok_closeWith session_stream_close)

lemma run_ok_same: "run_ok s \<Longrightarrow> pr_channel t = pr_channel s \<Longrightarrow> (pr_phase t = Finished) = (pr_phase s = Finished) \<Longrightarrow> run_ok t"
  by (simp add: run_ok_def)

lemma run_ok_push:
  "run_ok s \<Longrightarrow> pr_phase s \<noteq> Finished \<Longrightarrow> pr_phase t \<noteq> Finished \<Longrightarrow> channel_ok (pr_channel t) \<Longrightarrow> \<not> ac_closed (pr_channel t) \<Longrightarrow>
     ac_taken (pr_channel t) = ac_taken (pr_channel s) @ es \<Longrightarrow> list_all in_session es \<Longrightarrow> run_ok t"
  by (auto simp: run_ok_def intro: session_stream_append)

lemmas finish_simps = closeWithOverflow_def adapter_crashed_def overflowTerminalEvents_def

lemma notify_fields [simp]:
  "pr_channel (notify opts call s) = pr_channel s" "pr_phase (notify opts call s) = pr_phase s"
  "pr_spawned (notify opts call s) = pr_spawned s" "pr_stdinEnded (notify opts call s) = pr_stdinEnded s"
  "pr_killOrdered (notify opts call s) = pr_killOrdered s" "pr_exitSeen (notify opts call s) = pr_exitSeen s"
  by (simp_all add: notify_def)

lemma probe_frame_fields [simp]:
  "pr_channel (probe_frame opts line raw v s) = pr_channel s" "pr_phase (probe_frame opts line raw v s) = pr_phase s"
  "pr_spawned (probe_frame opts line raw v s) = pr_spawned s" "pr_stdinEnded (probe_frame opts line raw v s) = pr_stdinEnded s"
  "pr_killOrdered (probe_frame opts line raw v s) = pr_killOrdered s" "pr_exitSeen (probe_frame opts line raw v s) = pr_exitSeen s"
  by (auto simp: probe_frame_def split: json.split option.split)

lemma run_ok_resolved: "run_ok s \<Longrightarrow> pr_phase s = Resolving \<Longrightarrow> run_ok (on_resolved config opts found l s)"
  by (auto simp: on_resolved_def start_process_def finish_simps Let_def split: attempt.split bool.split
      intro: run_ok_finish run_ok_same)

lemma run_ok_exit: "run_ok s \<Longrightarrow> pr_phase s = Exiting \<Longrightarrow> run_ok (on_exit config ec g s)"
  by (auto simp: on_exit_def Let_def intro: run_ok_finish)

lemma run_ok_read_failed: "run_ok s \<Longrightarrow> pr_phase s \<noteq> Finished \<Longrightarrow> run_ok (read_failed config m s)"
  by (rule run_ok_push [of s]) (auto simp: read_failed_def taken_push run_ok_def intro: channel_ok_push)

definition parser_in_session :: "ProviderRunConfig \<Rightarrow> bool" where
  "parser_in_session config \<longleftrightarrow> (\<forall>raw p. rc_parseLine config raw = Some p \<longrightarrow> list_all in_session (pl_events p))"

lemma parsers_in_session: "parser_in_session claude_config" "parser_in_session codex_config"
  using claude_in_session codex_in_session by (auto simp: parser_in_session_def claude_config_def codex_config_def list_all_iff)

lemma run_ok_line:
  assumes "parser_in_session config" and ok: "run_ok s" and phase: "pr_phase s = Streaming"
  shows "run_ok (on_line config opts line raw v thrown s)"
proof (cases raw)
  case None
  then show ?thesis using ok by (auto simp: on_line_def intro: run_ok_same)
next
  case (Some j)
  show ?thesis
  proof (cases "rc_parseLine config j")
    case None
    have "run_ok (probe_frame opts line j v s)" using ok by (auto intro: run_ok_same)
    then show ?thesis using None Some phase by (simp add: on_line_def run_ok_read_failed)
  next
    case (Some p)
    obtain b c where push: "push_events (pl_events p) (pr_channel s) = (b, c)" by fastforce
    have "channel_ok (pr_channel s)" "\<not> ac_closed (pr_channel s)" using ok phase by (auto simp: run_ok_def)
    from push_events_ok [OF push this(1)] this(2) obtain k where
      c: "channel_ok c" "\<not> ac_closed c" "ac_taken c = ac_taken (pr_channel s) @ take k (pl_events p)" by auto
    have events: "list_all in_session (take k (pl_events p))"
      using assms(1) Some by (auto simp: parser_in_session_def list_all_iff dest: in_set_takeD)
    let ?t = "on_line config opts line raw v thrown s"
    have "pr_channel ?t = c" "pr_phase ?t \<noteq> Finished"
      using Some \<open>raw = Some j\<close> push phase by (auto simp: on_line_def Let_def split: option.splits)
    then show ?thesis using run_ok_push [OF ok _ _ _ _ _ events, of ?t] c phase by simp
  qed
qed

lemma first_push [simp]: "channel_push e (new_channel None) = (True, hand_over e (new_channel None))"
  by (simp add: channel_push_def new_channel_def)

lemma run_ok_first:
  "run_ok (new_run\<lparr>pr_channel := hand_over (Ev_session_started (ro_sessionId opts) (rc_providerId config)) (new_channel None)\<rparr>)"
  using channel_ok_push [OF channel_ok_new, where 'a = provider_event, of "Ev_session_started (ro_sessionId opts) (rc_providerId config)" None]
  by (simp add: run_ok_def new_run_def session_stream_def) (simp add: new_channel_def)

lemma new_run_fields [simp]: "pr_phase new_run = Resolving" "pr_channel new_run = new_channel None"
  by (simp_all add: new_run_def)

lemma run_ok_started: "run_started config opts s \<Longrightarrow> run_ok s"
  by (auto simp: run_started_def runProviderSession_def finish_simps Let_def split: attempt.split bool.split
      intro!: run_ok_finish [OF run_ok_first] run_ok_first)

lemma run_ok_pull: "run_ok s \<Longrightarrow> run_ok (pull s)"
  by (simp add: run_ok_def pull_def channel_ok_next)

lemma run_ok_overflow: "run_ok s \<Longrightarrow> pr_phase s \<noteq> Finished \<Longrightarrow> run_ok (closeWithOverflow s)"
  unfolding finish_simps by (rule run_ok_finish) auto

lemma run_ok_step: "run_step config opts s t \<Longrightarrow> parser_in_session config \<Longrightarrow> run_ok s \<Longrightarrow> run_ok t"
proof (induction rule: run_step.induct)
  case (rs_cancel s)
  then show ?case by (auto simp: cancel_run_def intro: run_ok_same)
next
  case (rs_stderr s chunk bytes)
  then show ?case by (auto simp: on_stderr_def intro: run_ok_same)
next
  case (rs_stream_ended s)
  then show ?case by (auto intro: run_ok_same)
qed (simp_all add: run_ok_pull run_ok_resolved run_ok_line run_ok_read_failed run_ok_overflow run_ok_exit)

text \<open>The adapters' configurations.\<close>

definition shipped :: "ProviderRunConfig \<Rightarrow> bool" where
  "shipped config \<longleftrightarrow> config = claude_config \<or> config = codex_config"

interpretation shipped_run: transition_system
  "\<lambda>s. shipped config \<and> run_started config opts s" "\<lambda>s t. shipped config \<and> run_step config opts s t" run_ok
  by unfold_locales (auto simp: shipped_def intro: run_ok_started run_ok_step parsers_in_session)

lemma reached_run_ok: "shipped config \<Longrightarrow> run_started config opts s \<Longrightarrow> (run_step config opts)\<^sup>*\<^sup>* s t \<Longrightarrow> run_ok t"
  using shipped_run.invar_reachable [of config opts s t] by simp

text \<open>
  C5. The contract of a provider session, for the Claude and the Codex adapter and in every interleaving of the process's output,
  the reader and cancellations: what is emitted begins with the start of the session, contains exactly one terminal
  event once the run is over and none before, and that event is the last. A reader receives a prefix of it in order, and is told of the
  end only when it has received all of it.
\<close>

theorem one_terminal_event_last:
  "shipped config \<Longrightarrow> run_started config opts s \<Longrightarrow> (run_step config opts)\<^sup>*\<^sup>* s t \<Longrightarrow>
     session_stream (pr_phase t = Finished) (ac_taken (pr_channel t)) \<and>
     prefix (given (ac_results (pr_channel t))) (ac_taken (pr_channel t)) \<and>
     (if None \<in> set (ac_results (pr_channel t)) then pr_phase t = Finished \<and> given (ac_results (pr_channel t)) = ac_taken (pr_channel t) else True)"
proof -
  assume "shipped config" and "run_started config opts s" and "(run_step config opts)\<^sup>*\<^sup>* s t"
  then have "run_ok t" by (rule reached_run_ok)
  then show ?thesis
    unfolding run_ok_def channel_ok_def by (metis append_Nil2 prefix_def)
qed

definition ex_options :: run_options where
  "ex_options = \<lparr>ro_sessionId = ''s'', ro_cwd = ''/w'', ro_probed = True\<rparr>"

definition ex_launched :: provider_run where
  "ex_launched = on_resolved claude_config ex_options (Returned True) Launched (runProviderSession claude_config ex_options (Returned True))"

lemmas ex_run_simps =
  ex_launched_def ex_options_def claude_config_def runProviderSession_def new_run_def on_resolved_def start_process_def notify_def
  finish_with_def closeWith_def channel_close_def channel_push_def new_channel_def hand_over_def Let_def

lemma ex_started: "run_started claude_config ex_options (runProviderSession claude_config ex_options (Returned True))"
  by (auto simp: run_started_def)

lemma ex_launched_reached: "(run_step claude_config ex_options)\<^sup>*\<^sup>* (runProviderSession claude_config ex_options (Returned True)) ex_launched"
  unfolding ex_launched_def
  by (intro r_into_rtranclp rs_resolved) (simp_all add: ex_run_simps launch_possible_def)

definition ex_over :: provider_run where
  "ex_over = on_exit claude_config (Some 0) None (cancel_run (ex_launched\<lparr>pr_phase := Exiting\<rparr>))"

lemma ex_over_reached: "(run_step claude_config ex_options)\<^sup>*\<^sup>* (runProviderSession claude_config ex_options (Returned True)) ex_over"
proof -
  have "run_step claude_config ex_options ex_launched (ex_launched\<lparr>pr_phase := Exiting\<rparr>)"
    by (intro rs_stream_ended) (simp add: ex_run_simps)
  moreover have "run_step claude_config ex_options (cancel_run (ex_launched\<lparr>pr_phase := Exiting\<rparr>)) ex_over"
    unfolding ex_over_def by (intro rs_exited) (simp add: cancel_run_def)
  ultimately show ?thesis
    using ex_launched_reached rs_cancel [of claude_config ex_options] by (meson rtranclp.rtrancl_into_rtrancl)
qed

theorem one_terminal_event_last_witness:
  "pr_phase ex_over = Finished \<and> ac_taken (pr_channel ex_over) = [Ev_session_started ''s'' ''claude'', Ev_session_cancelled] \<and>
   session_stream (pr_phase ex_over = Finished) (ac_taken (pr_channel ex_over))"
proof -
  have over: "pr_phase ex_over = Finished" "ac_taken (pr_channel ex_over) = [Ev_session_started ''s'' ''claude'', Ev_session_cancelled]"
    by (simp_all add: ex_over_def on_exit_def cancel_run_def ex_run_simps)
  have "session_stream (pr_phase ex_over = Finished) (ac_taken (pr_channel ex_over))"
    using one_terminal_event_last [OF _ ex_started ex_over_reached] by (simp add: shipped_def)
  then show ?thesis using over by blast
qed


section \<open>The end is always reached\<close>

lemma drain_results:
  "ac_closed c \<Longrightarrow> ac_waiters c = 0 \<Longrightarrow>
     ac_results ((channel_next ^^ Suc (length (ac_queue c))) c) = ac_results c @ map Some (ac_queue c) @ [None]"
proof (induction "ac_queue c" arbitrary: c)
  case Nil
  then show ?case by (simp add: channel_next_def)
next
  case (Cons v vs)
  let ?c = "channel_next c"
  have c: "ac_queue ?c = vs" "ac_results ?c = ac_results c @ [Some v]" "ac_closed ?c" "ac_waiters ?c = 0"
    using Cons.prems by (simp_all add: channel_next_def flip: Cons.hyps(2))
  then have "ac_results ((channel_next ^^ Suc (length vs)) ?c) = ac_results c @ [Some v] @ map Some vs @ [None]"
    using Cons.hyps(1) [of ?c] by simp
  moreover have "Suc (length (ac_queue c)) = Suc (Suc (length vs))" by (simp flip: Cons.hyps(2))
  ultimately show ?case by (simp add: funpow_swap1 flip: Cons.hyps(2))
qed

lemma pulls_channel: "pr_channel ((pull ^^ n) s) = (channel_next ^^ n) (pr_channel s)" "pr_phase ((pull ^^ n) s) = pr_phase s"
  by (induction n) (auto simp: pull_def)

lemma pulls_reached: "(run_step config opts)\<^sup>*\<^sup>* s ((pull ^^ n) s)"
  by (induction n) (auto intro: rs_pull rtranclp.rtrancl_into_rtrancl)

lemma finish_with_phase [simp]: "pr_phase (finish_with vs s) = Finished"
  by (simp add: finish_with_def)

lemma exiting_ends: "pr_phase s = Exiting \<Longrightarrow> \<exists>t. (run_step config opts)\<^sup>*\<^sup>* s t \<and> pr_phase t = Finished"
proof -
  assume "pr_phase s = Exiting"
  then have "run_step config opts s (on_exit config (Some 0) None s)" by (rule rs_exited)
  moreover have "pr_phase (on_exit config (Some 0) None s) = Finished" by (simp add: on_exit_def Let_def)
  ultimately show ?thesis by blast
qed

lemma not_finished_ends: "\<exists>t. (run_step config opts)\<^sup>*\<^sup>* s t \<and> pr_phase t = Finished"
proof (cases "pr_phase s")
  case Resolving
  then have "run_step config opts s (on_resolved config opts Threw Launched s)"
    by (rule rs_resolved) (simp add: launch_possible_def)
  moreover have "pr_phase (on_resolved config opts Threw Launched s) = Finished" by (simp add: on_resolved_def finish_simps)
  ultimately show ?thesis by blast
next
  case Streaming
  then have "run_step config opts s (s\<lparr>pr_phase := Exiting\<rparr>)" by (rule rs_stream_ended)
  then show ?thesis
    using exiting_ends [of "s\<lparr>pr_phase := Exiting\<rparr>" config opts] by (metis (no_types, lifting) converse_rtranclp_into_rtranclp provider_run.select_convs(3) provider_run.surjective provider_run.update_convs(3))
next
  case Reaping
  then have "run_step config opts s (closeWithOverflow s)" by (rule rs_reaped)
  moreover have "pr_phase (closeWithOverflow s) = Finished" by (simp add: finish_simps)
  ultimately show ?thesis by blast
qed (auto intro: exiting_ends)

text \<open>
  No state of a run is stuck. From every state that is reached the run can still come to its end, and the end is
  not the reader's doing: a reader that keeps pulling after it receives every event, the terminal one included, and then the end of the
  iteration, after as many pulls as events are queued and one more.
\<close>

theorem run_reaches_end:
  "shipped config \<Longrightarrow> run_started config opts s \<Longrightarrow> (run_step config opts)\<^sup>*\<^sup>* s t \<Longrightarrow>
     (\<exists>u. (run_step config opts)\<^sup>*\<^sup>* t u \<and> pr_phase u = Finished) \<and>
     (if pr_phase t = Finished
      then let drained = (pull ^^ Suc (length (ac_queue (pr_channel t)))) t
           in given (ac_results (pr_channel drained)) = ac_taken (pr_channel t) \<and> last (ac_results (pr_channel drained)) = None \<and>
              is_terminal (last (given (ac_results (pr_channel drained))))
      else True)"
proof -
  assume "shipped config" and "run_started config opts s" and "(run_step config opts)\<^sup>*\<^sup>* s t"
  then have ok: "run_ok t" by (rule reached_run_ok)
  let ?c = "pr_channel t"
  have "is_terminal (last (ac_taken ?c))" if "pr_phase t = Finished"
    using ok that by (auto simp: run_ok_def session_stream_def split: list.splits provider_event.splits)
  moreover have "given (map Some (ac_queue ?c)) = ac_queue ?c" by (simp add: given_def List.map_filter_def comp_def)
  moreover have "ac_results (pr_channel ((pull ^^ Suc (length (ac_queue ?c))) t)) = ac_results ?c @ map Some (ac_queue ?c) @ [None]"
    if "pr_phase t = Finished"
    unfolding pulls_channel(1) using ok that by (intro drain_results) (auto simp: run_ok_def channel_ok_def)
  moreover have "given (ac_results ?c) @ ac_queue ?c = ac_taken ?c" using ok by (simp add: run_ok_def channel_ok_def)
  ultimately show ?thesis using not_finished_ends [of config opts t] by (simp add: Let_def del: funpow.simps)
qed

theorem run_reaches_end_witness:
  "last (ac_results (pr_channel ((pull ^^ Suc (length (ac_queue (pr_channel ex_over)))) ex_over))) = None"
proof -
  have "pr_phase ex_over = Finished" by (simp add: ex_over_def on_exit_def cancel_run_def Let_def)
  then show ?thesis
    using run_reaches_end [OF _ ex_started ex_over_reached] by (simp add: shipped_def Let_def)
qed


section \<open>The process behind the run\<close>

definition process_ok :: "ProviderRunConfig \<Rightarrow> run_options \<Rightarrow> provider_run \<Rightarrow> bool" where
  "process_ok config opts s \<longleftrightarrow>
     (pr_phase s = Resolving \<longrightarrow> \<not> pr_spawned s \<and> \<not> pr_stdinEnded s) \<and>
     (pr_phase s \<in> {Streaming, Reaping, Exiting} \<longrightarrow> pr_spawned s \<and> pr_stdinEnded s) \<and>
     (pr_phase s = Reaping \<longrightarrow> pr_killOrdered s) \<and>
     (pr_phase s = Finished \<and> pr_spawned s \<and> pr_stdinEnded s \<longrightarrow> pr_exitSeen s \<or> pr_killOrdered s) \<and>
     (pr_spawned s \<and> \<not> pr_stdinEnded s \<longrightarrow> rc_promptViaStdin config \<and> rc_buildStdinPayload config) \<and>
     (pr_stdinEnded s \<longrightarrow> pr_spawned s)"

definition probe_ok :: "ProviderRunConfig \<Rightarrow> run_options \<Rightarrow> provider_run \<Rightarrow> bool" where
  "probe_ok config opts s \<longleftrightarrow>
     (Call_onPromptDelivered \<in> set (pr_probe s) \<longleftrightarrow> ro_probed opts \<and> rc_promptViaStdin config \<and> pr_stdinEnded s) \<and>
     ((\<exists>v. Call_onSpawnAttempt v \<in> set (pr_probe s)) \<longrightarrow> pr_phase s \<noteq> Resolving) \<and>
     (\<forall>v. Call_onSpawnAttempt v \<in> set (pr_probe s) \<longrightarrow> v = rc_promptViaStdin config) \<and>
     (ro_probed opts \<and> pr_spawned s \<longrightarrow> Call_onSpawnAttempt (rc_promptViaStdin config) \<in> set (pr_probe s))"

lemma finish_with_fields [simp]:
  "pr_spawned (finish_with vs s) = pr_spawned s" "pr_stdinEnded (finish_with vs s) = pr_stdinEnded s"
  "pr_killOrdered (finish_with vs s) = pr_killOrdered s" "pr_exitSeen (finish_with vs s) = pr_exitSeen s"
  "pr_probe (finish_with vs s) = pr_probe s"
  by (simp_all add: finish_with_def)

lemma read_failed_fields [simp]:
  "pr_spawned (read_failed config m s) = pr_spawned s" "pr_stdinEnded (read_failed config m s) = pr_stdinEnded s"
  "pr_killOrdered (read_failed config m s) = pr_killOrdered s" "pr_exitSeen (read_failed config m s) = pr_exitSeen s"
  "pr_probe (read_failed config m s) = pr_probe s" "pr_phase (read_failed config m s) = Exiting"
  by (simp_all add: read_failed_def)

lemma on_line_fields:
  "let t = on_line config opts line raw v thrown s
   in pr_spawned t = pr_spawned s \<and> pr_stdinEnded t = pr_stdinEnded s \<and> pr_exitSeen t = pr_exitSeen s \<and>
      (pr_phase t = pr_phase s \<and> pr_killOrdered t = pr_killOrdered s \<or> pr_phase t = Reaping \<and> pr_killOrdered t \<or>
       pr_phase t = Exiting \<and> pr_killOrdered t = pr_killOrdered s)"
  by (auto simp: on_line_def Let_def split: option.splits prod.splits)

lemma notify_probe: "set (pr_probe (notify opts call s)) = set (pr_probe s) \<union> (if ro_probed opts then {call} else {})"
  by (simp add: notify_def)

lemma probe_frame_probe:
  "set (pr_probe (probe_frame opts line raw v s)) \<subseteq> set (pr_probe s) \<union> {Call_onUnknownFrame k l e b |k l e b. True}"
  "set (pr_probe s) \<subseteq> set (pr_probe (probe_frame opts line raw v s))"
  by (auto simp: probe_frame_def notify_probe split: json.splits option.splits if_splits)

lemma on_line_probe:
  "set (pr_probe (on_line config opts line raw v thrown s)) \<subseteq> set (pr_probe s) \<union> {Call_onUnknownFrame k l e b |k l e b. True}"
  "set (pr_probe s) \<subseteq> set (pr_probe (on_line config opts line raw v thrown s))"
  using probe_frame_probe [where opts = opts and line = line and raw = "the raw" and v = v and s = s]
  by (auto simp: on_line_def Let_def notify_probe split: option.splits prod.splits if_splits)

lemma process_ok_step: "run_step config opts s t \<Longrightarrow> process_ok config opts s \<Longrightarrow> process_ok config opts t"
proof (induction rule: run_step.induct)
  case (rs_resolved s l found)
  then show ?case
    by (auto simp: process_ok_def on_resolved_def start_process_def finish_simps launch_possible_def Let_def
        split: attempt.split bool.split)
next
  case (rs_line s line raw h v thrown)
  then show ?case
    using on_line_fields [of config opts line raw "checkProviderFrameBounds h v" thrown s] by (auto simp: process_ok_def Let_def)
qed (auto simp: process_ok_def pull_def cancel_run_def on_stderr_def on_exit_def finish_simps Let_def)

lemma probe_ok_same:
  "probe_ok config opts s \<Longrightarrow> pr_spawned t = pr_spawned s \<Longrightarrow> pr_stdinEnded t = pr_stdinEnded s \<Longrightarrow>
     (\<And>c. c = Call_onPromptDelivered \<or> (\<exists>b. c = Call_onSpawnAttempt b) \<Longrightarrow> c \<in> set (pr_probe t) \<longleftrightarrow> c \<in> set (pr_probe s)) \<Longrightarrow>
     (pr_phase t = Resolving \<Longrightarrow> pr_phase s = Resolving) \<Longrightarrow> probe_ok config opts t"
  unfolding probe_ok_def by metis

lemma probe_ok_step: "run_step config opts s t \<Longrightarrow> process_ok config opts s \<Longrightarrow> probe_ok config opts s \<Longrightarrow> probe_ok config opts t"
proof (induction rule: run_step.induct)
  case (rs_resolved s l found)
  then show ?case
    by (auto simp: probe_ok_def process_ok_def on_resolved_def start_process_def finish_simps notify_probe Let_def
        split: attempt.split bool.split)
next
  case (rs_line s line raw h v thrown)
  let ?t = "on_line config opts line raw (checkProviderFrameBounds h v) thrown s"
  have "c \<in> set (pr_probe ?t) \<longleftrightarrow> c \<in> set (pr_probe s)" if "c = Call_onPromptDelivered \<or> (\<exists>b. c = Call_onSpawnAttempt b)" for c
    using that on_line_probe [where config = config and opts = opts and line = line and raw = raw and v = "checkProviderFrameBounds h v" and thrown = thrown and s = s] by blast
  moreover have "pr_spawned ?t = pr_spawned s \<and> pr_stdinEnded ?t = pr_stdinEnded s \<and> pr_phase ?t \<noteq> Resolving"
    using rs_line(1) on_line_fields [of config opts line raw "checkProviderFrameBounds h v" thrown s] by (auto simp: Let_def)
  ultimately show ?case using probe_ok_same [OF rs_line(3), of ?t] by blast
qed (erule probe_ok_same; simp add: pull_def cancel_run_def on_stderr_def on_exit_def finish_simps Let_def split: if_splits)+

lemma process_ok_started: "run_started config opts s \<Longrightarrow> process_ok config opts s \<and> probe_ok config opts s"
proof -
  have "process_ok config opts s" and "probe_ok config opts s"
    if "\<not> pr_spawned s" and "\<not> pr_stdinEnded s" and "pr_probe s = []" and "pr_phase s \<in> {Resolving, Finished}" for s
    using that by (auto simp: process_ok_def probe_ok_def)
  moreover have "let s = runProviderSession config opts c in \<not> pr_spawned s \<and> \<not> pr_stdinEnded s \<and> pr_probe s = [] \<and> pr_phase s \<in> {Resolving, Finished}" for c
    by (cases c; cases "c = Returned True") (auto simp: runProviderSession_def finish_simps new_run_def Let_def)
  moreover assume "run_started config opts s"
  ultimately show ?thesis unfolding run_started_def Let_def by blast
qed

interpretation process_run: transition_system
  "run_started config opts" "run_step config opts" "\<lambda>s. process_ok config opts s \<and> probe_ok config opts s"
  by unfold_locales (auto intro: process_ok_step probe_ok_step dest: process_ok_started)

lemma process_reached:
  "run_started config opts s \<Longrightarrow> (run_step config opts)\<^sup>*\<^sup>* s t \<Longrightarrow> process_ok config opts t \<and> probe_ok config opts t"
  by (rule process_run.invar_reachable)

text \<open>The run in which the adapter cannot read an attachment: the process exists by then.\<close>

definition ex_orphan :: provider_run where
  "ex_orphan = on_resolved claude_config ex_options (Returned True) Payload_threw (runProviderSession claude_config ex_options (Returned True))"

lemma ex_orphan_reached: "(run_step claude_config ex_options)\<^sup>*\<^sup>* (runProviderSession claude_config ex_options (Returned True)) ex_orphan"
  unfolding ex_orphan_def
  by (intro r_into_rtranclp rs_resolved) (simp_all add: ex_run_simps launch_possible_def)

text \<open>
  C27. The process behind a run. Whenever a run is over, its process was seen to exit or ordered to be
  killed, or the run failed while it computed what to write to the process's standard input. That exception is the Claude
  adapter's alone, and it is real: there is a run whose session ended with its terminal event while the process it started was neither
  killed nor has its standard input been closed.
\<close>

theorem process_accounted_for:
  "(\<forall>config opts s t. run_started config opts s \<and> (run_step config opts)\<^sup>*\<^sup>* s t \<longrightarrow> pr_phase t = Finished \<longrightarrow> pr_spawned t \<longrightarrow>
      pr_exitSeen t \<or> pr_killOrdered t \<or> (\<not> pr_stdinEnded t \<and> config \<noteq> codex_config)) \<and>
   (\<exists>opts s t. run_started claude_config opts s \<and> (run_step claude_config opts)\<^sup>*\<^sup>* s t \<and> pr_phase t = Finished \<and> pr_spawned t \<and>
      \<not> pr_stdinEnded t \<and> \<not> pr_killOrdered t \<and> \<not> pr_exitSeen t \<and> is_terminal (last (ac_taken (pr_channel t))))"
proof (intro conjI allI impI)
  fix config opts s t
  assume "run_started config opts s \<and> (run_step config opts)\<^sup>*\<^sup>* s t" and "pr_phase t = Finished" and "pr_spawned t"
  then show "pr_exitSeen t \<or> pr_killOrdered t \<or> (\<not> pr_stdinEnded t \<and> config \<noteq> codex_config)"
    using process_reached [of config opts s t] by (auto simp: process_ok_def codex_config_def)
next
  have "pr_phase ex_orphan = Finished \<and> pr_spawned ex_orphan \<and> \<not> pr_stdinEnded ex_orphan \<and> \<not> pr_killOrdered ex_orphan \<and>
      \<not> pr_exitSeen ex_orphan \<and> is_terminal (last (ac_taken (pr_channel ex_orphan)))"
    by (simp add: ex_orphan_def adapter_crashed_def ex_run_simps)
  then show "\<exists>opts s t. run_started claude_config opts s \<and> (run_step claude_config opts)\<^sup>*\<^sup>* s t \<and> pr_phase t = Finished \<and> pr_spawned t \<and>
      \<not> pr_stdinEnded t \<and> \<not> pr_killOrdered t \<and> \<not> pr_exitSeen t \<and> is_terminal (last (ac_taken (pr_channel t)))"
    using ex_started ex_orphan_reached by blast
qed

theorem process_accounted_for_witness:
  "pr_exitSeen ex_over \<or> pr_killOrdered ex_over \<or> (\<not> pr_stdinEnded ex_over \<and> claude_config \<noteq> codex_config)"
proof -
  have "pr_phase ex_over = Finished" "pr_spawned ex_over"
    by (simp_all add: ex_over_def on_exit_def cancel_run_def ex_run_simps)
  then show ?thesis using process_accounted_for ex_started ex_over_reached by blast
qed

end
