(* ===== verification/Supervised_Run.thy ===== *)
theory Supervised_Run
  imports Session_Supervisor Provider_Run
begin

text \<open>
  The run of a provider under its supervisor: the calls that \<open>Provider_Run\<close> makes on the probe are the callbacks of
  \<open>Session_Supervisor\<close>, and what they establish is what the fallback gate of \<open>Accepted_Work\<close> decides on.
\<close>

section \<open>The probe of a supervised run\<close>

text \<open>The probe object of the supervisor, one call at a time; time and hash of a frame are arguments.\<close>

fun launchProbe :: "(units \<Rightarrow> string) \<Rightarrow> nat \<Rightarrow> supervisor \<Rightarrow> probe_call \<Rightarrow> supervisor" where
  "launchProbe sha now s (Call_onSpawnAttempt viaStdin) = onSpawnAttempt viaStdin s"
| "launchProbe sha now s Call_onPromptDelivered = onPromptDelivered s"
| "launchProbe sha now s Call_onSpawnFailed = onSpawnFailed s"
| "launchProbe sha now s (Call_onUnknownFrame kind rawLine eventType boundsViolation) =
     onUnknownFrame sha (now, kind, ascii_units rawLine, map_option ascii_units eventType, boundsViolation) s"

definition undelivered :: "supervisor \<Rightarrow> bool" where
  "undelivered s \<longleftrightarrow> sp_delivery s = Not_delivered \<and> la_current (sp_latch s) = Not_accepted"

definition delivered :: "supervisor \<Rightarrow> bool" where
  "delivered s \<longleftrightarrow> sp_delivery s = Delivered \<and> la_current (sp_latch s) = Accepted"

definition delivering :: "probe_call \<Rightarrow> bool" where
  "delivering c \<longleftrightarrow> c = Call_onPromptDelivered \<or> c = Call_onSpawnAttempt False"

lemma delivering_call: "delivering c \<Longrightarrow> delivered (launchProbe sha now s c)"
  by (auto simp: delivering_def delivered_def onPromptDelivered_def onSpawnAttempt_def Let_def)

lemma delivered_stays: "delivered s \<Longrightarrow> delivered (launchProbe sha now s c)"
  by (cases c) (auto simp: delivered_def onPromptDelivered_def onSpawnAttempt_def onSpawnFailed_def onUnknownFrame_def Let_def)

lemma undelivered_stays: "undelivered s \<Longrightarrow> \<not> delivering c \<Longrightarrow> undelivered (launchProbe sha now s c)"
  by (cases c) (auto simp: delivering_def undelivered_def onSpawnAttempt_def onSpawnFailed_def onUnknownFrame_def Let_def)

lemma delivered_run: "delivered s \<Longrightarrow> delivered (foldl (launchProbe sha now) s cs)"
  by (induction cs arbitrary: s) (auto intro: delivered_stays)

lemma probe_run:
  "undelivered s \<Longrightarrow>
     (if \<exists>c\<in>set cs. delivering c then delivered (foldl (launchProbe sha now) s cs) else undelivered (foldl (launchProbe sha now) s cs))"
proof (induction cs arbitrary: s)
  case (Cons c cs)
  show ?case
  proof (cases "delivering c")
    case True
    then show ?thesis using delivered_run [OF delivering_call [OF True]] by simp
  next
    case False
    then show ?thesis using Cons.IH [OF undelivered_stays [OF Cons.prems False]] by simp
  qed
qed simp

lemma undelivered_at_first: "undelivered (snd (superviseProviderSession platform status start transport k n))"
  by (simp add: undelivered_def superviseProviderSession_def Let_def new_latch_def)

lemma shipped_via_stdin: "shipped config \<Longrightarrow> rc_promptViaStdin config"
  by (auto simp: shipped_def claude_config_def codex_config_def)

definition supervised :: "(units \<Rightarrow> string) \<Rightarrow> nat \<Rightarrow> supervisor \<Rightarrow> provider_run \<Rightarrow> supervisor" where
  "supervised sha now start t = foldl (launchProbe sha now) start (pr_probe t)"

text \<open>
  C6. The delivery state of a supervised session is exact. At every moment of a run of either adapter, in every
  interleaving, the supervisor holds the prompt for delivered and its work for accepted exactly when the prompt was written to
  the standard input of the process; and so the fallback gate, asked with what the supervisor knows, never allows a second
  transport for a prompt that was written.
\<close>

theorem delivery_known_exactly:
  "shipped config \<Longrightarrow> ro_probed opts \<Longrightarrow> run_started config opts s \<Longrightarrow> (run_step config opts)\<^sup>*\<^sup>* s t \<Longrightarrow>
     (let sup = supervised sha now (snd (superviseProviderSession platform status start transport k n)) t
      in (if pr_stdinEnded t then sp_delivery sup = Delivered \<and> la_current (sp_latch sup) = Accepted
          else sp_delivery sup = Not_delivered \<and> la_current (sp_latch sup) = Not_accepted) \<and>
         (\<forall>g i scope. authorize g (i\<lparr>fa_delivery := sp_delivery sup, fa_acceptedWork := la_current (sp_latch sup)\<rparr>) = Fallback_allowed scope \<longrightarrow>
            \<not> pr_stdinEnded t))"
proof -
  assume shipped: "shipped config" and "ro_probed opts" and run: "run_started config opts s" "(run_step config opts)\<^sup>*\<^sup>* s t"
  then have "(\<exists>c\<in>set (pr_probe t). delivering c) \<longleftrightarrow> pr_stdinEnded t"
    using process_reached [OF run] shipped_via_stdin [OF shipped] by (auto simp: probe_ok_def delivering_def)
  then show ?thesis
    using probe_run [OF undelivered_at_first, of "pr_probe t" sha now platform status start transport k n]
    by (auto simp: supervised_def delivered_def undelivered_def Let_def authorize_def split: if_splits)
qed

theorem delivery_known_exactly_witness:
  "sp_delivery (supervised (\<lambda>u. []) 0 (snd (superviseProviderSession ''linux''
       \<lparr>ps_id = Codex, ps_executablePath = None, ps_version = None, ps_authenticated = Authenticated\<rparr>
       \<lparr>st_cwd = ''/w'', st_model = None\<rparr> None None None)) ex_launched) = Delivered"
proof -
  have "pr_stdinEnded ex_launched" and "ro_probed ex_options" by (simp_all add: ex_run_simps)
  then show ?thesis
    using delivery_known_exactly [OF _ _ ex_started ex_launched_reached, of "\<lambda>u. []" 0 "''linux''"
       "\<lparr>ps_id = Codex, ps_executablePath = None, ps_version = None, ps_authenticated = Authenticated\<rparr>"
       "\<lparr>st_cwd = ''/w'', st_model = None\<rparr>" None None None]
    by (simp add: shipped_def Let_def)
qed

end
