(* ===== verification/Transport_Selection.thy ===== *)
theory Transport_Selection
  imports Supervised_Run
begin

text \<open>
  The choice between the two transports of Codex (\<^verbatim>\<open>packages/agent-runtime/src/providers/codex/transport-selection.ts\<close>): an app-server
  attempt whose events are held back until its prompt is written, and the one-shot transport of \<open>Provider_Run\<close>, used at once or
  after an attempt that failed before anything was delivered.

  A transport is a handle whose events arrive in a queue of its own, from which the selection takes them one at a time. What a
  handle emits is arbitrary within the contract of a session, which \<open>Provider_Run\<close> meets: its start, events, one
  terminal event; and no prompt is written after the terminal event.
\<close>

section \<open>Handles and state\<close>

definition session_prefix :: "provider_event list \<Rightarrow> bool" where
  "session_prefix evs \<longleftrightarrow> evs = [] \<or> session_stream False evs \<or> session_stream True evs"

definition stream_over :: "provider_event list \<Rightarrow> bool" where
  "stream_over evs \<longleftrightarrow> evs \<noteq> [] \<and> is_terminal (last evs)"

datatype selection_phase = Detecting | Trying_app_server | Piping_exec | Selection_over

text \<open>
  \<open>se_taken\<close> and \<open>se_waiting\<close> are what the active handle emitted: taken by the loop, and still in the handle's queue. The last two
  fields say on which transport the prompt was written.
\<close>

record selection =
  se_channel :: "provider_event channel"
  se_cancelled :: bool
  se_phase :: selection_phase
  se_status :: "ProviderStatus option"
  se_gate :: "FallbackGate option"
  se_buffered :: "provider_event list"
  se_promptDelivered :: bool
  se_committed :: bool
  se_taken :: "provider_event list"
  se_waiting :: "provider_event list"
  se_sentAppServer :: bool
  se_sentExec :: bool

definition createCodexTransportWithFallback :: selection where
  "createCodexTransportWithFallback =
     \<lparr>se_channel = new_channel None, se_cancelled = False, se_phase = Detecting, se_status = None, se_gate = None, se_buffered = [],
       se_promptDelivered = False, se_committed = False, se_taken = [], se_waiting = [], se_sentAppServer = False, se_sentExec = False\<rparr>"

definition end_selection :: "provider_event list \<Rightarrow> selection \<Rightarrow> selection" where
  "end_selection finalValues s = s\<lparr>se_channel := closeWith finalValues (se_channel s), se_phase := Selection_over\<rparr>"

definition selection_overflow :: "selection \<Rightarrow> selection" where
  "selection_overflow s = end_selection overflowTerminalEvents s"

definition selection_crashed :: "string \<Rightarrow> selection \<Rightarrow> selection" where
  "selection_crashed message s = end_selection [Ev_error (Some ''ADAPTER_CRASH'') message False, Ev_session_failed message] s"

definition close_selection :: "selection \<Rightarrow> selection" where
  "close_selection s = s\<lparr>se_channel := channel_close (se_channel s), se_phase := Selection_over\<rparr>"


section \<open>The decision\<close>

definition runExecOnly :: "selection \<Rightarrow> selection" where
  "runExecOnly s = s\<lparr>se_phase := Piping_exec, se_taken := [], se_waiting := []\<rparr>"

text \<open>\<^verbatim>\<open>createAppServer\<close> may throw; the message is then an argument.\<close>

definition start_app_server :: "string \<Rightarrow> StartSessionOptions \<Rightarrow> ProviderStatus \<Rightarrow> string option \<Rightarrow> selection \<Rightarrow> selection" where
  "start_app_server platform opts status thrown s =
     (let s1 = s\<lparr>se_status := Some status, se_gate := Some (new_gate (freezeLaunchScope platform status opts CODEX_APP_SERVER_TRANSPORT_ID))\<rparr>
      in case thrown of
           Some message \<Rightarrow> selection_crashed message s1
         | None \<Rightarrow> s1\<lparr>se_phase := Trying_app_server\<rparr>)"

definition on_detected :: "string \<Rightarrow> StartSessionOptions \<Rightarrow> ProviderStatus attempt \<Rightarrow> bool \<Rightarrow> string option \<Rightarrow> selection \<Rightarrow> selection" where
  "on_detected platform opts detected apiKey thrown s =
     (case detected of
        Threw \<Rightarrow> runExecOnly s
      | Returned status \<Rightarrow>
          if se_cancelled s then end_selection [Ev_session_cancelled] s
          else if apiKey then runExecOnly s
          else case ps_executablePath status of
                 None \<Rightarrow> runExecOnly s
               | Some path \<Rightarrow>
                   if path = [] then runExecOnly s
                   else case findProviderCompatibility Impl_codex (ps_version status) CODEX_APP_SERVER_TRANSPORT_ID of
                          None \<Rightarrow> runExecOnly s
                        | Some entry \<Rightarrow> start_app_server platform opts status thrown s)"


section \<open>Piping events\<close>

text \<open>Pushes in order; the overflow events take the place of what does not fit.\<close>

definition push_or_overflow :: "provider_event list \<Rightarrow> selection \<Rightarrow> bool \<times> selection" where
  "push_or_overflow events s =
     (let (ok, c) = push_events events (se_channel s); s1 = s\<lparr>se_channel := c\<rparr>
      in if ok then (True, s1) else (False, selection_overflow s1))"

definition flushAndClose :: "provider_event list \<Rightarrow> selection \<Rightarrow> selection" where
  "flushAndClose events s = (let (ok, s1) = push_or_overflow events s in if ok then close_selection s1 else s1)"

definition commit :: "selection \<Rightarrow> bool \<times> selection" where
  "commit s =
     (if se_promptDelivered s \<and> \<not> se_committed s
      then let (ok, s1) = push_or_overflow (se_buffered s) (s\<lparr>se_committed := True\<rparr>)
           in if ok then (True, s1\<lparr>se_buffered := []\<rparr>) else (False, s1)
      else (True, s))"

fun is_failed :: "provider_event \<Rightarrow> bool" where
  "is_failed (Ev_session_failed _) = True"
| "is_failed _ = False"

definition fallback_input :: "string \<Rightarrow> StartSessionOptions \<Rightarrow> ProviderStatus \<Rightarrow> selection \<Rightarrow> FallbackAuthorizeInput" where
  "fallback_input platform opts status s =
     \<lparr>fa_candidate = freezeLaunchScope platform status opts LEGACY_ONE_SHOT_TRANSPORT_ID, fa_acceptedWork = Not_accepted,
       fa_delivery = Not_delivered, fa_alternateTransportIds = [LEGACY_ONE_SHOT_TRANSPORT_ID], fa_terminal = se_cancelled s\<rparr>"

text \<open>A terminal event before the prompt was written: the one-shot transport, if the gate allows it.\<close>

definition on_early_terminal :: "string \<Rightarrow> StartSessionOptions \<Rightarrow> provider_event \<Rightarrow> selection \<Rightarrow> selection" where
  "on_early_terminal platform opts event s =
     (case (se_status s, se_gate s) of
        (Some status, Some gate) \<Rightarrow>
          if is_failed event
          then case authorize gate (fallback_input platform opts status s) of
                 Fallback_allowed scope \<Rightarrow>
                   (case consume gate of
                      Inl e \<Rightarrow> selection_crashed ''fallback budget already consumed for this session'' s
                    | Inr gate' \<Rightarrow> runExecOnly (s\<lparr>se_gate := Some gate'\<rparr>))
               | Fallback_denied reason \<Rightarrow> flushAndClose (se_buffered s) s
          else flushAndClose (se_buffered s) s
      | _ \<Rightarrow> flushAndClose (se_buffered s) s)"

definition on_app_server_event :: "string \<Rightarrow> StartSessionOptions \<Rightarrow> provider_event \<Rightarrow> selection \<Rightarrow> selection" where
  "on_app_server_event platform opts event s =
     (let (ok, s1) = commit s
      in if \<not> ok then s1
         else if se_committed s1 then snd (push_or_overflow [event] s1)
         else let s2 = s1\<lparr>se_buffered := se_buffered s1 @ [event]\<rparr>
              in if is_terminal event then on_early_terminal platform opts event s2 else s2)"

definition on_app_server_end :: "selection \<Rightarrow> selection" where
  "on_app_server_end s = (if se_committed s then close_selection s else flushAndClose (se_buffered s) s)"

definition take_event :: "provider_event \<Rightarrow> provider_event list \<Rightarrow> selection \<Rightarrow> selection" where
  "take_event e rest s = s\<lparr>se_taken := se_taken s @ [e], se_waiting := rest\<rparr>"

inductive selection_step :: "string \<Rightarrow> StartSessionOptions \<Rightarrow> selection \<Rightarrow> selection \<Rightarrow> bool" for platform opts where
  ss_pull: "selection_step platform opts s (s\<lparr>se_channel := channel_next (se_channel s)\<rparr>)"
| ss_cancel: "selection_step platform opts s (s\<lparr>se_cancelled := True\<rparr>)"
| ss_detected: "se_phase s = Detecting \<Longrightarrow> selection_step platform opts s (on_detected platform opts detected apiKey thrown s)"
| ss_emit: "se_phase s \<in> {Trying_app_server, Piping_exec} \<Longrightarrow> \<not> stream_over (se_taken s @ se_waiting s) \<Longrightarrow>
    session_prefix (se_taken s @ se_waiting s @ [e]) \<Longrightarrow> selection_step platform opts s (s\<lparr>se_waiting := se_waiting s @ [e]\<rparr>)"
| ss_app_server_sends: "se_phase s = Trying_app_server \<Longrightarrow> \<not> stream_over (se_taken s @ se_waiting s) \<Longrightarrow>
    selection_step platform opts s (s\<lparr>se_promptDelivered := True, se_sentAppServer := True\<rparr>)"
| ss_exec_sends: "se_phase s = Piping_exec \<Longrightarrow> \<not> stream_over (se_taken s @ se_waiting s) \<Longrightarrow> selection_step platform opts s (s\<lparr>se_sentExec := True\<rparr>)"
| ss_app_server_event: "se_phase s = Trying_app_server \<Longrightarrow> se_waiting s = e # rest \<Longrightarrow>
    selection_step platform opts s (on_app_server_event platform opts e (take_event e rest s))"
| ss_exec_event: "se_phase s = Piping_exec \<Longrightarrow> se_waiting s = e # rest \<Longrightarrow>
    selection_step platform opts s (snd (push_or_overflow [e] (take_event e rest s)))"
| ss_app_server_end: "se_phase s = Trying_app_server \<Longrightarrow> se_waiting s = [] \<Longrightarrow> stream_over (se_taken s) \<Longrightarrow>
    selection_step platform opts s (on_app_server_end s)"
| ss_exec_end: "se_phase s = Piping_exec \<Longrightarrow> se_waiting s = [] \<Longrightarrow> stream_over (se_taken s) \<Longrightarrow> selection_step platform opts s (close_selection s)"


section \<open>Streams\<close>

fun is_started :: "provider_event \<Rightarrow> bool" where
  "is_started (Ev_session_started _ _) = True"
| "is_started _ = False"

definition well_ended :: "provider_event list \<Rightarrow> bool" where
  "well_ended evs \<longleftrightarrow> evs \<noteq> [] \<and> is_terminal (last evs) \<and> \<not> list_ex is_terminal (butlast evs) \<and> \<not> list_ex is_started (tl evs)"

definition open_stream :: "provider_event list \<Rightarrow> bool" where
  "open_stream evs \<longleftrightarrow> evs = [] \<or> session_stream False evs"

lemma in_session_iff: "in_session e \<longleftrightarrow> \<not> is_started e \<and> \<not> is_terminal e"
  by (cases e) auto

lemma session_stream_Cons: "session_stream ended (e # evs) \<longleftrightarrow> is_started e \<and>
    (if ended then evs \<noteq> [] \<and> is_terminal (last evs) \<and> list_all in_session (butlast evs) else list_all in_session evs)"
  by (cases e) (auto simp: session_stream_def)

lemma terminal_not_started: "is_terminal e \<Longrightarrow> \<not> is_started e"
  by (cases e) auto

lemma open_close:
  assumes "open_stream evs" and "finals \<noteq> []" and "is_terminal (last finals)" and "list_all in_session (butlast finals)"
  shows "well_ended (evs @ finals)"
proof -
  obtain fs f where finals: "finals = fs @ [f]" using assms(2) by (cases finals rule: rev_cases) auto
  have f: "is_terminal f" "\<not> is_started f" "\<forall>e\<in>set fs. \<not> is_started e \<and> \<not> is_terminal e"
    using assms(3,4) terminal_not_started by (auto simp: finals list_all_iff in_session_iff)
  show ?thesis
  proof (cases evs)
    case Nil
    then show ?thesis using f by (cases fs) (auto simp: well_ended_def finals list_ex_iff)
  next
    case (Cons e es)
    then have "is_started e" "list_all in_session es" using assms(1) by (auto simp: open_stream_def session_stream_Cons)
    then show ?thesis
      using f Cons terminal_not_started [of e] by (auto simp: well_ended_def finals list_ex_iff list_all_iff in_session_iff butlast_append)
  qed
qed

lemma session_stream_well_ended: "session_stream True evs \<Longrightarrow> well_ended evs"
proof (cases evs)
  case (Cons e es)
  assume "session_stream True evs"
  then have "open_stream (e # butlast es)" "well_ended ((e # butlast es) @ [last es])" "es \<noteq> []"
    using open_close [of "e # butlast es" "[last es]"] by (auto simp: Cons session_stream_Cons open_stream_def)
  then show ?thesis by (simp add: Cons)
qed (simp add: session_stream_def)

lemma prefix_over: "session_prefix evs \<Longrightarrow> stream_over evs \<Longrightarrow> well_ended evs"
  by (cases evs)
    (auto simp: session_prefix_def stream_over_def session_stream_Cons list_all_iff in_session_iff
      intro!: session_stream_well_ended dest: terminal_not_started last_in_set split: if_splits)

lemma prefix_open: "session_prefix evs \<Longrightarrow> \<not> stream_over evs \<Longrightarrow> open_stream evs"
  by (cases evs) (auto simp: session_prefix_def stream_over_def open_stream_def session_stream_Cons)

lemma open_snoc: "session_prefix (evs @ [e]) \<Longrightarrow> open_stream evs"
  by (cases evs) (auto simp: session_prefix_def open_stream_def session_stream_Cons butlast_append)

lemma open_prefix: "open_stream (a @ b) \<Longrightarrow> open_stream a"
  by (cases a) (auto simp: open_stream_def session_stream_Cons)

lemma prefix_closed: "session_prefix (a @ b) \<Longrightarrow> session_prefix a"
proof (cases b rule: rev_cases)
  case (snoc c e)
  assume "session_prefix (a @ b)"
  then have "open_stream a" using open_snoc [of "a @ c" e] open_prefix [of a c] snoc by simp
  then show ?thesis by (auto simp: open_stream_def session_prefix_def)
qed simp

lemma proper_prefix_open: "session_prefix (a @ e # b) \<Longrightarrow> open_stream a"
  using open_snoc prefix_closed [of "a @ [e]" b] by simp

text \<open>What a run of the one-shot transport hands to its reader keeps the contract.\<close>

lemma run_keeps_contract:
  "shipped config \<Longrightarrow> run_started config opts s \<Longrightarrow> (run_step config opts)\<^sup>*\<^sup>* s t \<Longrightarrow>
     session_prefix (given (ac_results (pr_channel t))) \<and>
     (None \<in> set (ac_results (pr_channel t)) \<longrightarrow> stream_over (given (ac_results (pr_channel t))))"
proof -
  assume "shipped config" "run_started config opts s" "(run_step config opts)\<^sup>*\<^sup>* s t"
  then have ok: "run_ok t" by (rule reached_run_ok)
  then have taken: "session_prefix (ac_taken (pr_channel t))" by (auto simp: run_ok_def session_prefix_def split: if_splits)
  have parts: "given (ac_results (pr_channel t)) @ ac_queue (pr_channel t) = ac_taken (pr_channel t)"
    using ok by (simp add: run_ok_def channel_ok_def)
  have "stream_over (given (ac_results (pr_channel t)))" if "None \<in> set (ac_results (pr_channel t))"
  proof -
    have "session_stream True (ac_taken (pr_channel t))" "ac_queue (pr_channel t) = []"
      using ok that by (auto simp: run_ok_def channel_ok_def)
    then show ?thesis using session_stream_well_ended parts by (auto simp: stream_over_def well_ended_def)
  qed
  then show ?thesis using prefix_closed taken parts by metis
qed


section \<open>The invariant\<close>

lemma push_events_exact:
  "push_events es c = (ok, c') \<Longrightarrow> channel_ok c \<Longrightarrow> channel_ok c' \<and> ac_closed c' = ac_closed c \<and>
     (if ok then ac_taken c' = ac_taken c @ es else \<exists>k<length es. ac_taken c' = ac_taken c @ take k es)"
proof (induction es arbitrary: c)
  case (Cons e es)
  obtain b c1 where push: "channel_push e c = (b, c1)" by fastforce
  have c1: "channel_ok c1" "ac_closed c1 = ac_closed c" "ac_taken c1 = ac_taken c @ (if b then [e] else [])"
    using channel_ok_push [OF Cons.prems(2), of e] closed_push [of e c] taken_push [of e c] by (simp_all add: push)
  show ?case
  proof (cases b)
    case True
    then have "push_events es c1 = (ok, c')" using Cons.prems(1) push by simp
    from Cons.IH [OF this c1(1)] have rest: "channel_ok c'" "ac_closed c' = ac_closed c"
      "if ok then ac_taken c' = ac_taken c @ e # es else \<exists>k<length es. ac_taken c' = ac_taken c @ take (Suc k) (e # es)"
      using c1 True by (auto split: if_splits)
    then show ?thesis by (cases ok) (simp_all, metis Suc_less_eq take_Suc_Cons)
  next
    case False
    then show ?thesis using Cons.prems(1) c1 push by (auto intro: exI [of _ 0])
  qed
qed simp

definition selection_ok :: "selection \<Rightarrow> bool" where
  "selection_ok s \<longleftrightarrow>
     channel_ok (se_channel s) \<and> ac_closed (se_channel s) = (se_phase s = Selection_over) \<and> \<not> (se_sentAppServer s \<and> se_sentExec s) \<and>
     session_prefix (se_taken s @ se_waiting s) \<and>
     (case se_phase s of
        Detecting \<Rightarrow> ac_taken (se_channel s) = [] \<and> se_buffered s = [] \<and> se_taken s = [] \<and> \<not> se_committed s \<and> \<not> se_promptDelivered s \<and>
          \<not> se_sentAppServer s \<and> \<not> se_sentExec s
      | Trying_app_server \<Rightarrow> \<not> se_sentExec s \<and> se_sentAppServer s = se_promptDelivered s \<and>
          (if se_committed s then ac_taken (se_channel s) = se_taken s
           else ac_taken (se_channel s) = [] \<and> se_buffered s = se_taken s \<and> \<not> stream_over (se_taken s))
      | Piping_exec \<Rightarrow> \<not> se_sentAppServer s \<and> ac_taken (se_channel s) = se_taken s
      | Selection_over \<Rightarrow> well_ended (ac_taken (se_channel s)))"

lemma selection_ok_start: "selection_ok createCodexTransportWithFallback"
  by (simp add: selection_ok_def createCodexTransportWithFallback_def channel_ok_new session_prefix_def) (simp add: new_channel_def)

lemma end_selection_ok:
  "channel_ok (se_channel s) \<Longrightarrow> \<not> ac_closed (se_channel s) \<Longrightarrow> open_stream (ac_taken (se_channel s)) \<Longrightarrow>
     \<not> (se_sentAppServer s \<and> se_sentExec s) \<Longrightarrow> session_prefix (se_taken s @ se_waiting s) \<Longrightarrow>
     finals \<noteq> [] \<Longrightarrow> is_terminal (last finals) \<Longrightarrow> list_all in_session (butlast finals) \<Longrightarrow> selection_ok (end_selection finals s)"
  by (auto simp: selection_ok_def end_selection_def taken_closeWith intro: channel_ok_closeWith open_close)

lemma close_selection_ok:
  "channel_ok (se_channel s) \<Longrightarrow> well_ended (ac_taken (se_channel s)) \<Longrightarrow> \<not> (se_sentAppServer s \<and> se_sentExec s) \<Longrightarrow>
     session_prefix (se_taken s @ se_waiting s) \<Longrightarrow> selection_ok (close_selection s)"
  by (auto simp: selection_ok_def close_selection_def channel_ok_close) (auto simp: channel_close_def)

lemma push_or_overflow_cases:
  assumes "channel_ok (se_channel s)" and "\<not> ac_closed (se_channel s)" and "session_prefix (ac_taken (se_channel s) @ es)"
    and "\<not> (se_sentAppServer s \<and> se_sentExec s)" and "session_prefix (se_taken s @ se_waiting s)"
  obtains c where "push_or_overflow es s = (True, s\<lparr>se_channel := c\<rparr>)" and "channel_ok c" and "\<not> ac_closed c"
      and "ac_taken c = ac_taken (se_channel s) @ es"
  | t where "push_or_overflow es s = (False, t)" and "selection_ok t" and "se_phase t = Selection_over"
proof -
  obtain ok c where push: "push_events es (se_channel s) = (ok, c)" by fastforce
  from push_events_exact [OF push assms(1)] have c: "channel_ok c" "\<not> ac_closed c"
    "if ok then ac_taken c = ac_taken (se_channel s) @ es else \<exists>k<length es. ac_taken c = ac_taken (se_channel s) @ take k es"
    using assms(2) by auto
  show thesis
  proof (cases ok)
    case True
    then show thesis using c push that(1) [of c] by (simp add: push_or_overflow_def)
  next
    case False
    then obtain k where k: "k < length es" "ac_taken c = ac_taken (se_channel s) @ take k es" using c by auto
    then have "session_prefix ((ac_taken (se_channel s) @ take k es) @ es ! k # drop (Suc k) es)"
      using assms(3) by (simp add: id_take_nth_drop [symmetric])
    then have "open_stream (ac_taken c)" using k proper_prefix_open by metis
    then have "selection_ok (selection_overflow (s\<lparr>se_channel := c\<rparr>))"
      unfolding selection_overflow_def overflowTerminalEvents_def using c assms by (intro end_selection_ok) auto
    then show thesis
      using False push that(2) by (simp add: push_or_overflow_def selection_overflow_def end_selection_def)
  qed
qed

lemma flush_ok:
  assumes "channel_ok (se_channel s)" and "\<not> ac_closed (se_channel s)" and "ac_taken (se_channel s) = []"
    and "session_prefix events" and "stream_over events"
    and "\<not> (se_sentAppServer s \<and> se_sentExec s)" and "session_prefix (se_taken s @ se_waiting s)"
  shows "selection_ok (flushAndClose events s)"
proof -
  have "session_prefix (ac_taken (se_channel s) @ events)" using assms by simp
  from push_or_overflow_cases [OF assms(1,2) this assms(6,7)] show ?thesis
  proof cases
    case (1 c)
    then have "selection_ok (close_selection (s\<lparr>se_channel := c\<rparr>))"
      using assms prefix_over [of events] by (intro close_selection_ok) auto
    then show ?thesis by (simp add: flushAndClose_def 1(1))
  next
    case (2 t)
    then show ?thesis by (simp add: flushAndClose_def)
  qed
qed

lemma exec_ok:
  "channel_ok (se_channel s) \<Longrightarrow> \<not> ac_closed (se_channel s) \<Longrightarrow> ac_taken (se_channel s) = [] \<Longrightarrow> \<not> se_sentAppServer s \<Longrightarrow>
     selection_ok (runExecOnly s)"
  by (simp add: selection_ok_def runExecOnly_def session_prefix_def)

lemma trying_ok:
  "selection_ok s \<Longrightarrow> se_phase s = Trying_app_server \<Longrightarrow>
     channel_ok (se_channel s) \<and> \<not> ac_closed (se_channel s) \<and> \<not> se_sentExec s \<and> se_sentAppServer s = se_promptDelivered s \<and>
     session_prefix (se_taken s @ se_waiting s) \<and>
     (if se_committed s then ac_taken (se_channel s) = se_taken s
      else ac_taken (se_channel s) = [] \<and> se_buffered s = se_taken s \<and> \<not> stream_over (se_taken s))"
  by (simp add: selection_ok_def)

lemma early_terminal_ok:
  assumes "channel_ok (se_channel s)" and "\<not> ac_closed (se_channel s)" and "ac_taken (se_channel s) = []"
    and "session_prefix (se_buffered s)" and "stream_over (se_buffered s)" and "\<not> se_sentAppServer s" and "session_prefix (se_taken s @ se_waiting s)"
  shows "selection_ok (on_early_terminal platform opts e s)"
proof -
  have flush: "selection_ok (flushAndClose (se_buffered s) s)" using assms by (intro flush_ok) auto
  have crash: "selection_ok (selection_crashed m s)" for m
    unfolding selection_crashed_def using assms by (intro end_selection_ok) (auto simp: open_stream_def)
  have "selection_ok (runExecOnly (s\<lparr>se_gate := g\<rparr>))" for g using assms by (intro exec_ok) auto
  then show ?thesis
    using flush crash by (auto simp: on_early_terminal_def split: option.split FallbackDecision.split sum.split)
qed

text \<open>A committed attempt forwards the event it just took.\<close>

lemma forward_ok:
  assumes "channel_ok (se_channel s)" and "\<not> ac_closed (se_channel s)" and "se_taken s = ac_taken (se_channel s) @ [e]"
    and "session_prefix (se_taken s @ se_waiting s)" and "se_phase s = Trying_app_server \<and> se_committed s \<and> \<not> se_sentExec s \<and> se_sentAppServer s = se_promptDelivered s
      \<or> se_phase s = Piping_exec \<and> \<not> se_sentAppServer s"
  shows "selection_ok (snd (push_or_overflow [e] s))"
proof -
  have e: "session_prefix (ac_taken (se_channel s) @ [e])" using assms(3,4) prefix_closed by metis
  have "\<not> (se_sentAppServer s \<and> se_sentExec s)" using assms(5) by blast
  from push_or_overflow_cases [OF assms(1,2) e this assms(4)] show ?thesis
  proof cases
    case (1 c)
    then show ?thesis using assms by (auto simp: selection_ok_def)
  qed simp
qed

lemma app_server_event_ok:
  assumes ok: "selection_ok s" and phase: "se_phase s = Trying_app_server" and waiting: "se_waiting s = e # rest"
  shows "selection_ok (on_app_server_event platform opts e (take_event e rest s))"
proof -
  note trying = trying_ok [OF ok phase]
  let ?t = "take_event e rest s"
  have t: "se_taken ?t = se_taken s @ [e]" "se_waiting ?t = rest" "session_prefix (se_taken ?t @ se_waiting ?t)"
    "se_channel ?t = se_channel s" "se_phase ?t = Trying_app_server" "se_sentExec ?t = se_sentExec s" "se_committed ?t = se_committed s"
    "se_sentAppServer ?t = se_sentAppServer s" "se_promptDelivered ?t = se_promptDelivered s" "se_buffered ?t = se_buffered s"
    using trying waiting phase by (simp_all add: take_event_def)
  consider (committed) "se_committed s" | (now) "\<not> se_committed s" "se_promptDelivered s" | (early) "\<not> se_committed s" "\<not> se_promptDelivered s" by blast
  then show ?thesis
  proof cases
    case committed
    then have "on_app_server_event platform opts e ?t = snd (push_or_overflow [e] ?t)"
      by (simp add: on_app_server_event_def commit_def t)
    then show ?thesis using committed trying t forward_ok [of ?t e] by simp
  next
    case now
    let ?u = "?t\<lparr>se_committed := True\<rparr>"
    have "channel_ok (se_channel ?u)" "\<not> ac_closed (se_channel ?u)" "session_prefix (ac_taken (se_channel ?u) @ se_buffered s)"
      "\<not> (se_sentAppServer ?u \<and> se_sentExec ?u)" "session_prefix (se_taken ?u @ se_waiting ?u)"
      using now trying t prefix_closed [of "se_taken s" "se_waiting s"] by simp_all
    then show ?thesis
    proof (cases rule: push_or_overflow_cases)
      case (1 c)
      let ?v = "?u\<lparr>se_channel := c, se_buffered := []\<rparr>"
      have "on_app_server_event platform opts e ?t = snd (push_or_overflow [e] ?v)"
        using now 1(1) by (simp add: on_app_server_event_def commit_def t)
      moreover have "selection_ok (snd (push_or_overflow [e] ?v))"
        using 1 now trying t by (intro forward_ok) auto
      ultimately show ?thesis by simp
    next
      case (2 w)
      then show ?thesis using now by (simp add: on_app_server_event_def commit_def t)
    qed
  next
    case early
    let ?u = "?t\<lparr>se_buffered := se_buffered s @ [e]\<rparr>"
    have shape: "on_app_server_event platform opts e ?t = (if is_terminal e then on_early_terminal platform opts e ?u else ?u)"
      using early by (simp add: on_app_server_event_def commit_def t)
    have "session_prefix (se_taken s @ [e])" using t prefix_closed by metis
    then have "is_terminal e \<Longrightarrow> selection_ok (on_early_terminal platform opts e ?u)"
      using early trying t by (intro early_terminal_ok) (auto simp: stream_over_def)
    moreover have "\<not> is_terminal e \<Longrightarrow> selection_ok ?u"
      using early trying t by (simp add: selection_ok_def stream_over_def)
    ultimately show ?thesis by (simp add: shape)
  qed
qed

lemma exec_event_ok:
  "selection_ok s \<Longrightarrow> se_phase s = Piping_exec \<Longrightarrow> se_waiting s = e # rest \<Longrightarrow> selection_ok (snd (push_or_overflow [e] (take_event e rest s)))"
  by (rule forward_ok) (auto simp: selection_ok_def take_event_def)

lemma detected_ok: "selection_ok s \<Longrightarrow> se_phase s = Detecting \<Longrightarrow> selection_ok (on_detected platform opts detected apiKey thrown s)"
proof -
  assume ok: "selection_ok s" and phase: "se_phase s = Detecting"
  then have s: "channel_ok (se_channel s)" "\<not> ac_closed (se_channel s)" "ac_taken (se_channel s) = []" "\<not> se_sentAppServer s" "\<not> se_sentExec s"
    "session_prefix (se_taken s @ se_waiting s)" "\<not> se_promptDelivered s" "\<not> se_committed s" "se_buffered s = []" "se_taken s = []"
    by (auto simp: selection_ok_def)
  have "selection_ok (runExecOnly s)" using s by (intro exec_ok)
  moreover have "selection_ok (end_selection [Ev_session_cancelled] s)" using s by (intro end_selection_ok) (auto simp: open_stream_def)
  moreover have "selection_ok (start_app_server platform opts status thrown s)" for status
  proof (cases thrown)
    case None
    then show ?thesis using s by (simp add: start_app_server_def selection_ok_def stream_over_def)
  next
    case (Some m)
    then show ?thesis
      unfolding start_app_server_def selection_crashed_def using s by (auto simp: open_stream_def intro!: end_selection_ok)
  qed
  ultimately show ?thesis by (auto simp: on_detected_def split: attempt.split option.split)
qed

lemma selection_ok_step: "selection_step platform opts s t \<Longrightarrow> selection_ok s \<Longrightarrow> selection_ok t"
proof (induction rule: selection_step.induct)
  case (ss_pull s)
  then show ?case by (simp add: selection_ok_def channel_ok_next split: selection_phase.splits)
next
  case (ss_cancel s)
  then show ?case by (cases "se_phase s") (auto simp: selection_ok_def)
next
  case (ss_emit s e)
  then show ?case by (auto simp: selection_ok_def)
next
  case (ss_app_server_sends s)
  then show ?case by (simp add: selection_ok_def)
next
  case (ss_exec_sends s)
  then show ?case by (simp add: selection_ok_def)
next
  case (ss_app_server_end s)
  note trying = trying_ok [OF ss_app_server_end.prems ss_app_server_end.hyps(1)]
  have committed: "se_committed s" using trying ss_app_server_end.hyps(3) by presburger
  moreover have "well_ended (se_taken s)"
    using trying ss_app_server_end.hyps prefix_over by simp
  ultimately show ?case using trying by (auto simp: on_app_server_end_def intro!: close_selection_ok)
next
  case (ss_exec_end s)
  then show ?case using prefix_over [of "se_taken s"] by (intro close_selection_ok) (auto simp: selection_ok_def)
qed (simp_all add: detected_ok app_server_event_ok exec_event_ok)

interpretation selection_run: transition_system "\<lambda>s. s = createCodexTransportWithFallback" "selection_step platform opts" selection_ok
  by unfold_locales (auto intro: selection_ok_start selection_ok_step)


text \<open>An app-server attempt that fails before its prompt was written, and the one-shot transport in its place.\<close>

definition ex_status :: ProviderStatus where
  "ex_status = \<lparr>ps_id = Codex, ps_executablePath = Some ''/bin/codex'', ps_version = Some ''0.147.0'', ps_authenticated = Authenticated\<rparr>"

definition ex_start :: StartSessionOptions where
  "ex_start = \<lparr>st_cwd = ''/w'', st_model = None\<rparr>"

definition ex_trying :: selection where
  "ex_trying = on_detected ''linux'' ex_start (Returned ex_status) False None createCodexTransportWithFallback"

definition ex_failing :: "provider_event list" where
  "ex_failing = [Ev_session_started ''s'' ''codex'', Ev_session_failed ''no'']"

definition ex_emitted :: selection where
  "ex_emitted = (ex_trying\<lparr>se_waiting := take 1 ex_failing\<rparr>)\<lparr>se_waiting := ex_failing\<rparr>"

definition ex_fallen_back :: selection where
  "ex_fallen_back =
     on_app_server_event ''linux'' ex_start (Ev_session_failed ''no'')
       (take_event (Ev_session_failed ''no'') []
         (on_app_server_event ''linux'' ex_start (Ev_session_started ''s'' ''codex'')
           (take_event (Ev_session_started ''s'' ''codex'') [Ev_session_failed ''no''] ex_emitted)))"

lemma ex_trying_eq:
  "ex_trying = createCodexTransportWithFallback\<lparr>se_status := Some ex_status,
     se_gate := Some (new_gate (freezeLaunchScope ''linux'' ex_status ex_start CODEX_APP_SERVER_TRANSPORT_ID)), se_phase := Trying_app_server\<rparr>"
  by (simp add: ex_trying_def on_detected_def ex_status_def start_app_server_def createCodexTransportWithFallback_def findProviderCompatibility_def
      PROVIDER_COMPATIBILITY_MANIFEST_def CLAUDE_LEGACY_COMPATIBILITY_def CODEX_LEGACY_COMPATIBILITY_def CODEX_APP_SERVER_COMPATIBILITY_def
      LEGACY_ONE_SHOT_TRANSPORT_ID_def CODEX_APP_SERVER_TRANSPORT_ID_def)

lemma ex_emitted_reached: "(selection_step ''linux'' ex_start)\<^sup>*\<^sup>* createCodexTransportWithFallback ex_emitted"
proof -
  have "selection_step ''linux'' ex_start createCodexTransportWithFallback ex_trying"
    unfolding ex_trying_def by (rule ss_detected) (simp add: createCodexTransportWithFallback_def)
  moreover have "selection_step ''linux'' ex_start ex_trying (ex_trying\<lparr>se_waiting := take 1 ex_failing\<rparr>)"
    using ss_emit [of ex_trying "Ev_session_started ''s'' ''codex''" "''linux''" ex_start]
    by (simp add: ex_trying_eq createCodexTransportWithFallback_def ex_failing_def stream_over_def session_prefix_def session_stream_def)
  moreover have "selection_step ''linux'' ex_start (ex_trying\<lparr>se_waiting := take 1 ex_failing\<rparr>) ex_emitted"
    using ss_emit [of "ex_trying\<lparr>se_waiting := take 1 ex_failing\<rparr>" "Ev_session_failed ''no''" "''linux''" ex_start]
    by (simp add: ex_emitted_def ex_trying_eq createCodexTransportWithFallback_def ex_failing_def stream_over_def session_prefix_def session_stream_def)
  ultimately show ?thesis by (meson r_into_rtranclp rtranclp.rtrancl_into_rtrancl)
qed

lemma ex_fallen_back_reached: "(selection_step ''linux'' ex_start)\<^sup>*\<^sup>* createCodexTransportWithFallback ex_fallen_back"
proof -
  let ?t = "on_app_server_event ''linux'' ex_start (Ev_session_started ''s'' ''codex'')
      (take_event (Ev_session_started ''s'' ''codex'') [Ev_session_failed ''no''] ex_emitted)"
  have emitted: "se_phase ex_emitted = Trying_app_server" "se_waiting ex_emitted = [Ev_session_started ''s'' ''codex'', Ev_session_failed ''no'']"
    "\<not> se_promptDelivered ex_emitted" "\<not> se_committed ex_emitted"
    by (simp_all add: ex_emitted_def ex_trying_eq ex_failing_def createCodexTransportWithFallback_def)
  have "selection_step ''linux'' ex_start ex_emitted ?t" using emitted by (intro ss_app_server_event) auto
  moreover have "se_phase ?t = Trying_app_server" "se_waiting ?t = [Ev_session_failed ''no'']"
    using emitted by (simp_all add: on_app_server_event_def commit_def take_event_def)
  then have "selection_step ''linux'' ex_start ?t ex_fallen_back"
    unfolding ex_fallen_back_def by (intro ss_app_server_event) auto
  ultimately show ?thesis using ex_emitted_reached by (meson rtranclp.rtrancl_into_rtrancl)
qed


end
