(* ===== verification/Provider_Environment.thy ===== *)
theory Provider_Environment
  imports Js_Strings "HOL-Library.List_Lexorder" "HOL-Library.Char_ord"
begin

text \<open>
  What a provider process is given: its environment (\<^verbatim>\<open>providers/common/provider-environment.ts\<close> of the runtime, after
  \<^verbatim>\<open>apps/desktop/electron/daemon-environment.ts\<close> has made the daemon's own) and its arguments (\<^verbatim>\<open>providers/claude/build-args.ts\<close>,
  \<^verbatim>\<open>providers/codex/build-args.ts\<close>). An environment lists each name once, with \<open>None\<close> for a name that is explicitly unset; its order is
  not significant.
\<close>

section \<open>Names that are denied\<close>

text \<open>The three shapes of the patterns, all without regard to case; the text is given in lower case.\<close>

datatype name_pattern = Has string | Begins string | Ends string

fun pattern_test :: "name_pattern \<Rightarrow> string \<Rightarrow> bool" where
  "pattern_test (Has s) name = js_includes (js_to_lower name) s"
| "pattern_test (Begins s) name = prefix s (js_to_lower name)"
| "pattern_test (Ends s) name = suffix s (js_to_lower name)"

text \<open>\<^verbatim>\<open>API_?KEY\<close> is the two texts it stands for.\<close>

definition CREDENTIAL_SHAPED_ENV_DENY_PATTERNS :: "name_pattern list" where
  "CREDENTIAL_SHAPED_ENV_DENY_PATTERNS =
     [Has ''secret'', Has ''token'', Has ''password'', Has ''passwd'', Has ''credential'', Has ''private_key'', Has ''api_key'', Has ''apikey'',
      Ends ''_key'', Begins ''aws_'', Begins ''azure_'', Begins ''gcp_'', Begins ''google_application_'', Begins ''gh_'', Begins ''github_'',
      Begins ''npm_'', Begins ''openai_'', Begins ''anthropic_'', Begins ''ssh_'', Begins ''vault_'']"

definition PROVIDER_ENVIRONMENT_DENY_PATTERNS :: "name_pattern list" where
  "PROVIDER_ENVIRONMENT_DENY_PATTERNS =
     CREDENTIAL_SHAPED_ENV_DENY_PATTERNS @
     [Begins ''agent_dock_'', Begins ''electron_'', Begins ''ovr_'', Begins ''vite_'', Begins ''ai_'', Begins ''brave_search_'', Begins ''adzuna_'',
      Begins ''jooble_'', Begins ''reed_'', Begins ''jobspipe_'', Begins ''theirstack_'']"

definition DAEMON_ENVIRONMENT_DENY_PATTERNS :: "name_pattern list" where
  "DAEMON_ENVIRONMENT_DENY_PATTERNS =
     CREDENTIAL_SHAPED_ENV_DENY_PATTERNS @
     [Begins ''ai_'', Begins ''brave_search_'', Begins ''adzuna_'', Begins ''jooble_'', Begins ''reed_'', Begins ''jobspipe_'', Begins ''theirstack_'']"

definition isDeniedProviderEnvironmentName :: "string \<Rightarrow> bool" where
  "isDeniedProviderEnvironmentName name = list_ex (\<lambda>p. pattern_test p name) PROVIDER_ENVIRONMENT_DENY_PATTERNS"

definition isDeniedDaemonEnvironmentName :: "string \<Rightarrow> bool" where
  "isDeniedDaemonEnvironmentName name = list_ex (\<lambda>p. pattern_test p name) DAEMON_ENVIRONMENT_DENY_PATTERNS"


section \<open>Names that are granted\<close>

definition WINDOWS_REQUIRED_VARIABLES :: "string list" where
  "WINDOWS_REQUIRED_VARIABLES =
     [''PATH'', ''PATHEXT'', ''COMSPEC'', ''SystemRoot'', ''SystemDrive'', ''windir'', ''USERPROFILE'', ''HOMEDRIVE'', ''HOMEPATH'', ''APPDATA'',
      ''LOCALAPPDATA'', ''ProgramData'', ''ProgramFiles'', ''ProgramFiles(x86)'', ''ProgramW6432'', ''TEMP'', ''TMP'', ''NUMBER_OF_PROCESSORS'',
      ''OS'', ''PROCESSOR_ARCHITECTURE'']"

definition POSIX_REQUIRED_VARIABLES :: "string list" where
  "POSIX_REQUIRED_VARIABLES =
     [''PATH'', ''HOME'', ''SHELL'', ''USER'', ''LOGNAME'', ''TMPDIR'', ''LANG'', ''LC_ALL'', ''LC_CTYPE'', ''XDG_CONFIG_HOME'', ''XDG_CACHE_HOME'',
      ''XDG_DATA_HOME'', ''XDG_RUNTIME_DIR'', ''DBUS_SESSION_BUS_ADDRESS'']"

definition PROVIDER_CONFIG_VARIABLES :: "string list" where
  "PROVIDER_CONFIG_VARIABLES =
     [''CODEX_HOME'', ''CLAUDE_CONFIG_DIR'', ''HTTP_PROXY'', ''HTTPS_PROXY'', ''ALL_PROXY'', ''NO_PROXY'', ''http_proxy'', ''https_proxy'', ''all_proxy'',
      ''no_proxy'', ''NODE_EXTRA_CA_CERTS'', ''SSL_CERT_FILE'', ''SSL_CERT_DIR'']"

definition providerEnvironmentAllowlist :: "string \<Rightarrow> string list" where
  "providerEnvironmentAllowlist platform =
     (if platform = ''win32'' then WINDOWS_REQUIRED_VARIABLES else POSIX_REQUIRED_VARIABLES) @ PROVIDER_CONFIG_VARIABLES"


section \<open>The two filters\<close>

type_synonym environment = "(string \<times> string option) list"

definition fold_case :: "string \<Rightarrow> string \<Rightarrow> string" where
  "fold_case platform name = (if platform = ''win32'' then js_to_lower name else name)"

definition env_granted :: "string \<Rightarrow> string list \<Rightarrow> string \<Rightarrow> bool" where
  "env_granted platform allowlist name \<longleftrightarrow>
     fold_case platform name \<in> set (map (fold_case platform) allowlist) \<and> \<not> isDeniedProviderEnvironmentName name"

fun split_environment :: "(string \<Rightarrow> bool) \<Rightarrow> environment \<Rightarrow> (string \<times> string) list \<times> string list" where
  "split_environment granted [] = ([], [])"
| "split_environment granted ((name, value) # entries) =
     (let (env, dropped) = split_environment granted entries
      in case value of
           None \<Rightarrow> (env, dropped)
         | Some v \<Rightarrow> if granted name then ((name, v) # env, dropped) else (env, name # dropped))"

definition buildProviderEnvironment :: "string \<Rightarrow> string list option \<Rightarrow> environment \<Rightarrow> (string \<times> string) list \<times> string list" where
  "buildProviderEnvironment platform allowlistOverride parentEnv =
     (let allowlist = (case allowlistOverride of None \<Rightarrow> providerEnvironmentAllowlist platform | Some l \<Rightarrow> l);
          (env, dropped) = split_environment (env_granted platform allowlist) parentEnv
      in (env, sort dropped))"

text \<open>On an ordinary object, the assignment to \<^verbatim>\<open>__proto__\<close> of a string is not an entry.\<close>

definition buildDaemonEnvironment :: "environment \<Rightarrow> environment" where
  "buildDaemonEnvironment parentEnv =
     filter (\<lambda>(name, value). value \<noteq> None \<and> \<not> isDeniedDaemonEnvironmentName name \<and> name \<noteq> ''__proto__'') parentEnv"


section \<open>The arguments\<close>

datatype hardening = Not_hardened | Hardened | No_network | Web_only

record start_request =
  sr_sessionId :: string
  sr_prompt :: string
  sr_resumeProviderSessionId :: "string option"
  sr_model :: "string option"
  sr_hardened :: hardening
  sr_attachments :: "(string \<times> string) list"

definition CLAUDE_HARDENED_TOOLS :: "string list" where
  "CLAUDE_HARDENED_TOOLS = [''Read'', ''Write'', ''Edit'', ''Glob'', ''Grep'', ''NotebookEdit'', ''WebFetch'', ''WebSearch'']"

definition CLAUDE_HARDENED_DISALLOWED_TOOLS :: "string list" where
  "CLAUDE_HARDENED_DISALLOWED_TOOLS = [''Bash'', ''PowerShell'']"

definition CLAUDE_HARDENED_TOOLS_NO_NETWORK :: "string list" where
  "CLAUDE_HARDENED_TOOLS_NO_NETWORK = [''Read'', ''Write'', ''Edit'', ''Glob'', ''Grep'', ''NotebookEdit'']"

definition CLAUDE_HARDENED_TOOLS_WEB_ONLY :: "string list" where
  "CLAUDE_HARDENED_TOOLS_WEB_ONLY = [''WebSearch'', ''WebFetch'']"

definition hardening_args :: "string list \<Rightarrow> string list" where
  "hardening_args tools =
     [''--safe-mode'', ''--strict-mcp-config'', ''--setting-sources'', '''', ''--disable-slash-commands'', ''--tools'', js_join '','' tools,
      ''--disallowed-tools'', js_join '','' CLAUDE_HARDENED_DISALLOWED_TOOLS]"

definition CLAUDE_HARDENING_ARGS :: "string list" where
  "CLAUDE_HARDENING_ARGS = hardening_args CLAUDE_HARDENED_TOOLS"

definition CLAUDE_HARDENING_ARGS_NO_NETWORK :: "string list" where
  "CLAUDE_HARDENING_ARGS_NO_NETWORK = hardening_args CLAUDE_HARDENED_TOOLS_NO_NETWORK"

definition CLAUDE_HARDENING_ARGS_WEB_ONLY :: "string list" where
  "CLAUDE_HARDENING_ARGS_WEB_ONLY = hardening_args CLAUDE_HARDENED_TOOLS_WEB_ONLY"

text \<open>A string that is empty counts as absent.\<close>

definition nonempty :: "string option \<Rightarrow> string option" where
  "nonempty s = (if s = Some [] then None else s)"

definition buildClaudeArgs :: "start_request \<Rightarrow> string list" where
  "buildClaudeArgs opts =
     (let inputFormat = (if sr_attachments opts \<noteq> [] then ''stream-json'' else ''text'')
      in [''-p'', ''--input-format'', inputFormat, ''--output-format'', ''stream-json'', ''--verbose''] @
         (case nonempty (sr_resumeProviderSessionId opts) of
            Some i \<Rightarrow> [''--resume'', i]
          | None \<Rightarrow> [''--session-id'', sr_sessionId opts]) @
         (case nonempty (sr_model opts) of Some m \<Rightarrow> [''--model'', m] | None \<Rightarrow> []) @
         (case sr_hardened opts of
            Web_only \<Rightarrow> CLAUDE_HARDENING_ARGS_WEB_ONLY
          | No_network \<Rightarrow> CLAUDE_HARDENING_ARGS_NO_NETWORK
          | Hardened \<Rightarrow> CLAUDE_HARDENING_ARGS
          | Not_hardened \<Rightarrow> []))"

definition CODEX_STDIN_PROMPT_PLACEHOLDER :: string where
  "CODEX_STDIN_PROMPT_PLACEHOLDER = ''-''"

definition CODEX_IGNORE_USER_CONFIG_ARG :: string where
  "CODEX_IGNORE_USER_CONFIG_ARG = ''--ignore-user-config''"

definition attachmentArgs :: "start_request \<Rightarrow> string list" where
  "attachmentArgs opts = concat (map (\<lambda>(path, mimeType). [''--image'', path]) (sr_attachments opts))"

definition buildCodexArgs :: "start_request \<Rightarrow> string list" where
  "buildCodexArgs opts =
     (case nonempty (sr_resumeProviderSessionId opts) of
        Some i \<Rightarrow> [''exec'', ''resume'', i, CODEX_STDIN_PROMPT_PLACEHOLDER, ''--json'', ''--skip-git-repo-check'', CODEX_IGNORE_USER_CONFIG_ARG] @ attachmentArgs opts
      | None \<Rightarrow> [''exec'', CODEX_STDIN_PROMPT_PLACEHOLDER, ''--json'', ''--skip-git-repo-check'', CODEX_IGNORE_USER_CONFIG_ARG] @ attachmentArgs opts)"


section \<open>What a process sees\<close>

lemma split_environment_eq:
  "split_environment granted entries =
     (List.map_filter (\<lambda>(name, value). if granted name then map_option (Pair name) value else None) entries,
      map fst (filter (\<lambda>(name, value). value \<noteq> None \<and> \<not> granted name) entries))"
proof (induction granted entries rule: split_environment.induct)
  case (2 granted name v entries)
  then show ?case by (cases v) (simp_all add: List.map_filter_simps)
qed (simp add: List.map_filter_simps)

lemma map_filter_mono: "(\<And>x. x \<in> set xs \<Longrightarrow> f x \<noteq> None \<Longrightarrow> P x) \<Longrightarrow> List.map_filter f (filter P xs) = List.map_filter f xs"
  by (induction xs) (auto simp: List.map_filter_simps split: option.split)

lemma daemon_denied_provider_denied: "isDeniedDaemonEnvironmentName n \<Longrightarrow> isDeniedProviderEnvironmentName n"
  by (auto simp: isDeniedDaemonEnvironmentName_def isDeniedProviderEnvironmentName_def DAEMON_ENVIRONMENT_DENY_PATTERNS_def
      PROVIDER_ENVIRONMENT_DENY_PATTERNS_def)

text \<open>Nothing that is granted is denied, so that the grants are the policy.\<close>

fun lower_test :: "string \<Rightarrow> name_pattern \<Rightarrow> bool" where
  "lower_test n (Has s) = js_includes n s"
| "lower_test n (Begins s) = prefix s n"
| "lower_test n (Ends s) = prefix (rev s) (rev n)"

lemma denied_lower: "isDeniedProviderEnvironmentName n \<longleftrightarrow> list_ex (lower_test (js_to_lower n)) PROVIDER_ENVIRONMENT_DENY_PATTERNS"
proof -
  have "pattern_test p n = lower_test (js_to_lower n) p" for p by (cases p) (simp_all add: suffix_to_prefix)
  then show ?thesis by (simp add: isDeniedProviderEnvironmentName_def)
qed

lemma none_denied:
  "list_all (\<lambda>n. \<not> isDeniedProviderEnvironmentName n) ns \<longleftrightarrow>
     list_all (\<lambda>m. \<not> list_ex (lower_test m) PROVIDER_ENVIRONMENT_DENY_PATTERNS) (map js_to_lower ns)"
  by (simp add: denied_lower list_all_iff)

lemmas lower_simps = js_to_lower_def lower_char_def char_of_eq_iff

lemma windows_lower:
  "map js_to_lower WINDOWS_REQUIRED_VARIABLES =
     [''path'', ''pathext'', ''comspec'', ''systemroot'', ''systemdrive'', ''windir'', ''userprofile'', ''homedrive'', ''homepath'', ''appdata'',
      ''localappdata'', ''programdata'', ''programfiles'', ''programfiles(x86)'', ''programw6432'', ''temp'', ''tmp'', ''number_of_processors'',
      ''os'', ''processor_architecture'']"
  by (simp add: WINDOWS_REQUIRED_VARIABLES_def lower_simps)

lemma posix_lower:
  "map js_to_lower POSIX_REQUIRED_VARIABLES =
     [''path'', ''home'', ''shell'', ''user'', ''logname'', ''tmpdir'', ''lang'', ''lc_all'', ''lc_ctype'', ''xdg_config_home'', ''xdg_cache_home'',
      ''xdg_data_home'', ''xdg_runtime_dir'', ''dbus_session_bus_address'']"
  by (simp add: POSIX_REQUIRED_VARIABLES_def lower_simps)

lemma config_lower:
  "map js_to_lower PROVIDER_CONFIG_VARIABLES =
     [''codex_home'', ''claude_config_dir'', ''http_proxy'', ''https_proxy'', ''all_proxy'', ''no_proxy'', ''http_proxy'', ''https_proxy'', ''all_proxy'',
      ''no_proxy'', ''node_extra_ca_certs'', ''ssl_cert_file'', ''ssl_cert_dir'']"
  by (simp add: PROVIDER_CONFIG_VARIABLES_def lower_simps)

lemmas deny_lists = PROVIDER_ENVIRONMENT_DENY_PATTERNS_def CREDENTIAL_SHAPED_ENV_DENY_PATTERNS_def

lemma windows_not_denied: "list_all (\<lambda>n. \<not> isDeniedProviderEnvironmentName n) WINDOWS_REQUIRED_VARIABLES"
  unfolding none_denied windows_lower by (simp add: deny_lists)

lemma posix_not_denied: "list_all (\<lambda>n. \<not> isDeniedProviderEnvironmentName n) POSIX_REQUIRED_VARIABLES"
  unfolding none_denied posix_lower by (simp add: deny_lists)

lemma config_not_denied: "list_all (\<lambda>n. \<not> isDeniedProviderEnvironmentName n) PROVIDER_CONFIG_VARIABLES"
  unfolding none_denied config_lower by (simp add: deny_lists)

lemma allowlist_granted: "n \<in> set (providerEnvironmentAllowlist platform) \<Longrightarrow> env_granted platform (providerEnvironmentAllowlist platform) n"
  using windows_not_denied posix_not_denied config_not_denied
  by (auto simp: env_granted_def providerEnvironmentAllowlist_def list_all_iff)

lemma proto_not_granted: "\<not> env_granted platform (providerEnvironmentAllowlist platform) ''__proto__''"
proof -
  have "''__proto__'' \<notin> set (map js_to_lower WINDOWS_REQUIRED_VARIABLES)" "''__proto__'' \<notin> set (map js_to_lower PROVIDER_CONFIG_VARIABLES)"
    unfolding windows_lower config_lower by simp_all
  moreover have "''__proto__'' \<notin> set POSIX_REQUIRED_VARIABLES" "''__proto__'' \<notin> set PROVIDER_CONFIG_VARIABLES"
    by (simp_all add: POSIX_REQUIRED_VARIABLES_def PROVIDER_CONFIG_VARIABLES_def)
  moreover have "js_to_lower ''__proto__'' = ''__proto__''" by (simp add: lower_simps)
  ultimately show ?thesis by (auto simp: env_granted_def fold_case_def providerEnvironmentAllowlist_def)
qed



section \<open>What a process is told\<close>

text \<open>
  The arguments never depend on the prompt, which every process of the same user could read there; and a hardened Claude session
  ends with one of three fixed argument lists: shells are never among the tools, and one of the network and the files is missing from the other two.
\<close>

definition profile_tools :: "hardening \<Rightarrow> string list" where
  "profile_tools h =
     (case h of No_network \<Rightarrow> CLAUDE_HARDENED_TOOLS_NO_NETWORK | Web_only \<Rightarrow> CLAUDE_HARDENED_TOOLS_WEB_ONLY | _ \<Rightarrow> CLAUDE_HARDENED_TOOLS)"

lemma hardened_suffix: "sr_hardened opts \<noteq> Not_hardened \<Longrightarrow> suffix (hardening_args (profile_tools (sr_hardened opts))) (buildClaudeArgs opts)"
  by (cases "sr_hardened opts")
    (auto simp: buildClaudeArgs_def CLAUDE_HARDENING_ARGS_def CLAUDE_HARDENING_ARGS_NO_NETWORK_def CLAUDE_HARDENING_ARGS_WEB_ONLY_def
      profile_tools_def Let_def suffix_def)

lemma profile_no_shell: "set (profile_tools h) \<inter> set CLAUDE_HARDENED_DISALLOWED_TOOLS = {}"
  by (cases h) (simp_all add: profile_tools_def CLAUDE_HARDENED_TOOLS_def CLAUDE_HARDENED_TOOLS_NO_NETWORK_def CLAUDE_HARDENED_TOOLS_WEB_ONLY_def
      CLAUDE_HARDENED_DISALLOWED_TOOLS_def)

lemma profile_separates: "set (profile_tools No_network) \<inter> set (profile_tools Web_only) = {}"
  by (simp add: profile_tools_def CLAUDE_HARDENED_TOOLS_NO_NETWORK_def CLAUDE_HARDENED_TOOLS_WEB_ONLY_def)

theorem arguments_reveal_no_prompt:
  "buildClaudeArgs (opts\<lparr>sr_prompt := p\<rparr>) = buildClaudeArgs opts \<and> buildCodexArgs (opts\<lparr>sr_prompt := p\<rparr>) = buildCodexArgs opts \<and>
   (sr_hardened opts = Not_hardened \<or> suffix (hardening_args (profile_tools (sr_hardened opts))) (buildClaudeArgs opts)) \<and>
   set (profile_tools h) \<inter> set CLAUDE_HARDENED_DISALLOWED_TOOLS = {} \<and> set (profile_tools No_network) \<inter> set (profile_tools Web_only) = {}"
proof -
  have "buildClaudeArgs (opts\<lparr>sr_prompt := p\<rparr>) = buildClaudeArgs opts" "buildCodexArgs (opts\<lparr>sr_prompt := p\<rparr>) = buildCodexArgs opts"
    by (simp_all add: buildClaudeArgs_def buildCodexArgs_def attachmentArgs_def split: option.split)
  then show ?thesis using hardened_suffix profile_no_shell profile_separates by blast
qed

end
