(* ===== verification/Persisted_Schema.thy ===== *)
theory Persisted_Schema
  imports Stage_Routing Unknown_Frames
begin

text \<open>
  What the daemon writes to disk about a session, and the redaction that produces it
  (\<^verbatim>\<open>apps/daemon/src/persisted-session-schema.ts\<close>, with the digests of \<^verbatim>\<open>packages/shared/src/content-digest.ts\<close>).

  An event is generic in the type of its content (messages, tool inputs and results, details): a live event
  has the text itself, and what redaction may depend on is the event with every content replaced by its
  digest. SHA-256 is an argument.
\<close>

section \<open>Events\<close>

text \<open>An \<^verbatim>\<open>unknown\<close> payload: what \<^verbatim>\<open>JSON.stringify\<close> makes of it, if it makes anything.\<close>

datatype 'c payload = Encodes 'c | Unserializable

record rate_window =
  rw_usedPercent :: rat
  rw_windowDurationMins :: "rat option"
  rw_resetsAt :: "rat option"

record usage_report =
  us_inputTokens :: "rat option"
  us_outputTokens :: "rat option"
  us_cachedInputTokens :: "rat option"
  us_cost :: "rat option"
  us_contextTokens :: "rat option"
  us_contextWindowTokens :: "rat option"

datatype 'c agent_event =
    A_session_started string ProviderId "units option"
  | A_status units "'c option"
  | A_assistant_message 'c
  | A_thinking_delta 'c
  | A_tool_started units "units option" "'c payload option"
  | A_tool_completed "units option" "units option" "'c payload option" "bool option" "string option"
  | A_usage usage_report
  | A_rate_limits "units option" "units option" "rate_window option" "rate_window option"
  | A_error "units option" 'c bool
  | A_session_completed "units option"
  | A_session_failed 'c
  | A_session_cancelled

record 'c envelope =
  env_sequence :: nat
  env_timestamp :: string
  env_event :: "'c agent_event"

record ContentDigest =
  cd_bytes :: nat
  cd_sha256 :: string

datatype persisted_event =
    P_session_started string ProviderId "units option"
  | P_status units "ContentDigest option"
  | P_assistant_message ContentDigest
  | P_thinking_delta ContentDigest
  | P_tool_started units "units option" "ContentDigest option"
  | P_tool_completed "units option" "units option" "bool option" "ContentDigest option" "string option"
  | P_usage usage_report
  | P_rate_limits "units option" "units option" "rate_window option" "rate_window option"
  | P_error "units option" bool ContentDigest
  | P_session_completed "units option"
  | P_session_failed ContentDigest
  | P_session_cancelled
  | P_session_interrupted

record PersistedEventRecord =
  pe_sequence :: nat
  pe_timestamp :: string
  pe_event :: persisted_event


section \<open>Digests\<close>

definition digestOfText :: "(units \<Rightarrow> string) \<Rightarrow> units \<Rightarrow> ContentDigest" where
  "digestOfText sha256OfText t = \<lparr>cd_bytes = utf8_units t, cd_sha256 = sha256OfText t\<rparr>"

definition UNSERIALIZABLE_SENTINEL :: units where
  "UNSERIALIZABLE_SENTINEL = ascii_units ''<unserializable>''"

definition digestOfUnknown :: "(units \<Rightarrow> string) \<Rightarrow> units payload \<Rightarrow> ContentDigest" where
  "digestOfUnknown sha256OfText value =
     (let encoded = (case value of Encodes t \<Rightarrow> t | Unserializable \<Rightarrow> UNSERIALIZABLE_SENTINEL)
      in \<lparr>cd_bytes = utf8_units encoded, cd_sha256 = sha256OfText encoded\<rparr>)"


section \<open>Redaction of events\<close>

definition MAX_STATUS_BYTES :: nat where "MAX_STATUS_BYTES = 256"

definition MAX_TOOL_NAME_BYTES :: nat where "MAX_TOOL_NAME_BYTES = 256"

definition MAX_ERROR_CODE_BYTES :: nat where "MAX_ERROR_CODE_BYTES = 128"

definition MAX_RATE_LIMIT_LABEL_BYTES :: nat where "MAX_RATE_LIMIT_LABEL_BYTES = 256"

definition MAX_MODEL_ID_BYTES :: nat where "MAX_MODEL_ID_BYTES = 256"

definition MAX_PROVIDER_SESSION_ID_BYTES :: nat where "MAX_PROVIDER_SESSION_ID_BYTES = 256"

definition MAX_TOOL_CALL_ID_BYTES :: nat where "MAX_TOOL_CALL_ID_BYTES = 256"

definition error_code_unit :: "nat \<Rightarrow> bool" where
  "error_code_unit u \<longleftrightarrow> (65 \<le> u \<and> u \<le> 90) \<or> (97 \<le> u \<and> u \<le> 122) \<or> (48 \<le> u \<and> u \<le> 57) \<or> u = 46 \<or> u = 95 \<or> u = 45"

text \<open>\<^verbatim>\<open>code.replace(/[^A-Za-z0-9._-]+/g, '')\<close>\<close>

definition strip_code :: "units \<Rightarrow> units" where
  "strip_code c = filter error_code_unit c"

definition redact_code :: "units option \<Rightarrow> units option" where
  "redact_code errcode =
     (case errcode of
        None \<Rightarrow> None
      | Some c \<Rightarrow> let kept = truncateToBytes (strip_code c) MAX_ERROR_CODE_BYTES in if kept = [] then None else Some kept)"

fun redact_event :: "(units \<Rightarrow> string) \<Rightarrow> units agent_event \<Rightarrow> persisted_event" where
  "redact_event sha (A_session_started sid provider psid) =
     P_session_started sid provider (map_option (\<lambda>i. truncateToBytes i MAX_PROVIDER_SESSION_ID_BYTES) psid)"
| "redact_event sha (A_status status detail) =
     P_status (truncateToBytes status MAX_STATUS_BYTES) (map_option (digestOfText sha) detail)"
| "redact_event sha (A_assistant_message t) = P_assistant_message (digestOfText sha t)"
| "redact_event sha (A_thinking_delta t) = P_thinking_delta (digestOfText sha t)"
| "redact_event sha (A_tool_started toolName callId input) =
     P_tool_started (truncateToBytes toolName MAX_TOOL_NAME_BYTES)
       (map_option (\<lambda>i. truncateToBytes i MAX_TOOL_CALL_ID_BYTES) callId) (map_option (digestOfUnknown sha) input)"
| "redact_event sha (A_tool_completed toolName callId result isError attachment) =
     P_tool_completed (map_option (\<lambda>n. truncateToBytes n MAX_TOOL_NAME_BYTES) toolName)
       (map_option (\<lambda>i. truncateToBytes i MAX_TOOL_CALL_ID_BYTES) callId) isError (map_option (digestOfUnknown sha) result) attachment"
| "redact_event sha (A_usage u) = P_usage u"
| "redact_event sha (A_rate_limits limitId limitName primary secondary) =
     P_rate_limits (map_option (\<lambda>i. truncateToBytes i MAX_RATE_LIMIT_LABEL_BYTES) limitId)
       (map_option (\<lambda>n. truncateToBytes n MAX_RATE_LIMIT_LABEL_BYTES) limitName) primary secondary"
| "redact_event sha (A_error errcode message recoverable) = P_error (redact_code errcode) recoverable (digestOfText sha message)"
| "redact_event sha (A_session_completed psid) =
     P_session_completed (map_option (\<lambda>i. truncateToBytes i MAX_PROVIDER_SESSION_ID_BYTES) psid)"
| "redact_event sha (A_session_failed message) = P_session_failed (digestOfText sha message)"
| "redact_event sha A_session_cancelled = P_session_cancelled"

definition redactEnvelope :: "(units \<Rightarrow> string) \<Rightarrow> units envelope \<Rightarrow> PersistedEventRecord" where
  "redactEnvelope sha e = \<lparr>pe_sequence = env_sequence e, pe_timestamp = env_timestamp e, pe_event = redact_event sha (env_event e)\<rparr>"

definition interruptedEventRecord :: "nat \<Rightarrow> string \<Rightarrow> PersistedEventRecord" where
  "interruptedEventRecord sequence timestamp =
     \<lparr>pe_sequence = sequence, pe_timestamp = timestamp, pe_event = P_session_interrupted\<rparr>"


section \<open>Session records\<close>

definition PERSISTED_SCHEMA_VERSION :: nat where "PERSISTED_SCHEMA_VERSION = 2"

definition READABLE_SCHEMA_VERSIONS :: "nat list" where "READABLE_SCHEMA_VERSIONS = [1, 2]"

datatype SessionStatusV2 = S_starting | S_running | S_completed | S_failed | S_cancelled | S_interrupted

datatype TerminalReasonV2 = R_provider_completed | R_provider_error | R_cancelled_by_client | R_launch_failed | R_daemon_restart

datatype PersistedAcceptedWork = Pw_unknown | Pw_accepted

datatype continuation = Fresh | Resume

record PersistedLaunchScope =
  pl_executablePath :: "string option"
  pl_providerVersion :: "string option"
  pl_authenticated :: string
  pl_platform :: string

text \<open>A live session of the first protocol version; its status has no interrupted value.\<close>

datatype SessionStatus = V1_starting | V1_running | V1_completed | V1_failed | V1_cancelled

record AgentSession =
  as_id :: string
  as_provider :: ProviderId
  as_cwd :: units
  as_prompt :: units
  as_model :: "units option"
  as_status :: SessionStatus
  as_providerSessionId :: "units option"
  as_error :: "units option"
  as_startedAt :: string
  as_completedAt :: "string option"

record PersistedSessionRecord =
  sr_schemaVersion :: nat
  sr_protocolVersion :: nat
  sr_id :: string
  sr_provider :: ProviderId
  sr_cwd :: units
  sr_model :: "units option"
  sr_status :: SessionStatusV2
  sr_terminalReason :: "TerminalReasonV2 option"
  sr_providerSessionId :: "units option"
  sr_startedAt :: string
  sr_completedAt :: "string option"
  sr_acceptedWork :: PersistedAcceptedWork
  sr_rootSessionId :: string
  sr_parentSessionId :: "string option"
  sr_continuationKind :: continuation
  sr_earliestSequence :: nat
  sr_eventCount :: nat
  sr_eventsTruncated :: bool
  sr_scope :: PersistedLaunchScope
  sr_unknownFrames :: "NormalizedUnknownFrame list"
  sr_selection :: "string option"

record RedactSessionExtras =
  rx_protocolVersion :: nat
  rx_status :: SessionStatusV2
  rx_terminalReason :: "TerminalReasonV2 option"
  rx_acceptedWork :: PersistedAcceptedWork
  rx_rootSessionId :: string
  rx_parentSessionId :: "string option"
  rx_continuationKind :: continuation
  rx_earliestSequence :: nat
  rx_eventCount :: nat
  rx_eventsTruncated :: bool
  rx_scope :: PersistedLaunchScope
  rx_unknownFrames :: "NormalizedUnknownFrame list"
  rx_selection :: "string option"

definition redactSessionForPersistence :: "AgentSession \<Rightarrow> RedactSessionExtras \<Rightarrow> PersistedSessionRecord" where
  "redactSessionForPersistence session extra =
     \<lparr>sr_schemaVersion = PERSISTED_SCHEMA_VERSION, sr_protocolVersion = rx_protocolVersion extra,
      sr_id = as_id session, sr_provider = as_provider session, sr_cwd = as_cwd session,
      sr_model = map_option (\<lambda>m. truncateToBytes m MAX_MODEL_ID_BYTES) (as_model session),
      sr_status = rx_status extra, sr_terminalReason = rx_terminalReason extra,
      sr_providerSessionId = map_option (\<lambda>i. truncateToBytes i MAX_PROVIDER_SESSION_ID_BYTES) (as_providerSessionId session),
      sr_startedAt = as_startedAt session, sr_completedAt = as_completedAt session,
      sr_acceptedWork = rx_acceptedWork extra, sr_rootSessionId = rx_rootSessionId extra,
      sr_parentSessionId = rx_parentSessionId extra, sr_continuationKind = rx_continuationKind extra,
      sr_earliestSequence = rx_earliestSequence extra, sr_eventCount = rx_eventCount extra,
      sr_eventsTruncated = rx_eventsTruncated extra, sr_scope = rx_scope extra,
      sr_unknownFrames = rx_unknownFrames extra, sr_selection = rx_selection extra\<rparr>"

definition INTERRUPTED_SESSION_V1_ERROR :: units where
  "INTERRUPTED_SESSION_V1_ERROR = ascii_units ''daemon restarted before the session completed''"

fun v1_status :: "SessionStatusV2 \<Rightarrow> SessionStatus" where
  "v1_status S_starting = V1_starting"
| "v1_status S_running = V1_running"
| "v1_status S_completed = V1_completed"
| "v1_status S_failed = V1_failed"
| "v1_status S_cancelled = V1_cancelled"
| "v1_status S_interrupted = V1_failed"

definition toV1Session :: "PersistedSessionRecord \<Rightarrow> AgentSession" where
  "toV1Session r =
     \<lparr>as_id = sr_id r, as_provider = sr_provider r, as_cwd = sr_cwd r, as_prompt = [], as_model = sr_model r,
      as_status = v1_status (sr_status r), as_providerSessionId = sr_providerSessionId r,
      as_error = (if sr_status r = S_interrupted then Some INTERRUPTED_SESSION_V1_ERROR else None),
      as_startedAt = sr_startedAt r, as_completedAt = sr_completedAt r\<rparr>"


section \<open>What redaction may depend on\<close>

text \<open>
  The view: the event with each content replaced by its digest. The payloads that cannot be encoded are
  all alike.
\<close>

definition event_view :: "(units \<Rightarrow> string) \<Rightarrow> units agent_event \<Rightarrow> ContentDigest agent_event" where
  "event_view sha e = map_agent_event (digestOfText sha)
     (case e of
        A_tool_started n c (Some Unserializable) \<Rightarrow> A_tool_started n c (Some (Encodes UNSERIALIZABLE_SENTINEL))
      | A_tool_completed n c (Some Unserializable) b a \<Rightarrow> A_tool_completed n c (Some (Encodes UNSERIALIZABLE_SENTINEL)) b a
      | _ \<Rightarrow> e)"

fun stored_of_view :: "ContentDigest agent_event \<Rightarrow> persisted_event" where
  "stored_of_view (A_session_started sid provider psid) =
     P_session_started sid provider (map_option (\<lambda>i. truncateToBytes i MAX_PROVIDER_SESSION_ID_BYTES) psid)"
| "stored_of_view (A_status status detail) = P_status (truncateToBytes status MAX_STATUS_BYTES) detail"
| "stored_of_view (A_assistant_message d) = P_assistant_message d"
| "stored_of_view (A_thinking_delta d) = P_thinking_delta d"
| "stored_of_view (A_tool_started toolName callId input) =
     P_tool_started (truncateToBytes toolName MAX_TOOL_NAME_BYTES) (map_option (\<lambda>i. truncateToBytes i MAX_TOOL_CALL_ID_BYTES) callId)
       (case input of Some (Encodes d) \<Rightarrow> Some d | _ \<Rightarrow> None)"
| "stored_of_view (A_tool_completed toolName callId result isError attachment) =
     P_tool_completed (map_option (\<lambda>n. truncateToBytes n MAX_TOOL_NAME_BYTES) toolName)
       (map_option (\<lambda>i. truncateToBytes i MAX_TOOL_CALL_ID_BYTES) callId) isError
       (case result of Some (Encodes d) \<Rightarrow> Some d | _ \<Rightarrow> None) attachment"
| "stored_of_view (A_usage u) = P_usage u"
| "stored_of_view (A_rate_limits limitId limitName primary secondary) =
     P_rate_limits (map_option (\<lambda>i. truncateToBytes i MAX_RATE_LIMIT_LABEL_BYTES) limitId)
       (map_option (\<lambda>n. truncateToBytes n MAX_RATE_LIMIT_LABEL_BYTES) limitName) primary secondary"
| "stored_of_view (A_error errcode d recoverable) = P_error (redact_code errcode) recoverable d"
| "stored_of_view (A_session_completed psid) =
     P_session_completed (map_option (\<lambda>i. truncateToBytes i MAX_PROVIDER_SESSION_ID_BYTES) psid)"
| "stored_of_view (A_session_failed d) = P_session_failed d"
| "stored_of_view A_session_cancelled = P_session_cancelled"

lemma digestOfUnknown_text:
  "digestOfUnknown sha (Encodes t) = digestOfText sha t"
  "digestOfUnknown sha Unserializable = digestOfText sha UNSERIALIZABLE_SENTINEL"
  by (simp_all add: digestOfUnknown_def digestOfText_def)

lemma redact_through_view: "redact_event sha e = stored_of_view (event_view sha e)"
  by (cases e) (auto simp: event_view_def digestOfUnknown_text split: option.split payload.split)

definition list_of_option :: "'a option \<Rightarrow> 'a list" where
  "list_of_option x = (case x of None \<Rightarrow> [] | Some y \<Rightarrow> [y])"

text \<open>The texts a stored event keeps as they are.\<close>

fun kept_texts :: "persisted_event \<Rightarrow> units list" where
  "kept_texts (P_session_started _ _ psid) = list_of_option psid"
| "kept_texts (P_status s _) = [s]"
| "kept_texts (P_tool_started n c _) = n # list_of_option c"
| "kept_texts (P_tool_completed n c _ _ _) = list_of_option n @ list_of_option c"
| "kept_texts (P_rate_limits i n _ _) = list_of_option i @ list_of_option n"
| "kept_texts (P_error c _ _) = list_of_option c"
| "kept_texts (P_session_completed psid) = list_of_option psid"
| "kept_texts _ = []"

lemma list_of_option_map: "set (list_of_option (map_option f x)) = f ` set_option x"
  by (auto simp: list_of_option_def split: option.split)

lemmas kept_bounds = MAX_STATUS_BYTES_def MAX_TOOL_NAME_BYTES_def MAX_ERROR_CODE_BYTES_def MAX_RATE_LIMIT_LABEL_BYTES_def
  MAX_PROVIDER_SESSION_ID_BYTES_def MAX_TOOL_CALL_ID_BYTES_def

lemma redact_code_bytes: "t \<in> set (list_of_option (redact_code c)) \<Longrightarrow> utf8_units t \<le> 128"
  by (auto simp: redact_code_def list_of_option_def MAX_ERROR_CODE_BYTES_def Let_def truncateToBytes_bytes
      split: option.splits if_splits)

lemma kept_texts_bytes: "t \<in> set (kept_texts (redact_event sha e)) \<Longrightarrow> utf8_units t \<le> 256"
  by (cases e) (auto simp: list_of_option_map kept_bounds truncateToBytes_bytes dest: redact_code_bytes)

text \<open>
  C36. No content reaches the disk. What is stored of an event is a function of the event with every message,
  detail, tool input and tool result replaced by its length and hash, and the labels kept in clear are at
  most 256 bytes each; what is stored of a session does not depend on its prompt or its error; and what a
  client of the first protocol version reads back is the session without them (an interrupted one as failed).
\<close>

theorem redaction_content_free:
  "redactEnvelope sha e =
     \<lparr>pe_sequence = env_sequence e, pe_timestamp = env_timestamp e, pe_event = stored_of_view (event_view sha (env_event e))\<rparr> \<and>
   list_all (\<lambda>t. utf8_units t \<le> 256) (kept_texts (pe_event (redactEnvelope sha e))) \<and>
   redactSessionForPersistence (session\<lparr>as_prompt := prompt, as_error := error\<rparr>) extra = redactSessionForPersistence session extra \<and>
   toV1Session (redactSessionForPersistence session extra) =
     session\<lparr>as_prompt := [], as_model := map_option (\<lambda>m. truncateToBytes m 256) (as_model session), as_status := v1_status (rx_status extra),
       as_providerSessionId := map_option (\<lambda>i. truncateToBytes i 256) (as_providerSessionId session),
       as_error := (if rx_status extra = S_interrupted then Some INTERRUPTED_SESSION_V1_ERROR else None)\<rparr>"
  by (auto simp: redactEnvelope_def redact_through_view [symmetric] list_all_iff kept_texts_bytes redactSessionForPersistence_def
      toV1Session_def MAX_MODEL_ID_BYTES_def MAX_PROVIDER_SESSION_ID_BYTES_def)

end
