(* ===== verification/Session_Manager.thy ===== *)
theory Session_Manager
  imports Persisted_Schema Session_Limiter Workspace_Lease
begin

text \<open>
  The daemon's session manager (\<^verbatim>\<open>apps/daemon/src/session-manager.ts\<close>, with \<^verbatim>\<open>session-store.ts\<close>). It composes the limiter, the workspace leases,
  the session records, the event history of each session and its subscribers, and the workspaces that must not admit a session.

  \<^verbatim>\<open>create\<close> has no await and is one function; \<^verbatim>\<open>consume\<close> is cut at its awaits (the next event, the cancellation after an event that is too
  large), \<^verbatim>\<open>remove\<close> at its own. A session's runtime object outlives its entry in the map as long as its consumer holds it, so the objects
  are kept apart from the list of registered ids. The calls on the durable store are recorded in order; sizes of serialized events, timestamps
  and the answers of the registry, the provider, the durable store and the attachment store are arguments.
\<close>

section \<open>The state\<close>

definition MAX_STORED_EVENTS_PER_SESSION :: nat where
  "MAX_STORED_EVENTS_PER_SESSION = 5000"

definition MAX_STORED_EVENT_BYTES_PER_SESSION :: nat where
  "MAX_STORED_EVENT_BYTES_PER_SESSION = 16 * 1024 * 1024"

definition MAX_EVENT_ENVELOPE_BYTES :: nat where
  "MAX_EVENT_ENVELOPE_BYTES = 1024 * 1024"

definition RESULT_ATTACHMENT_ID_RESERVE_BYTES :: nat where
  "RESULT_ATTACHMENT_ID_RESERVE_BYTES = 128"

definition MAX_RETAINED_COMPLETED_SESSIONS :: nat where
  "MAX_RETAINED_COMPLETED_SESSIONS = 50"

definition ATTACHMENT_WORTHY_RESULT_BYTES :: nat where
  "ATTACHMENT_WORTHY_RESULT_BYTES = 8000"

definition MAX_ATTACHMENT_BYTES :: nat where
  "MAX_ATTACHMENT_BYTES = 1024 * 1024"

text \<open>
  A subscriber with everything it was called with. Where it joined (the length of the history, the number of
  sequence numbers handed out) is kept for the statements.
\<close>

record subscriber =
  li_since :: nat
  li_history :: nat
  li_joined :: nat
  li_active :: bool
  li_calls :: "(nat \<times> units envelope) list"

datatype consumer = Consuming | Failing nat | Consumed

record RuntimeState =
  rt_events :: "units envelope list"
  rt_replayBytes :: nat
  rt_replayFull :: bool
  rt_listeners :: "subscriber list"
  rt_nextSequence :: nat
  rt_consumer :: consumer

datatype durable_call =
    D_create string
  | D_appendEvent string "units envelope"
  | D_setProviderSessionId string units
  | D_setUnknownFrames string
  | D_finalize string SessionStatusV2

record SessionManager =
  sm_objects :: "(string, RuntimeState) jmap"
  sm_runtime :: "string list"
  sm_completedOrder :: "string list"
  sm_blockedWorkspaces :: "string list"
  sm_epochs :: "(string, nat) jmap"
  sm_sessionsByWorkspace :: "(string, string list) jmap"
  sm_workspaceBySession :: "(string, string) jmap"
  sm_store :: "(string, AgentSession) jmap"
  sm_limiter :: ActiveSessionLimiter
  sm_leases :: "WorkspaceExecutionLeaseManager option"
  sm_durable :: "durable_call list option"
  sm_cancels :: "string list"
  sm_stranded :: "string list"

text \<open>
  \<open>sm_cancels\<close> are the sessions \<^verbatim>\<open>handle.cancel()\<close> was called for. \<open>sm_stranded\<close> is kept for the statements only: the launches whose closing
  write threw.
\<close>

definition durable_do :: "durable_call \<Rightarrow> SessionManager \<Rightarrow> SessionManager" where
  "durable_do call m = m\<lparr>sm_durable := map_option (\<lambda>calls. calls @ [call]) (sm_durable m)\<rparr>"

definition insert_id :: "string \<Rightarrow> string list \<Rightarrow> string list" where
  "insert_id i ids = (if i \<in> set ids then ids else ids @ [i])"


section \<open>Retention\<close>

function evictOldestCompletedIfOverCap :: "SessionManager \<Rightarrow> SessionManager" where
  "evictOldestCompletedIfOverCap m =
     (if length (sm_completedOrder m) > MAX_RETAINED_COMPLETED_SESSIONS
      then (case sm_completedOrder m of
              [] \<Rightarrow> m
            | staleId # rest \<Rightarrow>
                evictOldestCompletedIfOverCap
                  (m\<lparr>sm_completedOrder := rest, sm_runtime := removeAll staleId (sm_runtime m), sm_store := jdelete (sm_store m) staleId\<rparr>))
      else m)"
  by pat_completeness auto
termination
  by (relation "measure (\<lambda>m. length (sm_completedOrder m))") auto

declare evictOldestCompletedIfOverCap.simps [simp del]

definition completionOrderKey :: "(string \<Rightarrow> int option) \<Rightarrow> PersistedSessionRecord \<Rightarrow> int" where
  "completionOrderKey parse r =
     (case parse (case sr_completedAt r of Some c \<Rightarrow> c | None \<Rightarrow> sr_startedAt r) of Some stamp \<Rightarrow> stamp | None \<Rightarrow> 0)"

text \<open>The constructor: with a durable store, its records are the first sessions.\<close>

definition new_session_manager ::
  "(string \<Rightarrow> int option) \<Rightarrow> WorkspaceExecutionLeaseManager option \<Rightarrow> PersistedSessionRecord list option \<Rightarrow> SessionManager" where
  "new_session_manager parse leases durable =
     (let m0 = \<lparr>sm_objects = [], sm_runtime = [], sm_completedOrder = [], sm_blockedWorkspaces = [], sm_epochs = [], sm_sessionsByWorkspace = [],
                 sm_workspaceBySession = [], sm_store = [], sm_limiter = new_limiter, sm_leases = leases,
                 sm_durable = map_option (\<lambda>_. []) durable, sm_cancels = [], sm_stranded = []\<rparr>
      in case durable of
           None \<Rightarrow> m0
         | Some recovered \<Rightarrow>
             evictOldestCompletedIfOverCap
               (m0\<lparr>sm_store := foldl (\<lambda>st r. jset st (sr_id r) (toV1Session r)) [] recovered,
                    sm_completedOrder := map sr_id (sort_key (completionOrderKey parse) recovered)\<rparr>))"


section \<open>Workspaces\<close>

definition workspaceEpoch :: "SessionManager \<Rightarrow> string \<Rightarrow> nat" where
  "workspaceEpoch m workspaceId = (case jget (sm_epochs m) workspaceId of Some n \<Rightarrow> n | None \<Rightarrow> 0)"

definition isWorkspaceBlocked :: "SessionManager \<Rightarrow> string \<Rightarrow> bool" where
  "isWorkspaceBlocked m workspaceId \<longleftrightarrow> workspaceId \<in> set (sm_blockedWorkspaces m)"

definition bumpWorkspaceEpoch :: "string \<Rightarrow> SessionManager \<Rightarrow> SessionManager" where
  "bumpWorkspaceEpoch workspaceId m = m\<lparr>sm_epochs := jset (sm_epochs m) workspaceId (workspaceEpoch m workspaceId + 1)\<rparr>"

definition allowWorkspace :: "string \<Rightarrow> SessionManager \<Rightarrow> SessionManager" where
  "allowWorkspace workspaceId m =
     bumpWorkspaceEpoch workspaceId (m\<lparr>sm_blockedWorkspaces := removeAll workspaceId (sm_blockedWorkspaces m)\<rparr>)"

definition blockWorkspace :: "string \<Rightarrow> SessionManager \<Rightarrow> SessionManager" where
  "blockWorkspace workspaceId m =
     bumpWorkspaceEpoch workspaceId (m\<lparr>sm_blockedWorkspaces := insert_id workspaceId (sm_blockedWorkspaces m)\<rparr>)"

definition sessionsInWorkspace :: "SessionManager \<Rightarrow> string \<Rightarrow> string list" where
  "sessionsInWorkspace m workspaceId = (case jget (sm_sessionsByWorkspace m) workspaceId of Some ids \<Rightarrow> ids | None \<Rightarrow> [])"

definition indexWorkspaceSession :: "string \<Rightarrow> string \<Rightarrow> SessionManager \<Rightarrow> SessionManager" where
  "indexWorkspaceSession workspaceId sessionId m =
     m\<lparr>sm_sessionsByWorkspace := jset (sm_sessionsByWorkspace m) workspaceId (insert_id sessionId (sessionsInWorkspace m workspaceId)),
       sm_workspaceBySession := jset (sm_workspaceBySession m) sessionId workspaceId\<rparr>"

definition unindexWorkspaceSession :: "string \<Rightarrow> SessionManager \<Rightarrow> SessionManager" where
  "unindexWorkspaceSession sessionId m =
     (case jget (sm_workspaceBySession m) sessionId of
        None \<Rightarrow> m
      | Some workspaceId \<Rightarrow>
          (let m1 = m\<lparr>sm_workspaceBySession := jdelete (sm_workspaceBySession m) sessionId\<rparr>
           in case jget (sm_sessionsByWorkspace m1) workspaceId of
                None \<Rightarrow> m1
              | Some ids \<Rightarrow>
                  (let left_ids = removeAll sessionId ids
                   in m1\<lparr>sm_sessionsByWorkspace :=
                          (if left_ids = [] then jdelete (sm_sessionsByWorkspace m1) workspaceId
                           else jset (sm_sessionsByWorkspace m1) workspaceId left_ids)\<rparr>)))"

definition cancelRuntime :: "string \<Rightarrow> SessionManager \<Rightarrow> SessionManager" where
  "cancelRuntime sessionId m = m\<lparr>sm_cancels := sm_cancels m @ [sessionId]\<rparr>"

definition revokeWorkspace :: "string \<Rightarrow> SessionManager \<Rightarrow> string list \<times> SessionManager" where
  "revokeWorkspace workspaceId m =
     (let m1 = blockWorkspace workspaceId m; ids = sessionsInWorkspace m1 workspaceId
      in (ids, foldl (\<lambda>m i. if i \<in> set (sm_runtime m) then cancelRuntime i m else m) m1 ids))"

text \<open>The three stretches of \<^verbatim>\<open>workspaceIsTrusted\<close>, each on the manager it finds when it resumes.\<close>

definition workspaceIsTrusted ::
  "bool \<Rightarrow> string \<Rightarrow> nat \<Rightarrow> bool \<Rightarrow> bool \<Rightarrow> SessionManager \<Rightarrow> SessionManager \<Rightarrow> SessionManager \<Rightarrow> bool" where
  "workspaceIsTrusted hasTrustStore workspaceId expectedEpoch stillTheSame trusted m0 m1 m2 \<longleftrightarrow>
     hasTrustStore \<and> \<not> isWorkspaceBlocked m0 workspaceId \<and> workspaceEpoch m0 workspaceId = expectedEpoch \<and>
     workspaceEpoch m1 workspaceId = expectedEpoch \<and> stillTheSame \<and>
     workspaceEpoch m2 workspaceId = expectedEpoch \<and>
     trusted \<and> \<not> isWorkspaceBlocked m2 workspaceId \<and> workspaceEpoch m2 workspaceId = expectedEpoch"


section \<open>Creating a session\<close>

datatype create_error =
    No_provider
  | Foreign_lease
  | RevokedWorkspaceError string
  | StaleWorkspaceGrantError string
  | Limit limiter_error
  | Durable_create_failed
  | Durable_finalize_failed
  | Start_failed

record create_request =
  cr_session :: AgentSession
  cr_providerKnown :: bool
  cr_leaseSession :: "string option"
  cr_workspaceId :: "string option"
  cr_expectedEpoch :: "nat option"
  cr_durableCreateFails :: bool
  cr_startFails :: bool
  cr_finalizeFails :: bool

text \<open>A new session's record carries the request's id, provider, folder, prompt and model.\<close>

definition new_session :: "create_request \<Rightarrow> AgentSession" where
  "new_session req =
     (cr_session req)\<lparr>as_status := V1_starting, as_completedAt := None, as_providerSessionId := None, as_error := None\<rparr>"

definition new_runtime :: RuntimeState where
  "new_runtime = \<lparr>rt_events = [], rt_replayBytes = 0, rt_replayFull = False, rt_listeners = [], rt_nextSequence = 0, rt_consumer = Consuming\<rparr>"

text \<open>The checks before the reservation, in order.\<close>

definition admission_refusal :: "create_request \<Rightarrow> SessionManager \<Rightarrow> create_error option" where
  "admission_refusal req m =
     (let i = as_id (cr_session req)
      in if \<not> cr_providerKnown req then Some No_provider
         else if cr_leaseSession req \<noteq> None \<and> cr_leaseSession req \<noteq> Some i then Some Foreign_lease
         else case cr_workspaceId req of
                None \<Rightarrow> None
              | Some w \<Rightarrow>
                  if isWorkspaceBlocked m w then Some (RevokedWorkspaceError w)
                  else case cr_expectedEpoch req of
                         None \<Rightarrow> None
                       | Some epoch \<Rightarrow> if workspaceEpoch m w \<noteq> epoch then Some (StaleWorkspaceGrantError w) else None)"

text \<open>The \<^verbatim>\<open>catch\<close>: when closing the durable record throws in its turn, the record in memory is not deleted.\<close>

definition create_catch :: "bool \<Rightarrow> bool \<Rightarrow> bool \<Rightarrow> string \<Rightarrow> create_error \<Rightarrow> SessionManager \<Rightarrow> create_error \<times> SessionManager" where
  "create_catch reserved recorded finalizeFails i err m =
     (let m1 = (if reserved then m\<lparr>sm_limiter := snd (limiter_release i (sm_limiter m))\<rparr> else m);
          m2 = m1\<lparr>sm_leases := map_option (releaseForSession i) (sm_leases m1)\<rparr>;
          m3 = (if recorded then durable_do (D_finalize i S_failed) m2 else m2)
      in if recorded \<and> finalizeFails then (Durable_finalize_failed, m3\<lparr>sm_stranded := i # sm_stranded m3\<rparr>)
         else (err, m3\<lparr>sm_store := jdelete (sm_store m3) i\<rparr>))"

definition mutateSession :: "string \<Rightarrow> (AgentSession \<Rightarrow> AgentSession) \<Rightarrow> SessionManager \<Rightarrow> SessionManager" where
  "mutateSession i f m =
     (case jget (sm_store m) i of None \<Rightarrow> m | Some session \<Rightarrow> m\<lparr>sm_store := jset (sm_store m) i (f session)\<rparr>)"

text \<open>What follows a start: the runtime object, the workspace index, and \<^verbatim>\<open>consume\<close> up to its first await.\<close>

definition go_live :: "create_request \<Rightarrow> SessionManager \<Rightarrow> SessionManager" where
  "go_live req m =
     (let i = as_id (cr_session req);
          m1 = m\<lparr>sm_objects := jset (sm_objects m) i new_runtime, sm_runtime := insert_id i (sm_runtime m)\<rparr>;
          m2 = (case cr_workspaceId req of Some w \<Rightarrow> indexWorkspaceSession w i m1 | None \<Rightarrow> m1)
      in mutateSession i (\<lambda>s. s\<lparr>as_status := V1_running\<rparr>) m2)"

definition create_session :: "create_request \<Rightarrow> SessionManager \<Rightarrow> (create_error + AgentSession) \<times> SessionManager" where
  "create_session req m =
     (let i = as_id (cr_session req);
          thrown = (\<lambda>reserved recorded err m. map_prod Inl id (create_catch reserved recorded (cr_finalizeFails req) i err m))
      in case admission_refusal req m of
           Some e \<Rightarrow> thrown False False e m
         | None \<Rightarrow>
             (case reserve (as_provider (cr_session req)) i (sm_limiter m) of
                (Inl e, l) \<Rightarrow> thrown False False (Limit e) (m\<lparr>sm_limiter := l\<rparr>)
              | (Inr _, l) \<Rightarrow>
                  (let m1 = m\<lparr>sm_limiter := l\<rparr>; recorded = (sm_durable m1 \<noteq> None)
                   in if recorded \<and> cr_durableCreateFails req then thrown True False Durable_create_failed m1
                      else let m2 = durable_do (D_create i) m1;
                               m3 = m2\<lparr>sm_store := jset (sm_store m2) i (new_session req)\<rparr>
                           in if cr_startFails req then thrown True recorded Start_failed m3
                              else (Inr ((new_session req)\<lparr>as_status := V1_running\<rparr>), go_live req m3))))"


section \<open>Consuming events\<close>

text \<open>How many sequence numbers were delivered: one that failed to be waits for the cancellation.\<close>

definition delivered_events :: "RuntimeState \<Rightarrow> nat" where
  "delivered_events r = (case rt_consumer r of Failing n \<Rightarrow> n | _ \<Rightarrow> rt_nextSequence r)"

definition storeEnvelope :: "units envelope \<Rightarrow> nat \<Rightarrow> RuntimeState \<Rightarrow> RuntimeState" where
  "storeEnvelope e bytes r =
     (if \<not> rt_replayFull r \<and> length (rt_events r) < MAX_STORED_EVENTS_PER_SESSION \<and>
         rt_replayBytes r + bytes \<le> MAX_STORED_EVENT_BYTES_PER_SESSION
      then r\<lparr>rt_events := rt_events r @ [e], rt_replayBytes := rt_replayBytes r + bytes\<rparr>
      else r\<lparr>rt_replayFull := True\<rparr>)"

definition call_listener :: "nat \<Rightarrow> units envelope \<Rightarrow> subscriber \<Rightarrow> subscriber" where
  "call_listener n e l = (if li_active l then l\<lparr>li_calls := li_calls l @ [(n, e)]\<rparr> else l)"

definition notify_listeners :: "nat \<Rightarrow> units envelope \<Rightarrow> RuntimeState \<Rightarrow> RuntimeState" where
  "notify_listeners n e r = r\<lparr>rt_listeners := map (call_listener n e) (rt_listeners r)\<rparr>"

fun applyStatusTransition :: "string \<Rightarrow> units agent_event \<Rightarrow> AgentSession \<Rightarrow> AgentSession" where
  "applyStatusTransition now (A_session_completed psid) s =
     s\<lparr>as_status := V1_completed, as_completedAt := Some now, as_providerSessionId := (case psid of Some i \<Rightarrow> Some i | None \<Rightarrow> as_providerSessionId s)\<rparr>"
| "applyStatusTransition now (A_session_failed message) s = s\<lparr>as_status := V1_failed, as_completedAt := Some now, as_error := Some message\<rparr>"
| "applyStatusTransition now A_session_cancelled s = s\<lparr>as_status := V1_cancelled, as_completedAt := Some now\<rparr>"
| "applyStatusTransition now _ s = s"

fun DURABLE_TERMINAL :: "units agent_event \<Rightarrow> SessionStatusV2 option" where
  "DURABLE_TERMINAL (A_session_completed _) = Some S_completed"
| "DURABLE_TERMINAL (A_session_failed _) = Some S_failed"
| "DURABLE_TERMINAL A_session_cancelled = Some S_cancelled"
| "DURABLE_TERMINAL _ = None"

fun reported_session_id :: "units agent_event \<Rightarrow> units option" where
  "reported_session_id (A_session_started _ _ psid) = psid"
| "reported_session_id (A_session_completed psid) = psid"
| "reported_session_id _ = None"

text \<open>
  The first call that throws ends the attempt, and the error is swallowed. \<open>takes\<close>: the calls that do not throw; \<open>hasFrames\<close>: whether
  the session's ledger of unknown frames has an entry.
\<close>

fun attempted :: "(durable_call \<Rightarrow> bool) \<Rightarrow> durable_call list \<Rightarrow> durable_call list" where
  "attempted takes [] = []"
| "attempted takes (c # cs) = c # (if takes c then attempted takes cs else [])"

definition event_calls :: "bool \<Rightarrow> string \<Rightarrow> units envelope \<Rightarrow> durable_call list" where
  "event_calls hasFrames i e =
     D_appendEvent i e
     # (case reported_session_id (env_event e) of Some p \<Rightarrow> if p \<noteq> [] then [D_setProviderSessionId i p] else [] | None \<Rightarrow> [])
     @ (case DURABLE_TERMINAL (env_event e) of
          Some status \<Rightarrow> (if hasFrames then [D_setUnknownFrames i] else []) @ [D_finalize i status]
        | None \<Rightarrow> [])"

definition persistEvent :: "(durable_call \<Rightarrow> bool) \<Rightarrow> bool \<Rightarrow> string \<Rightarrow> units envelope \<Rightarrow> SessionManager \<Rightarrow> SessionManager" where
  "persistEvent takes hasFrames i e m =
     foldl (\<lambda>m c. durable_do c m) m (attempted takes (event_calls (hasFrames \<and> i \<in> set (sm_runtime m)) i e))"

text \<open>\<open>digest\<close>: the serialized size of a result; \<open>put\<close>: the id the attachment store gives, if it takes it.\<close>

definition attachResultIfWorthwhile :: "bool \<Rightarrow> nat \<Rightarrow> string option \<Rightarrow> units agent_event \<Rightarrow> string option" where
  "attachResultIfWorthwhile hasStore digest put event =
     (case event of
        A_tool_completed _ _ (Some result) _ _ \<Rightarrow>
          if \<not> hasStore then None
          else if digest \<le> ATTACHMENT_WORTHY_RESULT_BYTES \<or> digest > MAX_ATTACHMENT_BYTES then None
          else put
      | _ \<Rightarrow> None)"

fun with_attachment :: "string option \<Rightarrow> units agent_event \<Rightarrow> units agent_event" where
  "with_attachment (Some a) (A_tool_completed n c r b _) = A_tool_completed n c r b (Some a)"
| "with_attachment _ e = e"

definition set_object :: "string \<Rightarrow> RuntimeState \<Rightarrow> SessionManager \<Rightarrow> SessionManager" where
  "set_object i r m = m\<lparr>sm_objects := jset (sm_objects m) i r\<rparr>"

definition deliver :: "(durable_call \<Rightarrow> bool) \<Rightarrow> bool \<Rightarrow> string \<Rightarrow> nat \<Rightarrow> units envelope \<Rightarrow> nat \<Rightarrow> RuntimeState \<Rightarrow> SessionManager \<Rightarrow> SessionManager" where
  "deliver takes hasFrames i n e bytes r m =
     persistEvent takes hasFrames i e (set_object i (notify_listeners n e (storeEnvelope e bytes r)) m)"

definition consume_event ::
  "(units envelope \<Rightarrow> nat) \<Rightarrow> (durable_call \<Rightarrow> bool) \<Rightarrow> bool \<Rightarrow> string \<Rightarrow> bool \<Rightarrow> nat \<Rightarrow> string option \<Rightarrow> string \<Rightarrow>
     units agent_event \<Rightarrow> SessionManager \<Rightarrow> SessionManager" where
  "consume_event bytesOf takes hasFrames now hasStore digest put i event m =
     (case jget (sm_objects m) i of
        None \<Rightarrow> m
      | Some r \<Rightarrow>
          if rt_consumer r \<noteq> Consuming then m
          else
            (let m1 = mutateSession i (applyStatusTransition now event) m;
                 n = rt_nextSequence r;
                 r1 = r\<lparr>rt_nextSequence := n + 1\<rparr>;
                 baseEnvelope = \<lparr>env_sequence = n, env_timestamp = now, env_event = event\<rparr>;
                 attachment = (if bytesOf baseEnvelope > MAX_EVENT_ENVELOPE_BYTES - RESULT_ATTACHMENT_ID_RESERVE_BYTES then None
                               else attachResultIfWorthwhile hasStore digest put event);
                 e = baseEnvelope\<lparr>env_event := with_attachment attachment event\<rparr>
             in if bytesOf e > MAX_EVENT_ENVELOPE_BYTES then cancelRuntime i (set_object i (r1\<lparr>rt_consumer := Failing n\<rparr>) m1)
                else deliver takes hasFrames i n e (bytesOf e) r1 m1))"

definition consume_finally :: "string \<Rightarrow> SessionManager \<Rightarrow> SessionManager" where
  "consume_finally i m =
     (let m1 = m\<lparr>sm_limiter := snd (limiter_release i (sm_limiter m))\<rparr>;
          m2 = m1\<lparr>sm_leases := map_option (releaseForSession i) (sm_leases m1)\<rparr>;
          m3 = unindexWorkspaceSession i m2
      in evictOldestCompletedIfOverCap (m3\<lparr>sm_completedOrder := sm_completedOrder m3 @ [i]\<rparr>))"

definition OVERSIZED_MESSAGE :: units where
  "OVERSIZED_MESSAGE = ascii_units ''a provider event exceeded the maximum frame size and could not be delivered''"

text \<open>The cancellation after an event that is too large came back.\<close>

definition consume_failed :: "(units envelope \<Rightarrow> nat) \<Rightarrow> (durable_call \<Rightarrow> bool) \<Rightarrow> bool \<Rightarrow> string \<Rightarrow> string \<Rightarrow> SessionManager \<Rightarrow> SessionManager" where
  "consume_failed bytesOf takes hasFrames now i m =
     (case jget (sm_objects m) i of
        None \<Rightarrow> m
      | Some r \<Rightarrow>
          (case rt_consumer r of
             Failing n \<Rightarrow>
               (let failure = \<lparr>env_sequence = n, env_timestamp = now, env_event = A_session_failed OVERSIZED_MESSAGE\<rparr>;
                    m1 = mutateSession i (applyStatusTransition now (env_event failure)) m
                in consume_finally i (deliver takes hasFrames i n failure (bytesOf failure) (r\<lparr>rt_consumer := Consumed\<rparr>) m1))
           | _ \<Rightarrow> m))"

text \<open>The stream ended, or threw.\<close>

definition consume_end :: "string \<Rightarrow> SessionManager \<Rightarrow> SessionManager" where
  "consume_end i m =
     (case jget (sm_objects m) i of
        None \<Rightarrow> m
      | Some r \<Rightarrow> if rt_consumer r = Consuming then consume_finally i (set_object i (r\<lparr>rt_consumer := Consumed\<rparr>) m) else m)"


section \<open>Subscribers, cancellation, removal\<close>

datatype subscribe_result = No_session | Undefined_event | Subscribed nat

text \<open>A negative start makes the replay loop call the subscriber with \<^verbatim>\<open>undefined\<close>, which throws.\<close>

definition subscribe_session :: "string \<Rightarrow> int \<Rightarrow> SessionManager \<Rightarrow> subscribe_result \<times> SessionManager" where
  "subscribe_session i sinceIndex m =
     (case (if i \<in> set (sm_runtime m) then jget (sm_objects m) i else None) of
        None \<Rightarrow> (No_session, m)
      | Some r \<Rightarrow>
          if sinceIndex < 0 then (Undefined_event, m)
          else let since = nat sinceIndex; len = length (rt_events r);
                   l = \<lparr>li_since = since, li_history = len, li_joined = delivered_events r, li_active = True,
                        li_calls = map (\<lambda>j. (j, rt_events r ! j)) [since..<len]\<rparr>
               in (Subscribed (length (rt_listeners r)), set_object i (r\<lparr>rt_listeners := rt_listeners r @ [l]\<rparr>) m))"

definition unsubscribe_session :: "string \<Rightarrow> nat \<Rightarrow> SessionManager \<Rightarrow> SessionManager" where
  "unsubscribe_session i k m =
     (case jget (sm_objects m) i of
        None \<Rightarrow> m
      | Some r \<Rightarrow>
          if k < length (rt_listeners r)
          then set_object i (r\<lparr>rt_listeners := (rt_listeners r)[k := (rt_listeners r ! k)\<lparr>li_active := False\<rparr>]\<rparr>) m else m)"

definition is_active :: "AgentSession \<Rightarrow> bool" where
  "is_active s \<longleftrightarrow> as_status s = V1_starting \<or> as_status s = V1_running"

definition cancel_session :: "string \<Rightarrow> SessionManager \<Rightarrow> bool \<times> SessionManager" where
  "cancel_session i m =
     (case jget (sm_store m) i of
        None \<Rightarrow> (False, m)
      | Some s \<Rightarrow> if is_active s \<and> i \<in> set (sm_runtime m) then (True, cancelRuntime i m) else (False, m))"

definition remove_begin :: "string \<Rightarrow> SessionManager \<Rightarrow> bool \<times> SessionManager" where
  "remove_begin i m =
     (case jget (sm_store m) i of
        None \<Rightarrow> (False, m)
      | Some s \<Rightarrow> (True, if is_active s \<and> i \<in> set (sm_runtime m) then cancelRuntime i m else m))"

definition remove_first :: "'a \<Rightarrow> 'a list \<Rightarrow> 'a list" where
  "remove_first x xs = remove1 x xs"

definition remove_finish :: "string \<Rightarrow> SessionManager \<Rightarrow> SessionManager" where
  "remove_finish i m =
     (let m1 = m\<lparr>sm_runtime := removeAll i (sm_runtime m), sm_store := jdelete (sm_store m) i\<rparr>;
          m2 = unindexWorkspaceSession i m1
      in m2\<lparr>sm_completedOrder := remove_first i (sm_completedOrder m2)\<rparr>)"

definition cancelAll :: "SessionManager \<Rightarrow> SessionManager" where
  "cancelAll m =
     foldl (\<lambda>m i. cancelRuntime i m) m
       (filter (\<lambda>i. i \<in> set (sm_runtime m)) (map fst (filter (\<lambda>(i, s). is_active s) (sm_store m))))"

text \<open>Everything that can happen to a manager, in any order.\<close>

inductive manager_step :: "(units envelope \<Rightarrow> nat) \<Rightarrow> SessionManager \<Rightarrow> SessionManager \<Rightarrow> bool" for bytesOf where
  ms_create: "manager_step bytesOf m (snd (create_session req m))"
| ms_event: "manager_step bytesOf m (consume_event bytesOf takes hasFrames now hasStore digest put i event m)"
| ms_failed: "manager_step bytesOf m (consume_failed bytesOf takes hasFrames now i m)"
| ms_end: "manager_step bytesOf m (consume_end i m)"
| ms_subscribe: "manager_step bytesOf m (snd (subscribe_session i since m))"
| ms_unsubscribe: "manager_step bytesOf m (unsubscribe_session i k m)"
| ms_cancel: "manager_step bytesOf m (snd (cancel_session i m))"
| ms_remove_begin: "manager_step bytesOf m (snd (remove_begin i m))"
| ms_remove_finish: "manager_step bytesOf m (remove_finish i m)"
| ms_cancel_all: "manager_step bytesOf m (cancelAll m)"
| ms_block: "manager_step bytesOf m (blockWorkspace w m)"
| ms_allow: "manager_step bytesOf m (allowWorkspace w m)"
| ms_revoke: "manager_step bytesOf m (snd (revokeWorkspace w m))"


section \<open>What each operation leaves alone\<close>

lemma durable_do_fields [simp]:
  "sm_objects (durable_do c m) = sm_objects m" "sm_runtime (durable_do c m) = sm_runtime m" "sm_store (durable_do c m) = sm_store m"
  "sm_completedOrder (durable_do c m) = sm_completedOrder m" "sm_limiter (durable_do c m) = sm_limiter m"
  "sm_epochs (durable_do c m) = sm_epochs m" "sm_blockedWorkspaces (durable_do c m) = sm_blockedWorkspaces m" "sm_stranded (durable_do c m) = sm_stranded m"
  by (simp_all add: durable_do_def)

lemma durables_fields:
  "sm_objects (foldl (\<lambda>m c. durable_do c m) m cs) = sm_objects m"
  "sm_runtime (foldl (\<lambda>m c. durable_do c m) m cs) = sm_runtime m"
  "sm_store (foldl (\<lambda>m c. durable_do c m) m cs) = sm_store m"
  "sm_completedOrder (foldl (\<lambda>m c. durable_do c m) m cs) = sm_completedOrder m"
  "sm_limiter (foldl (\<lambda>m c. durable_do c m) m cs) = sm_limiter m"
  "sm_epochs (foldl (\<lambda>m c. durable_do c m) m cs) = sm_epochs m"
  "sm_blockedWorkspaces (foldl (\<lambda>m c. durable_do c m) m cs) = sm_blockedWorkspaces m"
  "sm_stranded (foldl (\<lambda>m c. durable_do c m) m cs) = sm_stranded m"
  by (induction cs arbitrary: m) simp_all

lemma persistEvent_fields [simp]:
  "sm_objects (persistEvent a f i e m) = sm_objects m" "sm_runtime (persistEvent a f i e m) = sm_runtime m" "sm_store (persistEvent a f i e m) = sm_store m"
  "sm_completedOrder (persistEvent a f i e m) = sm_completedOrder m" "sm_limiter (persistEvent a f i e m) = sm_limiter m"
  "sm_epochs (persistEvent a f i e m) = sm_epochs m" "sm_blockedWorkspaces (persistEvent a f i e m) = sm_blockedWorkspaces m" "sm_stranded (persistEvent a f i e m) = sm_stranded m"
  using durables_fields by (simp_all add: persistEvent_def)

lemma cancelRuntime_fields [simp]:
  "sm_objects (cancelRuntime i m) = sm_objects m" "sm_runtime (cancelRuntime i m) = sm_runtime m" "sm_store (cancelRuntime i m) = sm_store m"
  "sm_completedOrder (cancelRuntime i m) = sm_completedOrder m" "sm_limiter (cancelRuntime i m) = sm_limiter m"
  "sm_epochs (cancelRuntime i m) = sm_epochs m" "sm_blockedWorkspaces (cancelRuntime i m) = sm_blockedWorkspaces m" "sm_stranded (cancelRuntime i m) = sm_stranded m"
  by (simp_all add: cancelRuntime_def)

lemma unindex_fields [simp]:
  "sm_objects (unindexWorkspaceSession i m) = sm_objects m" "sm_runtime (unindexWorkspaceSession i m) = sm_runtime m"
  "sm_store (unindexWorkspaceSession i m) = sm_store m" "sm_completedOrder (unindexWorkspaceSession i m) = sm_completedOrder m"
  "sm_limiter (unindexWorkspaceSession i m) = sm_limiter m"
  "sm_epochs (unindexWorkspaceSession i m) = sm_epochs m" "sm_blockedWorkspaces (unindexWorkspaceSession i m) = sm_blockedWorkspaces m" "sm_stranded (unindexWorkspaceSession i m) = sm_stranded m"
  by (simp_all add: unindexWorkspaceSession_def Let_def split: option.split)

lemma index_fields [simp]:
  "sm_objects (indexWorkspaceSession w i m) = sm_objects m" "sm_runtime (indexWorkspaceSession w i m) = sm_runtime m"
  "sm_store (indexWorkspaceSession w i m) = sm_store m" "sm_completedOrder (indexWorkspaceSession w i m) = sm_completedOrder m"
  "sm_limiter (indexWorkspaceSession w i m) = sm_limiter m"
  "sm_epochs (indexWorkspaceSession w i m) = sm_epochs m" "sm_blockedWorkspaces (indexWorkspaceSession w i m) = sm_blockedWorkspaces m" "sm_stranded (indexWorkspaceSession w i m) = sm_stranded m"
  by (simp_all add: indexWorkspaceSession_def)

lemma mutateSession_fields [simp]:
  "sm_objects (mutateSession i f m) = sm_objects m" "sm_runtime (mutateSession i f m) = sm_runtime m"
  "sm_completedOrder (mutateSession i f m) = sm_completedOrder m" "sm_limiter (mutateSession i f m) = sm_limiter m"
  "sm_epochs (mutateSession i f m) = sm_epochs m" "sm_blockedWorkspaces (mutateSession i f m) = sm_blockedWorkspaces m" "sm_stranded (mutateSession i f m) = sm_stranded m"
  "jhas (sm_store (mutateSession i f m)) j = jhas (sm_store m) j" "jmap_ok (sm_store m) \<Longrightarrow> jmap_ok (sm_store (mutateSession i f m))"
  by (auto simp: mutateSession_def jhas_def jget_jset split: option.split)

lemma set_object_fields [simp]:
  "sm_runtime (set_object i r m) = sm_runtime m" "sm_store (set_object i r m) = sm_store m"
  "sm_completedOrder (set_object i r m) = sm_completedOrder m" "sm_limiter (set_object i r m) = sm_limiter m"
  "sm_epochs (set_object i r m) = sm_epochs m" "sm_blockedWorkspaces (set_object i r m) = sm_blockedWorkspaces m" "sm_stranded (set_object i r m) = sm_stranded m"
  "sm_objects (set_object i r m) = jset (sm_objects m) i r"
  by (simp_all add: set_object_def)

lemma evict_fields [simp]:
  "sm_objects (evictOldestCompletedIfOverCap m) = sm_objects m" "sm_limiter (evictOldestCompletedIfOverCap m) = sm_limiter m"
  "sm_epochs (evictOldestCompletedIfOverCap m) = sm_epochs m" "sm_blockedWorkspaces (evictOldestCompletedIfOverCap m) = sm_blockedWorkspaces m" "sm_stranded (evictOldestCompletedIfOverCap m) = sm_stranded m"
  by (induction m rule: evictOldestCompletedIfOverCap.induct; subst evictOldestCompletedIfOverCap.simps; simp split: list.split)+


section \<open>Reservations and retention\<close>

text \<open>A session is live from its start to the end of its stream.\<close>

definition live :: "SessionManager \<Rightarrow> string \<Rightarrow> bool" where
  "live m i \<longleftrightarrow> (\<exists>r. jget (sm_objects m) i = Some r \<and> rt_consumer r \<noteq> Consumed)"

definition retained :: "SessionManager \<Rightarrow> string \<Rightarrow> bool" where
  "retained m i \<longleftrightarrow> i \<in> set (sm_completedOrder m) \<or> live m i"

definition manager_pre :: "SessionManager \<Rightarrow> bool" where
  "manager_pre m \<longleftrightarrow>
     jmap_ok (sm_store m) \<and> distinct (sm_runtime m) \<and> limiter_ok (sm_limiter m) \<and> (\<forall>i. jhas (lm_held (sm_limiter m)) i \<longleftrightarrow> live m i) \<and>
     (\<forall>i\<in>set (sm_runtime m). retained m i) \<and> (\<forall>i. jhas (sm_store m) i \<longrightarrow> retained m i \<or> i \<in> set (sm_stranded m))"

definition manager_ok :: "SessionManager \<Rightarrow> bool" where
  "manager_ok m \<longleftrightarrow> manager_pre m \<and> length (sm_completedOrder m) \<le> MAX_RETAINED_COMPLETED_SESSIONS"

lemma jhas_jset [simp]: "jhas (jset m k v) j \<longleftrightarrow> j = k \<or> jhas m j"
  by (auto simp: jhas_def jget_jset)

lemma jhas_jdelete [simp]: "jhas (jdelete m k) j \<longleftrightarrow> j \<noteq> k \<and> jhas m j"
  by (auto simp: jhas_def jget_jdelete)

lemma live_objects: "sm_objects m' = sm_objects m \<Longrightarrow> live m' = live m"
  by (simp add: live_def fun_eq_iff)

lemma live_set:
  "sm_objects m' = jset (sm_objects m) i r \<Longrightarrow> live m' j \<longleftrightarrow> (if j = i then rt_consumer r \<noteq> Consumed else live m j)"
  by (auto simp: live_def jget_jset)

lemma pre_evict_one:
  assumes "manager_pre m" and "sm_completedOrder m = staleId # rest"
  shows "manager_pre (m\<lparr>sm_completedOrder := rest, sm_runtime := removeAll staleId (sm_runtime m), sm_store := jdelete (sm_store m) staleId\<rparr>)"
proof -
  let ?m = "m\<lparr>sm_completedOrder := rest, sm_runtime := removeAll staleId (sm_runtime m), sm_store := jdelete (sm_store m) staleId\<rparr>"
  have live: "live ?m = live m" by (rule live_objects) simp
  have "retained ?m i" if "retained m i" "i \<noteq> staleId" for i
    using that assms(2) by (auto simp: retained_def live)
  then show ?thesis using assms(1) by (auto simp: manager_pre_def live distinct_removeAll)
qed

lemma evict_ok: "manager_pre m \<Longrightarrow> manager_ok (evictOldestCompletedIfOverCap m)"
proof (induction m rule: evictOldestCompletedIfOverCap.induct)
  case (1 m)
  show ?case
  proof (cases "sm_completedOrder m")
    case Nil
    then show ?thesis using 1(2) by (subst evictOldestCompletedIfOverCap.simps) (simp add: manager_ok_def)
  next
    case (Cons staleId rest)
    then show ?thesis
      using 1 pre_evict_one [OF 1(2) Cons] by (subst evictOldestCompletedIfOverCap.simps) (simp add: manager_ok_def Cons)
  qed
qed

text \<open>An operation that touches none of the five fields, or only records and objects of sessions that stay as live as they were.\<close>

lemma ok_same:
  "manager_ok m \<Longrightarrow> sm_runtime m' = sm_runtime m \<Longrightarrow> sm_completedOrder m' = sm_completedOrder m \<Longrightarrow> sm_limiter m' = sm_limiter m \<Longrightarrow>
     live m' = live m \<Longrightarrow> jmap_ok (sm_store m') \<Longrightarrow> (\<And>i. jhas (sm_store m') i \<Longrightarrow> jhas (sm_store m) i) \<Longrightarrow> sm_stranded m' = sm_stranded m \<Longrightarrow> manager_ok m'"
  by (simp add: manager_ok_def manager_pre_def retained_def)

lemma ok_store [simp]: "manager_ok m \<Longrightarrow> jmap_ok (sm_store m)"
  by (simp add: manager_ok_def manager_pre_def)

lemma reserve_held:
  "reserve p i l = (x, l') \<Longrightarrow>
     (case x of Inl e \<Rightarrow> l' = l | Inr u \<Rightarrow> \<not> jhas (lm_held l) i \<and> (\<forall>j. jhas (lm_held l') j \<longleftrightarrow> j = i \<or> jhas (lm_held l) j))"
  by (auto simp: reserve_def Let_def split: if_splits)

lemma release_unheld:
  "limiter_ok l \<Longrightarrow> limiter_ok (snd (limiter_release i l)) \<and> (\<forall>j. jhas (lm_held (snd (limiter_release i l))) j \<longleftrightarrow> j \<noteq> i \<and> jhas (lm_held l) j)"
proof (cases "jget (lm_held l) i")
  case (Some p)
  assume ok: "limiter_ok l"
  have "lm_held (snd (limiter_release i l)) = jdelete (lm_held l) i" by (auto simp: limiter_release_def Some Let_def)
  then show ?thesis using release_held(2) [OF ok Some] by simp
qed (auto simp: limiter_release_def jhas_def)

lemma finally_ok:
  assumes "manager_ok m0" and "sm_runtime m = sm_runtime m0" "sm_completedOrder m = sm_completedOrder m0" "sm_limiter m = sm_limiter m0" "sm_stranded m = sm_stranded m0"
    and "jmap_ok (sm_store m)" and "\<And>j. jhas (sm_store m) j \<Longrightarrow> jhas (sm_store m0) j"
    and "\<And>j. live m j \<longleftrightarrow> j \<noteq> i \<and> live m0 j"
  shows "manager_ok (consume_finally i m)"
proof -
  let ?m = "unindexWorkspaceSession i (m\<lparr>sm_limiter := snd (limiter_release i (sm_limiter m)), sm_leases := map_option (releaseForSession i) (sm_leases m)\<rparr>)"
  let ?n = "?m\<lparr>sm_completedOrder := sm_completedOrder ?m @ [i]\<rparr>"
  have live: "live ?n = live m" by (rule live_objects) simp
  have live_j: "live ?n j \<longleftrightarrow> j \<noteq> i \<and> live m0 j" for j unfolding live by (rule assms(8))
  have order: "set (sm_completedOrder ?n) = insert i (set (sm_completedOrder m0))" using assms(3) by simp
  have ret: "retained m0 j \<Longrightarrow> retained ?n j" for j unfolding retained_def order live_j by blast
  have pre: "manager_pre m0" using assms(1) by (simp add: manager_ok_def)
  then have held: "limiter_ok (sm_limiter ?n)" "jhas (lm_held (sm_limiter ?n)) j \<longleftrightarrow> live ?n j" for j
    unfolding live_j using release_unheld [of "sm_limiter m0" i] assms(4) by (simp_all add: manager_pre_def)
  have "retained ?n j" if "j \<in> set (sm_runtime ?n)" for j using pre ret assms(2) that by (simp add: manager_pre_def)
  moreover have "retained ?n j \<or> j \<in> set (sm_stranded ?n)" if "jhas (sm_store ?n) j" for j
  proof -
    have "jhas (sm_store m) j" using that by simp
    then have "retained m0 j \<or> j \<in> set (sm_stranded m0)" using assms(7) pre unfolding manager_pre_def by blast
    then show ?thesis using ret [of j] assms(5) by auto
  qed
  moreover have "distinct (sm_runtime ?n)" using pre assms(2) by (simp add: manager_pre_def)
  ultimately have "manager_pre ?n" using held assms(6) by (simp add: manager_pre_def)
  then show ?thesis unfolding consume_finally_def Let_def using evict_ok by simp
qed

lemma deliver_fields [simp]:
  "sm_runtime (deliver a f i n e b r m) = sm_runtime m" "sm_store (deliver a f i n e b r m) = sm_store m"
  "sm_completedOrder (deliver a f i n e b r m) = sm_completedOrder m" "sm_limiter (deliver a f i n e b r m) = sm_limiter m"
  "sm_epochs (deliver a f i n e b r m) = sm_epochs m" "sm_blockedWorkspaces (deliver a f i n e b r m) = sm_blockedWorkspaces m"
  "sm_stranded (deliver a f i n e b r m) = sm_stranded m"
  "sm_objects (deliver a f i n e b r m) = jset (sm_objects m) i (notify_listeners n e (storeEnvelope e b r))"
  by (simp_all add: deliver_def)

lemma delivered_consumer [simp]: "rt_consumer (notify_listeners n e (storeEnvelope e b r)) = rt_consumer r"
  by (simp add: notify_listeners_def storeEnvelope_def)

lemma live_same:
  "sm_objects m' = jset (sm_objects m) i r \<Longrightarrow> rt_consumer r \<noteq> Consumed \<Longrightarrow> live m i \<Longrightarrow> live m' = live m"
  by (auto simp: live_set fun_eq_iff)

lemma live_object: "jget (sm_objects m) i = Some r \<Longrightarrow> rt_consumer r \<noteq> Consumed \<Longrightarrow> live m i"
  by (auto simp: live_def)

lemma event_ok: "manager_ok m \<Longrightarrow> manager_ok (consume_event bytesOf takes hasFrames now hasStore digest put i event m)"
proof (cases "jget (sm_objects m) i")
  case (Some r)
  assume ok: "manager_ok m"
  show ?thesis
  proof (cases "rt_consumer r = Consuming")
    case True
    let ?t = "consume_event bytesOf takes hasFrames now hasStore digest put i event m"
    have "\<exists>r'. sm_objects ?t = jset (sm_objects m) i r' \<and> rt_consumer r' \<noteq> Consumed"
      using Some True by (fastforce simp: consume_event_def Let_def)
    then obtain r' where r': "sm_objects ?t = jset (sm_objects m) i r'" "rt_consumer r' \<noteq> Consumed" by blast
    have "live ?t = live m" using r' live_object [OF Some] True by (intro live_same) auto
    moreover have "sm_runtime ?t = sm_runtime m" "sm_completedOrder ?t = sm_completedOrder m" "sm_limiter ?t = sm_limiter m" "sm_stranded ?t = sm_stranded m"
      "jmap_ok (sm_store ?t)" "\<And>j. jhas (sm_store ?t) j = jhas (sm_store m) j"
      using Some True ok by (auto simp: consume_event_def Let_def)
    ultimately show ?thesis using ok by (intro ok_same [of m ?t]) auto
  next
    case False
    then show ?thesis using ok Some by (simp add: consume_event_def)
  qed
qed (simp add: consume_event_def)

lemma failed_ok: "manager_ok m \<Longrightarrow> manager_ok (consume_failed bytesOf takes hasFrames now i m)"
proof (cases "jget (sm_objects m) i")
  case (Some r)
  assume ok: "manager_ok m"
  show ?thesis
  proof (cases "rt_consumer r")
    case (Failing n)
    let ?e = "\<lparr>env_sequence = n, env_timestamp = now, env_event = A_session_failed OVERSIZED_MESSAGE\<rparr>"
    let ?m = "deliver takes hasFrames i n ?e (bytesOf ?e) (r\<lparr>rt_consumer := Consumed\<rparr>)
        (mutateSession i (applyStatusTransition now (A_session_failed OVERSIZED_MESSAGE)) m)"
    have live: "live ?m j \<longleftrightarrow> j \<noteq> i \<and> live m j" for j by (subst live_set [where m' = ?m and m = m and i = i]) auto
    have "manager_ok (consume_finally i ?m)"
      using ok live by (intro finally_ok [OF ok]) auto
    then show ?thesis using Some Failing by (simp add: consume_failed_def Let_def)
  qed (use ok Some in \<open>simp_all add: consume_failed_def\<close>)
qed (simp add: consume_failed_def)

lemma end_ok: "manager_ok m \<Longrightarrow> manager_ok (consume_end i m)"
proof (cases "jget (sm_objects m) i")
  case (Some r)
  assume ok: "manager_ok m"
  let ?m = "set_object i (r\<lparr>rt_consumer := Consumed\<rparr>) m"
  have live: "live ?m j \<longleftrightarrow> j \<noteq> i \<and> live m j" for j by (subst live_set [where m' = ?m and m = m and i = i]) auto
  have "manager_ok (consume_finally i ?m)"
    using ok live by (intro finally_ok [OF ok]) auto
  then show ?thesis using ok Some by (simp add: consume_end_def)
qed (simp add: consume_end_def)

lemma listener_ok:
  "manager_ok m \<Longrightarrow> jget (sm_objects m) i = Some r \<Longrightarrow> rt_consumer r' = rt_consumer r \<Longrightarrow> manager_ok (set_object i r' m)"
  by (rule ok_same [of m]) (auto simp: live_def jget_jset fun_eq_iff)

lemma subscribe_ok: "manager_ok m \<Longrightarrow> manager_ok (snd (subscribe_session i since m))"
  by (auto simp: subscribe_session_def Let_def listener_ok split: option.split)

lemma unsubscribe_ok: "manager_ok m \<Longrightarrow> manager_ok (unsubscribe_session i k m)"
  by (auto simp: unsubscribe_session_def listener_ok split: option.split)

lemma untouched_ok:
  "manager_ok m \<Longrightarrow> sm_runtime m' = sm_runtime m \<Longrightarrow> sm_completedOrder m' = sm_completedOrder m \<Longrightarrow> sm_limiter m' = sm_limiter m \<Longrightarrow>
     sm_objects m' = sm_objects m \<Longrightarrow> sm_store m' = sm_store m \<Longrightarrow> sm_stranded m' = sm_stranded m \<Longrightarrow> manager_ok m'"
  by (rule ok_same [of m]) (simp_all add: live_objects [of m' m])

lemma remove_finish_ok: "manager_ok m \<Longrightarrow> manager_ok (remove_finish i m)"
proof -
  assume ok: "manager_ok m"
  let ?m = "remove_finish i m"
  have fields: "sm_runtime ?m = removeAll i (sm_runtime m)" "sm_store ?m = jdelete (sm_store m) i" "sm_limiter ?m = sm_limiter m"
    "sm_completedOrder ?m = remove1 i (sm_completedOrder m)" "sm_stranded ?m = sm_stranded m" "sm_objects ?m = sm_objects m"
    by (simp_all add: remove_finish_def remove_first_def Let_def)
  then have live: "live ?m = live m" by (intro live_objects)
  have "retained ?m j" if "retained m j" "j \<noteq> i" for j using that by (auto simp: retained_def live fields)
  moreover have "length (remove1 i (sm_completedOrder m)) \<le> MAX_RETAINED_COMPLETED_SESSIONS"
    using ok by (auto simp: manager_ok_def length_remove1)
  ultimately show ?thesis using ok by (auto simp: manager_ok_def manager_pre_def fields live distinct_removeAll)
qed

lemma catch_fields [simp]:
  "sm_runtime (snd (create_catch a b c i e m)) = sm_runtime m" "sm_completedOrder (snd (create_catch a b c i e m)) = sm_completedOrder m"
  "sm_objects (snd (create_catch a b c i e m)) = sm_objects m"
  "sm_store (snd (create_catch a b c i e m)) = (if b \<and> c then sm_store m else jdelete (sm_store m) i)"
  "sm_stranded (snd (create_catch a b c i e m)) = (if b \<and> c then i # sm_stranded m else sm_stranded m)"
  "sm_limiter (snd (create_catch a b c i e m)) = (if a then snd (limiter_release i (sm_limiter m)) else sm_limiter m)"
  "sm_epochs (snd (create_catch a b c i e m)) = sm_epochs m" "sm_blockedWorkspaces (snd (create_catch a b c i e m)) = sm_blockedWorkspaces m"
  by (simp_all add: create_catch_def Let_def)

text \<open>A launch that is undone, and one that is not.\<close>

lemma undone_ok:
  assumes ok: "manager_ok m" and "sm_runtime t = sm_runtime m" "sm_completedOrder t = sm_completedOrder m" "sm_objects t = sm_objects m"
    and "limiter_ok (sm_limiter t)" and "\<And>j. jhas (lm_held (sm_limiter t)) j \<longleftrightarrow> jhas (lm_held (sm_limiter m)) j"
    and "jmap_ok (sm_store t)" and "\<And>j. jhas (sm_store t) j \<Longrightarrow> jhas (sm_store m) j \<or> j \<in> set (sm_stranded t)"
    and "set (sm_stranded m) \<subseteq> set (sm_stranded t)"
  shows "manager_ok t"
proof -
  have live: "live t = live m" using assms(4) by (rule live_objects)
  then have same: "retained t = retained m" using assms(3) by (simp add: retained_def fun_eq_iff)
  have pre: "manager_pre m" using ok by (simp add: manager_ok_def)
  have "retained t j \<or> j \<in> set (sm_stranded t)" if "jhas (sm_store t) j" for j
    using assms(8) [OF that] assms(9) pre unfolding manager_pre_def same by blast
  then show ?thesis using ok pre assms(2-7) unfolding manager_ok_def manager_pre_def live same by simp
qed

lemma live_ok:
  assumes ok: "manager_ok m" and "sm_runtime t = insert_id i (sm_runtime m)" "sm_completedOrder t = sm_completedOrder m"
    "sm_objects t = jset (sm_objects m) i new_runtime"
    and "limiter_ok (sm_limiter t)" and "\<And>j. jhas (lm_held (sm_limiter t)) j \<longleftrightarrow> j = i \<or> jhas (lm_held (sm_limiter m)) j"
    and "jmap_ok (sm_store t)" and "\<And>j. jhas (sm_store t) j \<Longrightarrow> j = i \<or> jhas (sm_store m) j"
    and "sm_stranded t = sm_stranded m"
  shows "manager_ok t"
proof -
  have live: "live t j \<longleftrightarrow> j = i \<or> live m j" for j
    by (subst live_set [where m' = t and m = m and i = i, OF assms(4)]) (simp add: new_runtime_def)
  have ret: "retained t j" if "j = i \<or> retained m j" for j using that assms(3) by (auto simp: retained_def live)
  have pre: "manager_pre m" using ok by (simp add: manager_ok_def)
  have runs: "distinct (sm_runtime t)" "set (sm_runtime t) = insert i (set (sm_runtime m))"
    using pre assms(2) by (auto simp: insert_id_def manager_pre_def)
  have "retained t j" if "j \<in> set (sm_runtime t)" for j using that pre ret unfolding runs(2) manager_pre_def by blast
  moreover have "retained t j \<or> j \<in> set (sm_stranded t)" if "jhas (sm_store t) j" for j
    using assms(8) [OF that] assms(9) pre ret unfolding manager_pre_def by auto
  moreover have "jhas (lm_held (sm_limiter t)) j \<longleftrightarrow> live t j" for j using assms(6) pre unfolding live manager_pre_def by blast
  ultimately show ?thesis using ok assms(3,5,7) runs(1) by (simp add: manager_ok_def manager_pre_def)
qed

lemma go_live_fields [simp]:
  "sm_runtime (go_live req m) = insert_id (as_id (cr_session req)) (sm_runtime m)" "sm_completedOrder (go_live req m) = sm_completedOrder m"
  "sm_objects (go_live req m) = jset (sm_objects m) (as_id (cr_session req)) new_runtime" "sm_limiter (go_live req m) = sm_limiter m"
  "jhas (sm_store (go_live req m)) j = jhas (sm_store m) j" "jmap_ok (sm_store m) \<Longrightarrow> jmap_ok (sm_store (go_live req m))"
  "sm_epochs (go_live req m) = sm_epochs m" "sm_blockedWorkspaces (go_live req m) = sm_blockedWorkspaces m"
  "sm_stranded (go_live req m) = sm_stranded m"
  by (simp_all add: go_live_def Let_def split: option.split)

lemma create_ok: "manager_ok m \<Longrightarrow> manager_ok (snd (create_session req m))"
proof -
  assume ok: "manager_ok m"
  let ?i = "as_id (cr_session req)"
  have lim: "limiter_ok (sm_limiter m)" using ok by (simp add: manager_ok_def manager_pre_def)
  obtain x l where res: "reserve (as_provider (cr_session req)) ?i (sm_limiter m) = (x, l)" by fastforce
  have l: "limiter_ok l" using limiter_ok_reserve [OF lim] res by (metis snd_conv)
  have refused: "manager_ok (snd (create_catch False False c ?i e m))" for c e using ok lim by (intro undone_ok [OF ok]) auto
  show ?thesis
  proof (cases "admission_refusal req m")
    case (Some e)
    then show ?thesis using refused by (simp add: create_session_def)
  next
    case None
    show ?thesis
    proof (cases x)
      case (Inl e)
      then have "l = sm_limiter m" using reserve_held [OF res] by simp
      then show ?thesis using None Inl res refused by (simp add: create_session_def)
    next
      case (Inr u)
      then have fresh: "\<not> jhas (lm_held (sm_limiter m)) ?i" and held: "jhas (lm_held l) j \<longleftrightarrow> j = ?i \<or> jhas (lm_held (sm_limiter m)) j" for j
        using reserve_held [OF res] by simp_all
      have freed: "limiter_ok (snd (limiter_release ?i l))"
        "jhas (lm_held (snd (limiter_release ?i l))) j \<longleftrightarrow> jhas (lm_held (sm_limiter m)) j" for j
        using release_unheld [OF l, of ?i] fresh held by auto
      have gone: "manager_ok (snd (create_catch True b c ?i e (durable_do d (m\<lparr>sm_limiter := l\<rparr>)\<lparr>sm_store := jset (sm_store m) ?i s\<rparr>)))" for b c d e s
        using freed ok by (intro undone_ok [OF ok]) auto
      have unmade: "manager_ok (snd (create_catch True False c ?i e (m\<lparr>sm_limiter := l\<rparr>)))" for c e
        using freed ok by (intro undone_ok [OF ok]) auto
      have started: "manager_ok (go_live req (durable_do d (m\<lparr>sm_limiter := l\<rparr>)\<lparr>sm_store := jset (sm_store m) ?i s\<rparr>))" for d s
        using ok l held by (intro live_ok [OF ok, where i = ?i]) auto
      show ?thesis
        using started gone unmade None res Inr by (simp add: create_session_def Let_def)
    qed
  qed
qed

lemma cancels_untouched:
  "sm_runtime (foldl (\<lambda>m i. if P i m then cancelRuntime i m else m) m ids) = sm_runtime m \<and>
   sm_completedOrder (foldl (\<lambda>m i. if P i m then cancelRuntime i m else m) m ids) = sm_completedOrder m \<and>
   sm_limiter (foldl (\<lambda>m i. if P i m then cancelRuntime i m else m) m ids) = sm_limiter m \<and>
   sm_objects (foldl (\<lambda>m i. if P i m then cancelRuntime i m else m) m ids) = sm_objects m \<and>
   sm_store (foldl (\<lambda>m i. if P i m then cancelRuntime i m else m) m ids) = sm_store m \<and>
   sm_epochs (foldl (\<lambda>m i. if P i m then cancelRuntime i m else m) m ids) = sm_epochs m \<and>
   sm_blockedWorkspaces (foldl (\<lambda>m i. if P i m then cancelRuntime i m else m) m ids) = sm_blockedWorkspaces m \<and>
   sm_stranded (foldl (\<lambda>m i. if P i m then cancelRuntime i m else m) m ids) = sm_stranded m"
  by (induction ids arbitrary: m) auto

lemma workspace_fields [simp]:
  "sm_runtime (blockWorkspace w m) = sm_runtime m" "sm_completedOrder (blockWorkspace w m) = sm_completedOrder m" "sm_limiter (blockWorkspace w m) = sm_limiter m"
  "sm_objects (blockWorkspace w m) = sm_objects m" "sm_store (blockWorkspace w m) = sm_store m"
  "sm_runtime (allowWorkspace w m) = sm_runtime m" "sm_completedOrder (allowWorkspace w m) = sm_completedOrder m" "sm_limiter (allowWorkspace w m) = sm_limiter m"
  "sm_objects (allowWorkspace w m) = sm_objects m" "sm_store (allowWorkspace w m) = sm_store m"
  "sm_stranded (blockWorkspace w m) = sm_stranded m" "sm_stranded (allowWorkspace w m) = sm_stranded m"
  by (simp_all add: blockWorkspace_def allowWorkspace_def bumpWorkspaceEpoch_def)

lemma revoke_fields:
  "sm_runtime (snd (revokeWorkspace w m)) = sm_runtime m" "sm_completedOrder (snd (revokeWorkspace w m)) = sm_completedOrder m"
  "sm_limiter (snd (revokeWorkspace w m)) = sm_limiter m" "sm_objects (snd (revokeWorkspace w m)) = sm_objects m" "sm_store (snd (revokeWorkspace w m)) = sm_store m"
  "sm_stranded (snd (revokeWorkspace w m)) = sm_stranded m"
  "sm_epochs (snd (revokeWorkspace w m)) = sm_epochs (blockWorkspace w m)"
  "sm_blockedWorkspaces (snd (revokeWorkspace w m)) = sm_blockedWorkspaces (blockWorkspace w m)"
  using cancels_untouched [of "\<lambda>i m. i \<in> set (sm_runtime m)"] by (simp_all add: revokeWorkspace_def Let_def)

lemma cancelAll_fields:
  "sm_runtime (cancelAll m) = sm_runtime m" "sm_completedOrder (cancelAll m) = sm_completedOrder m" "sm_limiter (cancelAll m) = sm_limiter m"
  "sm_objects (cancelAll m) = sm_objects m" "sm_store (cancelAll m) = sm_store m" "sm_epochs (cancelAll m) = sm_epochs m"
  "sm_blockedWorkspaces (cancelAll m) = sm_blockedWorkspaces m" "sm_stranded (cancelAll m) = sm_stranded m"
  using cancels_untouched [of "\<lambda>_ _. True"] by (simp_all add: cancelAll_def)

lemma manager_ok_step: "manager_step bytesOf m m' \<Longrightarrow> manager_ok m \<Longrightarrow> manager_ok m'"
proof (induction rule: manager_step.induct)
  case (ms_cancel m i)
  then show ?case by (auto simp: cancel_session_def split: option.split intro: untouched_ok [of m])
next
  case (ms_remove_begin m i)
  then show ?case by (auto simp: remove_begin_def split: option.split intro: untouched_ok [of m])
next
  case (ms_cancel_all m)
  then show ?case by (rule untouched_ok) (simp_all add: cancelAll_fields)
next
  case (ms_block m w)
  then show ?case by (rule untouched_ok) simp_all
next
  case (ms_allow m w)
  then show ?case by (rule untouched_ok) simp_all
next
  case (ms_revoke m w)
  then show ?case by (rule untouched_ok) (simp_all add: revoke_fields)
qed (simp_all add: create_ok event_ok failed_ok end_ok subscribe_ok unsubscribe_ok remove_finish_ok)

lemma recovered_map: "jmap_ok st \<Longrightarrow> jmap_ok (foldl (\<lambda>st r. jset st (sr_id r) (toV1Session r)) st rs)"
  by (induction rs arbitrary: st) simp_all

lemma recovered_ids: "jhas (foldl (\<lambda>st r. jset st (sr_id r) (toV1Session r)) st rs) i \<Longrightarrow> jhas st i \<or> i \<in> sr_id ` set rs"
proof (induction rs arbitrary: st)
  case (Cons r rs)
  then show ?case using Cons.IH [of "jset st (sr_id r) (toV1Session r)"] by auto
qed simp

lemma new_manager_ok: "manager_ok (new_session_manager parse leases durable)"
proof (cases durable)
  case None
  then show ?thesis
    using limiter.invar_reached [of "[]"]
    by (simp add: new_session_manager_def manager_ok_def manager_pre_def jhas_def live_def retained_def new_limiter_def)
next
  case (Some rs)
  let ?m = "\<lparr>sm_objects = [], sm_runtime = [], sm_completedOrder = map sr_id (sort_key (completionOrderKey parse) rs), sm_blockedWorkspaces = [], sm_epochs = [],
      sm_sessionsByWorkspace = [], sm_workspaceBySession = [], sm_store = foldl (\<lambda>st r. jset st (sr_id r) (toV1Session r)) [] rs, sm_limiter = new_limiter,
      sm_leases = leases, sm_durable = Some [], sm_cancels = [], sm_stranded = []\<rparr>"
  have "jmap_ok (sm_store ?m)" "jhas (sm_store ?m) i \<longrightarrow> i \<in> set (sm_completedOrder ?m)" for i
    using recovered_map [of "[]" rs] recovered_ids [of "[]" rs i] by (auto simp: jhas_def)
  then have "manager_pre ?m"
    using limiter.invar_reached [of "[]"] by (simp add: manager_pre_def live_def retained_def) (simp add: new_limiter_def jhas_def)
  then show ?thesis using evict_ok [of ?m] Some by (simp add: new_session_manager_def)
qed

interpretation manager: transition_system "\<lambda>m. \<exists>parse leases durable. m = new_session_manager parse leases durable" "manager_step bytesOf" manager_ok
  by unfold_locales (auto intro: new_manager_ok manager_ok_step)

section \<open>What is kept is bounded\<close>

lemma kept_bound:
  assumes "manager_ok m" and "distinct ids" and "\<And>i. i \<in> set ids \<Longrightarrow> retained m i \<or> i \<in> set extra"
  shows "length ids \<le> MAX_RETAINED_COMPLETED_SESSIONS + lim_global ACTIVE_SESSION_LIMITS + length extra"
proof -
  have ok: "manager_pre m" "length (sm_completedOrder m) \<le> MAX_RETAINED_COMPLETED_SESSIONS"
    using assms(1) by (simp_all add: manager_ok_def)
  then have held: "length (lm_held (sm_limiter m)) \<le> lim_global ACTIVE_SESSION_LIMITS" "live m i \<longleftrightarrow> i \<in> set (map fst (lm_held (sm_limiter m)))" for i
    by (auto simp: manager_pre_def limiter_ok_def jhas_iff_keys)
  have "set ids \<subseteq> set (sm_completedOrder m @ map fst (lm_held (sm_limiter m)) @ extra)"
    using assms(3) held(2) by (auto simp: retained_def)
  then have "card (set ids) \<le> card (set (sm_completedOrder m @ map fst (lm_held (sm_limiter m)) @ extra))"
    by (intro card_mono) auto
  then have "length ids \<le> length (sm_completedOrder m @ map fst (lm_held (sm_limiter m)) @ extra)"
    using card_length le_trans distinct_card [OF assms(2)] by metis
  then show ?thesis using ok(2) held(1) by simp
qed

text \<open>
  C9. However sessions are created, fail to start, stream, are subscribed to, cancelled, removed or revoked: exactly the sessions whose stream has
  not ended hold one of the four reservations, at most 50 finished ones are remembered, and no more than 54 event histories are kept; the records
  are as many, plus those of launches that failed while the durable store was failing.
\<close>

theorem manager_bounded:
  assumes "(manager_step bytesOf)\<^sup>*\<^sup>* (new_session_manager parse leases durable) m"
  shows "(\<forall>i. holds (sm_limiter m) i \<longleftrightarrow> live m i) \<and> length (sm_completedOrder m) \<le> 50 \<and>
    length (sm_runtime m) \<le> 54 \<and> length (sm_store m) \<le> 54 + length (sm_stranded m)"
proof -
  have ok: "manager_ok m" using manager.invar_reachable [OF _ assms] by blast
  then have pre: "manager_pre m" by (simp add: manager_ok_def)
  have "length (sm_runtime m) \<le> MAX_RETAINED_COMPLETED_SESSIONS + lim_global ACTIVE_SESSION_LIMITS + length ([] :: string list)"
    using pre by (intro kept_bound [OF ok]) (simp_all add: manager_pre_def)
  moreover have "length (map fst (sm_store m)) \<le> MAX_RETAINED_COMPLETED_SESSIONS + lim_global ACTIVE_SESSION_LIMITS + length (sm_stranded m)"
    using pre by (intro kept_bound [OF ok]) (auto simp: manager_pre_def jmap_ok_def jhas_iff_keys)
  ultimately show ?thesis using ok
    by (simp add: manager_ok_def manager_pre_def holds_def MAX_RETAINED_COMPLETED_SESSIONS_def ACTIVE_SESSION_LIMITS_def)
qed

definition a_request :: create_request where
  "a_request = \<lparr>cr_session = \<lparr>as_id = ''s1'', as_provider = Claude, as_cwd = [], as_prompt = [], as_model = None, as_status = V1_starting,
       as_providerSessionId = None, as_error = None, as_startedAt = ''t0'', as_completedAt = None\<rparr>,
     cr_providerKnown = True, cr_leaseSession = None, cr_workspaceId = Some ''w1'', cr_expectedEpoch = Some 0, cr_durableCreateFails = False,
     cr_startFails = False, cr_finalizeFails = False\<rparr>"

definition a_manager :: SessionManager where
  "a_manager = new_session_manager (\<lambda>_. None) None None"

lemma a_session_runs: "(manager_step bytesOf)\<^sup>*\<^sup>* (new_session_manager (\<lambda>_. None) None None) (snd (create_session a_request a_manager))"
  unfolding a_manager_def by (intro r_into_rtranclp ms_create)

theorem manager_bounded_witness:
  "holds (sm_limiter (snd (create_session a_request a_manager))) ''s1'' \<and> live (snd (create_session a_request a_manager)) ''s1''"
proof -
  have "jhas (lm_held (sm_limiter (snd (create_session a_request a_manager)))) ''s1''"
    by (simp add: create_session_def a_request_def a_manager_def new_session_manager_def admission_refusal_def Let_def reserve_def new_limiter_def
        jhas_def ACTIVE_SESSION_LIMITS_def provider_active_def isWorkspaceBlocked_def workspaceEpoch_def go_live_def indexWorkspaceSession_def)
  then show ?thesis using manager_bounded [OF a_session_runs] by (simp add: holds_def)
qed

section \<open>Event histories and their subscribers\<close>

text \<open>
  A subscriber that is still there was called with the replayed numbers and then with every number handed out since it joined; each call's
  number is its event's own.
\<close>

definition subscriber_ok :: "nat \<Rightarrow> subscriber \<Rightarrow> bool" where
  "subscriber_ok delivered l \<longleftrightarrow>
     li_joined l \<le> delivered \<and> (li_active l \<longrightarrow> map fst (li_calls l) = [li_since l..<li_history l] @ [li_joined l..<delivered]) \<and>
     (\<forall>(n, e)\<in>set (li_calls l). env_sequence e = n)"

definition history_ok :: "(units envelope \<Rightarrow> nat) \<Rightarrow> RuntimeState \<Rightarrow> bool" where
  "history_ok bytesOf r \<longleftrightarrow>
     map env_sequence (rt_events r) = [0..<length (rt_events r)] \<and> length (rt_events r) \<le> MAX_STORED_EVENTS_PER_SESSION \<and>
     rt_replayBytes r = sum_list (map bytesOf (rt_events r)) \<and> rt_replayBytes r \<le> MAX_STORED_EVENT_BYTES_PER_SESSION \<and>
     length (rt_events r) \<le> delivered_events r \<and> (\<not> rt_replayFull r \<longrightarrow> length (rt_events r) = delivered_events r) \<and>
     (\<forall>n. rt_consumer r = Failing n \<longrightarrow> rt_nextSequence r = Suc n)"

definition runtime_ok :: "(units envelope \<Rightarrow> nat) \<Rightarrow> RuntimeState \<Rightarrow> bool" where
  "runtime_ok bytesOf r \<longleftrightarrow> history_ok bytesOf r \<and> (\<forall>l\<in>set (rt_listeners r). subscriber_ok (delivered_events r) l)"

definition histories_ok :: "(units envelope \<Rightarrow> nat) \<Rightarrow> SessionManager \<Rightarrow> bool" where
  "histories_ok bytesOf m \<longleftrightarrow> (\<forall>i r. jget (sm_objects m) i = Some r \<longrightarrow> runtime_ok bytesOf r)"

lemma histories_same: "sm_objects m' = sm_objects m \<Longrightarrow> histories_ok bytesOf m \<Longrightarrow> histories_ok bytesOf m'"
  by (simp add: histories_ok_def)

lemma histories_set: "sm_objects m' = jset (sm_objects m) i r \<Longrightarrow> histories_ok bytesOf m \<Longrightarrow> runtime_ok bytesOf r \<Longrightarrow> histories_ok bytesOf m'"
  by (auto simp: histories_ok_def jget_jset)

lemma history_object: "histories_ok bytesOf m \<Longrightarrow> jget (sm_objects m) i = Some r \<Longrightarrow> runtime_ok bytesOf r"
  by (simp add: histories_ok_def)

lemma listeners_history: "history_ok bytesOf (r\<lparr>rt_listeners := ls\<rparr>) = history_ok bytesOf r" "delivered_events (r\<lparr>rt_listeners := ls\<rparr>) = delivered_events r"
  by (simp_all add: history_ok_def delivered_events_def split: consumer.split)

lemma new_runtime_ok: "runtime_ok bytesOf new_runtime"
  by (simp add: runtime_ok_def history_ok_def new_runtime_def delivered_events_def)

text \<open>One more event, with the next number.\<close>

lemma called_ok: "subscriber_ok n l \<Longrightarrow> env_sequence e = n \<Longrightarrow> subscriber_ok (Suc n) (call_listener n e l)"
  by (auto simp: subscriber_ok_def call_listener_def)

lemma stored_ok:
  assumes "history_ok bytesOf r" and "env_sequence e = delivered_events r" and "\<And>n. rt_consumer r' \<noteq> Failing n"
    and "rt_events r' = rt_events r" "rt_replayBytes r' = rt_replayBytes r" "rt_replayFull r' = rt_replayFull r" "rt_nextSequence r' = Suc (delivered_events r)"
  shows "history_ok bytesOf (storeEnvelope e (bytesOf e) r')"
  using assms by (auto simp: history_ok_def storeEnvelope_def delivered_events_def split: consumer.split)

lemma delivered_ok:
  assumes "runtime_ok bytesOf r" and "env_sequence e = delivered_events r" and c: "\<And>n. rt_consumer r' \<noteq> Failing n"
    and "rt_events r' = rt_events r" "rt_replayBytes r' = rt_replayBytes r" "rt_replayFull r' = rt_replayFull r" "rt_nextSequence r' = Suc (delivered_events r)"
    and "rt_listeners r' = rt_listeners r"
  shows "runtime_ok bytesOf (notify_listeners (delivered_events r) e (storeEnvelope e (bytesOf e) r'))"
proof -
  let ?t = "notify_listeners (delivered_events r) e (storeEnvelope e (bytesOf e) r')"
  have n: "delivered_events ?t = Suc (delivered_events r)" "rt_listeners ?t = map (call_listener (delivered_events r) e) (rt_listeners r)"
    using c assms(7,8) by (auto simp: notify_listeners_def storeEnvelope_def delivered_events_def split: consumer.split)
  have "history_ok bytesOf (storeEnvelope e (bytesOf e) r')"
    using assms by (intro stored_ok [of bytesOf r]) (auto simp: runtime_ok_def)
  then have "history_ok bytesOf ?t" by (simp add: notify_listeners_def listeners_history)
  moreover have "subscriber_ok (delivered_events ?t) l" if "l \<in> set (rt_listeners ?t)" for l
    using that assms(1,2) called_ok unfolding n by (auto simp: runtime_ok_def)
  ultimately show ?thesis by (simp add: runtime_ok_def)
qed

lemma waiting_ok: "runtime_ok bytesOf r \<Longrightarrow> rt_consumer r = Consuming \<Longrightarrow> n = rt_nextSequence r \<Longrightarrow>
    runtime_ok bytesOf (r\<lparr>rt_nextSequence := Suc n, rt_consumer := Failing n\<rparr>)"
  by (simp add: runtime_ok_def history_ok_def delivered_events_def)

lemma histories_event:
  assumes "histories_ok bytesOf m"
  shows "histories_ok bytesOf (consume_event bytesOf takes hasFrames now hasStore digest put i event m)"
proof (cases "jget (sm_objects m) i")
  case (Some r)
  have r: "runtime_ok bytesOf r" using assms Some by (rule history_object)
  show ?thesis
  proof (cases "rt_consumer r = Consuming")
    case True
    then have n: "rt_nextSequence r = delivered_events r" by (simp add: delivered_events_def)
    have deliver: "runtime_ok bytesOf (notify_listeners (delivered_events r) e (storeEnvelope e (bytesOf e) (r\<lparr>rt_nextSequence := Suc (delivered_events r)\<rparr>)))"
      if "env_sequence e = delivered_events r" for e using r that True by (intro delivered_ok) auto
    show ?thesis
      using Some True deliver waiting_ok [OF r True refl]
      by (auto simp: consume_event_def Let_def n intro!: histories_set [OF _ assms, of _ i])
  next
    case False
    then show ?thesis using assms Some by (simp add: consume_event_def)
  qed
qed (use assms in \<open>simp add: consume_event_def\<close>)

lemma finally_objects [simp]: "sm_objects (consume_finally i m) = sm_objects m"
  by (simp add: consume_finally_def Let_def)

lemma histories_failed: "histories_ok bytesOf m \<Longrightarrow> histories_ok bytesOf (consume_failed bytesOf takes hasFrames now i m)"
proof (cases "jget (sm_objects m) i")
  case (Some r)
  assume ok: "histories_ok bytesOf m"
  then have r: "runtime_ok bytesOf r" using Some by (rule history_object)
  show ?thesis
  proof (cases "rt_consumer r")
    case (Failing n)
    then have n: "n = delivered_events r" "rt_nextSequence r = Suc n" using r by (simp_all add: delivered_events_def runtime_ok_def history_ok_def)
    let ?e = "\<lparr>env_sequence = n, env_timestamp = now, env_event = A_session_failed OVERSIZED_MESSAGE\<rparr>"
    have "runtime_ok bytesOf (notify_listeners n ?e (storeEnvelope ?e (bytesOf ?e) (r\<lparr>rt_consumer := Consumed\<rparr>)))"
      unfolding n(1) using r n by (intro delivered_ok) auto
    then show ?thesis using Some Failing by (auto simp: consume_failed_def Let_def intro!: histories_set [OF _ ok, of _ i])
  qed (use ok Some in \<open>simp_all add: consume_failed_def\<close>)
qed (simp add: consume_failed_def)

lemma histories_end: "histories_ok bytesOf m \<Longrightarrow> histories_ok bytesOf (consume_end i m)"
proof (cases "jget (sm_objects m) i")
  case (Some r)
  assume ok: "histories_ok bytesOf m"
  have "runtime_ok bytesOf (r\<lparr>rt_consumer := Consumed\<rparr>)" if "rt_consumer r = Consuming"
    using history_object [OF ok Some] that by (simp add: runtime_ok_def history_ok_def delivered_events_def)
  then show ?thesis using ok Some by (auto simp: consume_end_def intro!: histories_set [OF _ ok, of _ i])
qed (simp add: consume_end_def)

lemma joins_ok: "history_ok bytesOf r \<Longrightarrow>
   subscriber_ok (delivered_events r) \<lparr>li_since = since, li_history = length (rt_events r), li_joined = delivered_events r, li_active = True,
     li_calls = map (\<lambda>j. (j, rt_events r ! j)) [since..<length (rt_events r)]\<rparr>"
proof -
  assume ok: "history_ok bytesOf r"
  have "env_sequence (rt_events r ! j) = j" if "j < length (rt_events r)" for j
  proof -
    have "map env_sequence (rt_events r) ! j = [0..<length (rt_events r)] ! j" using ok by (simp add: history_ok_def)
    then show ?thesis using that by simp
  qed
  then show ?thesis by (auto simp: subscriber_ok_def comp_def)
qed

lemma histories_subscribe: "histories_ok bytesOf m \<Longrightarrow> histories_ok bytesOf (snd (subscribe_session i since m))"
proof (cases "if i \<in> set (sm_runtime m) then jget (sm_objects m) i else None")
  case (Some r)
  assume ok: "histories_ok bytesOf m"
  have r: "runtime_ok bytesOf r" using ok Some by (auto intro: history_object split: if_splits)
  show ?thesis
  proof (cases "since < 0")
    case False
    show ?thesis
      unfolding subscribe_session_def Some
      using False r by (auto simp: Let_def runtime_ok_def listeners_history joins_ok intro!: histories_set [OF _ ok, of _ i])
  qed (simp add: subscribe_session_def Some ok)
qed (simp add: subscribe_session_def)

lemma histories_unsubscribe: "histories_ok bytesOf m \<Longrightarrow> histories_ok bytesOf (unsubscribe_session i k m)"
proof (cases "jget (sm_objects m) i")
  case (Some r)
  assume ok: "histories_ok bytesOf m"
  have r: "runtime_ok bytesOf r" using ok Some by (rule history_object)
  let ?ls = "(rt_listeners r)[k := (rt_listeners r ! k)\<lparr>li_active := False\<rparr>]"
  have "subscriber_ok d (l\<lparr>li_active := False\<rparr>)" if "subscriber_ok d l" for d l using that by (simp add: subscriber_ok_def)
  then have "\<forall>l\<in>set ?ls. subscriber_ok (delivered_events r) l" if "k < length (rt_listeners r)"
    using r that set_update_subset_insert by (fastforce simp: runtime_ok_def)
  then show ?thesis
    using Some ok r by (auto simp: unsubscribe_session_def runtime_ok_def listeners_history intro!: histories_set [OF _ ok, of _ i])
qed (simp add: unsubscribe_session_def)

lemma create_objects:
  "sm_objects (snd (create_session req m)) = sm_objects m \<or> sm_objects (snd (create_session req m)) = jset (sm_objects m) (as_id (cr_session req)) new_runtime"
  by (simp add: create_session_def Let_def split: option.split sum.split prod.split)

lemma histories_step: "manager_step bytesOf m m' \<Longrightarrow> histories_ok bytesOf m \<Longrightarrow> histories_ok bytesOf m'"
proof (induction rule: manager_step.induct)
  case (ms_create m req)
  then show ?case using create_objects [of req m] histories_same histories_set new_runtime_ok by metis
next
  case (ms_cancel m i)
  then show ?case by (auto simp: cancel_session_def split: option.split elim: histories_same [rotated])
next
  case (ms_remove_begin m i)
  then show ?case by (auto simp: remove_begin_def split: option.split elim: histories_same [rotated])
qed (auto simp: histories_event histories_failed histories_end histories_subscribe histories_unsubscribe remove_finish_def Let_def
    cancelAll_fields revoke_fields elim: histories_same [rotated])

lemma histories_new: "histories_ok bytesOf (new_session_manager parse leases durable)"
  by (auto simp: histories_ok_def new_session_manager_def Let_def split: option.split)

interpretation histories: transition_system "\<lambda>m. \<exists>parse leases durable. m = new_session_manager parse leases durable" "manager_step bytesOf" "histories_ok bytesOf"
  by unfold_locales (auto intro: histories_new histories_step)

text \<open>
  C8. The replay of a subscriber joins the live delivery. A subscriber that is still there has been called with the events of the history from the one
  it asked for, then with every event delivered since it joined, each with the event's own number; when the history was complete as it joined, and
  it asked for no later event than was there, this is every event from that one to the last, once and in order, also if the history has filled up
  since. The history never has more than 5000 events or 16 MiB.
\<close>

theorem replay_seamless:
  assumes "(manager_step bytesOf)\<^sup>*\<^sup>* (new_session_manager parse leases durable) m"
    and "jget (sm_objects m) i = Some r" and "l \<in> set (rt_listeners r)" and "li_active l"
  shows "map fst (li_calls l) = [li_since l..<li_history l] @ [li_joined l..<delivered_events r] \<and>
    map (env_sequence \<circ> snd) (li_calls l) = map fst (li_calls l) \<and>
    (if li_history l = li_joined l \<and> li_since l \<le> li_history l then map fst (li_calls l) = [li_since l..<delivered_events r] else True) \<and>
    length (rt_events r) \<le> 5000 \<and> sum_list (map bytesOf (rt_events r)) \<le> 16 * 1024 * 1024"
proof -
  have r: "runtime_ok bytesOf r" using histories.invar_reachable [OF _ assms(1)] assms(2) by (blast intro: history_object)
  then have l: "subscriber_ok (delivered_events r) l" using assms(3) by (simp add: runtime_ok_def)
  then have joined: "li_joined l \<le> delivered_events r" and seqs: "\<And>n e. (n, e) \<in> set (li_calls l) \<Longrightarrow> env_sequence e = n"
    and calls: "map fst (li_calls l) = [li_since l..<li_history l] @ [li_joined l..<delivered_events r]"
    using assms(4) by (auto simp: subscriber_ok_def)
  have "[li_since l..<li_history l] @ [li_joined l..<delivered_events r] = [li_since l..<delivered_events r]"
    if "li_history l = li_joined l" "li_since l \<le> li_history l"
    using joined that by (metis upt_add_eq_append le_Suc_ex)
  moreover have "map (env_sequence \<circ> snd) (li_calls l) = map fst (li_calls l)" using seqs by (auto intro: map_cong)
  moreover have "length (rt_events r) \<le> 5000" "sum_list (map bytesOf (rt_events r)) \<le> 16 * 1024 * 1024"
    using r by (simp_all add: runtime_ok_def history_ok_def MAX_STORED_EVENTS_PER_SESSION_def MAX_STORED_EVENT_BYTES_PER_SESSION_def)
  ultimately show ?thesis using calls by simp
qed

definition a_streamed_manager :: SessionManager where
  "a_streamed_manager =
     consume_event (\<lambda>_. 1) (\<lambda>_. True) False ''t1'' False 0 None ''s1'' A_session_cancelled (snd (subscribe_session ''s1'' 0 (snd (create_session a_request a_manager))))"

definition a_streamed_event :: "units envelope" where
  "a_streamed_event = \<lparr>env_sequence = 0, env_timestamp = ''t1'', env_event = A_session_cancelled\<rparr>"

definition a_subscriber :: subscriber where
  "a_subscriber = \<lparr>li_since = 0, li_history = 0, li_joined = 0, li_active = True, li_calls = [(0, a_streamed_event)]\<rparr>"

definition a_streamed_runtime :: RuntimeState where
  "a_streamed_runtime = \<lparr>rt_events = [a_streamed_event], rt_replayBytes = 1, rt_replayFull = False, rt_listeners = [a_subscriber], rt_nextSequence = 1,
     rt_consumer = Consuming\<rparr>"

lemma a_created_objects:
  "sm_objects (snd (create_session a_request a_manager)) = [(''s1'', new_runtime)]" "sm_runtime (snd (create_session a_request a_manager)) = [''s1'']"
  by (simp_all add: create_session_def a_request_def a_manager_def new_session_manager_def admission_refusal_def Let_def reserve_def new_limiter_def
      jhas_def ACTIVE_SESSION_LIMITS_def provider_active_def isWorkspaceBlocked_def workspaceEpoch_def insert_id_def durable_do_def)

lemma a_streamed_object: "jget (sm_objects a_streamed_manager) ''s1'' = Some a_streamed_runtime"
proof -
  have "sm_objects (snd (subscribe_session ''s1'' 0 (snd (create_session a_request a_manager)))) =
      [(''s1'', new_runtime\<lparr>rt_listeners := [a_subscriber\<lparr>li_calls := []\<rparr>]\<rparr>)]"
    by (simp add: subscribe_session_def a_created_objects Let_def new_runtime_def delivered_events_def a_subscriber_def)
  then show ?thesis
    by (simp add: a_streamed_manager_def consume_event_def Let_def attachResultIfWorthwhile_def new_runtime_def storeEnvelope_def notify_listeners_def
        call_listener_def a_subscriber_def a_streamed_runtime_def a_streamed_event_def MAX_EVENT_ENVELOPE_BYTES_def
        RESULT_ATTACHMENT_ID_RESERVE_BYTES_def MAX_STORED_EVENTS_PER_SESSION_def MAX_STORED_EVENT_BYTES_PER_SESSION_def jget_jset)
qed

lemma a_streamed_reached: "(manager_step (\<lambda>_. 1))\<^sup>*\<^sup>* (new_session_manager (\<lambda>_. None) None None) a_streamed_manager"
proof -
  have "(manager_step (\<lambda>_. 1))\<^sup>*\<^sup>* (new_session_manager (\<lambda>_. None) None None) (snd (subscribe_session ''s1'' 0 (snd (create_session a_request a_manager))))"
    using a_session_runs ms_subscribe by (rule rtranclp.rtrancl_into_rtrancl)
  then show ?thesis unfolding a_streamed_manager_def using ms_event by (rule rtranclp.rtrancl_into_rtrancl)
qed

theorem replay_seamless_witness: "map fst (li_calls a_subscriber) = [0]"
  using replay_seamless [OF a_streamed_reached a_streamed_object, of a_subscriber]
  by (simp add: a_streamed_runtime_def a_subscriber_def delivered_events_def)


section \<open>Revocation\<close>

text \<open>Epochs only grow, and a workspace is blocked or allowed only with its epoch growing.\<close>

definition epoch_keeps :: "string \<Rightarrow> SessionManager \<Rightarrow> SessionManager \<Rightarrow> bool" where
  "epoch_keeps w m m' \<longleftrightarrow> workspaceEpoch m w \<le> workspaceEpoch m' w \<and>
     (workspaceEpoch m' w = workspaceEpoch m w \<longrightarrow> isWorkspaceBlocked m' w = isWorkspaceBlocked m w)"

lemma epoch_untouched: "sm_epochs m' = sm_epochs m \<Longrightarrow> sm_blockedWorkspaces m' = sm_blockedWorkspaces m \<Longrightarrow> epoch_keeps w m m'"
  by (simp add: epoch_keeps_def workspaceEpoch_def isWorkspaceBlocked_def)

lemma epoch_bumped:
  assumes "sm_epochs m' = sm_epochs (bumpWorkspaceEpoch v m)" and "\<And>u. u \<noteq> v \<Longrightarrow> isWorkspaceBlocked m' u = isWorkspaceBlocked m u"
  shows "epoch_keeps w m m'" "workspaceEpoch m' v = Suc (workspaceEpoch m v)"
  using assms by (auto simp: epoch_keeps_def workspaceEpoch_def bumpWorkspaceEpoch_def jget_jset)

lemma block_bumps: "sm_epochs (blockWorkspace v m) = sm_epochs (bumpWorkspaceEpoch v m)" "u \<noteq> v \<Longrightarrow> isWorkspaceBlocked (blockWorkspace v m) u = isWorkspaceBlocked m u"
  by (auto simp: blockWorkspace_def bumpWorkspaceEpoch_def workspaceEpoch_def isWorkspaceBlocked_def insert_id_def)

lemma allow_bumps: "sm_epochs (allowWorkspace v m) = sm_epochs (bumpWorkspaceEpoch v m)" "u \<noteq> v \<Longrightarrow> isWorkspaceBlocked (allowWorkspace v m) u = isWorkspaceBlocked m u"
  by (auto simp: allowWorkspace_def bumpWorkspaceEpoch_def workspaceEpoch_def isWorkspaceBlocked_def)

lemma revoke_bumps:
  "sm_epochs (snd (revokeWorkspace v m)) = sm_epochs (bumpWorkspaceEpoch v m)" "u \<noteq> v \<Longrightarrow> isWorkspaceBlocked (snd (revokeWorkspace v m)) u = isWorkspaceBlocked m u"
  using block_bumps(1) [of v m] block_bumps(2) [of u v m] by (simp_all add: revoke_fields isWorkspaceBlocked_def)

lemma finally_epochs: "sm_epochs (consume_finally i m) = sm_epochs m" "sm_blockedWorkspaces (consume_finally i m) = sm_blockedWorkspaces m"
  by (simp_all add: consume_finally_def Let_def)

lemma epoch_step: "manager_step bytesOf m m' \<Longrightarrow> epoch_keeps w m m'"
proof (induction rule: manager_step.induct)
  case (ms_create m req)
  show ?case by (rule epoch_untouched) (simp_all add: create_session_def Let_def split: option.split sum.split prod.split)
next
  case (ms_event m takes hasFrames now hasStore digest put i event)
  show ?case by (rule epoch_untouched) (simp_all add: consume_event_def Let_def split: option.split)
next
  case (ms_failed m takes hasFrames now i)
  show ?case by (rule epoch_untouched) (simp_all add: consume_failed_def Let_def finally_epochs split: option.split consumer.split)
next
  case (ms_end m i)
  show ?case by (rule epoch_untouched) (simp_all add: consume_end_def finally_epochs split: option.split)
next
  case (ms_subscribe m i since)
  show ?case by (rule epoch_untouched) (simp_all add: subscribe_session_def Let_def split: option.split)
next
  case (ms_unsubscribe m i k)
  show ?case by (rule epoch_untouched) (simp_all add: unsubscribe_session_def split: option.split)
next
  case (ms_cancel m i)
  show ?case by (rule epoch_untouched) (simp_all add: cancel_session_def split: option.split)
next
  case (ms_remove_begin m i)
  show ?case by (rule epoch_untouched) (simp_all add: remove_begin_def split: option.split)
next
  case (ms_remove_finish m i)
  show ?case by (rule epoch_untouched) (simp_all add: remove_finish_def Let_def)
next
  case (ms_cancel_all m)
  show ?case by (rule epoch_untouched) (simp_all add: cancelAll_fields)
next
  case (ms_block m v)
  show ?case by (rule epoch_bumped(1) [OF block_bumps(1) block_bumps(2)])
next
  case (ms_allow m v)
  show ?case by (rule epoch_bumped(1) [OF allow_bumps(1) allow_bumps(2)])
next
  case (ms_revoke m v)
  show ?case by (rule epoch_bumped(1) [OF revoke_bumps(1) revoke_bumps(2)])
qed

lemma epoch_steps: "(manager_step bytesOf)\<^sup>*\<^sup>* m m' \<Longrightarrow> epoch_keeps w m m'"
proof (induction rule: rtranclp_induct)
  case (step n t)
  then show ?case using epoch_step [OF step(2), of w] by (auto simp: epoch_keeps_def)
qed (simp add: epoch_keeps_def)

lemma refused_no_effect:
  assumes "admission_refusal req m = Some e"
  shows "fst (create_session req m) = Inl e" "sm_limiter (snd (create_session req m)) = sm_limiter m"
    "sm_runtime (snd (create_session req m)) = sm_runtime m" "sm_durable (snd (create_session req m)) = sm_durable m"
  using assms by (simp_all add: create_session_def create_catch_def Let_def)

lemma stale_refused:
  assumes "cr_workspaceId req = Some w" and "cr_expectedEpoch req = Some epoch" and "workspaceEpoch m w \<noteq> epoch"
  obtains e where "admission_refusal req m = Some e"
  using assms by (fastforce simp: admission_refusal_def Let_def)

text \<open>
  C10. A workspace that is revoked after a decision read its epoch is lost to that decision, even if it is allowed again before: the trust check answers no
  whatever the identity check and the trust store say, and \<^verbatim>\<open>create\<close> with that epoch starts nothing: no reservation, no runtime and no call to the
  durable store.
\<close>

theorem revocation_wins:
  assumes "(manager_step bytesOf)\<^sup>*\<^sup>* m0 m1" and "(manager_step bytesOf)\<^sup>*\<^sup>* (snd (revokeWorkspace w m1)) m2"
    and "cr_workspaceId req = Some w" and "cr_expectedEpoch req = Some (workspaceEpoch m0 w)"
  shows "\<not> workspaceIsTrusted hasTrustStore w (workspaceEpoch m0 w) stillTheSame trusted ma mb m2 \<and>
    isl (fst (create_session req m2)) \<and> sm_limiter (snd (create_session req m2)) = sm_limiter m2 \<and>
    sm_runtime (snd (create_session req m2)) = sm_runtime m2 \<and> sm_durable (snd (create_session req m2)) = sm_durable m2"
proof -
  have "workspaceEpoch m0 w \<le> workspaceEpoch m1 w" using epoch_steps [OF assms(1), of w] by (simp add: epoch_keeps_def)
  also have "workspaceEpoch m1 w < workspaceEpoch (snd (revokeWorkspace w m1)) w"
    using epoch_bumped(2) [OF revoke_bumps(1) revoke_bumps(2)] by simp
  also have "\<dots> \<le> workspaceEpoch m2 w" using epoch_steps [OF assms(2), of w] by (simp add: epoch_keeps_def)
  finally have stale: "workspaceEpoch m2 w \<noteq> workspaceEpoch m0 w" by simp
  obtain e where "admission_refusal req m2 = Some e" using assms(3,4) stale by (rule stale_refused)
  from refused_no_effect [OF this] stale show ?thesis by (simp add: workspaceIsTrusted_def)
qed

theorem revocation_wins_witness:
  "isl (fst (create_session a_request (allowWorkspace ''w1'' (snd (revokeWorkspace ''w1'' a_manager)))))"
proof -
  have "(manager_step (\<lambda>_. 1))\<^sup>*\<^sup>* (snd (revokeWorkspace ''w1'' a_manager)) (allowWorkspace ''w1'' (snd (revokeWorkspace ''w1'' a_manager)))"
    by (intro r_into_rtranclp ms_allow)
  from revocation_wins [OF rtranclp.rtrancl_refl this, of a_request] show ?thesis
    by (simp add: a_request_def a_manager_def new_session_manager_def workspaceEpoch_def)
qed

text \<open>And a trust check that answers yes was made over a stretch in which the workspace was neither blocked nor allowed.\<close>

lemma trusted_undisturbed:
  assumes "(manager_step bytesOf)\<^sup>*\<^sup>* m0 m" and "(manager_step bytesOf)\<^sup>*\<^sup>* m m2"
    and "workspaceIsTrusted hasTrustStore w epoch stillTheSame trusted m0 m1 m2"
  shows "workspaceEpoch m w = epoch \<and> \<not> isWorkspaceBlocked m w"
  using epoch_steps [OF assms(1), of w] epoch_steps [OF assms(2), of w] assms(3) by (auto simp: epoch_keeps_def workspaceIsTrusted_def)


section \<open>Three defects\<close>

text \<open>
  A second \<^verbatim>\<open>create\<close> with the id of a live session is refused and keeps its reservation, as the comment asks; but the record of the live session is
  deleted and its workspace lease is given back.
\<close>

lemma duplicate_create_harms:
  assumes "holds (sm_limiter m) (as_id (cr_session req))" and "admission_refusal req m = None"
  shows "fst (create_session req m) = Inl (Limit (Already_holds (as_id (cr_session req))))" "sm_limiter (snd (create_session req m)) = sm_limiter m"
    "\<not> jhas (sm_store (snd (create_session req m))) (as_id (cr_session req))"
    "sm_leases (snd (create_session req m)) = map_option (releaseForSession (as_id (cr_session req))) (sm_leases m)"
  using assms by (simp_all add: create_session_def Let_def reserve_def holds_def create_catch_def)

text \<open>A session that is removed before its stream ends comes back into the order of the finished ones, with no record.\<close>

lemma removed_session_returns:
  assumes "jget (sm_objects m) i = Some r" and "rt_consumer r = Consuming" and "length (sm_completedOrder m) < MAX_RETAINED_COMPLETED_SESSIONS"
  shows "i \<in> set (sm_completedOrder (consume_end i (remove_finish i m)))" "\<not> jhas (sm_store (consume_end i (remove_finish i m))) i"
proof -
  have "length (remove1 i (sm_completedOrder m)) < MAX_RETAINED_COMPLETED_SESSIONS" using assms(3) by (auto simp: length_remove1)
  then show "i \<in> set (sm_completedOrder (consume_end i (remove_finish i m)))" "\<not> jhas (sm_store (consume_end i (remove_finish i m))) i"
    using assms(1,2) by (simp_all add: consume_end_def remove_finish_def remove_first_def Let_def consume_finally_def evictOldestCompletedIfOverCap.simps)
qed

text \<open>A launch that fails while closing the durable record fails too leaves its record behind, still starting.\<close>

lemma failed_close_strands:
  assumes "admission_refusal req m = None" and "reserve (as_provider (cr_session req)) (as_id (cr_session req)) (sm_limiter m) = (Inr u, l)"
    and "sm_durable m \<noteq> None" "\<not> cr_durableCreateFails req" "cr_startFails req" "cr_finalizeFails req"
  shows "fst (create_session req m) = Inl Durable_finalize_failed"
    "jget (sm_store (snd (create_session req m))) (as_id (cr_session req)) = Some (new_session req)"
  using assms by (simp_all add: create_session_def Let_def create_catch_def jget_jset)

end
