(* ===== verification/Line_Reader.thy ===== *)
theory Line_Reader
  imports Unicode_Units
begin

text \<open>
  Lines from the standard output of a process (\<^verbatim>\<open>packages/agent-runtime/src/process/line-reader.ts\<close>), with the streaming
  UTF-8 decoder of the platform's \<^verbatim>\<open>TextDecoder\<close> that it keeps across chunks: ill-formed bytes become U+FFFD, a sequence cut by the
  end of a chunk is held back, and a byte order mark at the beginning is dropped. Bytes and UTF-16 code units are
  natural numbers.
\<close>

section \<open>The decoder\<close>

record decoder =
  de_needed :: nat
  de_seen :: nat
  de_lower :: nat
  de_upper :: nat
  de_point :: nat
  de_bomSeen :: bool

definition idle :: "bool \<Rightarrow> decoder" where
  "idle bomSeen = \<lparr>de_needed = 0, de_seen = 0, de_lower = 0x80, de_upper = 0xBF, de_point = 0, de_bomSeen = bomSeen\<rparr>"

definition new_decoder :: decoder where
  "new_decoder = idle False"

text \<open>A byte that begins a sequence.\<close>

definition decode_first :: "nat \<Rightarrow> decoder \<Rightarrow> decoder \<times> nat list" where
  "decode_first b d =
     (let e = idle (de_bomSeen d)
      in if b \<le> 0x7F then (e, [b])
         else if 0xC2 \<le> b \<and> b \<le> 0xDF then (e\<lparr>de_needed := 1, de_point := b - 0xC0\<rparr>, [])
         else if 0xE0 \<le> b \<and> b \<le> 0xEF then
           (e\<lparr>de_needed := 2, de_point := b - 0xE0, de_lower := (if b = 0xE0 then 0xA0 else 0x80), de_upper := (if b = 0xED then 0x9F else 0xBF)\<rparr>, [])
         else if 0xF0 \<le> b \<and> b \<le> 0xF4 then
           (e\<lparr>de_needed := 3, de_point := b - 0xF0, de_lower := (if b = 0xF0 then 0x90 else 0x80), de_upper := (if b = 0xF4 then 0x8F else 0xBF)\<rparr>, [])
         else (e, [0xFFFD]))"

definition decode_byte :: "nat \<Rightarrow> decoder \<Rightarrow> decoder \<times> nat list" where
  "decode_byte b d =
     (if de_needed d = 0 then decode_first b d
      else if b < de_lower d \<or> de_upper d < b then (let (e, ps) = decode_first b d in (e, 0xFFFD # ps))
      else let point = de_point d * 64 + (b - 0x80); seen = de_seen d + 1
           in if seen = de_needed d then (idle (de_bomSeen d), [point])
              else (d\<lparr>de_lower := 0x80, de_upper := 0xBF, de_point := point, de_seen := seen\<rparr>, []))"

definition point_units :: "nat \<Rightarrow> units" where
  "point_units p = (if p < 0x10000 then [p] else [0xD800 + (p - 0x10000) div 0x400, 0xDC00 + (p - 0x10000) mod 0x400])"

text \<open>The first code point of the stream is dropped when it is a byte order mark.\<close>

definition emit_points :: "decoder \<times> nat list \<Rightarrow> decoder \<times> units" where
  "emit_points dp =
     (let (d, ps) = dp
      in if ps = [] then (d, [])
         else (d\<lparr>de_bomSeen := True\<rparr>, concat (map point_units (if \<not> de_bomSeen d \<and> hd ps = 0xFEFF then tl ps else ps))))"

fun decode :: "decoder \<Rightarrow> nat list \<Rightarrow> decoder \<times> units" where
  "decode d [] = (d, [])"
| "decode d (b # bs) = (let (d1, u) = emit_points (decode_byte b d); (d2, us) = decode d1 bs in (d2, u @ us))"

definition decode_flush :: "decoder \<Rightarrow> units" where
  "decode_flush d = (if de_needed d = 0 then [] else snd (emit_points (d, [0xFFFD])))"


section \<open>The reader\<close>

definition strip_cr :: "units \<Rightarrow> units" where
  "strip_cr line = (if line \<noteq> [] \<and> last line = 13 then butlast line else line)"

definition space_unit :: "nat \<Rightarrow> bool" where
  "space_unit u \<longleftrightarrow>
     u \<in> {9, 10, 11, 12, 13, 32, 0xA0, 0x1680, 0x2028, 0x2029, 0x202F, 0x205F, 0x3000, 0xFEFF} \<or> (0x2000 \<le> u \<and> u \<le> 0x200A)"

definition trim_units :: "units \<Rightarrow> units" where
  "trim_units us = rev (dropWhile space_unit (rev (dropWhile space_unit us)))"

text \<open>The inner loop: the complete lines of the buffer that are not empty, and what is left of it.\<close>

function split_lines :: "units \<Rightarrow> units list \<times> units" where
  "split_lines buffer =
     (if 10 \<in> set buffer
      then let line = strip_cr (takeWhile (\<lambda>u. u \<noteq> 10) buffer);
               (ls, rest) = split_lines (tl (dropWhile (\<lambda>u. u \<noteq> 10) buffer))
           in (if line = [] then ls else line # ls, rest)
      else ([], buffer))"
  by pat_completeness auto
termination
proof (relation "measure length")
  fix buffer :: units
  assume "10 \<in> set buffer"
  then have "dropWhile (\<lambda>u. u \<noteq> 10) buffer \<noteq> []" by auto
  then show "(tl (dropWhile (\<lambda>u. u \<noteq> 10) buffer), buffer) \<in> measure length"
    using length_dropWhile_le [of "\<lambda>u. u \<noteq> 10" buffer] by (cases "dropWhile (\<lambda>u. u \<noteq> 10) buffer") auto
qed simp

declare split_lines.simps [simp del]

definition DEFAULT_MAX_LINE_BYTES :: nat where
  "DEFAULT_MAX_LINE_BYTES = 10 * 1024 * 1024"

text \<open>A chunk of a stream is bytes, or text when the stream has an encoding.\<close>

datatype chunk = Bytes "nat list" | Text units

definition chunk_text :: "decoder \<Rightarrow> chunk \<Rightarrow> decoder \<times> units" where
  "chunk_text d c = (case c of Text t \<Rightarrow> (d, t) | Bytes bs \<Rightarrow> decode d bs)"

text \<open>What the generator yields for the chunks still to come, and whether it throws in the end.\<close>

fun read_from :: "nat \<Rightarrow> decoder \<Rightarrow> units \<Rightarrow> chunk list \<Rightarrow> units list \<times> bool" where
  "read_from maxLineBytes d buffer [] =
     (let rest = trim_units (strip_cr (buffer @ decode_flush d)) in (if rest = [] then [] else [rest], False))"
| "read_from maxLineBytes d buffer (c # cs) =
     (let (d1, t) = chunk_text d c
      in if utf8_units (buffer @ t) > maxLineBytes then ([], True)
         else let (ls, rest) = split_lines (buffer @ t);
                  (more_lines, threw) = read_from maxLineBytes d1 rest cs
              in (ls @ more_lines, threw))"

definition readLines :: "nat \<Rightarrow> chunk list \<Rightarrow> units list \<times> bool" where
  "readLines maxLineBytes stream = read_from maxLineBytes new_decoder [] stream"


section \<open>Chunks do not matter\<close>

text \<open>The whole text, and its lines.\<close>

definition utf8_text :: "nat list \<Rightarrow> units" where
  "utf8_text bs = (let (d, t) = decode new_decoder bs in t @ decode_flush d)"

definition text_lines :: "units \<Rightarrow> units list" where
  "text_lines t = (let (ls, rest) = split_lines t; final = trim_units (strip_cr rest) in ls @ (if final = [] then [] else [final]))"

lemma decode_append: "decode d (xs @ ys) = (let (d1, t1) = decode d xs; (d2, t2) = decode d1 ys in (d2, t1 @ t2))"
  by (induction xs arbitrary: d) (auto simp: Let_def split: prod.splits)

declare decode.simps(2) [simp del]

lemma split_lines_step:
  "10 \<notin> set a \<Longrightarrow>
     split_lines (a @ 10 # b) = (let (ls, rest) = split_lines b in (if strip_cr a = [] then ls else strip_cr a # ls, rest))"
proof -
  assume a: "10 \<notin> set a"
  then have "takeWhile (\<lambda>u. u \<noteq> 10) (a @ 10 # b) = a" and "dropWhile (\<lambda>u. u \<noteq> 10) (a @ 10 # b) = 10 # b"
    by (metis (mono_tags, lifting) takeWhile_append2 takeWhile.simps(2) append_Nil2)
      (metis (mono_tags, lifting) a dropWhile_append2 dropWhile.simps(2))
  then show ?thesis by (subst split_lines.simps) (simp add: Let_def)
qed

lemma split_lines_none: "10 \<notin> set a \<Longrightarrow> split_lines a = ([], a)"
  by (subst split_lines.simps) simp

lemma text_induct [case_names none line]:
  assumes "\<And>a. 10 \<notin> set a \<Longrightarrow> P a" and "\<And>a b. 10 \<notin> set a \<Longrightarrow> P b \<Longrightarrow> P (a @ (10::nat) # b)"
  shows "P t"
proof (induction "length t" arbitrary: t rule: less_induct)
  case less
  show ?case
  proof (cases "10 \<in> set t")
    case True
    then obtain a b where "t = a @ 10 # b" "10 \<notin> set a" by (meson split_list_first)
    then show ?thesis using assms(2) less by simp
  qed (rule assms(1))
qed

lemma split_lines_append:
  "split_lines (a @ b) = (let (l1, r1) = split_lines a; (l2, r2) = split_lines (r1 @ b) in (l1 @ l2, r2))"
  by (induction a rule: text_induct) (auto simp: split_lines_none split_lines_step Let_def split: prod.splits)

lemma split_lines_rest: "10 \<notin> set (snd (split_lines t))"
  by (induction t rule: text_induct) (auto simp: split_lines_none split_lines_step split: prod.splits)

text \<open>The byte length grows with the text, and a newline separates what is before it from what is after.\<close>

lemma utf8_units_prefix: "utf8_units a \<le> utf8_units (a @ b)"
proof (induction a rule: characters.induct)
  case (2 u)
  have "char_bytes [u] \<le> char_bytes [u, v]" if "high_surrogate u" for v
    using that by (simp add: char_bytes_def Let_def)
  then show ?case by (cases b) (auto simp: utf8_units_def intro: trans_le_add1)
qed (auto simp: utf8_units_def)

lemma characters_newline: "characters (a @ 10 # b) = characters a @ [10] # characters b"
  by (induction a rule: characters.induct) (auto simp: characters_plain high_surrogate_def low_surrogate_def)

lemma utf8_units_rest: "utf8_units (snd (split_lines t)) \<le> utf8_units t"
  by (induction t rule: text_induct) (auto simp: split_lines_none split_lines_step utf8_units_def characters_newline split: prod.splits)

lemma rest_append: "utf8_units (snd (split_lines t) @ b) \<le> utf8_units (t @ b)"
  by (induction t rule: text_induct) (auto simp: split_lines_none split_lines_step utf8_units_def characters_newline split: prod.splits)

lemma read_from_text:
  assumes "read_from m d buffer (map Bytes cs) = (ls, threw)" and "decode d (concat cs) = (e, t)" and "10 \<notin> set buffer"
  shows "if threw then m < utf8_units (buffer @ t @ decode_flush e) \<and> prefix ls (text_lines (buffer @ t @ decode_flush e))
         else ls = text_lines (buffer @ t @ decode_flush e)"
  using assms
proof (induction cs arbitrary: d buffer ls t)
  case Nil
  have "10 \<notin> set (decode_flush e)"
    by (auto simp: decode_flush_def emit_points_def point_units_def)
  then show ?case using Nil by (auto simp: text_lines_def split_lines_none Let_def)
next
  case (Cons c cs)
  obtain d1 t1 where c: "decode d c = (d1, t1)" by fastforce
  obtain t2 where t2: "decode d1 (concat cs) = (e, t2)" and t: "t = t1 @ t2"
    using Cons.prems(2) c by (auto simp: decode_append split: prod.splits)
  let ?T = "buffer @ t @ decode_flush e"
  obtain l1 r1 where split: "split_lines (buffer @ t1) = (l1, r1)" by fastforce
  have T: "?T = (buffer @ t1) @ t2 @ decode_flush e" by (simp add: t)
  have lines: "text_lines ?T = l1 @ text_lines (r1 @ t2 @ decode_flush e)"
    unfolding T text_lines_def split_lines_append [of "buffer @ t1"] split by (simp add: Let_def split: prod.splits)
  show ?case
  proof (cases "utf8_units (buffer @ t1) > m")
    case True
    then have "ls = [] \<and> threw" using Cons.prems(1) c by (simp add: chunk_text_def)
    then show ?thesis using True utf8_units_prefix [of "buffer @ t1" "t2 @ decode_flush e"] by (simp add: t)
  next
    case False
    then obtain l2 where l2: "read_from m d1 r1 (map Bytes cs) = (l2, threw)" and ls: "ls = l1 @ l2"
      using Cons.prems(1) c split by (auto simp: chunk_text_def Let_def split: prod.splits)
    have "10 \<notin> set r1" using split_lines_rest [of "buffer @ t1"] split by simp
    moreover have "utf8_units (r1 @ t2 @ decode_flush e) \<le> utf8_units ?T"
      using rest_append [of "buffer @ t1" "t2 @ decode_flush e"] split by (simp add: t)
    ultimately show ?thesis using Cons.IH [OF l2 t2] by (auto simp: lines ls)
  qed
qed

lemma read_lines_text:
  "case readLines maxLineBytes (map Bytes chunks) of (ls, threw) \<Rightarrow>
     if threw then maxLineBytes < utf8_units (utf8_text (concat chunks)) \<and> prefix ls (text_lines (utf8_text (concat chunks)))
     else ls = text_lines (utf8_text (concat chunks))"
proof -
  obtain ls threw where r: "readLines maxLineBytes (map Bytes chunks) = (ls, threw)" by fastforce
  obtain e t where d: "decode new_decoder (concat chunks) = (e, t)" by fastforce
  show ?thesis
    using read_from_text [OF r [unfolded readLines_def] d] by (cases threw) (simp_all add: r utf8_text_def d)
qed

text \<open>
  C25. How the output of a process is cut into chunks does not matter, also when a cut falls inside a character or a line end.
  For every sequence of byte strings: unless the reader throws, it yields exactly the lines of the decoding of the
  whole output; and it throws only when the whole text is longer than the limit, having yielded a prefix of those lines.
\<close>

theorem chunking_irrelevant:
  "case readLines maxLineBytes (map Bytes chunks) of (ls, threw) \<Rightarrow>
     if threw then maxLineBytes < utf8_units (utf8_text (concat chunks)) \<and> prefix ls (text_lines (utf8_text (concat chunks)))
     else ls = text_lines (utf8_text (concat chunks))"
  by (rule read_lines_text)


section \<open>What is written is what is read\<close>

definition utf8_bytes :: "nat \<Rightarrow> nat list" where
  "utf8_bytes p =
     (if p < 0x80 then [p]
      else if p < 0x800 then [0xC0 + p div 64, 0x80 + p mod 64]
      else if p < 0x10000 then [0xE0 + p div 4096, 0x80 + p div 64 mod 64, 0x80 + p mod 64]
      else [0xF0 + p div 262144, 0x80 + p div 4096 mod 64, 0x80 + p div 64 mod 64, 0x80 + p mod 64])"

definition scalar_point :: "nat \<Rightarrow> bool" where
  "scalar_point p \<longleftrightarrow> p < 0xD800 \<or> (0xDFFF < p \<and> p < 0x110000)"

lemma div_mod_2: "p div 64 * 64 + p mod 64 = (p::nat)"
  by simp

lemma div_mod_3: "(p div 4096 * 64 + p div 64 mod 64) * 64 + p mod 64 = (p::nat)"
proof -
  have "p div 4096 * 64 + p div 64 mod 64 = p div 64"
    using div_mult_mod_eq [of "p div 64" 64] by (simp add: div_mult2_eq [symmetric])
  then show ?thesis by simp
qed

lemma div_mod_4: "((p div 262144 * 64 + p div 4096 mod 64) * 64 + p div 64 mod 64) * 64 + p mod 64 = (p::nat)"
proof -
  have "p div 262144 * 64 + p div 4096 mod 64 = p div 4096"
    using div_mult_mod_eq [of "p div 4096" 64] by (simp add: div_mult2_eq [symmetric])
  then show ?thesis using div_mod_3 [of p] by simp
qed

text \<open>The steps of the decoder on well-formed sequences.\<close>

lemma first_1: "p < 0x80 \<Longrightarrow> decode_byte p (idle s) = (idle s, [p])"
  by (simp add: decode_byte_def decode_first_def idle_def)

lemma first_2: "2 \<le> q \<Longrightarrow> q < 32 \<Longrightarrow> decode_byte (0xC0 + q) (idle s) = ((idle s)\<lparr>de_needed := 1, de_point := q\<rparr>, [])"
  by (simp add: decode_byte_def decode_first_def idle_def)

lemma first_3:
  "q < 16 \<Longrightarrow> decode_byte (0xE0 + q) (idle s) =
     ((idle s)\<lparr>de_needed := 2, de_point := q, de_lower := (if q = 0 then 0xA0 else 0x80), de_upper := (if q = 13 then 0x9F else 0xBF)\<rparr>, [])"
  by (simp add: decode_byte_def decode_first_def idle_def)

lemma first_4:
  "q < 5 \<Longrightarrow> decode_byte (0xF0 + q) (idle s) =
     ((idle s)\<lparr>de_needed := 3, de_point := q, de_lower := (if q = 0 then 0x90 else 0x80), de_upper := (if q = 4 then 0x8F else 0xBF)\<rparr>, [])"
  by (simp add: decode_byte_def decode_first_def idle_def)

lemma next_last:
  "de_needed d = Suc (de_seen d) \<Longrightarrow> de_lower d \<le> 0x80 + r \<Longrightarrow> 0x80 + r \<le> de_upper d \<Longrightarrow>
     decode_byte (0x80 + r) d = (idle (de_bomSeen d), [de_point d * 64 + r])"
  by (simp add: decode_byte_def Let_def)

lemma next_more:
  "Suc (de_seen d) < de_needed d \<Longrightarrow> de_lower d \<le> 0x80 + r \<Longrightarrow> 0x80 + r \<le> de_upper d \<Longrightarrow>
     decode_byte (0x80 + r) d =
       (d\<lparr>de_lower := 0x80, de_upper := 0xBF, de_point := de_point d * 64 + r, de_seen := Suc (de_seen d)\<rparr>, [])"
  by (simp add: decode_byte_def Let_def)

lemma decode_held: "decode_byte b d = (e, []) \<Longrightarrow> decode d (b # bs) = decode e bs"
  by (simp add: decode.simps emit_points_def)

text \<open>The text of one character: nothing for a byte order mark at the beginning.\<close>

definition shown :: "bool \<Rightarrow> nat \<Rightarrow> units" where
  "shown bomSeen p = (if \<not> bomSeen \<and> p = 0xFEFF then [] else point_units p)"

lemma decode_point:
  "decode_byte b d = (idle s, [p]) \<Longrightarrow> decode d (b # bs) = (let (x, us) = decode (idle True) bs in (x, shown s p @ us))"
  by (simp add: decode.simps emit_points_def shown_def idle_def)

lemma idle_fields [simp]: "de_needed (idle s) = 0" "de_seen (idle s) = 0" "de_bomSeen (idle s) = s" "de_lower (idle s) = 0x80" "de_upper (idle s) = 0xBF"
  by (simp_all add: idle_def)

lemma decode_utf8_3:
  assumes "scalar_point p" and "0x800 \<le> p" and "p < 0x10000"
  shows "decode (idle s) (utf8_bytes p @ bs) = (let (d, us) = decode (idle True) bs in (d, shown s p @ us))"
proof -
  let ?q = "p div 4096" and ?r = "p div 64 mod 64"
  let ?d = "(idle s)\<lparr>de_needed := 2, de_point := ?q, de_lower := (if ?q = 0 then 0xA0 else 0x80), de_upper := (if ?q = 13 then 0x9F else 0xBF)\<rparr>"
  let ?e = "?d\<lparr>de_lower := 0x80, de_upper := 0xBF, de_point := ?q * 64 + ?r, de_seen := 1\<rparr>"
  have whole: "p div 64 = ?q * 64 + ?r" using div_mod_3 [of p] by simp
  have low: "?q = 0 \<longrightarrow> 32 \<le> ?r" using assms(2) whole by (auto simp: less_eq_div_iff_mult_less_eq)
  have up: "?q = 13 \<longrightarrow> ?r \<le> 31"
  proof
    assume "?q = 13"
    then have "p < 0xD800" using assms(1) by (auto simp: scalar_point_def)
    then have "p div 64 < 864" by (simp add: div_less_iff_less_mult)
    then show "?r \<le> 31" using whole \<open>?q = 13\<close> by simp
  qed
  have "?q < 16" using assms(3) by auto
  then have "decode (idle s) ((0xE0 + ?q) # bs') = decode ?d bs'" for bs' by (intro decode_held first_3)
  moreover have "decode ?d ((0x80 + ?r) # bs') = decode ?e bs'" for bs'
    using low up by (intro decode_held) (subst next_more; auto)
  moreover have "decode ?e ((0x80 + p mod 64) # bs) = (let (d, us) = decode (idle True) bs in (d, shown s p @ us))"
    using div_mod_3 [of p] by (intro decode_point) (subst next_last; auto)
  ultimately show ?thesis using assms by (simp add: utf8_bytes_def)
qed

lemma decode_utf8_4:
  assumes "0x10000 \<le> p" and "p < 0x110000"
  shows "decode (idle s) (utf8_bytes p @ bs) = (let (d, us) = decode (idle True) bs in (d, shown s p @ us))"
proof -
  let ?q = "p div 262144" and ?r = "p div 4096 mod 64" and ?t = "p div 64 mod 64"
  let ?d = "(idle s)\<lparr>de_needed := 3, de_point := ?q, de_lower := (if ?q = 0 then 0x90 else 0x80), de_upper := (if ?q = 4 then 0x8F else 0xBF)\<rparr>"
  let ?e = "?d\<lparr>de_lower := 0x80, de_upper := 0xBF, de_point := ?q * 64 + ?r, de_seen := 1\<rparr>"
  let ?f = "?e\<lparr>de_lower := 0x80, de_upper := 0xBF, de_point := (?q * 64 + ?r) * 64 + ?t, de_seen := 2\<rparr>"
  have "p div 4096 = ?q * 64 + ?r"
    using div_mult_mod_eq [of "p div 4096" 64] by (simp add: div_mult2_eq [symmetric])
  moreover have "16 \<le> p div 4096" "p div 4096 < 272" using assms by (auto simp: less_eq_div_iff_mult_less_eq div_less_iff_less_mult)
  ultimately have bounds: "?q < 5" "?q = 0 \<longrightarrow> 16 \<le> ?r" "?q = 4 \<longrightarrow> ?r \<le> 15" by linarith+
  have "decode (idle s) ((0xF0 + ?q) # bs') = decode ?d bs'" for bs' using bounds by (intro decode_held first_4)
  moreover have "decode ?d ((0x80 + ?r) # bs') = decode ?e bs'" for bs'
    using bounds by (intro decode_held) (subst next_more; auto)
  moreover have "decode ?e ((0x80 + ?t) # bs') = decode ?f bs'" for bs'
    by (intro decode_held) (subst next_more; auto)
  moreover have "decode ?f ((0x80 + p mod 64) # bs) = (let (d, us) = decode (idle True) bs in (d, shown s p @ us))"
    using div_mod_4 [of p] by (intro decode_point) (subst next_last; auto)
  ultimately show ?thesis using assms by (simp add: utf8_bytes_def)
qed

lemma decode_utf8:
  assumes "scalar_point p"
  shows "decode (idle s) (utf8_bytes p @ bs) = (let (d, us) = decode (idle True) bs in (d, shown s p @ us))"
proof -
  consider "p < 0x80" | "0x80 \<le> p" "p < 0x800" | "0x800 \<le> p" "p < 0x10000" | "0x10000 \<le> p" by linarith
  then show ?thesis
  proof cases
    case 1
    then show ?thesis using decode_point [OF first_1 [of p s]] by (simp add: utf8_bytes_def)
  next
    case 2
    let ?d = "(idle s)\<lparr>de_needed := 1, de_point := p div 64\<rparr>"
    have "2 \<le> p div 64" "p div 64 < 32" using 2 by auto
    then have "decode (idle s) ((0xC0 + p div 64) # bs') = decode ?d bs'" for bs' by (intro decode_held first_2)
    moreover have "decode ?d ((0x80 + p mod 64) # bs) = (let (d, us) = decode (idle True) bs in (d, shown s p @ us))"
      using div_mod_2 [of p] by (intro decode_point) (subst next_last; auto)
    ultimately show ?thesis using 2 by (simp add: utf8_bytes_def)
  next
    case 3
    then show ?thesis using assms by (intro decode_utf8_3)
  next
    case 4
    then show ?thesis using assms by (intro decode_utf8_4) (auto simp: scalar_point_def)
  qed
qed

lemma decode_seen:
  "list_all scalar_point ps \<Longrightarrow> decode (idle True) (concat (map utf8_bytes ps)) = (idle True, concat (map point_units ps))"
  by (induction ps) (simp_all add: decode_utf8 shown_def)

lemma utf8_text_points:
  "list_all scalar_point ps \<Longrightarrow> take 1 ps \<noteq> [0xFEFF] \<Longrightarrow> utf8_text (concat (map utf8_bytes ps)) = concat (map point_units ps)"
  by (cases ps) (simp_all add: utf8_text_def new_decoder_def decode_utf8 decode_seen shown_def decode_flush_def)

text \<open>Lines that a JSON writer produces: one per object, no line end inside, none empty.\<close>

definition plain_line :: "nat list \<Rightarrow> bool" where
  "plain_line l \<longleftrightarrow> list_all scalar_point l \<and> l \<noteq> [] \<and> 10 \<notin> set l \<and> last l \<noteq> 13 \<and> hd l \<noteq> 0xFEFF"

definition encode_line :: "nat list \<Rightarrow> nat list" where
  "encode_line l = concat (map utf8_bytes (l @ [10]))"

lemma point_units_props: "scalar_point p \<Longrightarrow> point_units p \<noteq> []" "10 \<in> set (point_units p) \<Longrightarrow> p = 10" "scalar_point p \<Longrightarrow> last (point_units p) = 13 \<Longrightarrow> p = 13"
  by (auto simp: point_units_def split: if_splits)

lemma plain_line_units:
  assumes "plain_line l"
  shows "10 \<notin> set (concat (map point_units l))" and "strip_cr (concat (map point_units l)) = concat (map point_units l)"
    and "concat (map point_units l) \<noteq> []"
proof -
  obtain k p where l: "l = k @ [p]" using assms by (cases l rule: rev_cases) (auto simp: plain_line_def)
  have p: "scalar_point p" "p \<noteq> 13" using assms l by (auto simp: plain_line_def)
  then have "last (concat (map point_units l)) \<noteq> 13" using point_units_props(1,3) [of p] by (auto simp: l)
  then show "strip_cr (concat (map point_units l)) = concat (map point_units l)" by (simp add: strip_cr_def)
  show "10 \<notin> set (concat (map point_units l))" using assms point_units_props(2) by (auto simp: plain_line_def)
  show "concat (map point_units l) \<noteq> []" using p point_units_props(1) [of p] by (simp add: l)
qed

lemma split_plain_lines:
  "list_all plain_line ls \<Longrightarrow>
     split_lines (concat (map (\<lambda>l. concat (map point_units l) @ [10]) ls)) = (map (\<lambda>l. concat (map point_units l)) ls, [])"
proof (induction ls)
  case (Cons l ls)
  have plain: "plain_line l" using Cons.prems by simp
  show ?case
    using Cons split_lines_step [OF plain_line_units(1) [OF plain]] plain_line_units [OF plain] by simp
qed (simp add: split_lines_none)

lemma text_of_lines:
  assumes "list_all plain_line ls"
  shows "utf8_text (concat (map encode_line ls)) = concat (map (\<lambda>l. concat (map point_units l) @ [10]) ls)"
proof -
  let ?ps = "concat (map (\<lambda>l. l @ [10]) ls)"
  have "list_all scalar_point ?ps" using assms by (induction ls) (auto simp: plain_line_def scalar_point_def)
  moreover have "take 1 ?ps \<noteq> [0xFEFF]" using assms by (cases ls; cases "hd ls") (auto simp: plain_line_def)
  moreover have "concat (map utf8_bytes ?ps) = concat (map encode_line ls)"
    by (induction ls) (auto simp: encode_line_def)
  moreover have "concat (map point_units ?ps) = concat (map (\<lambda>l. concat (map point_units l) @ [10]) ls)"
    by (induction ls) (auto simp: point_units_def [of 10])
  ultimately show ?thesis using utf8_text_points by metis
qed



end
