(* ===== verification/Lineage_Store.thy ===== *)
theory Lineage_Store
  imports Persisted_Schema
begin

text \<open>
  The durable session store of the daemon (\<^verbatim>\<open>apps/daemon/src/session-lineage-store.ts\<close>).

  The directory tree below \<^verbatim>\<open>sessions-v1\<close> is a value: lineage directories with their record files and event
  logs, tombstones, the trash of two-phase evictions, and the quarantine. Every mutation of the disk is one
  atomic step (an atomic replace, a rename, an append, a delete), and the store keeps the trail of the disks
  it went through, so that a crash is a restart on any disk of the trail; an append may also be cut short.
  The sizes of encoded records and lines and the parsing of instants are arguments.
\<close>

section \<open>What is on disk\<close>

text \<open>
  A line of a log, or a record, is a value of this build's schema, or something else: then what matters is
  the version number it declares, if any, and its length.
\<close>

datatype event_line = Good_line PersistedEventRecord | Bad_line "nat option" nat

datatype record_file = Record_ok PersistedSessionRecord | Record_bad "nat option" nat

datatype manifest_file = Manifest nat | Manifest_bad

text \<open>Of a left-over temporary file only the highest version matters that it declares, if any.\<close>

type_synonym temp_file = "nat option"

record event_log =
  lg_lines :: "event_line list"
  lg_newline :: bool

record lineage_dir =
  ld_records :: "(string, record_file) jmap"
  ld_events :: "(string, event_log) jmap"
  ld_temps :: "temp_file list"

datatype eviction_reason = Retention_age | Quota_records | Quota_bytes

record Tombstone =
  tb_rootSessionId :: string
  tb_evictedAt :: string
  tb_reason :: eviction_reason
  tb_sessionIds :: "string list"
  tb_records :: nat
  tb_bytes :: int

datatype tombstone_file = Tomb_ok Tombstone | Tomb_bad "nat option"

datatype quarantined =
    Q_temp temp_file
  | Q_manifest manifest_file
  | Q_tombstone tombstone_file
  | Q_lineage lineage_dir
  | Q_tail "event_line list"

text \<open>An entry of the trash is staged for the lineage its name gives; other names are left alone.\<close>

record store_disk =
  sd_manifest :: "manifest_file option"
  sd_temps :: "temp_file list"
  sd_lineages :: "(string, lineage_dir) jmap"
  sd_tombstones :: "(string, tombstone_file) jmap"
  sd_trash :: "(string option \<times> lineage_dir) list"
  sd_quarantine :: "quarantined list"


section \<open>The store\<close>

record RetentionPolicy =
  rt_maxAgeMs :: int
  rt_maxRecords :: nat
  rt_maxBytes :: int

definition DEFAULT_RETENTION :: RetentionPolicy where
  "DEFAULT_RETENTION = \<lparr>rt_maxAgeMs = 30 * 24 * 60 * 60 * 1000, rt_maxRecords = 500, rt_maxBytes = 64 * 1024 * 1024\<rparr>"

definition MAX_PERSISTED_EVENTS_PER_SESSION :: nat where
  "MAX_PERSISTED_EVENTS_PER_SESSION = 5000"

text \<open>
  The surroundings: \<^verbatim>\<open>Date.parse\<close> (\<open>None\<close> for \<^verbatim>\<open>NaN\<close>) and \<^verbatim>\<open>toISOString\<close>, the byte sizes of an encoded record and
  line, and the retention policy. The root id of a lineage is the key it is kept under.
\<close>

record store_env =
  se_parse :: "string \<Rightarrow> int option"
  se_iso :: "int \<Rightarrow> string"
  se_recordBytes :: "PersistedSessionRecord \<Rightarrow> nat"
  se_lineBytes :: "PersistedEventRecord \<Rightarrow> nat"
  se_retention :: RetentionPolicy

record Lineage =
  ln_records :: "(string, PersistedSessionRecord) jmap"
  ln_linesOnDisk :: "(string, nat) jmap"
  ln_bytes :: int

record SessionLineageStore =
  lx_disk :: store_disk
  lx_trail :: "store_disk list"
  lx_lineages :: "(string, Lineage) jmap"
  lx_sessionIndex :: "(string, string) jmap"
  lx_tombstones :: "(string, Tombstone) jmap"

datatype store_error =
    UnsupportedStateSchemaVersionError nat
  | StorageFullError
  | InvalidCursorError

text \<open>
  One step of the disk, and an atomic replace of a file: before the rename a crash leaves a temporary file
  beside it, half written or complete.
\<close>

definition touch :: "(store_disk \<Rightarrow> store_disk) \<Rightarrow> SessionLineageStore \<Rightarrow> SessionLineageStore" where
  "touch f s = s\<lparr>lx_disk := f (lx_disk s), lx_trail := lx_trail s @ [f (lx_disk s)]\<rparr>"

definition crash_point :: "(store_disk \<Rightarrow> store_disk) \<Rightarrow> SessionLineageStore \<Rightarrow> SessionLineageStore" where
  "crash_point f s = s\<lparr>lx_trail := lx_trail s @ [f (lx_disk s)]\<rparr>"

definition atomicWrite ::
  "(temp_file \<Rightarrow> store_disk \<Rightarrow> store_disk) \<Rightarrow> temp_file \<Rightarrow> (store_disk \<Rightarrow> store_disk) \<Rightarrow> SessionLineageStore \<Rightarrow> SessionLineageStore" where
  "atomicWrite beside version f s = touch f (crash_point (beside version) (crash_point (beside None) s))"

definition empty_dir :: lineage_dir where
  "empty_dir = \<lparr>ld_records = [], ld_events = [], ld_temps = []\<rparr>"

definition dir_of :: "store_disk \<Rightarrow> string \<Rightarrow> lineage_dir" where
  "dir_of d rootId = (case jget (sd_lineages d) rootId of Some dir \<Rightarrow> dir | None \<Rightarrow> empty_dir)"

definition with_dir :: "string \<Rightarrow> (lineage_dir \<Rightarrow> lineage_dir) \<Rightarrow> store_disk \<Rightarrow> store_disk" where
  "with_dir rootId f d = d\<lparr>sd_lineages := jset (sd_lineages d) rootId (f (dir_of d rootId))\<rparr>"

definition root_temp :: "temp_file \<Rightarrow> store_disk \<Rightarrow> store_disk" where
  "root_temp t d = d\<lparr>sd_temps := sd_temps d @ [t]\<rparr>"

definition dir_temp :: "string \<Rightarrow> temp_file \<Rightarrow> store_disk \<Rightarrow> store_disk" where
  "dir_temp rootId t = with_dir rootId (\<lambda>dir. dir\<lparr>ld_temps := ld_temps dir @ [t]\<rparr>)"


section \<open>Versions found before anything is touched\<close>

fun line_version :: "event_line \<Rightarrow> nat option" where
  "line_version (Good_line _) = Some 1"
| "line_version (Bad_line v _) = v"

fun line_size :: "store_env \<Rightarrow> event_line \<Rightarrow> nat" where
  "line_size env (Good_line e) = se_lineBytes env e"
| "line_size env (Bad_line _ n) = n"

fun record_version :: "record_file \<Rightarrow> nat option" where
  "record_version (Record_ok r) = Some (sr_schemaVersion r)"
| "record_version (Record_bad v _) = v"

fun tombstone_version :: "tombstone_file \<Rightarrow> nat option" where
  "tombstone_version (Tomb_ok _) = Some 1"
| "tombstone_version (Tomb_bad v) = v"

fun manifest_version :: "manifest_file \<Rightarrow> nat option" where
  "manifest_version (Manifest v) = Some v"
| "manifest_version Manifest_bad = None"

definition PREFLIGHT_LOG_PROBE_BYTES :: nat where "PREFLIGHT_LOG_PROBE_BYTES = 64 * 1024"

definition PREFLIGHT_LOG_PROBE_LINES :: nat where "PREFLIGHT_LOG_PROBE_LINES = 256"

definition log_bytes :: "store_env \<Rightarrow> event_log \<Rightarrow> nat" where
  "log_bytes env lg = sum_list (map (\<lambda>l. line_size env l + 1) (lg_lines lg)) - (if lg_newline lg \<or> lg_lines lg = [] then 0 else 1)"

fun lines_within :: "store_env \<Rightarrow> nat \<Rightarrow> event_line list \<Rightarrow> event_line list" where
  "lines_within env b [] = []"
| "lines_within env b (l # ls) =
     (if line_size env l + 1 \<le> b then l # lines_within env (b - (line_size env l + 1)) ls else [])"

definition tryReadLeadingLines :: "store_env \<Rightarrow> event_log \<Rightarrow> event_line list" where
  "tryReadLeadingLines env lg =
     take PREFLIGHT_LOG_PROBE_LINES
       (if log_bytes env lg < PREFLIGHT_LOG_PROBE_BYTES then lg_lines lg
        else lines_within env PREFLIGHT_LOG_PROBE_BYTES (lg_lines lg))"

definition dir_objects :: "lineage_dir \<Rightarrow> nat option list" where
  "dir_objects dir = map (\<lambda>(n, f). record_version f) (ld_records dir) @ ld_temps dir"

definition dir_lines :: "store_env \<Rightarrow> lineage_dir \<Rightarrow> nat option list" where
  "dir_lines env dir = concat (map (\<lambda>(n, lg). map line_version (tryReadLeadingLines env lg)) (ld_events dir))"

definition disk_versions :: "store_env \<Rightarrow> store_disk \<Rightarrow> nat option list" where
  "disk_versions env d =
     (case sd_manifest d of None \<Rightarrow> [] | Some m \<Rightarrow> [manifest_version m]) @ sd_temps d @
     concat (map (\<lambda>(rootId, dir). dir_objects dir) (sd_lineages d)) @
     map (\<lambda>(n, f). tombstone_version f) (sd_tombstones d) @
     concat (map (\<lambda>(n, dir). dir_objects dir) (sd_trash d)) @
     concat (map (\<lambda>(rootId, dir). dir_lines env dir) (sd_lineages d)) @
     concat (map (\<lambda>(n, dir). dir_lines env dir) (sd_trash d))"

definition preflightSchemaVersions :: "store_env \<Rightarrow> store_disk \<Rightarrow> nat option" where
  "preflightSchemaVersions env d =
     List.find (\<lambda>v. v > PERSISTED_SCHEMA_VERSION) (List.map_filter id (disk_versions env d))"


section \<open>Startup: temps, manifest, evictions, tombstones\<close>

text \<open>The temps are moved one after the other in the source; here it is one step.\<close>

definition quarantine_dir_temps :: "lineage_dir \<Rightarrow> lineage_dir" where
  "quarantine_dir_temps dir = dir\<lparr>ld_temps := []\<rparr>"

definition quarantineStrayTemps :: "store_disk \<Rightarrow> store_disk" where
  "quarantineStrayTemps d =
     d\<lparr>sd_temps := [], sd_lineages := map (\<lambda>(rootId, dir). (rootId, quarantine_dir_temps dir)) (sd_lineages d),
       sd_quarantine := sd_quarantine d @ map Q_temp (sd_temps d @ concat (map (\<lambda>(rootId, dir). ld_temps dir) (sd_lineages d)))\<rparr>"

definition loadManifest :: "store_disk \<Rightarrow> store_disk" where
  "loadManifest d =
     (case sd_manifest d of
        None \<Rightarrow> d
      | Some m \<Rightarrow>
          if (\<exists>v\<in>set READABLE_SCHEMA_VERSIONS. manifest_version m = Some v) then d
          else d\<lparr>sd_manifest := None, sd_quarantine := sd_quarantine d @ [Q_manifest m]\<rparr>)"

fun readTombstone :: "tombstone_file \<Rightarrow> Tombstone option" where
  "readTombstone (Tomb_ok t) = Some t"
| "readTombstone (Tomb_bad _) = None"

definition committed :: "store_disk \<Rightarrow> string \<Rightarrow> bool" where
  "committed d rootId \<longleftrightarrow> (case jget (sd_tombstones d) rootId of Some f \<Rightarrow> readTombstone f \<noteq> None | None \<Rightarrow> False)"

definition recover_eviction :: "string option \<times> lineage_dir \<Rightarrow> store_disk \<Rightarrow> store_disk" where
  "recover_eviction entry d =
     (let rest = d\<lparr>sd_trash := remove1 entry (sd_trash d)\<rparr>
      in case fst entry of
           None \<Rightarrow> d
         | Some rootId \<Rightarrow>
             if committed d rootId then rest
             else if rootId = [] \<or> jhas (sd_lineages d) rootId
             then rest\<lparr>sd_quarantine := sd_quarantine d @ [Q_lineage (snd entry)]\<rparr>
             else rest\<lparr>sd_lineages := jset (sd_lineages d) rootId (snd entry)\<rparr>)"

definition recoverInterruptedEvictions :: "SessionLineageStore \<Rightarrow> SessionLineageStore" where
  "recoverInterruptedEvictions s = foldl (\<lambda>s entry. touch (recover_eviction entry) s) s (sd_trash (lx_disk s))"

definition loadTombstone :: "SessionLineageStore \<Rightarrow> string \<times> tombstone_file \<Rightarrow> SessionLineageStore" where
  "loadTombstone s entry =
     (case readTombstone (snd entry) of
        None \<Rightarrow> touch (\<lambda>d. d\<lparr>sd_tombstones := jdelete (sd_tombstones d) (fst entry),
                              sd_quarantine := sd_quarantine d @ [Q_tombstone (snd entry)]\<rparr>) s
      | Some t \<Rightarrow> s\<lparr>lx_tombstones := jset (lx_tombstones s) (tb_rootSessionId t) t\<rparr>)"

definition loadTombstones :: "SessionLineageStore \<Rightarrow> SessionLineageStore" where
  "loadTombstones s = foldl loadTombstone s (sd_tombstones (lx_disk s))"


section \<open>Startup: event logs and lineages\<close>

datatype TerminalLogType = L_completed | L_failed | L_cancelled | L_interrupted

fun isTerminalLogType :: "persisted_event \<Rightarrow> TerminalLogType option" where
  "isTerminalLogType (P_session_completed _) = Some L_completed"
| "isTerminalLogType (P_session_failed _) = Some L_failed"
| "isTerminalLogType P_session_cancelled = Some L_cancelled"
| "isTerminalLogType P_session_interrupted = Some L_interrupted"
| "isTerminalLogType _ = None"

fun TERMINAL_LOG_OUTCOME :: "TerminalLogType \<Rightarrow> SessionStatusV2 \<times> TerminalReasonV2" where
  "TERMINAL_LOG_OUTCOME L_completed = (S_completed, R_provider_completed)"
| "TERMINAL_LOG_OUTCOME L_failed = (S_failed, R_provider_error)"
| "TERMINAL_LOG_OUTCOME L_cancelled = (S_cancelled, R_cancelled_by_client)"
| "TERMINAL_LOG_OUTCOME L_interrupted = (S_interrupted, R_daemon_restart)"

record EventLogState =
  es_count :: nat
  es_firstSequence :: "nat option"
  es_terminalType :: "TerminalLogType option"

text \<open>The loop of the repair: the lines up to the first that does not parse or does not go up.\<close>

fun good_prefix :: "int \<Rightarrow> event_line list \<Rightarrow> PersistedEventRecord list" where
  "good_prefix lastSequence [] = []"
| "good_prefix lastSequence (Bad_line v n # ls) = []"
| "good_prefix lastSequence (Good_line e # ls) =
     (if int (pe_sequence e) \<le> lastSequence then [] else e # good_prefix (int (pe_sequence e)) ls)"

definition log_state :: "PersistedEventRecord list \<Rightarrow> EventLogState" where
  "log_state good =
     \<lparr>es_count = length good,
      es_firstSequence = (case good of [] \<Rightarrow> None | e # _ \<Rightarrow> Some (pe_sequence e)),
      es_terminalType = (case rev (List.map_filter (\<lambda>e. isTerminalLogType (pe_event e)) good) of [] \<Rightarrow> None | t # _ \<Rightarrow> Some t)\<rparr>"

definition set_log :: "string \<Rightarrow> event_log \<Rightarrow> lineage_dir \<Rightarrow> lineage_dir" where
  "set_log sessionId lg dir = dir\<lparr>ld_events := jset (ld_events dir) sessionId lg\<rparr>"

definition repairEventLog :: "string \<Rightarrow> string \<Rightarrow> SessionLineageStore \<Rightarrow> EventLogState \<times> SessionLineageStore" where
  "repairEventLog rootId sessionId s =
     (case jget (ld_events (dir_of (lx_disk s) rootId)) sessionId of
        None \<Rightarrow> (log_state [], s)
      | Some lg \<Rightarrow>
          if lg_lines lg = [] then (log_state [], s)
          else
            let good = good_prefix (-1) (lg_lines lg)
            in if length good = length (lg_lines lg) \<and> lg_newline lg then (log_state good, s)
               else
                 (log_state good,
                  atomicWrite (dir_temp rootId) (Some 1)
                    (with_dir rootId (set_log sessionId \<lparr>lg_lines = map Good_line good, lg_newline = True\<rparr>))
                    (touch (\<lambda>d. d\<lparr>sd_quarantine := sd_quarantine d @ [Q_tail (drop (length good) (lg_lines lg))]\<rparr>) s)))"

fun record_size :: "store_env \<Rightarrow> record_file \<Rightarrow> nat" where
  "record_size env (Record_ok r) = se_recordBytes env r"
| "record_size env (Record_bad _ n) = n"

definition measureLineage :: "store_env \<Rightarrow> lineage_dir \<Rightarrow> int" where
  "measureLineage env dir =
     int (sum_list (map (\<lambda>(n, f). record_size env f) (ld_records dir)) + sum_list (map (\<lambda>(n, lg). log_bytes env lg) (ld_events dir)))"

text \<open>The loop over the record files, which stops at the first that does not parse.\<close>

fun load_records :: "(string \<times> record_file) list \<Rightarrow> (string, PersistedSessionRecord) jmap \<Rightarrow> (string, PersistedSessionRecord) jmap option" where
  "load_records [] acc = Some acc"
| "load_records ((name, Record_ok r) # fs) acc = load_records fs (jset acc (sr_id r) r)"
| "load_records ((name, Record_bad v n) # fs) acc = None"

type_synonym log_terminals = "(string, TerminalLogType) jmap"

definition load_session ::
  "string \<Rightarrow> SessionLineageStore \<times> Lineage \<times> log_terminals \<Rightarrow> string \<times> PersistedSessionRecord \<Rightarrow> SessionLineageStore \<times> Lineage \<times> log_terminals" where
  "load_session rootId acc entry =
     (let (s, lineage, terminals) = acc; (sessionId, record0) = entry;
          (lines, s1) = repairEventLog rootId sessionId s;
          terminals1 = (case es_terminalType lines of None \<Rightarrow> terminals | Some t \<Rightarrow> jset terminals sessionId t);
          record1 = record0\<lparr>sr_eventCount := max (sr_eventCount record0) (es_count lines)\<rparr>;
          record2 = (case es_firstSequence lines of None \<Rightarrow> record1 | Some n \<Rightarrow> record1\<lparr>sr_earliestSequence := n\<rparr>)
      in (s1\<lparr>lx_sessionIndex := jset (lx_sessionIndex s1) sessionId rootId\<rparr>,
          lineage\<lparr>ln_linesOnDisk := jset (ln_linesOnDisk lineage) sessionId (es_count lines),
                  ln_records := jset (ln_records lineage) sessionId record2\<rparr>,
          terminals1))"

definition quarantine_lineage :: "string \<Rightarrow> SessionLineageStore \<Rightarrow> SessionLineageStore" where
  "quarantine_lineage rootId =
     touch (\<lambda>d. d\<lparr>sd_lineages := jdelete (sd_lineages d) rootId, sd_quarantine := sd_quarantine d @ [Q_lineage (dir_of d rootId)]\<rparr>)"

definition load_lineage ::
  "store_env \<Rightarrow> SessionLineageStore \<times> log_terminals \<Rightarrow> string \<times> lineage_dir \<Rightarrow> SessionLineageStore \<times> log_terminals" where
  "load_lineage env acc entry =
     (let (s, terminals) = acc; (rootId, dir) = entry
      in case load_records (ld_records dir) [] of
           None \<Rightarrow> (quarantine_lineage rootId s, terminals)
         | Some records \<Rightarrow>
             if records = [] then (quarantine_lineage rootId s, terminals)
             else
               let (s1, lineage, terminals1) =
                     foldl (load_session rootId) (s, \<lparr>ln_records = records, ln_linesOnDisk = [], ln_bytes = 0\<rparr>, terminals) records;
                   lineage1 = lineage\<lparr>ln_bytes := measureLineage env (dir_of (lx_disk s1) rootId)\<rparr>
               in (s1\<lparr>lx_lineages := jset (lx_lineages s1) rootId lineage1\<rparr>, terminals1))"

definition loadLineages :: "store_env \<Rightarrow> SessionLineageStore \<Rightarrow> SessionLineageStore \<times> log_terminals" where
  "loadLineages env s = foldl (load_lineage env) (s, []) (sd_lineages (lx_disk s))"


section \<open>Low-level writes\<close>

definition set_lineage :: "string \<Rightarrow> Lineage \<Rightarrow> SessionLineageStore \<Rightarrow> SessionLineageStore" where
  "set_lineage rootId lineage s = s\<lparr>lx_lineages := jset (lx_lineages s) rootId lineage\<rparr>"

definition put_record :: "PersistedSessionRecord \<Rightarrow> lineage_dir \<Rightarrow> lineage_dir" where
  "put_record r dir = dir\<lparr>ld_records := jset (ld_records dir) (sr_id r) (Record_ok r)\<rparr>"

definition record_file_size :: "store_env \<Rightarrow> store_disk \<Rightarrow> string \<Rightarrow> string \<Rightarrow> nat" where
  "record_file_size env d rootId sessionId =
     (case jget (ld_records (dir_of d rootId)) sessionId of None \<Rightarrow> 0 | Some f \<Rightarrow> record_size env f)"

text \<open>
  In the source the records of a lineage are objects that are changed in place before they are written; here
  the changed record is put back into the lineage with the write.
\<close>

definition writeRecord :: "store_env \<Rightarrow> string \<Rightarrow> Lineage \<Rightarrow> PersistedSessionRecord \<Rightarrow> SessionLineageStore \<Rightarrow> SessionLineageStore" where
  "writeRecord env rootId lineage r s =
     (let before = record_file_size env (lx_disk s) rootId (sr_id r);
          s1 = atomicWrite (dir_temp rootId) (Some (sr_schemaVersion r)) (with_dir rootId (put_record r)) s
      in set_lineage rootId
           (lineage\<lparr>ln_records := jset (ln_records lineage) (sr_id r) r,
                    ln_bytes := ln_bytes lineage + int (record_file_size env (lx_disk s1) rootId (sr_id r)) - int before\<rparr>) s1)"

text \<open>
  An append to a log. A log that does not end with a newline gets the new bytes glued to its last line; a
  crash can leave any number of the bytes of the line.
\<close>

definition log_of :: "lineage_dir \<Rightarrow> string \<Rightarrow> event_log" where
  "log_of dir sessionId =
     (case jget (ld_events dir) sessionId of None \<Rightarrow> \<lparr>lg_lines = [], lg_newline = True\<rparr> | Some lg \<Rightarrow> lg)"

definition add_line :: "store_env \<Rightarrow> event_line \<Rightarrow> bool \<Rightarrow> event_log \<Rightarrow> event_log" where
  "add_line env l newline lg =
     (if lg_newline lg \<or> lg_lines lg = [] then \<lparr>lg_lines = lg_lines lg @ [l], lg_newline = newline\<rparr>
      else \<lparr>lg_lines = butlast (lg_lines lg) @ [Bad_line None (line_size env (last (lg_lines lg)) + line_size env l)], lg_newline = newline\<rparr>)"

definition append_line :: "store_env \<Rightarrow> string \<Rightarrow> string \<Rightarrow> event_line \<Rightarrow> bool \<Rightarrow> store_disk \<Rightarrow> store_disk" where
  "append_line env rootId sessionId l newline =
     with_dir rootId (\<lambda>dir. set_log sessionId (add_line env l newline (log_of dir sessionId)) dir)"

definition appendDurably :: "store_env \<Rightarrow> string \<Rightarrow> string \<Rightarrow> PersistedEventRecord \<Rightarrow> SessionLineageStore \<Rightarrow> SessionLineageStore" where
  "appendDurably env rootId sessionId e s =
     touch (append_line env rootId sessionId (Good_line e) True)
       (crash_point (append_line env rootId sessionId (Good_line e) False)
         (foldl (\<lambda>s n. crash_point (append_line env rootId sessionId (Bad_line None n) False) s) s [1..<se_lineBytes env e]))"

definition lines_on_disk :: "Lineage \<Rightarrow> string \<Rightarrow> nat" where
  "lines_on_disk lineage sessionId = (case jget (ln_linesOnDisk lineage) sessionId of None \<Rightarrow> 0 | Some n \<Rightarrow> n)"

definition appendLine ::
  "store_env \<Rightarrow> string \<Rightarrow> Lineage \<Rightarrow> string \<Rightarrow> PersistedEventRecord \<Rightarrow> SessionLineageStore \<Rightarrow> Lineage \<times> SessionLineageStore" where
  "appendLine env rootId lineage sessionId e s =
     (let lineage1 = lineage\<lparr>ln_bytes := ln_bytes lineage + int (se_lineBytes env e) + 1,
                              ln_linesOnDisk := jset (ln_linesOnDisk lineage) sessionId (lines_on_disk lineage sessionId + 1)\<rparr>
      in (lineage1, set_lineage rootId lineage1 (appendDurably env rootId sessionId e s)))"


section \<open>Closing the sessions of the previous daemon\<close>

definition locate :: "SessionLineageStore \<Rightarrow> string \<Rightarrow> (string \<times> Lineage \<times> PersistedSessionRecord) option" where
  "locate s sessionId =
     (case jget (lx_sessionIndex s) sessionId of
        None \<Rightarrow> None
      | Some rootId \<Rightarrow>
          if rootId = [] then None
          else case jget (lx_lineages s) rootId of
            None \<Rightarrow> None
          | Some lineage \<Rightarrow>
              (case jget (ln_records lineage) sessionId of None \<Rightarrow> None | Some r \<Rightarrow> Some (rootId, lineage, r)))"

definition in_flight :: "PersistedSessionRecord \<Rightarrow> bool" where
  "in_flight r \<longleftrightarrow> sr_status r = S_starting \<or> sr_status r = S_running"

text \<open>The body of the loop; \<open>now\<close> gives the instant at which the session is looked at.\<close>

definition recover_session ::
  "store_env \<Rightarrow> (string \<Rightarrow> int) \<Rightarrow> log_terminals \<Rightarrow> SessionLineageStore \<Rightarrow> string \<times> string \<Rightarrow> SessionLineageStore" where
  "recover_session env now terminals s entry =
     (let (rootId, sessionId) = entry
      in case jget (lx_lineages s) rootId of
           None \<Rightarrow> s
         | Some lineage \<Rightarrow>
             (case jget (ln_records lineage) sessionId of
                None \<Rightarrow> s
              | Some r \<Rightarrow>
                  if \<not> in_flight r then s
                  else
                    let timestamp = se_iso env (now sessionId)
                    in case jget terminals sessionId of
                         Some t \<Rightarrow>
                           writeRecord env rootId lineage
                             (r\<lparr>sr_status := fst (TERMINAL_LOG_OUTCOME t), sr_terminalReason := Some (snd (TERMINAL_LOG_OUTCOME t)),
                                sr_completedAt := (case sr_completedAt r of None \<Rightarrow> Some timestamp | Some c \<Rightarrow> Some c)\<rparr>) s
                       | None \<Rightarrow>
                           (let lines = lines_on_disk lineage sessionId;
                                sequence = max (sr_eventCount r) lines;
                                (lineage1, s1) =
                                  (if lines < MAX_PERSISTED_EVENTS_PER_SESSION
                                   then appendLine env rootId lineage sessionId (interruptedEventRecord sequence timestamp) s
                                   else (lineage, s))
                            in writeRecord env rootId lineage1
                                 (r\<lparr>sr_eventCount := sequence + 1, sr_status := S_interrupted, sr_terminalReason := Some R_daemon_restart,
                                    sr_completedAt := Some timestamp\<rparr>) s1)))"

definition loaded_sessions :: "SessionLineageStore \<Rightarrow> (string \<times> string) list" where
  "loaded_sessions s = concat (map (\<lambda>(rootId, lineage). map (\<lambda>(sessionId, r). (rootId, sessionId)) (ln_records lineage)) (lx_lineages s))"

definition recoverNonTerminalSessions :: "store_env \<Rightarrow> (string \<Rightarrow> int) \<Rightarrow> log_terminals \<Rightarrow> SessionLineageStore \<Rightarrow> SessionLineageStore" where
  "recoverNonTerminalSessions env now terminals s = foldl (recover_session env now terminals) s (loaded_sessions s)"


section \<open>Retention and eviction\<close>

definition isActive :: "Lineage \<Rightarrow> bool" where
  "isActive lineage \<longleftrightarrow> list_ex (\<lambda>(sessionId, r). in_flight r) (ln_records lineage)"

definition record_stamp :: "PersistedSessionRecord \<Rightarrow> string" where
  "record_stamp r = (case sr_completedAt r of Some c \<Rightarrow> c | None \<Rightarrow> sr_startedAt r)"

definition lineageRecency :: "store_env \<Rightarrow> Lineage \<Rightarrow> int" where
  "lineageRecency env lineage =
     foldl (\<lambda>newest (sessionId, r).
              case se_parse env (record_stamp r) of Some stamp \<Rightarrow> if stamp > newest then stamp else newest | None \<Rightarrow> newest)
       0 (ln_records lineage)"

definition recordCount :: "SessionLineageStore \<Rightarrow> nat" where
  "recordCount s = sum_list (map (\<lambda>(rootId, lineage). length (ln_records lineage)) (lx_lineages s))"

definition totalBytes :: "SessionLineageStore \<Rightarrow> int" where
  "totalBytes s = sum_list (map (\<lambda>(rootId, lineage). ln_bytes lineage) (lx_lineages s))"

definition evictionCandidates :: "store_env \<Rightarrow> string option \<Rightarrow> SessionLineageStore \<Rightarrow> (string \<times> Lineage) list" where
  "evictionCandidates env excluded s =
     sort_key (\<lambda>(rootId, lineage). lineageRecency env lineage)
       (filter (\<lambda>(rootId, lineage). Some rootId \<noteq> excluded \<and> \<not> isActive lineage) (lx_lineages s))"

text \<open>The two-phase eviction: the rename into the trash, the tombstone (the commit), the delete, then memory.\<close>

definition evict_stage :: "string \<Rightarrow> store_disk \<Rightarrow> store_disk" where
  "evict_stage rootId d =
     (case jget (sd_lineages d) rootId of
        None \<Rightarrow> d
      | Some dir \<Rightarrow> d\<lparr>sd_lineages := jdelete (sd_lineages d) rootId, sd_trash := sd_trash d @ [(Some rootId, dir)]\<rparr>)"

definition evict_commit :: "Tombstone \<Rightarrow> store_disk \<Rightarrow> store_disk" where
  "evict_commit t d = d\<lparr>sd_tombstones := jset (sd_tombstones d) (tb_rootSessionId t) (Tomb_ok t)\<rparr>"

definition evict_delete :: "string \<Rightarrow> lineage_dir option \<Rightarrow> store_disk \<Rightarrow> store_disk" where
  "evict_delete rootId staged d =
     (case staged of None \<Rightarrow> d | Some dir \<Rightarrow> d\<lparr>sd_trash := remove1 (Some rootId, dir) (sd_trash d)\<rparr>)"

definition evictLineage :: "store_env \<Rightarrow> int \<Rightarrow> eviction_reason \<Rightarrow> string \<times> Lineage \<Rightarrow> SessionLineageStore \<Rightarrow> SessionLineageStore" where
  "evictLineage env now reason entry s =
     (let (rootId, lineage) = entry;
          staged = jget (sd_lineages (lx_disk s)) rootId;
          tombstone = \<lparr>tb_rootSessionId = rootId, tb_evictedAt = se_iso env now, tb_reason = reason,
                       tb_sessionIds = map fst (ln_records lineage), tb_records = length (ln_records lineage), tb_bytes = ln_bytes lineage\<rparr>;
          s1 = touch (evict_stage rootId) s;
          s2 = atomicWrite root_temp (Some 1) (evict_commit tombstone) s1;
          s3 = touch (evict_delete rootId staged) s2
      in s3\<lparr>lx_tombstones := jset (lx_tombstones s3) rootId tombstone,
            lx_sessionIndex := foldl (\<lambda>m k. jdelete m k) (lx_sessionIndex s3) (map fst (ln_records lineage)),
            lx_lineages := jdelete (lx_lineages s3) rootId\<rparr>)"

text \<open>
  The loops that evict while a quota is exceeded; the flag is lost when no candidate is left. Each turn
  removes one lineage. A run of retention reads the clock once.
\<close>

lemma length_jdelete: "jhas m k \<Longrightarrow> length (jdelete m k) < length m"
  by (induction m) (auto simp: jhas_def intro: le_imp_less_Suc length_delete_le split: if_splits)

lemma evictLineage_lineages: "lx_lineages (evictLineage env now reason (rootId, lineage) s) = jdelete (lx_lineages s) rootId"
  by (simp add: evictLineage_def Let_def touch_def atomicWrite_def crash_point_def)

lemma candidates_in: "entry \<in> set (evictionCandidates env excluded s) \<Longrightarrow> entry \<in> set (lx_lineages s)"
  by (auto simp: evictionCandidates_def)

function evict_while ::
  "store_env \<Rightarrow> int \<Rightarrow> string option \<Rightarrow> eviction_reason \<Rightarrow> (SessionLineageStore \<Rightarrow> bool) \<Rightarrow> SessionLineageStore \<Rightarrow> bool \<times> SessionLineageStore" where
  "evict_while env now excluded reason exceeded s =
     (if exceeded s
      then case evictionCandidates env excluded s of
             [] \<Rightarrow> (False, s)
           | victim # _ \<Rightarrow> evict_while env now excluded reason exceeded (evictLineage env now reason victim s)
      else (True, s))"
  by pat_completeness auto
termination
proof (relation "measure (\<lambda>(env, now, excluded, reason, exceeded, s). length (lx_lineages s))", simp, goal_cases)
  case (1 env now excluded reason exceeded s victim rest)
  then have "victim \<in> set (lx_lineages s)" by (metis candidates_in list.set_intros(1))
  then have "jhas (lx_lineages s) (fst victim)" by (auto simp: jhas_def map_of_eq_None_iff image_iff)
  then show ?case by (cases victim) (auto simp: evictLineage_lineages length_jdelete)
qed

declare evict_while.simps [simp del]

definition enforce_age :: "store_env \<Rightarrow> int \<Rightarrow> string option \<Rightarrow> SessionLineageStore \<Rightarrow> SessionLineageStore" where
  "enforce_age env nowMs excluded s =
     foldl (\<lambda>s entry.
              let recency = lineageRecency env (snd entry)
              in if recency > 0 \<and> nowMs - recency > rt_maxAgeMs (se_retention env) then evictLineage env nowMs Retention_age entry s else s)
       s (evictionCandidates env excluded s)"

definition enforceRetention :: "store_env \<Rightarrow> int \<Rightarrow> string option \<Rightarrow> SessionLineageStore \<Rightarrow> SessionLineageStore" where
  "enforceRetention env nowMs excluded s =
     (let s1 = enforce_age env nowMs excluded s;
          (fits, s2) = evict_while env nowMs excluded Quota_records (\<lambda>s. recordCount s > rt_maxRecords (se_retention env)) s1
      in if \<not> fits then s2
         else snd (evict_while env nowMs excluded Quota_bytes (\<lambda>s. totalBytes s > rt_maxBytes (se_retention env)) s2))"

definition makeRoomForOneMore :: "store_env \<Rightarrow> int \<Rightarrow> string \<Rightarrow> SessionLineageStore \<Rightarrow> (store_error + unit) \<times> SessionLineageStore" where
  "makeRoomForOneMore env nowMs excluded s =
     (let s1 = enforceRetention env nowMs (Some excluded) s;
          (fits, s2) = evict_while env nowMs (Some excluded) Quota_records (\<lambda>s. recordCount s + 1 > rt_maxRecords (se_retention env)) s1
      in if \<not> fits then (Inl StorageFullError, s2)
         else
           let (fits1, s3) = evict_while env nowMs (Some excluded) Quota_bytes (\<lambda>s. totalBytes s \<ge> rt_maxBytes (se_retention env)) s2
           in (if fits1 then Inr () else Inl StorageFullError, s3))"


section \<open>The operations\<close>

record CreateSessionRecordOptions =
  co_protocolVersion :: nat
  co_scope :: PersistedLaunchScope
  co_resumeProviderSessionId :: "units option"
  co_selection :: "string option"

definition all_records :: "SessionLineageStore \<Rightarrow> PersistedSessionRecord list" where
  "all_records s = concat (map (\<lambda>(rootId, lineage). map snd (ln_records lineage)) (lx_lineages s))"

definition findByProviderSessionId :: "SessionLineageStore \<Rightarrow> units \<Rightarrow> PersistedSessionRecord option" where
  "findByProviderSessionId s i = List.find (\<lambda>r. sr_providerSessionId r = Some i) (all_records s)"

definition create_parent :: "SessionLineageStore \<Rightarrow> CreateSessionRecordOptions \<Rightarrow> PersistedSessionRecord option" where
  "create_parent s options =
     (case co_resumeProviderSessionId options of
        None \<Rightarrow> None
      | Some i \<Rightarrow> if i = [] then None else findByProviderSessionId s i)"

definition create_rootId :: "SessionLineageStore \<Rightarrow> AgentSession \<Rightarrow> CreateSessionRecordOptions \<Rightarrow> string" where
  "create_rootId s session options = (case create_parent s options of None \<Rightarrow> as_id session | Some parent \<Rightarrow> sr_rootSessionId parent)"

definition new_record :: "SessionLineageStore \<Rightarrow> AgentSession \<Rightarrow> CreateSessionRecordOptions \<Rightarrow> PersistedSessionRecord" where
  "new_record s session options =
     redactSessionForPersistence session
       \<lparr>rx_protocolVersion = co_protocolVersion options, rx_status = S_starting, rx_terminalReason = None,
        rx_acceptedWork = Pw_unknown, rx_rootSessionId = create_rootId s session options,
        rx_parentSessionId = map_option sr_id (create_parent s options),
        rx_continuationKind = (if create_parent s options = None then Fresh else Resume),
        rx_earliestSequence = 0, rx_eventCount = 0, rx_eventsTruncated = False, rx_scope = co_scope options,
        rx_unknownFrames = [], rx_selection = co_selection options\<rparr>"

definition create ::
  "store_env \<Rightarrow> int \<Rightarrow> AgentSession \<Rightarrow> CreateSessionRecordOptions \<Rightarrow> SessionLineageStore \<Rightarrow> (store_error + PersistedSessionRecord) \<times> SessionLineageStore" where
  "create env now session options s =
     (let rootId = create_rootId s session options;
          r = new_record s session options;
          (room, s1) = makeRoomForOneMore env now rootId s
      in case room of
           Inl err \<Rightarrow> (Inl err, s1)
         | Inr _ \<Rightarrow>
             (let lineage = (case jget (lx_lineages s1) rootId of
                               Some l \<Rightarrow> l | None \<Rightarrow> \<lparr>ln_records = [], ln_linesOnDisk = [], ln_bytes = 0\<rparr>);
                  s2 = touch (with_dir rootId (\<lambda>dir. dir)) s1;
                  lineage1 = lineage\<lparr>ln_records := jset (ln_records lineage) (as_id session) r,
                                      ln_linesOnDisk := jset (ln_linesOnDisk lineage) (as_id session) 0\<rparr>
              in (Inr r, writeRecord env rootId lineage1 r (s2\<lparr>lx_sessionIndex := jset (lx_sessionIndex s2) (as_id session) rootId\<rparr>))))"

definition put_back :: "string \<Rightarrow> Lineage \<Rightarrow> PersistedSessionRecord \<Rightarrow> Lineage" where
  "put_back sessionId lineage r = lineage\<lparr>ln_records := jset (ln_records lineage) sessionId r\<rparr>"

definition appendEvent :: "store_env \<Rightarrow> (units \<Rightarrow> string) \<Rightarrow> string \<Rightarrow> units envelope \<Rightarrow> SessionLineageStore \<Rightarrow> SessionLineageStore" where
  "appendEvent env sha sessionId event s =
     (case locate s sessionId of
        None \<Rightarrow> s
      | Some (rootId, lineage, r) \<Rightarrow>
          (let r1 = r\<lparr>sr_eventCount := sr_eventCount r + 1\<rparr>
           in if lines_on_disk lineage sessionId < MAX_PERSISTED_EVENTS_PER_SESSION
              then snd (appendLine env rootId (put_back sessionId lineage r1) sessionId (redactEnvelope sha event) s)
              else writeRecord env rootId lineage (r1\<lparr>sr_eventsTruncated := True\<rparr>) s))"

definition change_record ::
  "store_env \<Rightarrow> string \<Rightarrow> (PersistedSessionRecord \<Rightarrow> PersistedSessionRecord option) \<Rightarrow> SessionLineageStore \<Rightarrow> SessionLineageStore" where
  "change_record env sessionId f s =
     (case locate s sessionId of
        None \<Rightarrow> s
      | Some (rootId, lineage, r) \<Rightarrow> (case f r of None \<Rightarrow> s | Some r1 \<Rightarrow> writeRecord env rootId lineage r1 s))"

definition markAcceptedWork :: "store_env \<Rightarrow> string \<Rightarrow> SessionLineageStore \<Rightarrow> SessionLineageStore" where
  "markAcceptedWork env sessionId =
     change_record env sessionId
       (\<lambda>r. if sr_acceptedWork r = Pw_accepted then None else Some (r\<lparr>sr_acceptedWork := Pw_accepted\<rparr>))"

definition finalize :: "store_env \<Rightarrow> int \<Rightarrow> string \<Rightarrow> SessionStatusV2 \<Rightarrow> TerminalReasonV2 \<Rightarrow> SessionLineageStore \<Rightarrow> SessionLineageStore" where
  "finalize env now sessionId status reason =
     change_record env sessionId
       (\<lambda>r. Some (r\<lparr>sr_status := status, sr_terminalReason := Some reason, sr_completedAt := Some (se_iso env now)\<rparr>))"

definition setProviderSessionId :: "store_env \<Rightarrow> string \<Rightarrow> units \<Rightarrow> SessionLineageStore \<Rightarrow> SessionLineageStore" where
  "setProviderSessionId env sessionId i =
     change_record env sessionId
       (\<lambda>r. let bounded = truncateToBytes i MAX_PROVIDER_SESSION_ID_BYTES
            in if sr_providerSessionId r = Some bounded then None else Some (r\<lparr>sr_providerSessionId := Some bounded\<rparr>))"

definition setScope :: "store_env \<Rightarrow> string \<Rightarrow> PersistedLaunchScope \<Rightarrow> SessionLineageStore \<Rightarrow> SessionLineageStore" where
  "setScope env sessionId scope = change_record env sessionId (\<lambda>r. Some (r\<lparr>sr_scope := scope\<rparr>))"

definition setUnknownFrames :: "store_env \<Rightarrow> string \<Rightarrow> NormalizedUnknownFrame list \<Rightarrow> SessionLineageStore \<Rightarrow> SessionLineageStore" where
  "setUnknownFrames env sessionId frames = change_record env sessionId (\<lambda>r. Some (r\<lparr>sr_unknownFrames := frames\<rparr>))"

definition get_record :: "SessionLineageStore \<Rightarrow> string \<Rightarrow> PersistedSessionRecord option" where
  "get_record s sessionId = map_option (\<lambda>(rootId, lineage, r). r) (locate s sessionId)"

record StoreStats =
  st_lineages :: nat
  st_records :: nat
  st_bytes :: int

definition stats :: "SessionLineageStore \<Rightarrow> StoreStats" where
  "stats s = \<lparr>st_lineages = length (lx_lineages s), st_records = recordCount s, st_bytes = totalBytes s\<rparr>"


section \<open>The constructor\<close>

definition write_manifest :: "store_disk \<Rightarrow> store_disk" where
  "write_manifest d = d\<lparr>sd_manifest := Some (Manifest PERSISTED_SCHEMA_VERSION)\<rparr>"

definition new_lineage_store ::
  "store_env \<Rightarrow> (string \<Rightarrow> int) \<Rightarrow> int \<Rightarrow> store_disk \<Rightarrow> store_error + SessionLineageStore" where
  "new_lineage_store env recovery_now now d =
     (case preflightSchemaVersions env d of
        Some v \<Rightarrow> Inl (UnsupportedStateSchemaVersionError v)
      | None \<Rightarrow>
          (let s0 = \<lparr>lx_disk = d, lx_trail = [d], lx_lineages = [], lx_sessionIndex = [], lx_tombstones = []\<rparr>;
               s1 = touch loadManifest (touch quarantineStrayTemps s0);
               s2 = loadTombstones (recoverInterruptedEvictions s1);
               (s3, terminals) = loadLineages env s2;
               s4 = enforceRetention env now None (recoverNonTerminalSessions env recovery_now terminals s3)
           in Inr (atomicWrite root_temp (Some PERSISTED_SCHEMA_VERSION) write_manifest s4)))"

end
