(* ===== verification/Lineage_Invariant.thy ===== *)
theory Lineage_Invariant
  imports Lineage_Store
begin

text \<open>
  The invariant of the session store: of its disk at every instant, also between the steps of an operation,
  and of its memory when no operation is under way. Each step of the disk and each operation keeps it. The
  invariant carries along a set of sessions whose work was accepted: whatever is written, the disk goes on
  saying so, or a tombstone names them.
\<close>

section \<open>Well-formed disks\<close>

definition version_ok :: "nat option \<Rightarrow> bool" where
  "version_ok v \<longleftrightarrow> (case v of None \<Rightarrow> True | Some n \<Rightarrow> n \<le> PERSISTED_SCHEMA_VERSION)"

definition file_ok :: "string \<Rightarrow> string \<Rightarrow> record_file \<Rightarrow> bool" where
  "file_ok rootId sid f \<longleftrightarrow>
     (\<exists>r. f = Record_ok r \<and> sr_id r = sid \<and> sr_rootSessionId r = rootId \<and> sr_schemaVersion r \<le> PERSISTED_SCHEMA_VERSION)"

definition dir_ok :: "string \<Rightarrow> lineage_dir \<Rightarrow> bool" where
  "dir_ok rootId dir \<longleftrightarrow> jmap_ok (ld_records dir) \<and> (\<forall>sid f. (sid, f) \<in> set (ld_records dir) \<longrightarrow> file_ok rootId sid f) \<and>
     (\<forall>t\<in>set (ld_temps dir). version_ok t) \<and> (\<forall>n lg l. (n, lg) \<in> set (ld_events dir) \<longrightarrow> l \<in> set (lg_lines lg) \<longrightarrow> version_ok (line_version l))"

text \<open>Where the directory of a lineage can be: live, or staged for eviction.\<close>

definition live :: "store_disk \<Rightarrow> string \<Rightarrow> bool" where
  "live d rootId \<longleftrightarrow> jhas (sd_lineages d) rootId"

definition placed :: "store_disk \<Rightarrow> string \<Rightarrow> lineage_dir \<Rightarrow> bool" where
  "placed d rootId dir \<longleftrightarrow> jget (sd_lineages d) rootId = Some dir \<or> (Some rootId, dir) \<in> set (sd_trash d)"

definition disk_ok :: "store_disk \<Rightarrow> bool" where
  "disk_ok d \<longleftrightarrow>
     jmap_ok (sd_lineages d) \<and> distinct (map fst (sd_trash d)) \<and> None \<notin> fst ` set (sd_trash d) \<and>
     (\<forall>rootId. live d rootId \<longrightarrow> Some rootId \<notin> fst ` set (sd_trash d) \<and> \<not> jhas (sd_tombstones d) rootId) \<and>
     (\<forall>rootId dir. placed d rootId dir \<longrightarrow> rootId \<noteq> [] \<and> dir_ok rootId dir) \<and>
     jmap_ok (sd_tombstones d) \<and> (\<forall>n f. (n, f) \<in> set (sd_tombstones d) \<longrightarrow> (\<exists>t. f = Tomb_ok t \<and> tb_rootSessionId t = n)) \<and>
     (case sd_manifest d of None \<Rightarrow> True | Some m \<Rightarrow> manifest_version m \<in> Some ` set READABLE_SCHEMA_VERSIONS) \<and>
     (\<forall>t\<in>set (sd_temps d). version_ok t)"

definition single_home :: "store_disk \<Rightarrow> bool" where
  "single_home d \<longleftrightarrow>
     (\<forall>r1 dir1 r2 dir2 sid. placed d r1 dir1 \<longrightarrow> placed d r2 dir2 \<longrightarrow> jhas (ld_records dir1) sid \<longrightarrow> jhas (ld_records dir2) sid \<longrightarrow> r1 = r2)"

lemma single_homeD:
  "single_home d \<Longrightarrow> placed d r1 dir1 \<Longrightarrow> placed d r2 dir2 \<Longrightarrow> jhas (ld_records dir1) sid \<Longrightarrow> jhas (ld_records dir2) sid \<Longrightarrow> r1 = r2"
  by (simp add: single_home_def)

text \<open>What a disk knows of a session whose work was accepted: its record says so, or a tombstone names it.\<close>

definition acc_file :: "lineage_dir \<Rightarrow> string \<Rightarrow> bool" where
  "acc_file dir sid \<longleftrightarrow> (\<exists>r. jget (ld_records dir) sid = Some (Record_ok r) \<and> sr_acceptedWork r = Pw_accepted)"

definition entombed :: "store_disk \<Rightarrow> string \<Rightarrow> bool" where
  "entombed d sid \<longleftrightarrow> (\<exists>rootId t. jget (sd_tombstones d) rootId = Some (Tomb_ok t) \<and> sid \<in> set (tb_sessionIds t))"

definition holds_accepted :: "store_disk \<Rightarrow> string \<Rightarrow> bool" where
  "holds_accepted d sid \<longleftrightarrow> (\<exists>rootId dir. placed d rootId dir \<and> \<not> jhas (sd_tombstones d) rootId \<and> acc_file dir sid) \<or> entombed d sid"

definition good_disk :: "string set \<Rightarrow> store_disk \<Rightarrow> bool" where
  "good_disk X d \<longleftrightarrow> disk_ok d \<and> single_home d \<and> (\<forall>sid\<in>X. holds_accepted d sid)"

definition good_trail :: "string set \<Rightarrow> SessionLineageStore \<Rightarrow> bool" where
  "good_trail X s \<longleftrightarrow> good_disk X (lx_disk s) \<and> (\<forall>d\<in>set (lx_trail s). good_disk X d)"

lemma good_trail_touch: "good_trail X s \<Longrightarrow> good_disk X (f (lx_disk s)) \<Longrightarrow> good_trail X (touch f s)"
  by (auto simp: good_trail_def touch_def)

lemma good_trail_crash: "good_trail X s \<Longrightarrow> good_disk X (f (lx_disk s)) \<Longrightarrow> good_trail X (crash_point f s)"
  by (auto simp: good_trail_def crash_point_def)

lemma good_trail_crashes:
  assumes "good_trail X s" "\<And>n. good_disk X (f n (lx_disk s))"
  shows "good_trail X (foldl (\<lambda>s n. crash_point (f n) s) s ns) \<and> lx_disk (foldl (\<lambda>s n. crash_point (f n) s) s ns) = lx_disk s"
  using assms
proof (induction ns arbitrary: s)
  case (Cons n ns)
  have "lx_disk (crash_point (f n) s) = lx_disk s" by (simp add: crash_point_def)
  with Cons.IH [of "crash_point (f n) s"] Cons.prems good_trail_crash [of X s "f n"] show ?case by auto
qed simp

lemma touch_fields [simp]:
  "lx_disk (touch f s) = f (lx_disk s)" "lx_lineages (touch f s) = lx_lineages s" "lx_sessionIndex (touch f s) = lx_sessionIndex s"
  "lx_tombstones (touch f s) = lx_tombstones s"
  "lx_disk (crash_point f s) = lx_disk s" "lx_lineages (crash_point f s) = lx_lineages s"
  "lx_sessionIndex (crash_point f s) = lx_sessionIndex s" "lx_tombstones (crash_point f s) = lx_tombstones s"
  by (simp_all add: touch_def crash_point_def)

lemma atomicWrite_fields [simp]:
  "lx_disk (atomicWrite b v f s) = f (lx_disk s)" "lx_lineages (atomicWrite b v f s) = lx_lineages s"
  "lx_sessionIndex (atomicWrite b v f s) = lx_sessionIndex s" "lx_tombstones (atomicWrite b v f s) = lx_tombstones s"
  by (simp_all add: atomicWrite_def)

lemma good_trail_atomic:
  "good_trail X s \<Longrightarrow> good_disk X (b None (lx_disk s)) \<Longrightarrow> good_disk X (b v (lx_disk s)) \<Longrightarrow> good_disk X (f (lx_disk s)) \<Longrightarrow>
   good_trail X (atomicWrite b v f s)"
  by (simp add: atomicWrite_def good_trail_touch good_trail_crash)

lemma good_trail_memory [simp]:
  "good_trail X (s\<lparr>lx_lineages := l\<rparr>) = good_trail X s" "good_trail X (s\<lparr>lx_sessionIndex := i\<rparr>) = good_trail X s"
  "good_trail X (s\<lparr>lx_tombstones := t\<rparr>) = good_trail X s"
  by (simp_all add: good_trail_def)


section \<open>Steps of the disk\<close>

lemma disk_okD:
  assumes "disk_ok d"
  shows "jmap_ok (sd_lineages d)" "jmap_ok (sd_tombstones d)"
    "live d rootId \<Longrightarrow> (Some rootId, dir) \<notin> set (sd_trash d)"
    "live d rootId \<Longrightarrow> Some rootId \<notin> fst ` set (sd_trash d)"
    "live d rootId \<Longrightarrow> \<not> jhas (sd_tombstones d) rootId"
    "placed d rootId dir \<Longrightarrow> rootId \<noteq> []" "placed d rootId dir \<Longrightarrow> dir_ok rootId dir"
    "(None, dir) \<notin> set (sd_trash d)"
  using assms unfolding disk_ok_def by (force simp: image_iff)+

lemma placed_unique: "disk_ok d \<Longrightarrow> placed d r dir1 \<Longrightarrow> placed d r dir2 \<Longrightarrow> dir1 = dir2"
  using disk_okD(3) [of d r dir1] disk_okD(3) [of d r dir2] eq_key_imp_eq_value [of "sd_trash d" "Some r" dir1 dir2]
  by (auto simp: placed_def live_def jhas_def disk_ok_def)

text \<open>A change of one live directory that keeps its sessions and what was accepted.\<close>

definition dir_grows :: "lineage_dir \<Rightarrow> lineage_dir \<Rightarrow> bool" where
  "dir_grows dir dir' \<longleftrightarrow> (\<forall>sid. acc_file dir sid \<longrightarrow> acc_file dir' sid)"

lemma placed_with_dir:
  assumes "live d rootId" "disk_ok d"
  shows "placed (with_dir rootId f d) r dir \<longleftrightarrow> (if r = rootId then dir = f (dir_of d rootId) else placed d r dir)"
  using disk_okD(3) [OF assms(2,1)] by (auto simp: placed_def with_dir_def jget_jset)

lemma dir_of_live: "live d rootId \<Longrightarrow> jget (sd_lineages d) rootId = Some (dir_of d rootId)"
  by (auto simp: live_def jhas_def dir_of_def)

lemma live_with_dir [simp]: "live (with_dir rootId f d) r \<longleftrightarrow> r = rootId \<or> live d r"
  by (auto simp: live_def with_dir_def jhas_def jget_jset)

lemma dir_of_with_dir [simp]: "dir_of (with_dir rootId f d) r = (if r = rootId then f (dir_of d rootId) else dir_of d r)"
  by (auto simp: dir_of_def with_dir_def jget_jset)

lemma with_dir_fields [simp]:
  "sd_trash (with_dir rootId f d) = sd_trash d" "sd_tombstones (with_dir rootId f d) = sd_tombstones d"
  "sd_manifest (with_dir rootId f d) = sd_manifest d" "sd_temps (with_dir rootId f d) = sd_temps d"
  by (simp_all add: with_dir_def)

lemma good_with_dir:
  assumes "good_disk X d" "live d rootId" "dir_ok rootId (f (dir_of d rootId))" "dir_grows (dir_of d rootId) (f (dir_of d rootId))"
    and new: "\<And>sid r dir. jhas (ld_records (f (dir_of d rootId))) sid \<Longrightarrow> jhas (ld_records (dir_of d rootId)) sid \<or> \<not> (placed d r dir \<and> jhas (ld_records dir) sid)"
  shows "good_disk X (with_dir rootId f d)"
proof -
  have ok: "disk_ok d" and home: "single_home d" using assms(1) by (auto simp: good_disk_def)
  note pl = placed_with_dir [OF assms(2) ok]
  have at: "placed d rootId (dir_of d rootId)" using dir_of_live [OF assms(2)] by (simp add: placed_def)
  have "jmap_ok (sd_lineages (with_dir rootId f d))" using ok by (simp add: with_dir_def disk_ok_def)
  then have "disk_ok (with_dir rootId f d)"
    using ok assms(2,3) disk_okD(6) [OF ok at] unfolding disk_ok_def with_dir_fields live_with_dir pl by (metis (no_types, lifting))
  moreover have "single_home (with_dir rootId f d)"
    using home new at unfolding single_home_def pl by (metis (full_types))
  moreover have "holds_accepted (with_dir rootId f d) sid" if held: "holds_accepted d sid" for sid
  proof (cases "entombed d sid")
    case False
    then obtain r dir where "placed d r dir" "\<not> jhas (sd_tombstones d) r" "acc_file dir sid"
      using held by (auto simp: holds_accepted_def)
    moreover from this have "r = rootId \<Longrightarrow> dir = dir_of d rootId"
      using placed_unique [OF ok at] by auto
    ultimately show ?thesis
      using assms(4) unfolding holds_accepted_def pl
      by (intro disjI1 exI [of _ r] exI [of _ "if r = rootId then f dir else dir"]) (auto simp: dir_grows_def)
  qed (auto simp: holds_accepted_def entombed_def)
  ultimately show ?thesis using assms(1) by (simp add: good_disk_def)
qed


lemma live_dir_ok: "disk_ok d \<Longrightarrow> live d rootId \<Longrightarrow> dir_ok rootId (dir_of d rootId)"
  using dir_of_live [of d rootId] disk_okD(7) [of d rootId "dir_of d rootId"] by (simp add: placed_def)

lemma good_dir_same_records:
  assumes "good_disk X d" "live d rootId" "ld_records (f (dir_of d rootId)) = ld_records (dir_of d rootId)" "dir_ok rootId (f (dir_of d rootId))"
  shows "good_disk X (with_dir rootId f d)"
  using assms by (intro good_with_dir) (auto simp: dir_grows_def acc_file_def)

lemma good_dir_temp: "good_disk X d \<Longrightarrow> live d rootId \<Longrightarrow> version_ok t \<Longrightarrow> good_disk X (dir_temp rootId t d)"
  unfolding dir_temp_def
  by (rule good_dir_same_records) (auto simp: good_disk_def dest: live_dir_ok simp: dir_ok_def)

lemma set_jset_sub: "set (jset m k v) \<subseteq> insert (k, v) (set m)"
  by (induction m) auto

lemma dir_ok_set_log:
  "dir_ok rootId dir \<Longrightarrow> (\<forall>l\<in>set (lg_lines lg). version_ok (line_version l)) \<Longrightarrow> dir_ok rootId (set_log sid lg dir)"
  using set_jset_sub [of sid lg "ld_events dir"] by (fastforce simp: dir_ok_def set_log_def)

lemma good_set_log:
  assumes "good_disk X d" "live d rootId" "\<forall>l\<in>set (lg_lines (lg (dir_of d rootId))). version_ok (line_version l)"
  shows "good_disk X (with_dir rootId (\<lambda>dir. set_log sid (lg dir) dir) d)"
  using assms
  by (intro good_dir_same_records dir_ok_set_log) (auto simp: good_disk_def set_log_def dest: live_dir_ok)

lemma log_of_versions:
  "dir_ok rootId dir \<Longrightarrow> l \<in> set (lg_lines (log_of dir sid)) \<Longrightarrow> version_ok (line_version l)"
  by (fastforce simp: log_of_def dir_ok_def split: option.splits dest: map_of_SomeD)

lemma add_line_versions:
  "l \<in> set (lg_lines (add_line env x nl lg)) \<Longrightarrow> \<forall>l\<in>set (lg_lines lg). version_ok (line_version l) \<Longrightarrow>
   version_ok (line_version x) \<Longrightarrow> version_ok (line_version l)"
  by (auto simp: add_line_def version_ok_def split: if_splits dest: in_set_butlastD)

lemma good_append_line:
  assumes "good_disk X d" "live d rootId" "version_ok (line_version x)"
  shows "good_disk X (append_line env rootId sid x nl d)"
  unfolding append_line_def
proof (rule good_set_log [OF assms(1,2)], intro ballI)
  fix l assume "l \<in> set (lg_lines (add_line env x nl (log_of (dir_of d rootId) sid)))"
  then show "version_ok (line_version l)"
    using assms add_line_versions log_of_versions live_dir_ok unfolding good_disk_def by metis
qed

lemma good_appendDurably:
  assumes "good_trail X s" "live (lx_disk s) rootId"
  shows "good_trail X (appendDurably env rootId sid e s)"
proof -
  have good: "good_disk X (lx_disk s)" using assms(1) by (simp add: good_trail_def)
  note step = good_append_line [OF good assms(2)]
  let ?t = "foldl (\<lambda>s n. crash_point (append_line env rootId sid (Bad_line None n) False) s) s [1..<se_lineBytes env e]"
  have "good_trail X ?t \<and> lx_disk ?t = lx_disk s"
    by (rule good_trail_crashes [OF assms(1)]) (rule step, simp add: version_ok_def)
  then show ?thesis
    unfolding appendDurably_def
    by (intro good_trail_touch good_trail_crash) (auto intro!: step simp: version_ok_def PERSISTED_SCHEMA_VERSION_def)
qed

lemma appendDurably_fields [simp]:
  "lx_disk (appendDurably env rootId sid e s) = append_line env rootId sid (Good_line e) True (lx_disk s)"
  "lx_lineages (appendDurably env rootId sid e s) = lx_lineages s"
  "lx_sessionIndex (appendDurably env rootId sid e s) = lx_sessionIndex s"
  "lx_tombstones (appendDurably env rootId sid e s) = lx_tombstones s"
proof -
  have "lx_disk (foldl (\<lambda>s n. crash_point (f n) s) t ns) = lx_disk t \<and> lx_lineages (foldl (\<lambda>s n. crash_point (f n) s) t ns) = lx_lineages t \<and>
      lx_sessionIndex (foldl (\<lambda>s n. crash_point (f n) s) t ns) = lx_sessionIndex t \<and>
      lx_tombstones (foldl (\<lambda>s n. crash_point (f n) s) t ns) = lx_tombstones t"
    for f :: "nat \<Rightarrow> store_disk \<Rightarrow> store_disk" and ns t
    by (induction ns arbitrary: t) auto
  then show "lx_disk (appendDurably env rootId sid e s) = append_line env rootId sid (Good_line e) True (lx_disk s)"
    "lx_lineages (appendDurably env rootId sid e s) = lx_lineages s"
    "lx_sessionIndex (appendDurably env rootId sid e s) = lx_sessionIndex s"
    "lx_tombstones (appendDurably env rootId sid e s) = lx_tombstones s"
    by (simp_all add: appendDurably_def)
qed

text \<open>A record is written over its former version, or is new.\<close>

definition replaces :: "lineage_dir \<Rightarrow> PersistedSessionRecord \<Rightarrow> bool" where
  "replaces dir r \<longleftrightarrow> jhas (ld_records dir) (sr_id r) \<and> (acc_file dir (sr_id r) \<longrightarrow> sr_acceptedWork r = Pw_accepted)"

lemma dir_ok_put: "dir_ok rootId dir \<Longrightarrow> sr_rootSessionId r = rootId \<Longrightarrow> sr_schemaVersion r \<le> PERSISTED_SCHEMA_VERSION \<Longrightarrow>
    dir_ok rootId (put_record r dir)"
  by (auto simp: dir_ok_def put_record_def file_ok_def set_jset)

lemma put_record_lookup: "jget (ld_records (put_record r dir)) sid = (if sid = sr_id r then Some (Record_ok r) else jget (ld_records dir) sid)"
  by (simp add: put_record_def jget_jset)

lemma good_put_record:
  assumes "good_disk X d" "live d rootId" "sr_rootSessionId r = rootId" "sr_schemaVersion r \<le> PERSISTED_SCHEMA_VERSION"
    and "replaces (dir_of d rootId) r \<or> (\<forall>rt dir. placed d rt dir \<longrightarrow> \<not> jhas (ld_records dir) (sr_id r))"
  shows "good_disk X (with_dir rootId (put_record r) d)"
proof (rule good_with_dir [OF assms(1,2)])
  have ok: "dir_ok rootId (dir_of d rootId)" using assms(1,2) by (auto simp: good_disk_def dest: live_dir_ok)
  then show "dir_ok rootId (put_record r (dir_of d rootId))" using assms(3,4) by (rule dir_ok_put)
  have "placed d rootId (dir_of d rootId)" using assms(2) by (simp add: placed_def dir_of_live)
  then show "dir_grows (dir_of d rootId) (put_record r (dir_of d rootId))"
    using assms(5) by (auto simp: dir_grows_def acc_file_def put_record_lookup replaces_def jhas_def)
  show "jhas (ld_records (dir_of d rootId)) sid \<or> \<not> (placed d rt dir \<and> jhas (ld_records dir) sid)"
    if "jhas (ld_records (put_record r (dir_of d rootId))) sid" for sid rt dir
    using that assms(5) by (auto simp: jhas_def put_record_lookup replaces_def split: if_splits)
qed


text \<open>Steps that leave every lineage where it is.\<close>

lemma good_same_places:
  assumes "good_disk X d" "sd_lineages d' = sd_lineages d" "sd_trash d' = sd_trash d" "sd_tombstones d' = sd_tombstones d"
    "case sd_manifest d' of None \<Rightarrow> True | Some m \<Rightarrow> manifest_version m \<in> Some ` set READABLE_SCHEMA_VERSIONS"
    "\<forall>t\<in>set (sd_temps d'). version_ok t"
  shows "good_disk X d'"
proof -
  have "placed d' = placed d" "live d' = live d" using assms by (auto simp: placed_def live_def fun_eq_iff)
  then show ?thesis
    using assms by (simp add: good_disk_def disk_ok_def single_home_def holds_accepted_def entombed_def)
qed

lemma good_root_temp: "good_disk X d \<Longrightarrow> version_ok t \<Longrightarrow> good_disk X (root_temp t d)"
  by (rule good_same_places [of X d]) (auto simp: root_temp_def good_disk_def disk_ok_def)

lemma good_write_manifest: "good_disk X d \<Longrightarrow> good_disk X (write_manifest d)"
  by (rule good_same_places [of X d])
    (auto simp: write_manifest_def good_disk_def disk_ok_def READABLE_SCHEMA_VERSIONS_def PERSISTED_SCHEMA_VERSION_def)

lemma good_loadManifest: "good_disk X d \<Longrightarrow> good_disk X (loadManifest d)"
  by (rule good_same_places [of X d]) (auto simp: loadManifest_def good_disk_def disk_ok_def split: option.splits)

lemma good_quarantine: "good_disk X d \<Longrightarrow> good_disk X (d\<lparr>sd_quarantine := q\<rparr>)"
  by (rule good_same_places [of X d]) (auto simp: good_disk_def disk_ok_def)

text \<open>Moving lineages: each step is described by where the lineages are afterwards.\<close>

lemma holdsI_placed: "placed d rootId dir \<Longrightarrow> \<not> jhas (sd_tombstones d) rootId \<Longrightarrow> acc_file dir sid \<Longrightarrow> holds_accepted d sid"
  by (auto simp: holds_accepted_def)

lemma good_moved:
  assumes "good_disk X d" "disk_ok d'" "\<And>r dir. placed d' r dir \<Longrightarrow> placed d r dir"
    and "\<And>r dir. placed d r dir \<Longrightarrow> placed d' r dir \<or> jhas (sd_tombstones d) r \<or> ld_records dir = []"
    and "sd_tombstones d' = sd_tombstones d"
  shows "good_disk X d'"
proof -
  have "single_home d'" using assms(1,3) unfolding good_disk_def single_home_def by blast
  moreover have "holds_accepted d' sid" if "holds_accepted d sid" for sid
    using that assms(4,5) unfolding holds_accepted_def entombed_def acc_file_def by fastforce
  ultimately show ?thesis using assms(1,2) by (simp add: good_disk_def)
qed

lemma placed_stage:
  assumes "disk_ok d"
  shows "placed (evict_stage rootId d) r dir \<longleftrightarrow> placed d r dir"
  using disk_okD(1) [OF assms]
  by (auto simp: placed_def evict_stage_def jget_jdelete split: option.splits if_splits)

lemma good_evict_stage:
  assumes "good_disk X d"
  shows "good_disk X (evict_stage rootId d)"
proof -
  have ok: "disk_ok d" using assms by (simp add: good_disk_def)
  have "disk_ok (evict_stage rootId d)"
  proof (cases "jget (sd_lineages d) rootId")
    case (Some dir)
    then have "live d rootId" by (simp add: live_def jhas_def)
    then have "Some rootId \<notin> fst ` set (sd_trash d)" using disk_okD(4) [OF ok] by blast
    then show ?thesis
      using ok Some disk_okD(6,7) [OF ok] unfolding disk_ok_def placed_stage [OF ok]
      by (auto simp: evict_stage_def live_def jhas_def jget_jdelete)
  qed (simp add: evict_stage_def ok)
  then show ?thesis
    by (rule good_moved [OF assms]) (simp_all add: placed_stage [OF ok], simp add: evict_stage_def split: option.splits)
qed

lemma good_evict_commit:
  assumes "good_disk X d" "\<not> live d (tb_rootSessionId t)" "\<not> jhas (sd_tombstones d) (tb_rootSessionId t)"
    and sids: "\<And>dir sid. placed d (tb_rootSessionId t) dir \<Longrightarrow> jhas (ld_records dir) sid \<Longrightarrow> sid \<in> set (tb_sessionIds t)"
  shows "good_disk X (evict_commit t d)"
proof -
  let ?d = "evict_commit t d"
  have same: "placed ?d = placed d" "live ?d = live d" by (auto simp: placed_def live_def evict_commit_def fun_eq_iff)
  have tombs: "jget (sd_tombstones ?d) = (jget (sd_tombstones d))(tb_rootSessionId t \<mapsto> Tomb_ok t)"
    by (simp add: evict_commit_def jget_jset)
  have "disk_ok ?d"
    using assms unfolding good_disk_def disk_ok_def same
    by (auto simp: evict_commit_def jhas_def jget_jset set_jset split: option.splits)
  moreover have "holds_accepted ?d sid" if "holds_accepted d sid" for sid
  proof (cases "entombed d sid")
    case True
    then obtain r e where "jget (sd_tombstones d) r = Some (Tomb_ok e)" "sid \<in> set (tb_sessionIds e)" by (auto simp: entombed_def)
    moreover from this have "r \<noteq> tb_rootSessionId t" using assms(3) by (auto simp: jhas_def)
    ultimately have "entombed ?d sid" unfolding entombed_def tombs by (intro exI [of _ r] exI [of _ e]) simp
    then show ?thesis by (simp add: holds_accepted_def)
  next
    case False
    with that obtain r dir where *: "placed d r dir" "\<not> jhas (sd_tombstones d) r" "acc_file dir sid"
      unfolding holds_accepted_def by blast
    show ?thesis
    proof (cases "r = tb_rootSessionId t")
      case True
      then have "sid \<in> set (tb_sessionIds t)" using * sids by (auto simp: acc_file_def jhas_def)
      then have "entombed ?d sid" by (auto simp: entombed_def tombs)
      then show ?thesis by (simp add: holds_accepted_def)
    next
      case False
      then show ?thesis using * by (intro holdsI_placed [of _ r dir]) (auto simp: same tombs jhas_def)
    qed
  qed
  ultimately show ?thesis using assms(1) by (simp add: good_disk_def single_home_def same)
qed

lemma distinct_map_remove1: "distinct (map f xs) \<Longrightarrow> distinct (map f (remove1 x xs))"
  by (induction xs) (auto dest: notin_set_remove1 simp: image_iff)

lemma remove1_keyed: "distinct (map fst m) \<Longrightarrow> (k, v) \<in> set m \<Longrightarrow> set (remove1 (k, v) m) = {p \<in> set m. fst p \<noteq> k}"
  by (induction m) (auto simp: image_iff)

lemma good_trash_removed:
  assumes "good_disk X d" "(Some rootId, dir) \<in> set (sd_trash d)" "jhas (sd_tombstones d) rootId"
  shows "good_disk X (d\<lparr>sd_trash := remove1 (Some rootId, dir) (sd_trash d)\<rparr>)"
proof (rule good_moved [OF assms(1)])
  let ?d = "d\<lparr>sd_trash := remove1 (Some rootId, dir) (sd_trash d)\<rparr>"
  have ok: "disk_ok d" and dist: "distinct (map fst (sd_trash d))" using assms(1) by (auto simp: good_disk_def disk_ok_def)
  have live: "live ?d = live d" by (simp add: live_def fun_eq_iff)
  have sub: "set (sd_trash ?d) \<subseteq> set (sd_trash d)" by (simp add: set_remove1_subset)
  then show placed: "placed ?d r e \<Longrightarrow> placed d r e" for r e by (auto simp: placed_def)
  have "distinct (map fst (sd_trash ?d))" using dist by (simp add: distinct_map_remove1)
  moreover have "None \<notin> fst ` set (sd_trash ?d)" using ok sub by (auto simp: disk_ok_def)
  moreover have "Some r \<notin> fst ` set (sd_trash ?d)" if "live d r" for r using disk_okD(4) [OF ok that] sub by blast
  moreover have "r \<noteq> [] \<and> dir_ok r e" if "placed ?d r e" for r e using disk_okD(6,7) [OF ok placed [OF that]] by blast
  ultimately show "disk_ok ?d" using ok unfolding disk_ok_def live by simp
  show "placed ?d r e \<or> jhas (sd_tombstones d) r \<or> ld_records e = []" if "placed d r e" for r e
    using that assms(2,3) remove1_keyed [OF dist assms(2)] by (auto simp: placed_def)
qed simp


lemma committed_iff: "disk_ok d \<Longrightarrow> committed d rootId \<longleftrightarrow> jhas (sd_tombstones d) rootId"
  using map_of_SomeD [of "sd_tombstones d" rootId]
  by (fastforce simp: committed_def jhas_def disk_ok_def split: option.splits)

lemma good_recover_eviction:
  assumes "good_disk X d" "(Some rootId, dir) \<in> set (sd_trash d)"
  shows "good_disk X (recover_eviction (Some rootId, dir) d)"
proof (cases "jhas (sd_tombstones d) rootId")
  case True
  moreover from this have "committed d rootId" using committed_iff assms(1) by (simp add: good_disk_def)
  ultimately show ?thesis using good_trash_removed [OF assms] by (simp add: recover_eviction_def Let_def)
next
  case False
  have ok: "disk_ok d" and dist: "distinct (map fst (sd_trash d))" using assms(1) by (auto simp: good_disk_def disk_ok_def)
  have here: "placed d rootId dir" using assms(2) by (simp add: placed_def)
  have gone: "\<not> live d rootId" using disk_okD(3) [OF ok] assms(2) by blast
  let ?d = "d\<lparr>sd_trash := remove1 (Some rootId, dir) (sd_trash d), sd_lineages := jset (sd_lineages d) rootId dir\<rparr>"
  have eq: "recover_eviction (Some rootId, dir) d = ?d"
    using False gone disk_okD(6) [OF ok here] by (simp add: recover_eviction_def Let_def committed_iff [OF ok] live_def)
  have places: "placed ?d r e \<longleftrightarrow> placed d r e" for r e
    using gone assms(2) eq_key_imp_eq_value [OF dist, of "Some rootId" dir e]
    by (auto simp: placed_def remove1_keyed [OF dist assms(2)] jget_jset live_def jhas_def)
  have trash: "set (remove1 (Some rootId, dir) (sd_trash d)) = {p \<in> set (sd_trash d). fst p \<noteq> Some rootId}"
    by (rule remove1_keyed [OF dist assms(2)])
  have "disk_ok ?d"
    using ok False unfolding disk_ok_def places live_def
    by (auto simp: distinct_map_remove1 trash jhas_def jget_jset)
  then show ?thesis
    unfolding eq by (rule good_moved [OF assms(1)]) (simp_all add: places)
qed

lemma good_recoverInterruptedEvictions:
  assumes "good_trail X s"
  shows "good_trail X (recoverInterruptedEvictions s) \<and> sd_trash (lx_disk (recoverInterruptedEvictions s)) = []"
proof -
  have "good_trail X (foldl (\<lambda>s entry. touch (recover_eviction entry) s) s es) \<and>
        sd_trash (lx_disk (foldl (\<lambda>s entry. touch (recover_eviction entry) s) s es)) = []"
    if "good_trail X s" "sd_trash (lx_disk s) = es" for es s
    using that
  proof (induction es arbitrary: s)
    case (Cons e es)
    have good: "good_disk X (lx_disk s)" using Cons.prems(1) by (simp add: good_trail_def)
    obtain rootId dir where e: "e = (Some rootId, dir)"
      using disk_okD(8) [of "lx_disk s" "snd e"] good Cons.prems(2) by (cases e; cases "fst e") (auto simp: good_disk_def)
    have "good_disk X (recover_eviction e (lx_disk s))"
      unfolding e using good_recover_eviction [OF good] Cons.prems(2) e by simp
    moreover have "sd_trash (recover_eviction e (lx_disk s)) = es"
      using Cons.prems(2) by (simp add: recover_eviction_def Let_def e)
    ultimately show ?case using Cons.IH [of "touch (recover_eviction e) s"] Cons.prems(1) by (simp add: good_trail_touch)
  qed simp
  from this [OF assms refl] show ?thesis by (simp add: recoverInterruptedEvictions_def)
qed

lemma recoverInterruptedEvictions_memory [simp]:
  "lx_lineages (recoverInterruptedEvictions s) = lx_lineages s" "lx_sessionIndex (recoverInterruptedEvictions s) = lx_sessionIndex s"
  "lx_tombstones (recoverInterruptedEvictions s) = lx_tombstones s"
proof -
  have "lx_lineages (foldl (\<lambda>s entry. touch (recover_eviction entry) s) s es) = lx_lineages s \<and>
      lx_sessionIndex (foldl (\<lambda>s entry. touch (recover_eviction entry) s) s es) = lx_sessionIndex s \<and>
      lx_tombstones (foldl (\<lambda>s entry. touch (recover_eviction entry) s) s es) = lx_tombstones s" for es
    by (induction es arbitrary: s) auto
  then show "lx_lineages (recoverInterruptedEvictions s) = lx_lineages s" "lx_sessionIndex (recoverInterruptedEvictions s) = lx_sessionIndex s"
    "lx_tombstones (recoverInterruptedEvictions s) = lx_tombstones s"
    by (simp_all add: recoverInterruptedEvictions_def)
qed

lemma good_quarantineStrayTemps:
  assumes "good_disk X d"
  shows "good_disk X (quarantineStrayTemps d)"
proof -
  let ?d = "quarantineStrayTemps d"
  have get: "jget (sd_lineages ?d) r = map_option quarantine_dir_temps (jget (sd_lineages d) r)" for r
    by (simp add: quarantineStrayTemps_def map_of_map)
  have placed: "placed ?d r dir' \<longleftrightarrow> (\<exists>dir. jget (sd_lineages d) r = Some dir \<and> dir' = quarantine_dir_temps dir) \<or> (Some r, dir') \<in> set (sd_trash d)"
    for r dir' by (auto simp: placed_def get) (auto simp: quarantineStrayTemps_def)
  have live: "live ?d = live d" by (simp add: live_def jhas_def get fun_eq_iff)
  have recs: "ld_records (quarantine_dir_temps dir) = ld_records dir" for dir by (simp add: quarantine_dir_temps_def)
  have dirs: "dir_ok r dir \<Longrightarrow> dir_ok r (quarantine_dir_temps dir)" for r dir by (simp add: dir_ok_def quarantine_dir_temps_def)
  have keys: "map fst (sd_lineages ?d) = map fst (sd_lineages d)" by (simp add: quarantineStrayTemps_def case_prod_unfold)
  have fields: "sd_trash ?d = sd_trash d" "sd_tombstones ?d = sd_tombstones d" "sd_manifest ?d = sd_manifest d" "sd_temps ?d = []"
    by (simp_all add: quarantineStrayTemps_def)
  have ok: "disk_ok d" using assms by (simp add: good_disk_def)
  have "r \<noteq> [] \<and> dir_ok r e" if "placed ?d r e" for r e
    using that disk_okD(6,7) [OF ok, of r] dirs unfolding placed by (auto simp: placed_def)
  then have "disk_ok ?d" using ok unfolding disk_ok_def fields live jmap_ok_def keys by simp
  moreover have "single_home ?d"
    using assms unfolding good_disk_def single_home_def placed by (metis placed_def recs)
  moreover have "holds_accepted ?d sid" if "holds_accepted d sid" for sid
    using that unfolding holds_accepted_def entombed_def placed fields by (metis placed_def recs acc_file_def)
  ultimately show ?thesis using assms by (simp add: good_disk_def)
qed


section \<open>Memory and disk\<close>

text \<open>A record in memory and its file differ in the two counters only that are not written with every event.\<close>

definition rec_match :: "PersistedSessionRecord \<Rightarrow> PersistedSessionRecord \<Rightarrow> bool" where
  "rec_match r0 r \<longleftrightarrow> r0\<lparr>sr_eventCount := sr_eventCount r, sr_earliestSequence := sr_earliestSequence r\<rparr> = r"

definition file_match :: "record_file \<Rightarrow> PersistedSessionRecord \<Rightarrow> bool" where
  "file_match f r \<longleftrightarrow> (\<exists>r0. f = Record_ok r0 \<and> rec_match r0 r)"

definition lineage_match :: "lineage_dir \<Rightarrow> Lineage \<Rightarrow> bool" where
  "lineage_match dir lineage \<longleftrightarrow> jmap_ok (ln_records lineage) \<and> ld_records dir \<noteq> [] \<and>
     (\<forall>sid. rel_option file_match (jget (ld_records dir) sid) (jget (ln_records lineage) sid))"

definition index_ok :: "(string, Lineage) jmap \<Rightarrow> (string, string) jmap \<Rightarrow> bool" where
  "index_ok lineages index \<longleftrightarrow>
     (\<forall>sid rootId. jget index sid = Some rootId \<longleftrightarrow> (\<exists>l. jget lineages rootId = Some l \<and> jhas (ln_records l) sid))"

definition tombs_match :: "store_disk \<Rightarrow> (string, Tombstone) jmap \<Rightarrow> bool" where
  "tombs_match d tombs \<longleftrightarrow> (\<forall>rootId t. jget tombs rootId = Some t \<longleftrightarrow> jget (sd_tombstones d) rootId = Some (Tomb_ok t))"

definition mem_ok :: "SessionLineageStore \<Rightarrow> bool" where
  "mem_ok s \<longleftrightarrow> jmap_ok (lx_lineages s) \<and> sd_trash (lx_disk s) = [] \<and>
     (\<forall>rootId. rel_option lineage_match (jget (sd_lineages (lx_disk s)) rootId) (jget (lx_lineages s) rootId)) \<and>
     index_ok (lx_lineages s) (lx_sessionIndex s) \<and> tombs_match (lx_disk s) (lx_tombstones s)"

lemma rec_match_refl [simp]: "rec_match r r"
  by (simp add: rec_match_def)

lemma rec_match_trans: "rec_match r0 r1 \<Longrightarrow> rec_match r1 r2 \<Longrightarrow> rec_match r0 r2"
  by (cases r0; cases r1; cases r2) (simp add: rec_match_def)

lemma rec_match_fields:
  assumes "rec_match r0 r"
  shows "sr_acceptedWork r0 = sr_acceptedWork r" "sr_id r0 = sr_id r" "sr_rootSessionId r0 = sr_rootSessionId r"
    "sr_schemaVersion r0 = sr_schemaVersion r"
  using arg_cong [OF assms [unfolded rec_match_def], of sr_acceptedWork] arg_cong [OF assms [unfolded rec_match_def], of sr_id]
    arg_cong [OF assms [unfolded rec_match_def], of sr_rootSessionId] arg_cong [OF assms [unfolded rec_match_def], of sr_schemaVersion]
  by simp_all

lemma mem_lineage:
  assumes "mem_ok s" "jget (lx_lineages s) rootId = Some l"
  shows "live (lx_disk s) rootId" "lineage_match (dir_of (lx_disk s) rootId) l"
proof -
  have "rel_option lineage_match (jget (sd_lineages (lx_disk s)) rootId) (jget (lx_lineages s) rootId)"
    using assms(1) by (simp add: mem_ok_def)
  then show "live (lx_disk s) rootId" "lineage_match (dir_of (lx_disk s) rootId) l"
    using assms(2) by (auto simp: option_rel_Some2 live_def jhas_def dir_of_def)
qed

lemma mem_record:
  assumes "mem_ok s" "good_trail X s" "jget (lx_lineages s) rootId = Some l" "jget (ln_records l) sid = Some r"
  shows "sr_id r = sid" "sr_rootSessionId r = rootId" "sr_schemaVersion r \<le> PERSISTED_SCHEMA_VERSION"
    "jhas (ld_records (dir_of (lx_disk s) rootId)) sid"
    "acc_file (dir_of (lx_disk s) rootId) sid \<longleftrightarrow> sr_acceptedWork r = Pw_accepted"
proof -
  note lin = mem_lineage [OF assms(1,3)]
  have "rel_option file_match (jget (ld_records (dir_of (lx_disk s) rootId)) sid) (Some r)"
    using lin(2) assms(4) by (metis lineage_match_def)
  then obtain r0 where r0: "jget (ld_records (dir_of (lx_disk s) rootId)) sid = Some (Record_ok r0)" "rec_match r0 r"
    by (auto simp: option_rel_Some2 file_match_def)
  have "dir_ok rootId (dir_of (lx_disk s) rootId)"
    using assms(2) lin(1) by (auto simp: good_trail_def good_disk_def dest: live_dir_ok)
  then have "file_ok rootId sid (Record_ok r0)" using map_of_SomeD [OF r0(1)] by (auto simp: dir_ok_def)
  then show "sr_id r = sid" "sr_rootSessionId r = rootId" "sr_schemaVersion r \<le> PERSISTED_SCHEMA_VERSION"
    using rec_match_fields [OF r0(2)] by (auto simp: file_ok_def)
  show "jhas (ld_records (dir_of (lx_disk s) rootId)) sid" using r0 by (simp add: jhas_def)
  show "acc_file (dir_of (lx_disk s) rootId) sid \<longleftrightarrow> sr_acceptedWork r = Pw_accepted"
    using r0 rec_match_fields(1) [OF r0(2)] by (auto simp: acc_file_def)
qed

lemma lineage_match_dom: "lineage_match dir l \<Longrightarrow> jhas (ld_records dir) sid \<longleftrightarrow> jhas (ln_records l) sid"
  unfolding lineage_match_def by (auto simp: jhas_def rel_option_iff split: option.splits dest!: spec [of _ sid])

lemma mem_dom: "mem_ok s \<Longrightarrow> jget (lx_lineages s) rootId = Some l \<Longrightarrow> jhas (ld_records (dir_of (lx_disk s) rootId)) sid \<longleftrightarrow> jhas (ln_records l) sid"
  by (rule lineage_match_dom [OF mem_lineage(2)])


section \<open>Evictions keep the store in order\<close>

lemma evictLineage_eq:
  "lx_disk (evictLineage env now reason (rootId, l) s) =
     evict_delete rootId (jget (sd_lineages (lx_disk s)) rootId)
       (evict_commit \<lparr>tb_rootSessionId = rootId, tb_evictedAt = se_iso env now, tb_reason = reason,
          tb_sessionIds = map fst (ln_records l), tb_records = length (ln_records l), tb_bytes = ln_bytes l\<rparr>
       (evict_stage rootId (lx_disk s)))"
  by (simp add: evictLineage_def Let_def)

lemma evict_good:
  assumes "good_trail X s" "mem_ok s" "jget (lx_lineages s) rootId = Some l"
  shows "good_trail X (evictLineage env now reason (rootId, l) s)"
proof -
  let ?d = "lx_disk s" and ?dir = "dir_of (lx_disk s) rootId"
  let ?t = "\<lparr>tb_rootSessionId = rootId, tb_evictedAt = se_iso env now, tb_reason = reason,
     tb_sessionIds = map fst (ln_records l), tb_records = length (ln_records l), tb_bytes = ln_bytes l\<rparr>"
  have good: "good_disk X ?d" using assms(1) by (simp add: good_trail_def)
  have ok: "disk_ok ?d" using good by (simp add: good_disk_def)
  have lv: "live ?d rootId" and "lineage_match ?dir l" using mem_lineage [OF assms(2,3)] by auto
  have at: "jget (sd_lineages ?d) rootId = Some ?dir" by (rule dir_of_live [OF lv])
  then have base: "placed ?d rootId ?dir" by (simp add: placed_def)
  have stage: "good_disk X (evict_stage rootId ?d)" by (rule good_evict_stage [OF good])
  have tombs: "sd_tombstones (evict_stage rootId ?d) = sd_tombstones ?d" by (simp add: evict_stage_def split: option.split)
  have gone: "\<not> live (evict_stage rootId ?d) rootId" using at by (simp add: evict_stage_def live_def jhas_def jget_jdelete)
  have here: "placed (evict_stage rootId ?d) rootId e \<longleftrightarrow> e = ?dir" for e
    using placed_stage [OF ok] placed_unique [OF ok] base by blast
  have commit: "good_disk X (evict_commit ?t (evict_stage rootId ?d))"
  proof (rule good_evict_commit [OF stage])
    show "\<not> jhas (sd_tombstones (evict_stage rootId ?d)) (tb_rootSessionId ?t)" using disk_okD(5) [OF ok lv] tombs by simp
    show "sid \<in> set (tb_sessionIds ?t)"
      if "placed (evict_stage rootId ?d) (tb_rootSessionId ?t) e" "jhas (ld_records e) sid" for e sid
      using that here mem_dom [OF assms(2,3)] by (auto simp: jhas_def map_of_eq_None_iff)
  qed (simp add: gone)
  have "good_disk X (evict_delete rootId (Some ?dir) (evict_commit ?t (evict_stage rootId ?d)))"
    unfolding evict_delete_def option.case
  proof (rule good_trash_removed [OF commit])
    show "(Some rootId, ?dir) \<in> set (sd_trash (evict_commit ?t (evict_stage rootId ?d)))"
      using at by (simp add: evict_commit_def evict_stage_def)
    show "jhas (sd_tombstones (evict_commit ?t (evict_stage rootId ?d))) rootId"
      by (simp add: evict_commit_def jhas_def jget_jset)
  qed
  with commit stage show ?thesis
    unfolding evictLineage_def Let_def prod.case at good_trail_memory
    by (intro good_trail_touch good_trail_atomic good_root_temp assms(1))
      (auto simp: version_ok_def PERSISTED_SCHEMA_VERSION_def)
qed


lemma jget_deletes: "jget (foldl (\<lambda>m k. jdelete m k) m ks) k = (if k \<in> set ks then None else jget m k)"
  by (induction ks arbitrary: m) (auto simp: jget_jdelete)

lemma evict_mem:
  assumes "good_trail X s" "mem_ok s" "jget (lx_lineages s) rootId = Some l"
  shows "mem_ok (evictLineage env now reason (rootId, l) s)"
proof -
  let ?d = "lx_disk s" and ?e = "evictLineage env now reason (rootId, l) s"
  have "live ?d rootId" using mem_lineage [OF assms(2,3)] by simp
  then have at: "jget (sd_lineages ?d) rootId = Some (dir_of ?d rootId)" by (rule dir_of_live)
  have disk: "sd_trash (lx_disk ?e) = []" "sd_lineages (lx_disk ?e) = jdelete (sd_lineages ?d) rootId"
    "\<exists>t. lx_tombstones ?e = jset (lx_tombstones s) rootId t \<and> sd_tombstones (lx_disk ?e) = jset (sd_tombstones ?d) rootId (Tomb_ok t)"
    using assms(2) at by (auto simp: evictLineage_def Let_def mem_ok_def evict_delete_def evict_commit_def evict_stage_def)
  have index: "jget (lx_sessionIndex ?e) sid = (if jhas (ln_records l) sid then None else jget (lx_sessionIndex s) sid)" for sid
    by (simp add: evictLineage_def Let_def jget_deletes jhas_def map_of_eq_None_iff)
  have lins: "jget (lx_lineages ?e) = (jget (lx_lineages s))(rootId := None)" by (simp add: evictLineage_lineages jget_jdelete)
  have idx: "jget (lx_sessionIndex s) sid = Some r \<longleftrightarrow> (\<exists>l. jget (lx_lineages s) r = Some l \<and> jhas (ln_records l) sid)" for sid r
    using assms(2) unfolding mem_ok_def index_ok_def by blast
  have "(if jhas (ln_records l) sid then None else jget (lx_sessionIndex s) sid) = Some r \<longleftrightarrow>
      (\<exists>k. r \<noteq> rootId \<and> jget (lx_lineages s) r = Some k \<and> jhas (ln_records k) sid)" for sid r
    using idx [of sid r] idx [of sid rootId] assms(3) by (cases "jhas (ln_records l) sid") auto
  then have "index_ok (lx_lineages ?e) (lx_sessionIndex ?e)"
    unfolding index_ok_def lins index by simp
  moreover have "tombs_match (lx_disk ?e) (lx_tombstones ?e)"
    using disk(3) assms(2) by (auto simp: mem_ok_def tombs_match_def jget_jset)
  moreover have "rel_option lineage_match (jget (sd_lineages (lx_disk ?e)) r) (jget (lx_lineages ?e) r)" for r
    using assms(2) unfolding disk(2) lins mem_ok_def by (simp add: jget_jdelete)
  moreover have "jmap_ok (lx_lineages ?e)" using assms(2) by (simp add: evictLineage_lineages mem_ok_def)
  ultimately show ?thesis using disk(1) by (simp add: mem_ok_def)
qed

text \<open>The whole invariant, and the loops of retention.\<close>

definition store_ok :: "string set \<Rightarrow> SessionLineageStore \<Rightarrow> bool" where
  "store_ok X s \<longleftrightarrow> good_trail X s \<and> mem_ok s"

lemma store_ok_evict:
  assumes "store_ok X s" "entry \<in> set (lx_lineages s)"
  shows "store_ok X (evictLineage env now reason entry s)"
proof (cases entry)
  case (Pair rootId l)
  then have "jget (lx_lineages s) rootId = Some l"
    using assms by (auto simp: store_ok_def mem_ok_def jget_Some_iff)
  then show ?thesis using assms(1) evict_good evict_mem unfolding store_ok_def Pair by blast
qed

lemma store_ok_evict_while: "store_ok X s \<Longrightarrow> store_ok X (snd (evict_while env now excluded reason exceeded s))"
proof (induction env now excluded reason exceeded s rule: evict_while.induct)
  case (1 env now excluded reason exceeded s)
  show ?case
  proof (cases "evictionCandidates env excluded s")
    case (Cons victim rest)
    then have "victim \<in> set (lx_lineages s)" by (metis candidates_in list.set_intros(1))
    with 1 Cons show ?thesis
      by (cases victim; subst evict_while.simps) (auto intro: store_ok_evict)
  qed (use 1 in \<open>subst evict_while.simps, auto\<close>)
qed

lemma store_ok_enforce_age: "store_ok X s \<Longrightarrow> store_ok X (enforce_age env now excluded s)"
proof -
  define old where "old entry \<longleftrightarrow> lineageRecency env (snd entry) > 0 \<and> now - lineageRecency env (snd entry) > rt_maxAgeMs (se_retention env)" for entry :: "string \<times> Lineage"
  have "store_ok X (foldl (\<lambda>s entry. if old entry then evictLineage env now Retention_age entry s else s) s es)"
    if "store_ok X s" "distinct (map fst es)" "set es \<subseteq> set (lx_lineages s)" for es s
    using that
  proof (induction es arbitrary: s)
    case (Cons e es)
    have ok: "store_ok X (if old e then evictLineage env now Retention_age e s else s)"
      using Cons.prems by (auto intro: store_ok_evict)
    have "set es \<subseteq> set (lx_lineages (if old e then evictLineage env now Retention_age e s else s))"
      using Cons.prems by (cases e) (auto simp: evictLineage_lineages set_jdelete image_iff)
    with Cons.IH [OF ok] Cons.prems(2) show ?case by simp
  qed simp
  moreover have "distinct (map fst (evictionCandidates env excluded s))" if "store_ok X s"
  proof -
    have "jmap_ok (lx_lineages s)" using that by (simp add: store_ok_def mem_ok_def)
    then show ?thesis
      unfolding jmap_ok_def evictionCandidates_def distinct_map by (auto intro: inj_on_subset simp: distinct_sort)
  qed
  moreover have "set (evictionCandidates env excluded s) \<subseteq> set (lx_lineages s)" using candidates_in by blast
  ultimately show "store_ok X s \<Longrightarrow> store_ok X (enforce_age env now excluded s)"
    by (simp add: enforce_age_def Let_def old_def)
qed

lemma store_ok_enforceRetention: "store_ok X s \<Longrightarrow> store_ok X (enforceRetention env now excluded s)"
  by (auto simp: enforceRetention_def Let_def case_prod_unfold intro!: store_ok_evict_while store_ok_enforce_age)

lemma store_ok_makeRoom: "store_ok X s \<Longrightarrow> store_ok X (snd (makeRoomForOneMore env now excluded s))"
  by (auto simp: makeRoomForOneMore_def Let_def case_prod_unfold intro!: store_ok_evict_while store_ok_enforceRetention)


section \<open>Writes keep the store in order\<close>

lemma good_writeRecord:
  assumes "good_trail X s" "live (lx_disk s) rootId" "sr_rootSessionId r = rootId" "sr_schemaVersion r \<le> PERSISTED_SCHEMA_VERSION"
    and "replaces (dir_of (lx_disk s) rootId) r \<or> (\<forall>rt dir. placed (lx_disk s) rt dir \<longrightarrow> \<not> jhas (ld_records dir) (sr_id r))"
  shows "good_trail X (writeRecord env rootId l r s)"
proof -
  have good: "good_disk X (lx_disk s)" using assms(1) by (simp add: good_trail_def)
  have "good_trail X (atomicWrite (dir_temp rootId) (Some (sr_schemaVersion r)) (with_dir rootId (put_record r)) s)"
    using good_put_record [OF good assms(2-5)] good_dir_temp [OF good assms(2)] assms(1,4)
    by (intro good_trail_atomic) (auto simp: version_ok_def)
  then show ?thesis by (simp add: writeRecord_def Let_def set_lineage_def)
qed

lemma writeRecord_fields:
  "lx_disk (writeRecord env rootId l r s) = with_dir rootId (put_record r) (lx_disk s)"
  "lx_sessionIndex (writeRecord env rootId l r s) = lx_sessionIndex s"
  "lx_tombstones (writeRecord env rootId l r s) = lx_tombstones s"
  "\<exists>b. lx_lineages (writeRecord env rootId l r s) = jset (lx_lineages s) rootId (l\<lparr>ln_records := jset (ln_records l) (sr_id r) r, ln_bytes := b\<rparr>)"
  by (auto simp: writeRecord_def Let_def set_lineage_def)

lemma with_dir_get: "jget (sd_lineages (with_dir rootId f d)) = (jget (sd_lineages d))(rootId \<mapsto> f (dir_of d rootId))"
  by (simp add: with_dir_def jget_jset)

lemma mem_writeRecord:
  assumes "jmap_ok (lx_lineages s)" "sd_trash (lx_disk s) = []" "tombs_match (lx_disk s) (lx_tombstones s)" "jmap_ok (ln_records l)"
    and others: "\<And>rt. rt \<noteq> rootId \<Longrightarrow> rel_option lineage_match (jget (sd_lineages (lx_disk s)) rt) (jget (lx_lineages s) rt)"
    and recs: "\<And>sid. sid \<noteq> sr_id r \<Longrightarrow> rel_option file_match (jget (ld_records (dir_of (lx_disk s) rootId)) sid) (jget (ln_records l) sid)"
    and idx: "\<And>sid rt. jget (lx_sessionIndex s) sid = Some rt \<longleftrightarrow>
       (if rt = rootId then sid = sr_id r \<or> jhas (ln_records l) sid else \<exists>k. jget (lx_lineages s) rt = Some k \<and> jhas (ln_records k) sid)"
  shows "mem_ok (writeRecord env rootId l r s)"
proof -
  let ?w = "writeRecord env rootId l r s" and ?dir = "put_record r (dir_of (lx_disk s) rootId)"
  obtain b where lins: "lx_lineages ?w = jset (lx_lineages s) rootId (l\<lparr>ln_records := jset (ln_records l) (sr_id r) r, ln_bytes := b\<rparr>)"
    using writeRecord_fields(4) by blast
  have "lineage_match ?dir (l\<lparr>ln_records := jset (ln_records l) (sr_id r) r, ln_bytes := b\<rparr>)"
    using assms(4) recs by (auto simp: lineage_match_def put_record_lookup jget_jset file_match_def)
      (auto simp: put_record_def)
  then have "rel_option lineage_match (jget (sd_lineages (lx_disk ?w)) rt) (jget (lx_lineages ?w) rt)" for rt
    using others by (simp add: writeRecord_fields lins with_dir_get jget_jset)
  moreover have "index_ok (lx_lineages ?w) (lx_sessionIndex ?w)"
    using idx by (auto simp: index_ok_def writeRecord_fields lins jget_jset jhas_def)
  moreover have "jmap_ok (lx_lineages ?w)" "sd_trash (lx_disk ?w) = []" "tombs_match (lx_disk ?w) (lx_tombstones ?w)"
    using assms(1-3) by (auto simp: lins writeRecord_fields tombs_match_def)
  ultimately show ?thesis by (simp add: mem_ok_def)
qed

text \<open>A record written over its former version: by every operation but the creation.\<close>

lemma lineage_recs: "lineage_match dir l \<Longrightarrow> rel_option file_match (jget (ld_records dir) sid) (jget (ln_records l) sid)"
  by (simp add: lineage_match_def)

lemma store_ok_rewrite:
  assumes "store_ok X s" "jget (lx_lineages s) rootId = Some l" "jget (ln_records l) sid = Some r0"
    and "sr_id r = sid" "sr_rootSessionId r = rootId" "sr_schemaVersion r \<le> PERSISTED_SCHEMA_VERSION"
    and "sr_acceptedWork r0 = Pw_accepted \<longrightarrow> sr_acceptedWork r = Pw_accepted" "ln_records l' = ln_records l"
  shows "store_ok X (writeRecord env rootId l' r s)"
proof -
  have good: "good_trail X s" and mem: "mem_ok s" using assms(1) by (auto simp: store_ok_def)
  note lin = mem_lineage [OF mem assms(2)] and rec = mem_record [OF mem good assms(2,3)]
  have "good_trail X (writeRecord env rootId l' r s)"
    using rec assms(4-7) by (intro good_writeRecord [OF good lin(1)]) (auto simp: replaces_def)
  moreover have "mem_ok (writeRecord env rootId l' r s)"
  proof (rule mem_writeRecord)
    show "jget (lx_sessionIndex s) i = Some rt \<longleftrightarrow>
       (if rt = rootId then i = sr_id r \<or> jhas (ln_records l') i else \<exists>k. jget (lx_lineages s) rt = Some k \<and> jhas (ln_records k) i)" for i rt
      using mem assms(2,3,4,8) by (auto simp: mem_ok_def index_ok_def jhas_def)
    show "rel_option file_match (jget (ld_records (dir_of (lx_disk s) rootId)) i) (jget (ln_records l') i)" for i
      using lineage_recs [OF lin(2)] assms(8) by simp
  qed (use mem lin(2) assms(8) in \<open>auto simp: mem_ok_def lineage_match_def\<close>)
  ultimately show ?thesis by (simp add: store_ok_def)
qed

lemma store_ok_appendLine:
  assumes "store_ok X s" "jget (lx_lineages s) rootId = Some l"
    and "jmap_ok (ln_records l')" "\<And>sid. rel_option (\<lambda>r0 r. rec_match r0 r) (jget (ln_records l) sid) (jget (ln_records l') sid)"
  shows "store_ok X (snd (appendLine env rootId l' sid e s))"
proof -
  have good: "good_trail X s" and mem: "mem_ok s" using assms(1) by (auto simp: store_ok_def)
  note lin = mem_lineage [OF mem assms(2)]
  let ?a = "snd (appendLine env rootId l' sid e s)"
  obtain l2 where l2: "lx_lineages ?a = jset (lx_lineages s) rootId l2" "ln_records l2 = ln_records l'"
    by (simp add: appendLine_def Let_def set_lineage_def)
  have disk: "lx_disk ?a = append_line env rootId sid (Good_line e) True (lx_disk s)"
    "lx_sessionIndex ?a = lx_sessionIndex s" "lx_tombstones ?a = lx_tombstones s"
    by (simp_all add: appendLine_def Let_def set_lineage_def)
  have "good_trail X ?a"
    using good_appendDurably [OF good lin(1)] by (simp add: appendLine_def Let_def set_lineage_def)
  moreover have "mem_ok ?a"
  proof -
    have "rel_option file_match (jget (ld_records (dir_of (lx_disk s) rootId)) i) (jget (ln_records l') i)" for i
      using lineage_recs [OF lin(2), of i] assms(4) [of i]
      by (auto simp: rel_option_iff file_match_def split: option.splits intro: rec_match_trans)
    then have "lineage_match (set_log sid lg (dir_of (lx_disk s) rootId)) l2" for lg
      using lin(2) assms(3) l2(2) by (simp add: lineage_match_def set_log_def)
    then have "rel_option lineage_match (jget (sd_lineages (lx_disk ?a)) rt) (jget (lx_lineages ?a) rt)" for rt
      using mem by (simp add: disk l2 append_line_def with_dir_get jget_jset mem_ok_def)
    moreover have "jhas (ln_records l') i \<longleftrightarrow> jhas (ln_records l) i" for i
      using assms(4) [of i] by (auto simp: jhas_def rel_option_iff split: option.splits)
    then have "index_ok (lx_lineages ?a) (lx_sessionIndex ?a)"
      using mem assms(2) by (auto simp: mem_ok_def index_ok_def disk l2 jget_jset)
    ultimately show ?thesis
      using mem by (auto simp: mem_ok_def disk l2 append_line_def tombs_match_def)
  qed
  ultimately show ?thesis by (simp add: store_ok_def)
qed


section \<open>What retention leaves alone\<close>

definition spared :: "string option \<Rightarrow> SessionLineageStore \<Rightarrow> SessionLineageStore \<Rightarrow> bool" where
  "spared excluded s t \<longleftrightarrow>
     (\<forall>rootId. (jget (lx_lineages t) rootId = jget (lx_lineages s) rootId \<or>
                jget (lx_lineages t) rootId = None \<and> Some rootId \<noteq> excluded \<and> (\<forall>l. jget (lx_lineages s) rootId = Some l \<longrightarrow> \<not> isActive l))) \<and>
     (\<forall>rootId. jget (lx_lineages s) rootId = None \<longrightarrow> jget (lx_tombstones t) rootId = jget (lx_tombstones s) rootId) \<and>
     (\<forall>sid. jget (lx_sessionIndex s) sid = None \<longrightarrow> jget (lx_sessionIndex t) sid = None)"

lemma spared_refl [simp]: "spared excluded s s"
  by (simp add: spared_def)

lemma spared_trans: "spared excluded s t \<Longrightarrow> spared excluded t u \<Longrightarrow> spared excluded s u"
  unfolding spared_def by (metis (no_types, lifting))

lemma spared_evict:
  assumes "store_ok X s" "entry \<in> set (evictionCandidates env excluded s)"
  shows "spared excluded s (evictLineage env now reason entry s)"
proof -
  obtain rootId l where e: "entry = (rootId, l)" by (cases entry)
  then have "(rootId, l) \<in> set (lx_lineages s)" "Some rootId \<noteq> excluded" "\<not> isActive l"
    using assms(2) by (auto simp: evictionCandidates_def)
  then show ?thesis
    using assms(1) unfolding e
    by (auto simp: spared_def evictLineage_lineages jget_jdelete store_ok_def mem_ok_def jget_Some_iff [symmetric]
        evictLineage_def Let_def jget_jset jget_deletes)
qed

lemma spared_evict_while: "store_ok X s \<Longrightarrow> spared excluded s (snd (evict_while env now excluded reason exceeded s))"
proof (induction env now excluded reason exceeded s rule: evict_while.induct)
  case (1 env now excluded reason exceeded s)
  show ?case
  proof (cases "exceeded s \<and> evictionCandidates env excluded s \<noteq> []")
    case True
    then obtain victim rest where v: "evictionCandidates env excluded s = victim # rest" by (cases "evictionCandidates env excluded s") auto
    then have "victim \<in> set (lx_lineages s)" by (metis candidates_in list.set_intros(1))
    then have "spared excluded (evictLineage env now reason victim s) (snd (evict_while env now excluded reason exceeded (evictLineage env now reason victim s)))"
      using 1 True v store_ok_evict [of X s victim] by (cases victim) auto
    moreover have "spared excluded s (evictLineage env now reason victim s)"
      using 1(2) v by (intro spared_evict [where X = X and env = env]) auto
    ultimately show ?thesis using True v by (subst evict_while.simps) (auto intro: spared_trans)
  qed (subst evict_while.simps, auto split: list.splits)
qed

lemma spared_enforce_age:
  assumes "store_ok X s"
  shows "spared excluded s (enforce_age env now excluded s)"
proof -
  define old where "old entry \<longleftrightarrow> lineageRecency env (snd entry) > 0 \<and> now - lineageRecency env (snd entry) > rt_maxAgeMs (se_retention env)" for entry :: "string \<times> Lineage"
  have "spared excluded s (foldl (\<lambda>s entry. if old entry then evictLineage env now Retention_age entry s else s) s es)"
    if "store_ok X s" "distinct (map fst es)" "set es \<subseteq> set (evictionCandidates env excluded s)" for es s
    using that
  proof (induction es arbitrary: s)
    case (Cons e es)
    let ?s = "if old e then evictLineage env now Retention_age e s else s"
    have ok: "store_ok X ?s" using Cons.prems candidates_in [of e env excluded s] by (auto intro: store_ok_evict)
    have "set es \<subseteq> set (evictionCandidates env excluded ?s)"
      using Cons.prems by (cases e) (auto simp: evictLineage_lineages set_jdelete image_iff evictionCandidates_def)
    with Cons.IH [OF ok] Cons.prems(2) have "spared excluded ?s (foldl (\<lambda>s entry. if old entry then evictLineage env now Retention_age entry s else s) ?s es)"
      by simp
    moreover have "spared excluded s ?s" using Cons.prems spared_evict by auto
    ultimately show ?case by (auto intro: spared_trans)
  qed simp
  moreover have "distinct (map fst (evictionCandidates env excluded s))"
  proof -
    have "jmap_ok (lx_lineages s)" using assms by (simp add: store_ok_def mem_ok_def)
    then show ?thesis
      unfolding jmap_ok_def evictionCandidates_def distinct_map by (auto intro: inj_on_subset simp: distinct_sort)
  qed
  ultimately show ?thesis using assms by (simp add: enforce_age_def Let_def old_def)
qed

lemma spared_then_evict: "spared excluded s t \<Longrightarrow> store_ok X t \<Longrightarrow> spared excluded s (snd (evict_while env now excluded reason exceeded t))"
  by (rule spared_trans [OF _ spared_evict_while])

lemma spared_enforceRetention: "store_ok X s \<Longrightarrow> spared excluded s (enforceRetention env now excluded s)"
  unfolding enforceRetention_def Let_def case_prod_unfold
  by (auto intro!: spared_then_evict [where X = X] spared_enforce_age [where X = X] store_ok_enforce_age store_ok_evict_while)

lemma spared_makeRoom: "store_ok X s \<Longrightarrow> spared (Some excluded) s (snd (makeRoomForOneMore env now excluded s))"
  unfolding makeRoomForOneMore_def Let_def case_prod_unfold
  by (auto intro!: spared_then_evict [where X = X] spared_enforceRetention [where X = X] store_ok_enforceRetention store_ok_evict_while)


section \<open>The operations keep the store in order\<close>

lemma locate_Some:
  assumes "locate s sid = Some (rootId, l, r)"
  shows "jget (lx_lineages s) rootId = Some l" "jget (ln_records l) sid = Some r"
  using assms by (auto simp: locate_def split: option.splits if_splits)

lemma store_ok_change:
  assumes "store_ok X s"
    and "\<And>r r1. f r = Some r1 \<Longrightarrow> sr_id r1 = sr_id r \<and> sr_rootSessionId r1 = sr_rootSessionId r \<and> sr_schemaVersion r1 = sr_schemaVersion r \<and>
      (sr_acceptedWork r = Pw_accepted \<longrightarrow> sr_acceptedWork r1 = Pw_accepted)"
  shows "store_ok X (change_record env sid f s)"
proof -
  have "store_ok X (writeRecord env rootId l r1 s)" if "locate s sid = Some (rootId, l, r)" "f r = Some r1" for rootId l r r1
  proof -
    have at: "jget (lx_lineages s) rootId = Some l" "jget (ln_records l) sid = Some r" using locate_Some [OF that(1)] .
    with assms(1) have "sr_id r = sid" "sr_rootSessionId r = rootId" "sr_schemaVersion r \<le> PERSISTED_SCHEMA_VERSION"
      using mem_record [of s X rootId l sid r] by (auto simp: store_ok_def)
    then show ?thesis using assms(2) [OF that(2)] by (intro store_ok_rewrite [OF assms(1) at]) auto
  qed
  then show ?thesis using assms(1) by (auto simp: change_record_def split: option.splits)
qed

lemma store_ok_changes:
  assumes "store_ok X s"
  shows "store_ok X (markAcceptedWork env sid s)" "store_ok X (finalize env now sid status reason s)"
    "store_ok X (setProviderSessionId env sid i s)" "store_ok X (setScope env sid scope s)" "store_ok X (setUnknownFrames env sid frames s)"
  unfolding markAcceptedWork_def finalize_def setProviderSessionId_def setScope_def setUnknownFrames_def
  by (rule store_ok_change [OF assms], auto simp: Let_def split: if_splits)+

lemma store_ok_appendEvent:
  assumes "store_ok X s"
  shows "store_ok X (appendEvent env sha sid event s)"
proof (cases "locate s sid")
  case (Some x)
  then obtain rootId l r where loc: "locate s sid = Some (rootId, l, r)" by (cases x) auto
  note at = locate_Some [OF loc]
  have mem: "mem_ok s" and good: "good_trail X s" using assms by (auto simp: store_ok_def)
  note rec = mem_record [OF mem good at]
  let ?r = "r\<lparr>sr_eventCount := sr_eventCount r + 1\<rparr>"
  have "store_ok X (writeRecord env rootId l (?r\<lparr>sr_eventsTruncated := True\<rparr>) s)"
    by (rule store_ok_rewrite [OF assms at]) (use rec in auto)
  moreover have "store_ok X (snd (appendLine env rootId (put_back sid l ?r) sid e s))" for e
  proof (rule store_ok_appendLine [OF assms at(1)])
    show "jmap_ok (ln_records (put_back sid l ?r))"
      using mem_lineage(2) [OF mem at(1)] by (simp add: put_back_def lineage_match_def)
    have "rec_match r ?r" by (simp add: rec_match_def)
    then show "rel_option (\<lambda>r0 r. rec_match r0 r) (jget (ln_records l) i) (jget (ln_records (put_back sid l ?r)) i)" for i
      using at(2) by (auto simp: put_back_def jget_jset intro: option.rel_refl)
  qed
  ultimately show ?thesis by (simp add: appendEvent_def loc Let_def)
qed (use assms in \<open>simp add: appendEvent_def\<close>)

text \<open>A new session: its id has not been used by a record, a lineage or a tombstone.\<close>

definition fresh_id :: "SessionLineageStore \<Rightarrow> string \<Rightarrow> bool" where
  "fresh_id s i \<longleftrightarrow> i \<noteq> [] \<and> jget (lx_sessionIndex s) i = None \<and> jget (lx_lineages s) i = None \<and> jget (lx_tombstones s) i = None"

lemma good_new_dir:
  assumes "good_disk X d" "\<not> live d rootId" "rootId \<noteq> []" "\<not> jhas (sd_tombstones d) rootId" "sd_trash d = []"
  shows "good_disk X (with_dir rootId (\<lambda>dir. dir) d)"
proof -
  let ?d = "with_dir rootId (\<lambda>dir. dir) d"
  have "dir_of d rootId = empty_dir" using assms(2) by (simp add: dir_of_def live_def jhas_def)
  then have get: "jget (sd_lineages ?d) = (jget (sd_lineages d))(rootId \<mapsto> empty_dir)" by (simp add: with_dir_get)
  have places: "placed ?d r dir \<longleftrightarrow> (if r = rootId then dir = empty_dir else placed d r dir)" for r dir
    using assms(5) by (auto simp: placed_def get)
  have "dir_ok rootId empty_dir" by (simp add: dir_ok_def empty_dir_def)
  moreover have "jmap_ok (sd_lineages ?d)" using assms(1) by (simp add: with_dir_def good_disk_def disk_ok_def)
  moreover have ok: "disk_ok d" using assms(1) by (simp add: good_disk_def)
  ultimately have "disk_ok ?d"
    using assms(3-5) disk_okD(5-7) [OF ok] unfolding disk_ok_def places live_with_dir with_dir_fields
    by (auto simp: disk_ok_def)
  moreover have "single_home ?d"
    using assms(1) unfolding good_disk_def single_home_def places by (metis empty_dir_def jhas_def lineage_dir.select_convs(1) map_of.simps(1))
  moreover have "holds_accepted ?d sid" if "holds_accepted d sid" for sid
  proof (cases "entombed d sid")
    case False
    with that obtain r dir where h: "placed d r dir" "\<not> jhas (sd_tombstones d) r" "acc_file dir sid" by (auto simp: holds_accepted_def)
    moreover have "r \<noteq> rootId" using h(1) assms(2,5) by (auto simp: placed_def live_def jhas_def)
    ultimately show ?thesis by (intro holdsI_placed [of _ r dir]) (auto simp: places)
  qed (simp add: holds_accepted_def entombed_def)
  ultimately show ?thesis using assms(1) by (simp add: good_disk_def)
qed


lemma all_records_home:
  assumes "store_ok X s" "r \<in> set (all_records s)"
  obtains l where "jget (lx_lineages s) (sr_rootSessionId r) = Some l" "jget (ln_records l) (sr_id r) = Some r"
proof -
  have mem: "mem_ok s" and good: "good_trail X s" using assms(1) by (auto simp: store_ok_def)
  obtain rootId l sid where "(rootId, l) \<in> set (lx_lineages s)" "(sid, r) \<in> set (ln_records l)"
    using assms(2) by (auto simp: all_records_def)
  moreover from this have at: "jget (lx_lineages s) rootId = Some l" using mem by (simp add: mem_ok_def jget_Some_iff)
  moreover have "jmap_ok (ln_records l)" using mem_lineage(2) [OF mem at] by (simp add: lineage_match_def)
  ultimately have "jget (ln_records l) sid = Some r" by (simp add: jget_Some_iff)
  with at that show thesis using mem_record(1,2) [OF mem good at] by blast
qed

lemma unplaced:
  assumes "mem_ok s" "jget (lx_sessionIndex s) sid = None" "placed (lx_disk s) rootId dir"
  shows "\<not> jhas (ld_records dir) sid"
proof -
  have at: "jget (sd_lineages (lx_disk s)) rootId = Some dir" using assms(1,3) by (simp add: placed_def mem_ok_def)
  moreover have "rel_option lineage_match (jget (sd_lineages (lx_disk s)) rootId) (jget (lx_lineages s) rootId)"
    using assms(1) by (simp add: mem_ok_def)
  ultimately obtain l where "jget (lx_lineages s) rootId = Some l" by (auto simp: option_rel_Some1)
  moreover have "dir_of (lx_disk s) rootId = dir" using at by (simp add: dir_of_def)
  ultimately show ?thesis
    using mem_dom [OF assms(1)] assms(1,2) unfolding mem_ok_def index_ok_def by (metis option.distinct(1))
qed

lemma mem_live: "mem_ok s \<Longrightarrow> live (lx_disk s) rootId \<longleftrightarrow> jhas (lx_lineages s) rootId"
  by (auto simp: mem_ok_def live_def jhas_def) (metis option.rel_distinct not_Some_eq)+

lemma mem_tombs: "mem_ok s \<Longrightarrow> good_trail X s \<Longrightarrow> jhas (sd_tombstones (lx_disk s)) rootId \<longleftrightarrow> jhas (lx_tombstones s) rootId"
  using map_of_SomeD [of "sd_tombstones (lx_disk s)" rootId]
  by (fastforce simp: mem_ok_def tombs_match_def jhas_def good_trail_def good_disk_def disk_ok_def)

lemma store_ok_add:
  assumes "store_ok X s" "jget (lx_sessionIndex s) (sr_id r) = None" "sr_rootSessionId r = rootId" "sr_schemaVersion r \<le> PERSISTED_SCHEMA_VERSION"
    and "jhas (lx_lineages s) rootId \<or> fresh_id s rootId"
    and l: "l = (case jget (lx_lineages s) rootId of Some l \<Rightarrow> l | None \<Rightarrow> \<lparr>ln_records = [], ln_linesOnDisk = [], ln_bytes = 0\<rparr>)"
    and l1: "ln_records l1 = jset (ln_records l) (sr_id r) r"
  shows "store_ok X (writeRecord env rootId l1 r
           ((touch (with_dir rootId (\<lambda>dir. dir)) s)\<lparr>lx_sessionIndex := jset (lx_sessionIndex s) (sr_id r) rootId\<rparr>))"
proof -
  let ?s = "(touch (with_dir rootId (\<lambda>dir. dir)) s)\<lparr>lx_sessionIndex := jset (lx_sessionIndex s) (sr_id r) rootId\<rparr>"
  have mem: "mem_ok s" and good: "good_trail X s" and gd: "good_disk X (lx_disk s)"
    using assms(1) by (auto simp: store_ok_def good_trail_def)
  have "good_disk X (with_dir rootId (\<lambda>dir. dir) (lx_disk s))"
  proof (cases "jhas (lx_lineages s) rootId")
    case True
    then have lv: "live (lx_disk s) rootId" using mem_live [OF mem] by simp
    moreover from lv gd have "dir_ok rootId (dir_of (lx_disk s) rootId)" by (auto simp: good_disk_def dest: live_dir_ok)
    ultimately show ?thesis by (intro good_dir_same_records [OF gd]) auto
  next
    case False
    then have "fresh_id s rootId" using assms(5) by blast
    moreover from this have "\<not> jhas (sd_tombstones (lx_disk s)) rootId"
      unfolding mem_tombs [OF mem good] by (simp add: fresh_id_def jhas_def)
    ultimately show ?thesis
      using False mem by (intro good_new_dir [OF gd]) (auto simp: mem_live fresh_id_def mem_ok_def)
  qed
  then have good': "good_trail X ?s" by (simp add: good_trail_touch [OF good])
  have old: "rel_option file_match (jget (ld_records (dir_of (lx_disk s) rootId)) i) (jget (ln_records l) i)" "jmap_ok (ln_records l)" for i
  proof -
    have "rel_option file_match (jget (ld_records (dir_of (lx_disk s) rootId)) i) (jget (ln_records l) i) \<and> jmap_ok (ln_records l)"
    proof (cases "jget (lx_lineages s) rootId")
      case None
      then have "\<not> live (lx_disk s) rootId" using mem_live [OF mem] by (simp add: jhas_def)
      then show ?thesis by (simp add: l None dir_of_def live_def jhas_def empty_dir_def)
    next
      case (Some k)
      then show ?thesis using mem_lineage(2) [OF mem Some] by (simp add: l lineage_match_def)
    qed
    then show "rel_option file_match (jget (ld_records (dir_of (lx_disk s) rootId)) i) (jget (ln_records l) i)" "jmap_ok (ln_records l)" by auto
  qed
  have free: "\<not> jhas (ld_records dir) (sr_id r)" if "placed (lx_disk ?s) rt dir" for rt dir
  proof (cases "placed (lx_disk s) rt dir")
    case True
    then show ?thesis using unplaced [OF mem assms(2)] by blast
  next
    case False
    then have "rt = rootId \<and> dir = dir_of (lx_disk s) rootId \<and> \<not> live (lx_disk s) rootId"
      using that dir_of_live [of "lx_disk s" rootId] by (auto simp: placed_def with_dir_get split: if_splits)
    then show ?thesis by (simp add: dir_of_def live_def jhas_def empty_dir_def)
  qed
  have "good_trail X (writeRecord env rootId l1 r ?s)"
    using free by (intro good_writeRecord [OF good']) (use assms(3,4) in auto)
  moreover have "mem_ok (writeRecord env rootId l1 r ?s)"
  proof (rule mem_writeRecord)
    show "rel_option lineage_match (jget (sd_lineages (lx_disk ?s)) rt) (jget (lx_lineages ?s) rt)" if "rt \<noteq> rootId" for rt
      using that mem by (simp add: with_dir_get mem_ok_def)
    show "rel_option file_match (jget (ld_records (dir_of (lx_disk ?s) rootId)) sid) (jget (ln_records l1) sid)" if "sid \<noteq> sr_id r" for sid
      using that old(1) by (simp add: l1 jget_jset)
    have idx: "jget (lx_sessionIndex s) sid = Some rt \<longleftrightarrow> (\<exists>k. jget (lx_lineages s) rt = Some k \<and> jhas (ln_records k) sid)" for sid rt
      using mem by (simp add: mem_ok_def index_ok_def)
    show "jget (lx_sessionIndex ?s) sid = Some rt \<longleftrightarrow>
       (if rt = rootId then sid = sr_id r \<or> jhas (ln_records l1) sid else \<exists>k. jget (lx_lineages ?s) rt = Some k \<and> jhas (ln_records k) sid)" for sid rt
      using idx [of sid rt] idx [of "sr_id r" rt] assms(2)
      by (cases "sid = sr_id r") (auto simp: l1 l jget_jset jhas_def split: option.splits)
  qed (use mem old(2) in \<open>auto simp: mem_ok_def l1 tombs_match_def\<close>)
  ultimately show ?thesis by (simp add: store_ok_def)
qed


lemma spared_excluded: "spared (Some rootId) s t \<Longrightarrow> jget (lx_lineages t) rootId = jget (lx_lineages s) rootId"
  by (auto simp: spared_def)

lemma new_record_fields:
  "sr_id (new_record s session options) = as_id session" "sr_rootSessionId (new_record s session options) = create_rootId s session options"
  "sr_schemaVersion (new_record s session options) = PERSISTED_SCHEMA_VERSION" "sr_acceptedWork (new_record s session options) = Pw_unknown"
  by (simp_all add: new_record_def redactSessionForPersistence_def)

lemma create_root_known:
  assumes "store_ok X s" "fresh_id s (as_id session)"
  shows "jhas (lx_lineages s) (create_rootId s session options) \<or> create_rootId s session options = as_id session"
proof (cases "create_parent s options")
  case (Some parent)
  then have "parent \<in> set (all_records s)"
    by (auto simp: create_parent_def findByProviderSessionId_def find_Some_iff split: option.splits if_splits)
  then show ?thesis
    using all_records_home [OF assms(1)] Some by (metis create_rootId_def jhas_def option.distinct(1) option.simps(5))
qed (simp add: create_rootId_def)

lemma store_ok_create:
  assumes "store_ok X s" "fresh_id s (as_id session)"
  shows "store_ok X (snd (create env now session options s))"
proof -
  let ?root = "create_rootId s session options" and ?r = "new_record s session options"
  obtain room s1 where room: "makeRoomForOneMore env now ?root s = (room, s1)" by (cases "makeRoomForOneMore env now ?root s")
  have ok: "store_ok X s1" and sp: "spared (Some ?root) s s1"
    using store_ok_makeRoom [OF assms(1), of env now ?root] spared_makeRoom [OF assms(1), of ?root env now] room by auto
  have free: "jget (lx_sessionIndex s1) (as_id session) = None" using assms(2) sp by (simp add: fresh_id_def spared_def)
  have root: "jhas (lx_lineages s1) ?root \<or> fresh_id s1 ?root"
  proof (cases "jhas (lx_lineages s) ?root")
    case True
    then show ?thesis using spared_excluded [OF sp] by (simp add: jhas_def)
  next
    case False
    then have "?root = as_id session" using create_root_known [OF assms] by blast
    then show ?thesis using assms(2) sp free spared_excluded [OF sp] by (auto simp: spared_def fresh_id_def)
  qed
  show ?thesis
    using ok store_ok_add [OF ok, of ?r ?root _ _ env] free root
    by (cases room) (auto simp: create_def Let_def room new_record_fields)
qed

end
