(* ===== verification/Lineage_Recovery.thy ===== *)
theory Lineage_Recovery
  imports Lineage_Invariant
begin

text \<open>
  The session store across restarts. A restart happens on any disk the current operation went through (a
  completed operation is durable). The invariant is kept by every operation and every restart, no restart is
  refused, and a session whose work was accepted stays recorded as accepted, or in the tombstone of its
  lineage, for ever.
\<close>

section \<open>Startup\<close>

lemma preflight_passes:
  assumes "disk_ok d"
  shows "preflightSchemaVersions env d = None"
proof -
  have objects: "version_ok v" if "placed d rootId dir" "v \<in> set (dir_objects dir)" for rootId dir v
    using disk_okD(7) [OF assms that(1)] that(2) by (fastforce simp: dir_objects_def dir_ok_def file_ok_def version_ok_def)
  have within_sub: "set (lines_within env b ls) \<subseteq> set ls" for b ls
    by (induction env b ls rule: lines_within.induct) auto
  have lines: "version_ok v" if "placed d rootId dir" "v \<in> set (dir_lines env dir)" for rootId dir v
    using disk_okD(7) [OF assms that(1)] that(2) within_sub
    by (fastforce simp: dir_lines_def dir_ok_def tryReadLeadingLines_def dest: in_set_takeD split: if_splits)
  have live: "placed d rootId dir" if "(rootId, dir) \<in> set (sd_lineages d)" for rootId dir
    using that disk_okD(1) [OF assms] by (simp add: placed_def jget_Some_iff)
  have trash: "\<exists>rootId. placed d rootId dir" if "(n, dir) \<in> set (sd_trash d)" for n dir
    using that disk_okD(8) [OF assms] by (cases n) (auto simp: placed_def)
  have "\<forall>v\<in>set (case sd_manifest d of None \<Rightarrow> [] | Some m \<Rightarrow> [manifest_version m]). version_ok v"
    using assms by (auto simp: disk_ok_def version_ok_def READABLE_SCHEMA_VERSIONS_def PERSISTED_SCHEMA_VERSION_def split: option.splits)
  moreover have "\<forall>v\<in>set (sd_temps d). version_ok v" using assms by (simp add: disk_ok_def)
  moreover have "version_ok (tombstone_version f)" if "(n, f) \<in> set (sd_tombstones d)" for n f
    using assms that by (fastforce simp: disk_ok_def version_ok_def PERSISTED_SCHEMA_VERSION_def)
  moreover have "\<forall>v\<in>set (concat (map (\<lambda>(n, dir). dir_objects dir) (sd_lineages d))). version_ok v"
    "\<forall>v\<in>set (concat (map (\<lambda>(n, dir). dir_lines env dir) (sd_lineages d))). version_ok v"
    by (auto dest: objects [OF live] lines [OF live])
  moreover have "\<forall>v\<in>set (concat (map (\<lambda>(n, dir). dir_objects dir) (sd_trash d))). version_ok v"
    "\<forall>v\<in>set (concat (map (\<lambda>(n, dir). dir_lines env dir) (sd_trash d))). version_ok v"
    by (auto dest!: trash dest: objects lines)
  ultimately have "\<forall>v\<in>set (disk_versions env d). version_ok v"
    unfolding disk_versions_def set_append ball_Un by auto
  then show ?thesis
    unfolding preflightSchemaVersions_def find_None_iff by (auto simp: set_map_filter version_ok_def)
qed

lemma loadTombstones_ok:
  assumes "good_trail X s" "lx_tombstones s = []"
  shows "lx_disk (loadTombstones s) = lx_disk s \<and> lx_trail (loadTombstones s) = lx_trail s \<and> lx_lineages (loadTombstones s) = lx_lineages s \<and>
         lx_sessionIndex (loadTombstones s) = lx_sessionIndex s \<and> tombs_match (lx_disk s) (lx_tombstones (loadTombstones s))"
proof -
  let ?f = "foldl loadTombstone"
  have fold: "lx_disk (?f s ts) = lx_disk s \<and> lx_trail (?f s ts) = lx_trail s \<and> lx_lineages (?f s ts) = lx_lineages s \<and>
      lx_sessionIndex (?f s ts) = lx_sessionIndex s \<and>
      (\<forall>r t. jget (lx_tombstones (?f s ts)) r = Some t \<longleftrightarrow>
         (r, Tomb_ok t) \<in> set ts \<or> r \<notin> fst ` set ts \<and> jget (lx_tombstones s) r = Some t)"
    if "distinct (map fst ts)" "\<forall>n f. (n, f) \<in> set ts \<longrightarrow> (\<exists>t. f = Tomb_ok t \<and> tb_rootSessionId t = n)" for ts s
    using that
  proof (induction ts arbitrary: s)
    case (Cons e ts)
    obtain n t where e: "e = (n, Tomb_ok t)" "tb_rootSessionId t = n" using Cons.prems(2) by (cases e) auto
    from Cons.IH [of "loadTombstone s e"] Cons.prems show ?case
      by (auto simp: e loadTombstone_def jget_jset image_iff)
  qed simp
  have "disk_ok (lx_disk s)" using assms(1) by (simp add: good_trail_def good_disk_def)
  then have "distinct (map fst (sd_tombstones (lx_disk s)))" "jmap_ok (sd_tombstones (lx_disk s))"
    "\<forall>n f. (n, f) \<in> set (sd_tombstones (lx_disk s)) \<longrightarrow> (\<exists>t. f = Tomb_ok t \<and> tb_rootSessionId t = n)"
    by (auto simp: disk_ok_def jmap_ok_def)
  with fold [of "sd_tombstones (lx_disk s)" s] assms(2) show ?thesis
    by (auto simp: loadTombstones_def tombs_match_def jget_Some_iff)
qed

text \<open>Repairing the logs of a lineage changes nothing but logs, and the quarantine.\<close>

definition logs_only :: "string \<Rightarrow> store_disk \<Rightarrow> store_disk \<Rightarrow> bool" where
  "logs_only rootId d d' \<longleftrightarrow>
     (\<forall>rt. rt \<noteq> rootId \<longrightarrow> jget (sd_lineages d') rt = jget (sd_lineages d) rt) \<and> live d' rootId \<and>
     ld_records (dir_of d' rootId) = ld_records (dir_of d rootId) \<and> sd_trash d' = sd_trash d \<and> sd_tombstones d' = sd_tombstones d"

definition same_memory :: "SessionLineageStore \<Rightarrow> SessionLineageStore \<Rightarrow> bool" where
  "same_memory s t \<longleftrightarrow> lx_lineages t = lx_lineages s \<and> lx_sessionIndex t = lx_sessionIndex s \<and> lx_tombstones t = lx_tombstones s"

lemma repairEventLog_ok:
  assumes "good_trail X s" "live (lx_disk s) rootId"
  shows "good_trail X (snd (repairEventLog rootId sid s)) \<and> logs_only rootId (lx_disk s) (lx_disk (snd (repairEventLog rootId sid s))) \<and>
         same_memory s (snd (repairEventLog rootId sid s))"
proof -
  let ?q = "\<lambda>x d. d\<lparr>sd_quarantine := sd_quarantine d @ [x]\<rparr>" and ?lg = "\<lambda>good. \<lparr>lg_lines = map Good_line good, lg_newline = True\<rparr>"
  have good: "good_disk X (lx_disk s)" using assms(1) by (simp add: good_trail_def)
  have q: "good_disk X (?q x (lx_disk s))" "live (?q x (lx_disk s)) rootId" "dir_of (?q x (lx_disk s)) = dir_of (lx_disk s)" for x
    using good_quarantine [OF good] assms(2) by (simp_all add: live_def dir_of_def fun_eq_iff)
  have "good_trail X (atomicWrite (dir_temp rootId) (Some 1) (with_dir rootId (set_log sid (?lg good))) (touch (?q x) s))" for good x
    using good_set_log [OF q(1,2), of "\<lambda>_. ?lg good"] good_dir_temp [OF q(1,2)]
    by (intro good_trail_atomic good_trail_touch [of X s "?q x"] assms(1)) (auto simp: version_ok_def PERSISTED_SCHEMA_VERSION_def intro: q(1))
  moreover have "logs_only rootId (lx_disk s) (with_dir rootId (set_log sid lg) (?q x (lx_disk s)))" for lg x
    using q(3) by (simp add: logs_only_def with_dir_get set_log_def)
  moreover have "logs_only rootId (lx_disk s) (lx_disk s)" using assms(2) by (simp add: logs_only_def)
  ultimately show ?thesis
    using assms(1) by (auto simp: repairEventLog_def Let_def same_memory_def split: option.split)
qed


lemma load_records_ok:
  assumes "\<forall>n f. (n, f) \<in> set fs \<longrightarrow> file_ok rootId n f" "distinct (map fst fs)" "fst ` set fs \<inter> fst ` set acc = {}"
  shows "\<exists>rs. load_records fs acc = Some (acc @ rs) \<and> map fst rs = map fst fs \<and> map (Record_ok \<circ> snd) rs = map snd fs"
  using assms
proof (induction fs arbitrary: acc)
  case (Cons e fs)
  have "file_ok rootId (fst e) (snd e)" using Cons.prems(1) by simp
  then obtain r where e: "e = (sr_id r, Record_ok r)" by (cases e) (auto simp: file_ok_def)
  have "jset acc (sr_id r) r = acc @ [(sr_id r, r)]" using Cons.prems(3) by (intro jset_new) (auto simp: e jhas_iff_keys)
  moreover obtain rs where "load_records fs (acc @ [(sr_id r, r)]) = Some ((acc @ [(sr_id r, r)]) @ rs)" "map fst rs = map fst fs"
      "map (Record_ok \<circ> snd) rs = map snd fs"
    using Cons.prems Cons.IH [of "acc @ [(sr_id r, r)]"] by (auto simp: e comp_def)
  ultimately show ?case by (intro exI [of _ "(sr_id r, r) # rs"]) (simp add: e comp_def)
qed simp

lemma keyed_files:
  assumes "map fst rs = map fst fs" "map (Record_ok \<circ> snd) rs = map snd fs"
  shows "jget fs sid = map_option Record_ok (jget rs sid)"
proof -
  have "fs = map (\<lambda>(n, r). (n, Record_ok r)) rs"
    using assms by (intro nth_equalityI) (auto simp: list_eq_iff_nth_eq prod_eq_iff case_prod_unfold)
  then show ?thesis by (simp add: map_of_map)
qed

text \<open>One lineage while its sessions are loaded: some of them are done.\<close>

definition loading :: "string set \<Rightarrow> string \<Rightarrow> (string, PersistedSessionRecord) jmap \<Rightarrow> SessionLineageStore \<Rightarrow> string set \<Rightarrow> SessionLineageStore \<times> Lineage \<times> log_terminals \<Rightarrow> bool" where
  "loading X rootId records s0 done acc \<longleftrightarrow>
     (let (s, l, terminals) = acc
      in good_trail X s \<and> logs_only rootId (lx_disk s0) (lx_disk s) \<and> lx_lineages s = lx_lineages s0 \<and> lx_tombstones s = lx_tombstones s0 \<and>
         (\<forall>sid. jget (lx_sessionIndex s) sid = (if sid \<in> done then Some rootId else jget (lx_sessionIndex s0) sid)) \<and>
         jmap_ok (ln_records l) \<and> (\<forall>sid. rel_option rec_match (jget records sid) (jget (ln_records l) sid)))"

lemma logs_only_trans: "logs_only r d d1 \<Longrightarrow> logs_only r d1 d2 \<Longrightarrow> logs_only r d d2"
  by (simp add: logs_only_def)

lemma loading_step:
  assumes "loading X rootId records s0 done acc" "jget records sid = Some r"
  shows "loading X rootId records s0 (insert sid done) (load_session rootId acc (sid, r))"
proof -
  obtain s l terminals where acc: "acc = (s, l, terminals)" by (cases acc) auto
  have good: "good_trail X s" and lv: "live (lx_disk s) rootId" and logs: "logs_only rootId (lx_disk s0) (lx_disk s)"
    using assms(1) by (auto simp: loading_def acc logs_only_def)
  obtain st s1 where rep: "repairEventLog rootId sid s = (st, s1)" by (cases "repairEventLog rootId sid s")
  have "good_trail X s1" "logs_only rootId (lx_disk s) (lx_disk s1)" "same_memory s s1"
    using repairEventLog_ok [OF good lv, of sid] by (simp_all add: rep)
  moreover have "logs_only rootId (lx_disk s0) (lx_disk s1)" using logs calculation(2) by (rule logs_only_trans)
  moreover have "rec_match r (r\<lparr>sr_eventCount := n\<rparr>)" "rec_match r (r\<lparr>sr_eventCount := n, sr_earliestSequence := m\<rparr>)" for n m
    by (simp_all add: rec_match_def)
  ultimately show ?thesis
    using assms by (auto simp: loading_def acc load_session_def rep Let_def same_memory_def jget_jset split: option.split)
qed

lemma loading_all:
  assumes "loading X rootId records s0 done acc" "set rs \<subseteq> set records" "jmap_ok records"
  shows "loading X rootId records s0 (done \<union> fst ` set rs) (foldl (load_session rootId) acc rs)"
  using assms
proof (induction rs arbitrary: acc "done")
  case (Cons e rs)
  obtain sid r where e: "e = (sid, r)" by (cases e)
  then have "jget records sid = Some r" using Cons.prems by (simp add: jget_Some_iff)
  from Cons.IH [OF loading_step [OF Cons.prems(1) this]] Cons.prems(2,3) show ?case by (simp add: e)
qed simp

text \<open>The store while its lineages are loaded; those still to come are untouched.\<close>

definition partly_loaded :: "string set \<Rightarrow> (string \<times> lineage_dir) list \<Rightarrow> SessionLineageStore \<Rightarrow> bool" where
  "partly_loaded X todo s \<longleftrightarrow> good_trail X s \<and> sd_trash (lx_disk s) = [] \<and> tombs_match (lx_disk s) (lx_tombstones s) \<and> jmap_ok (lx_lineages s) \<and>
     index_ok (lx_lineages s) (lx_sessionIndex s) \<and> distinct (map fst todo) \<and>
     (\<forall>rootId dir. (rootId, dir) \<in> set todo \<longrightarrow> jget (lx_lineages s) rootId = None \<and> jget (sd_lineages (lx_disk s)) rootId = Some dir) \<and>
     (\<forall>rootId. rootId \<notin> fst ` set todo \<longrightarrow>
        rel_option lineage_match (jget (sd_lineages (lx_disk s)) rootId) (jget (lx_lineages s) rootId))"

lemma partly_loaded_rest:
  "partly_loaded X todo s \<Longrightarrow> rt \<notin> fst ` set todo \<Longrightarrow>
   rel_option lineage_match (jget (sd_lineages (lx_disk s)) rt) (jget (lx_lineages s) rt)"
  by (simp add: partly_loaded_def)

lemma partly_loaded_empty:
  assumes "partly_loaded X ((rootId, dir) # todo) s" "ld_records dir = []"
  shows "partly_loaded X todo (quarantine_lineage rootId s)"
proof -
  let ?d = "lx_disk s" and ?q = "\<lambda>d. d\<lparr>sd_lineages := jdelete (sd_lineages d) rootId, sd_quarantine := sd_quarantine d @ [Q_lineage (dir_of d rootId)]\<rparr>"
  have at: "jget (sd_lineages ?d) rootId = Some dir" and none: "jget (lx_lineages s) rootId = None" and good: "good_disk X ?d"
    and trash: "sd_trash ?d = []"
    using assms(1) by (auto simp: partly_loaded_def good_trail_def)
  have ok: "disk_ok ?d" using good by (simp add: good_disk_def)
  have get: "jget (sd_lineages (?q ?d)) = (jget (sd_lineages ?d))(rootId := None)" by (simp add: jget_jdelete)
  have places: "placed (?q ?d) r e \<longleftrightarrow> r \<noteq> rootId \<and> placed ?d r e" for r e
    using get by (auto simp: placed_def trash fun_eq_iff split: if_splits)
  have live: "live (?q ?d) r \<longleftrightarrow> r \<noteq> rootId \<and> live ?d r" for r
    using get by (auto simp: live_def jhas_def fun_eq_iff split: if_splits)
  have "disk_ok (?q ?d)"
    using ok unfolding disk_ok_def places live by (simp, blast)
  then have "good_disk X (?q ?d)"
  proof (rule good_moved [OF good])
    show "placed (?q ?d) r e \<or> jhas (sd_tombstones ?d) r \<or> ld_records e = []" if "placed ?d r e" for r e
      using that assms(2) at unfolding places by (auto simp: placed_def trash)
  qed (simp_all add: places)
  then have "good_trail X (quarantine_lineage rootId s)"
    using assms(1) unfolding quarantine_lineage_def by (intro good_trail_touch) (auto simp: partly_loaded_def)
  then show ?thesis
    using assms(1) none unfolding partly_loaded_def quarantine_lineage_def touch_fields get by (auto simp: tombs_match_def image_iff)
qed


lemma partly_loaded_step:
  assumes "partly_loaded X ((rootId, dir) # todo) s"
  shows "partly_loaded X todo (fst (load_lineage env (s, terminals) (rootId, dir)))"
proof (cases "ld_records dir = []")
  case True
  then show ?thesis using partly_loaded_empty [OF assms] by (simp add: load_lineage_def)
next
  case False
  let ?d = "lx_disk s"
  have at: "jget (sd_lineages ?d) rootId = Some dir" and none: "jget (lx_lineages s) rootId = None" and good: "good_trail X s"
    using assms by (auto simp: partly_loaded_def)
  have lv: "live ?d rootId" and dir: "dir_of ?d rootId = dir" using at by (auto simp: live_def jhas_def dir_of_def)
  have ok: "dir_ok rootId dir" using live_dir_ok [of ?d rootId] lv dir good by (simp add: good_trail_def good_disk_def)
  then obtain rs where rs: "load_records (ld_records dir) [] = Some rs" "map fst rs = map fst (ld_records dir)"
      "map (Record_ok \<circ> snd) rs = map snd (ld_records dir)"
    using load_records_ok [of "ld_records dir" rootId "[]"] by (auto simp: dir_ok_def jmap_ok_def)
  have ne: "rs \<noteq> []" using rs(2) False by auto
  have jm: "jmap_ok rs" using ok rs(2) by (simp add: dir_ok_def jmap_ok_def)
  let ?l0 = "\<lparr>ln_records = rs, ln_linesOnDisk = [], ln_bytes = 0\<rparr>"
  obtain s1 l t1 where fold: "foldl (load_session rootId) (s, ?l0, terminals) rs = (s1, l, t1)" by (metis prod_cases3)
  have "rel_option rec_match (jget rs sid) (jget rs sid)" for sid by (simp add: option.rel_refl)
  then have "loading X rootId rs s {} (s, ?l0, terminals)"
    using good lv jm by (simp add: loading_def logs_only_def)
  from loading_all [OF this subset_refl jm] have fin: "good_trail X s1" "logs_only rootId ?d (lx_disk s1)"
      "lx_lineages s1 = lx_lineages s" "lx_tombstones s1 = lx_tombstones s"
      "\<And>sid. jget (lx_sessionIndex s1) sid = (if sid \<in> fst ` set rs then Some rootId else jget (lx_sessionIndex s) sid)"
      "jmap_ok (ln_records l)" "\<And>sid. rel_option rec_match (jget rs sid) (jget (ln_records l) sid)"
    by (simp_all add: fold loading_def)
  let ?l1 = "l\<lparr>ln_bytes := measureLineage env (dir_of (lx_disk s1) rootId)\<rparr>"
  let ?s2 = "s1\<lparr>lx_lineages := jset (lx_lineages s1) rootId ?l1\<rparr>"
  have res: "fst (load_lineage env (s, terminals) (rootId, dir)) = ?s2"
    using ne by (simp add: load_lineage_def rs(1) fold Let_def)
  have "rel_option file_match (jget (ld_records dir) sid) (jget (ln_records l) sid)" for sid
    using fin(7) [of sid] unfolding keyed_files [OF rs(2,3)] by (auto simp: rel_option_iff file_match_def split: option.splits)
  then have match: "lineage_match (dir_of (lx_disk s1) rootId) ?l1"
    using False fin(2,6) dir by (simp add: lineage_match_def logs_only_def)
  have at1: "jget (sd_lineages (lx_disk s1)) rootId = Some (dir_of (lx_disk s1) rootId)"
    using fin(2) dir_of_live by (auto simp: logs_only_def)
  have others: "jget (sd_lineages (lx_disk s1)) rt = jget (sd_lineages ?d) rt" if "rt \<noteq> rootId" for rt
    using that fin(2) by (simp add: logs_only_def)
  have keys: "sid \<in> fst ` set rs \<longleftrightarrow> jhas (ln_records l) sid" for sid
    using fin(7) [of sid] jhas_iff_keys [of rs sid] by (auto simp: jhas_def rel_option_iff split: option.splits)
  have idx: "jget (lx_sessionIndex s) sid = Some rt \<longleftrightarrow> (\<exists>k. jget (lx_lineages s) rt = Some k \<and> jhas (ln_records k) sid)" for sid rt
    using assms by (simp add: partly_loaded_def index_ok_def)
  have new: "jget (lx_sessionIndex s) sid = None" if "sid \<in> fst ` set rs" for sid
  proof (rule ccontr)
    assume "jget (lx_sessionIndex s) sid \<noteq> None"
    then obtain rt k where k: "jget (lx_lineages s) rt = Some k" "jhas (ln_records k) sid" using idx by auto
    then have rt: "rt \<noteq> rootId" "rt \<notin> fst ` set todo" using none assms by (auto simp: partly_loaded_def)
    then have "rel_option lineage_match (jget (sd_lineages ?d) rt) (Some k)"
      using partly_loaded_rest [OF assms, of rt] rt k(1) by simp
    then obtain e where e: "jget (sd_lineages ?d) rt = Some e" "lineage_match e k" by (auto simp: option_rel_Some2)
    have "jhas (ld_records e) sid" using lineage_match_dom [OF e(2)] k(2) by simp
    moreover have "jhas (ld_records dir) sid" using that rs(2) by (metis jhas_iff_keys list.set_map)
    ultimately show False
      using good single_homeD [of ?d rt e rootId dir sid] e(1) at rt(1) by (simp add: good_trail_def good_disk_def placed_def)
  qed
  have "jget (lx_sessionIndex s1) sid = Some rt \<longleftrightarrow>
      (if rt = rootId then jhas (ln_records l) sid else \<exists>k. jget (lx_lineages s) rt = Some k \<and> jhas (ln_records k) sid)" for sid rt
    using idx [of sid rt] new [of sid] none unfolding fin(5) keys by (cases "jhas (ln_records l) sid") auto
  then have "index_ok (lx_lineages ?s2) (lx_sessionIndex ?s2)"
    using fin(3) by (auto simp: index_ok_def jget_jset)
  moreover have "rel_option lineage_match (jget (sd_lineages (lx_disk ?s2)) rt) (jget (lx_lineages ?s2) rt)" if "rt \<notin> fst ` set todo" for rt
    using that match at1 others fin(3) assms by (cases "rt = rootId") (auto simp: jget_jset partly_loaded_def)
  moreover have "jget (lx_lineages ?s2) rt = None \<and> jget (sd_lineages (lx_disk ?s2)) rt = Some e" if "(rt, e) \<in> set todo" for rt e
    using that others fin(3) assms by (auto simp: jget_jset partly_loaded_def image_iff)
  ultimately show ?thesis
    unfolding res using fin assms by (auto simp: partly_loaded_def logs_only_def tombs_match_def)
qed

lemma loadLineages_ok:
  assumes "partly_loaded X (sd_lineages (lx_disk s)) s"
  shows "store_ok X (fst (loadLineages env s))"
proof -
  have "partly_loaded X [] (fst (foldl (load_lineage env) acc todo))" if "partly_loaded X todo (fst acc)" for acc todo
    using that
  proof (induction todo arbitrary: acc)
    case (Cons e todo)
    from partly_loaded_step [of X "fst e" "snd e" todo "fst acc" env "snd acc"] Cons show ?case by simp
  qed simp
  from this [of "sd_lineages (lx_disk s)" "(s, [])"] assms show ?thesis
    by (simp add: loadLineages_def store_ok_def mem_ok_def partly_loaded_def)
qed

lemma recover_session_ok:
  assumes "store_ok X s"
  shows "store_ok X (recover_session env now terminals s entry)"
proof -
  obtain rootId sid where entry: "entry = (rootId, sid)" by (cases entry)
  have mem: "mem_ok s" and good: "good_trail X s" using assms by (auto simp: store_ok_def)
  have rewrite: "store_ok X (writeRecord env rootId l' r' t)"
    if "store_ok X t" "jget (lx_lineages t) rootId = Some l'" "jget (ln_records l') sid = Some r" "sr_id r' = sr_id r"
       "sr_rootSessionId r' = sr_rootSessionId r" "sr_schemaVersion r' = sr_schemaVersion r" "sr_acceptedWork r' = sr_acceptedWork r" for t l' r r'
    using mem_record [of t X rootId l' sid r] that by (intro store_ok_rewrite [OF that(1-3)]) (auto simp: store_ok_def)
  have append: "store_ok X (snd (appendLine env rootId l sid e s))"
      "jget (lx_lineages (snd (appendLine env rootId l sid e s))) rootId = Some (fst (appendLine env rootId l sid e s))"
      "ln_records (fst (appendLine env rootId l sid e s)) = ln_records l"
    if "jget (lx_lineages s) rootId = Some l" for l e
  proof -
    show "store_ok X (snd (appendLine env rootId l sid e s))"
      using mem_lineage(2) [OF mem that] by (intro store_ok_appendLine [OF assms that]) (auto simp: lineage_match_def intro: option.rel_refl)
    show "jget (lx_lineages (snd (appendLine env rootId l sid e s))) rootId = Some (fst (appendLine env rootId l sid e s))"
      "ln_records (fst (appendLine env rootId l sid e s)) = ln_records l"
      by (simp_all add: appendLine_def Let_def set_lineage_def jget_jset)
  qed
  show ?thesis
    unfolding recover_session_def entry Let_def case_prod_unfold fst_conv snd_conv
    using assms by (auto split: option.split intro!: rewrite append simp: append)
qed


lemma recoverNonTerminal_ok: "store_ok X s \<Longrightarrow> store_ok X (recoverNonTerminalSessions env now terminals s)"
proof -
  have "store_ok X s \<Longrightarrow> store_ok X (foldl (recover_session env now terminals) s es)" for es
    by (induction es arbitrary: s) (auto intro: recover_session_ok)
  then show "store_ok X s \<Longrightarrow> store_ok X (recoverNonTerminalSessions env now terminals s)"
    by (simp add: recoverNonTerminalSessions_def)
qed

lemma new_store_ok:
  assumes "good_disk X d"
  shows "\<exists>s. new_lineage_store env rnow now d = Inr s \<and> store_ok X s"
proof -
  let ?s0 = "\<lparr>lx_disk = d, lx_trail = [d], lx_lineages = [], lx_sessionIndex = [], lx_tombstones = []\<rparr>"
  let ?s1 = "touch loadManifest (touch quarantineStrayTemps ?s0)"
  let ?s2 = "recoverInterruptedEvictions ?s1"
  let ?s3 = "loadTombstones ?s2"
  have g1: "good_trail X ?s1"
    using assms by (intro good_trail_touch) (auto simp: good_trail_def intro: good_loadManifest good_quarantineStrayTemps)
  from good_recoverInterruptedEvictions [OF g1] have g2: "good_trail X ?s2" "sd_trash (lx_disk ?s2) = []" by auto
  have t: "lx_disk ?s3 = lx_disk ?s2" "lx_trail ?s3 = lx_trail ?s2" "lx_lineages ?s3 = []" "lx_sessionIndex ?s3 = []"
      "tombs_match (lx_disk ?s2) (lx_tombstones ?s3)"
    using loadTombstones_ok [OF g2(1)] by auto
  have ok: "disk_ok (lx_disk ?s2)" using g2(1) by (simp add: good_trail_def good_disk_def)
  have "partly_loaded X (sd_lineages (lx_disk ?s3)) ?s3"
    unfolding partly_loaded_def
  proof (intro conjI allI impI)
    show "good_trail X ?s3" using g2(1) t(1,2) by (simp add: good_trail_def)
    show "index_ok (lx_lineages ?s3) (lx_sessionIndex ?s3)" using t by (simp add: index_ok_def)
    show "rel_option lineage_match (jget (sd_lineages (lx_disk ?s3)) r) (jget (lx_lineages ?s3) r)" if "r \<notin> fst ` set (sd_lineages (lx_disk ?s3))" for r
      using that t(3) by (metis map_of_eq_None_iff option.rel_intros(1) map_of.simps(1))
    show "jget (sd_lineages (lx_disk ?s3)) r = Some e" if "(r, e) \<in> set (sd_lineages (lx_disk ?s3))" for r e
      using that disk_okD(1) [OF ok] t(1) by (simp add: jget_Some_iff)
    show "distinct (map fst (sd_lineages (lx_disk ?s3)))" using disk_okD(1) [OF ok] t(1) by (simp add: jmap_ok_def)
  qed (use g2 t in auto)
  then have s4: "store_ok X (fst (loadLineages env ?s3))" by (rule loadLineages_ok)
  let ?s5 = "enforceRetention env now None (recoverNonTerminalSessions env rnow (snd (loadLineages env ?s3)) (fst (loadLineages env ?s3)))"
  have s5: "store_ok X ?s5" by (intro store_ok_enforceRetention recoverNonTerminal_ok s4)
  let ?t = "atomicWrite root_temp (Some PERSISTED_SCHEMA_VERSION) write_manifest ?s5"
  have "good_trail X ?t"
    using s5 by (intro good_trail_atomic) (auto simp: store_ok_def good_trail_def version_ok_def intro: good_root_temp good_write_manifest)
  moreover have "mem_ok ?t" using s5 by (simp add: store_ok_def mem_ok_def write_manifest_def tombs_match_def)
  moreover have "preflightSchemaVersions env d = None" using assms by (intro preflight_passes) (simp add: good_disk_def)
  ultimately show ?thesis by (simp add: new_lineage_store_def Let_def case_prod_unfold store_ok_def)
qed


section \<open>Lives of the store\<close>

definition empty_disk :: store_disk where
  "empty_disk = \<lparr>sd_manifest = None, sd_temps = [], sd_lineages = [], sd_tombstones = [], sd_trash = [], sd_quarantine = []\<rparr>"

datatype store_op =
    Op_create int AgentSession CreateSessionRecordOptions
  | Op_append string "units envelope"
  | Op_accept string
  | Op_finalize int string SessionStatusV2 TerminalReasonV2
  | Op_provider string units
  | Op_scope string PersistedLaunchScope
  | Op_frames string "NormalizedUnknownFrame list"

fun store_apply :: "store_env \<Rightarrow> (units \<Rightarrow> string) \<Rightarrow> store_op \<Rightarrow> SessionLineageStore \<Rightarrow> SessionLineageStore" where
  "store_apply env sha (Op_create now session options) s = snd (create env now session options s)"
| "store_apply env sha (Op_append sid event) s = appendEvent env sha sid event s"
| "store_apply env sha (Op_accept sid) s = markAcceptedWork env sid s"
| "store_apply env sha (Op_finalize now sid status reason) s = finalize env now sid status reason s"
| "store_apply env sha (Op_provider sid i) s = setProviderSessionId env sid i s"
| "store_apply env sha (Op_scope sid scope) s = setScope env sid scope s"
| "store_apply env sha (Op_frames sid frames) s = setUnknownFrames env sid frames s"

fun op_fresh :: "store_op \<Rightarrow> SessionLineageStore \<Rightarrow> bool" where
  "op_fresh (Op_create now session options) s = fresh_id s (as_id session)"
| "op_fresh _ s = True"

text \<open>When an operation has returned, what it wrote is durable: a crash can no longer bring back an older disk.\<close>

definition returned :: "SessionLineageStore \<Rightarrow> SessionLineageStore" where
  "returned s = s\<lparr>lx_trail := [lx_disk s]\<rparr>"

inductive lives :: "store_env \<Rightarrow> (units \<Rightarrow> string) \<Rightarrow> SessionLineageStore \<Rightarrow> SessionLineageStore \<Rightarrow> bool" for env sha where
  Lives_op: "op_fresh op s \<Longrightarrow> lives env sha s (store_apply env sha op (returned s))"
| Lives_restart: "d \<in> set (lx_trail s) \<Longrightarrow> new_lineage_store env rnow now d = Inr t \<Longrightarrow> lives env sha s t"

lemma store_ok_returned: "store_ok X s \<Longrightarrow> store_ok X (returned s)"
  by (simp add: store_ok_def good_trail_def mem_ok_def returned_def)

lemma store_ok_apply: "store_ok X s \<Longrightarrow> op_fresh op s \<Longrightarrow> store_ok X (store_apply env sha op s)"
  by (cases op) (auto intro: store_ok_create store_ok_appendEvent store_ok_changes)

interpretation lineage_store: transition_system "store_ok X" "lives env sha" "store_ok X" for X env sha
proof
  fix s t assume ok: "store_ok X s" and "lives env sha s t"
  from this(2) show "store_ok X t"
  proof cases
    case (Lives_op op)
    have "op_fresh op (returned s)" using Lives_op(2) by (cases op) (auto simp: fresh_id_def returned_def)
    then show ?thesis unfolding Lives_op(1) by (rule store_ok_apply [OF store_ok_returned [OF ok]])
  next
    case (Lives_restart d rnow now)
    then have "good_disk X d" using ok by (simp add: store_ok_def good_trail_def)
    then show ?thesis using new_store_ok [of X d env rnow now] Lives_restart(2) by auto
  qed
qed

lemma empty_disk_good: "good_disk {} empty_disk"
  by (simp add: good_disk_def disk_ok_def empty_disk_def single_home_def placed_def live_def jhas_def)


lemma reachable_ok: "new_lineage_store env rnow now empty_disk = Inr s0 \<Longrightarrow> (lives env sha)\<^sup>*\<^sup>* s0 s \<Longrightarrow> store_ok {} s"
  using new_store_ok [OF empty_disk_good, of env rnow now] lineage_store.invar_rtranclp [of env sha s0 s "{}"] by auto

lemma get_record_home:
  assumes "store_ok X s" "get_record s sid = Some r"
  obtains rootId l where "jget (lx_lineages s) rootId = Some l" "jget (ln_records l) sid = Some r"
proof -
  obtain rootId l where "locate s sid = Some (rootId, l, r)" using assms(2) by (auto simp: get_record_def)
  then show thesis using that locate_Some by blast
qed

lemma home_get_record:
  assumes "store_ok X s" "jget (lx_lineages s) rootId = Some l" "jget (ln_records l) sid = Some r"
  shows "get_record s sid = Some r"
proof -
  have mem: "mem_ok s" and ok: "disk_ok (lx_disk s)" using assms(1) by (auto simp: store_ok_def good_trail_def good_disk_def)
  have "live (lx_disk s) rootId" by (rule mem_lineage(1) [OF mem assms(2)])
  then have "rootId \<noteq> []" using disk_okD(6) [OF ok] by (metis dir_of_live placed_def)
  moreover have "jget (lx_sessionIndex s) sid = Some rootId"
    using mem assms(2,3) unfolding mem_ok_def index_ok_def by (metis jhas_def option.distinct(1))
  ultimately show ?thesis using assms(2,3) by (simp add: get_record_def locate_def)
qed

lemma accepted_on_disk:
  assumes "store_ok X s" "get_record s sid = Some r" "sr_acceptedWork r = Pw_accepted"
  shows "store_ok {sid} (returned s)"
proof -
  have good: "good_trail X s" and mem: "mem_ok s" using assms(1) by (auto simp: store_ok_def)
  obtain rootId l where at: "jget (lx_lineages s) rootId = Some l" "jget (ln_records l) sid = Some r"
    using get_record_home [OF assms(1,2)] .
  note lv = mem_lineage(1) [OF mem at(1)]
  have disk: "good_disk X (lx_disk s)" using good by (simp add: good_trail_def)
  have "acc_file (dir_of (lx_disk s) rootId) sid" using mem_record(5) [OF mem good at] assms(3) by simp
  moreover have "placed (lx_disk s) rootId (dir_of (lx_disk s) rootId)" using dir_of_live [OF lv] by (simp add: placed_def)
  moreover have "\<not> jhas (sd_tombstones (lx_disk s)) rootId" using disk disk_okD(5) [OF _ lv] by (simp add: good_disk_def)
  ultimately have "holds_accepted (lx_disk s) sid" by (intro holdsI_placed)
  with disk have "good_disk {sid} (lx_disk s)" by (simp add: good_disk_def)
  then show ?thesis using mem by (simp add: store_ok_def returned_def good_trail_def mem_ok_def)
qed

lemma accepted_in_memory:
  assumes "store_ok {sid} s"
  shows "(\<exists>r. get_record s sid = Some r \<and> sr_acceptedWork r = Pw_accepted) \<or>
         (\<exists>rootId t. jget (lx_tombstones s) rootId = Some t \<and> sid \<in> set (tb_sessionIds t))"
proof -
  have good: "good_trail {sid} s" and mem: "mem_ok s" using assms by (auto simp: store_ok_def)
  have "holds_accepted (lx_disk s) sid" using good by (simp add: good_trail_def good_disk_def)
  then show ?thesis
  proof (cases "entombed (lx_disk s) sid")
    case True
    then show ?thesis using mem by (auto simp: entombed_def mem_ok_def tombs_match_def)
  next
    case False
    with \<open>holds_accepted (lx_disk s) sid\<close> obtain rootId dir where h: "placed (lx_disk s) rootId dir" "acc_file dir sid"
      unfolding holds_accepted_def by blast
    then have at: "jget (sd_lineages (lx_disk s)) rootId = Some dir" using mem by (simp add: placed_def mem_ok_def)
    moreover have "rel_option lineage_match (jget (sd_lineages (lx_disk s)) rootId) (jget (lx_lineages s) rootId)"
      using mem by (simp add: mem_ok_def)
    ultimately obtain l where l: "jget (lx_lineages s) rootId = Some l" "lineage_match dir l" by (auto simp: option_rel_Some1)
    have dir: "dir_of (lx_disk s) rootId = dir" using at by (simp add: dir_of_def)
    have "jhas (ln_records l) sid" using lineage_match_dom [OF l(2), of sid] h(2) by (auto simp: acc_file_def jhas_def)
    then obtain r where r: "jget (ln_records l) sid = Some r" by (auto simp: jhas_def)
    then have "sr_acceptedWork r = Pw_accepted" using mem_record(5) [OF mem good l(1) r] h(2) dir by simp
    then show ?thesis using home_get_record [OF assms l(1) r] by blast
  qed
qed


section \<open>What the store guarantees\<close>

text \<open>
  C4. Accepted work is never forgotten. Take any state the store can be in, and a session that is then recorded
  as accepted. After any further operations and any number of crashes and restarts, the session is still
  recorded as accepted, or its lineage was evicted and the tombstone names it. And whatever disk a crash
  leaves, the next daemon can open it.
\<close>

theorem accepted_work_survives:
  assumes "new_lineage_store env rnow now empty_disk = Inr s0" "(lives env sha)\<^sup>*\<^sup>* s0 s"
    and "get_record s sid = Some r" "sr_acceptedWork r = Pw_accepted"
    and "(lives env sha)\<^sup>*\<^sup>* (returned s) t"
  shows "((\<exists>r'. get_record t sid = Some r' \<and> sr_acceptedWork r' = Pw_accepted) \<or>
          (\<exists>rootId e. jget (lx_tombstones t) rootId = Some e \<and> sid \<in> set (tb_sessionIds e))) \<and>
         (\<forall>d\<in>set (lx_trail t). \<exists>u. new_lineage_store env rnow' now' d = Inr u)"
proof -
  have "store_ok {sid} (returned s)" using accepted_on_disk [OF reachable_ok [OF assms(1,2)] assms(3,4)] .
  then have ok: "store_ok {sid} t" using lineage_store.invar_rtranclp [OF assms(5)] by blast
  moreover have "\<exists>u. new_lineage_store env rnow' now' d = Inr u" if "d \<in> set (lx_trail t)" for d
    using ok that new_store_ok [of "{sid}" d env rnow' now'] by (auto simp: store_ok_def good_trail_def)
  ultimately show ?thesis using accepted_in_memory by blast
qed


definition ex_store_env :: store_env where
  "ex_store_env = \<lparr>se_parse = (\<lambda>_. None), se_iso = (\<lambda>_. ''now''), se_recordBytes = (\<lambda>_. 1), se_lineBytes = (\<lambda>_. 2),
     se_retention = \<lparr>rt_maxAgeMs = 10, rt_maxRecords = 2, rt_maxBytes = 100\<rparr>\<rparr>"

definition ex_agent_session :: AgentSession where
  "ex_agent_session = \<lparr>as_id = ''a'', as_provider = Claude, as_cwd = [], as_prompt = [104], as_model = None, as_status = V1_starting,
     as_providerSessionId = None, as_error = None, as_startedAt = ''t'', as_completedAt = None\<rparr>"

definition ex_options :: CreateSessionRecordOptions where
  "ex_options = \<lparr>co_protocolVersion = 2, co_scope = \<lparr>pl_executablePath = None, pl_providerVersion = None, pl_authenticated = ''unknown'', pl_platform = ''linux''\<rparr>,
     co_resumeProviderSessionId = None, co_selection = None\<rparr>"

definition ex_opened :: SessionLineageStore where
  "ex_opened = projr (new_lineage_store ex_store_env (\<lambda>_. 0) 0 empty_disk)"

definition ex_accepted :: SessionLineageStore where
  "ex_accepted = store_apply ex_store_env (\<lambda>_. []) (Op_accept ''a'')
     (returned (store_apply ex_store_env (\<lambda>_. []) (Op_create 0 ex_agent_session ex_options) (returned ex_opened)))"

definition ex_restarted :: SessionLineageStore where
  "ex_restarted = projr (new_lineage_store ex_store_env (\<lambda>_. 0) 0 (lx_disk ex_accepted))"

lemma ex_opened_new: "new_lineage_store ex_store_env (\<lambda>_. 0) 0 empty_disk = Inr ex_opened"
  using new_store_ok [OF empty_disk_good, of ex_store_env "\<lambda>_. 0" 0] by (auto simp: ex_opened_def)

lemma ex_accepted_reached: "(lives ex_store_env (\<lambda>_. []))\<^sup>*\<^sup>* ex_opened ex_accepted"
proof -
  have "op_fresh (Op_create 0 ex_agent_session ex_options) ex_opened" by code_simp
  from Lives_op [OF this] have "lives ex_store_env (\<lambda>_. []) ex_opened (store_apply ex_store_env (\<lambda>_. []) (Op_create 0 ex_agent_session ex_options) (returned ex_opened))" .
  moreover have "lives ex_store_env (\<lambda>_. []) (store_apply ex_store_env (\<lambda>_. []) (Op_create 0 ex_agent_session ex_options) (returned ex_opened)) ex_accepted"
    unfolding ex_accepted_def by (rule Lives_op) simp
  ultimately show ?thesis by (meson rtranclp.simps)
qed

lemma ex_accepted_record: "map_option sr_acceptedWork (get_record ex_accepted ''a'') = Some Pw_accepted"
  by code_simp

lemma ex_restarted_new: "new_lineage_store ex_store_env (\<lambda>_. 0) 0 (lx_disk ex_accepted) = Inr ex_restarted"
proof -
  have "store_ok {} ex_accepted" by (rule reachable_ok [OF ex_opened_new ex_accepted_reached])
  then have "good_disk {} (lx_disk ex_accepted)" by (simp add: store_ok_def good_trail_def)
  then show ?thesis
    using new_store_ok [of "{}" "lx_disk ex_accepted" ex_store_env "\<lambda>_. 0" 0] by (auto simp: ex_restarted_def)
qed

theorem accepted_work_survives_witness:
  "(\<exists>r. get_record ex_restarted ''a'' = Some r \<and> sr_acceptedWork r = Pw_accepted) \<or>
   (\<exists>rootId e. jget (lx_tombstones ex_restarted) rootId = Some e \<and> ''a'' \<in> set (tb_sessionIds e))"
proof -
  obtain r where r: "get_record ex_accepted ''a'' = Some r" "sr_acceptedWork r = Pw_accepted" using ex_accepted_record by auto
  have "lives ex_store_env (\<lambda>_. []) (returned ex_accepted) ex_restarted"
    by (rule Lives_restart [OF _ ex_restarted_new]) (simp add: returned_def)
  from accepted_work_survives [OF ex_opened_new ex_accepted_reached r r_into_rtranclp [of "lives ex_store_env (\<lambda>_. [])", OF this]]
  show ?thesis by blast
qed

end
