(* ===== verification/Lineage_Startup.thy ===== *)
theory Lineage_Startup
  imports Lineage_Recovery
begin

text \<open>
  What the constructor of the session store does with whatever disk it finds, also a damaged one: the event
  logs it repairs and the sessions it closes.
\<close>

section \<open>Torn event logs\<close>

fun increasing_from :: "int \<Rightarrow> PersistedEventRecord list \<Rightarrow> bool" where
  "increasing_from n [] = True"
| "increasing_from n (e # es) \<longleftrightarrow> int (pe_sequence e) > n \<and> increasing_from (int (pe_sequence e)) es"

definition last_sequence :: "int \<Rightarrow> PersistedEventRecord list \<Rightarrow> int" where
  "last_sequence n es = (if es = [] then n else int (pe_sequence (last es)))"

definition bad_start :: "int \<Rightarrow> event_line list \<Rightarrow> bool" where
  "bad_start n tail \<longleftrightarrow> (case tail of [] \<Rightarrow> True | Bad_line v m # _ \<Rightarrow> True | Good_line e # _ \<Rightarrow> int (pe_sequence e) \<le> n)"

lemma good_prefix_spec:
  "\<exists>tail. ls = map Good_line (good_prefix n ls) @ tail \<and> increasing_from n (good_prefix n ls) \<and> bad_start (last_sequence n (good_prefix n ls)) tail"
proof (induction n ls rule: good_prefix.induct)
  case (3 n e ls)
  show ?case
  proof (cases "int (pe_sequence e) \<le> n")
    case False
    with 3 obtain tail where "ls = map Good_line (good_prefix (int (pe_sequence e)) ls) @ tail"
      "increasing_from (int (pe_sequence e)) (good_prefix (int (pe_sequence e)) ls)"
      "bad_start (last_sequence (int (pe_sequence e)) (good_prefix (int (pe_sequence e)) ls)) tail" by auto
    with False show ?thesis by (intro exI [of _ tail]) (auto simp: last_sequence_def)
  qed (auto simp: bad_start_def last_sequence_def)
qed (auto simp: bad_start_def last_sequence_def)

lemma good_prefix_all: "increasing_from n es \<Longrightarrow> good_prefix n (map Good_line es) = es"
  by (induction es arbitrary: n) auto

text \<open>
  C39. The repair of an event log. What is kept is the longest run of lines that parse and whose numbers go up,
  every other byte of the log goes to the quarantine, and the repaired log is one that a further repair, on
  the same lineage, leaves alone with the same result.
\<close>

theorem torn_log_repaired:
  assumes "jget (sd_lineages (lx_disk s)) rootId = Some dir" "jget (ld_events dir) sid = Some lg" "lg_lines lg \<noteq> []"
    and "repairEventLog rootId sid s = (st, t)"
  shows "\<exists>good tail. lg_lines lg = map Good_line good @ tail \<and> increasing_from (-1) good \<and> bad_start (last_sequence (-1) good) tail \<and>
           es_count st = length good \<and>
           log_of (dir_of (lx_disk t) rootId) sid = \<lparr>lg_lines = map Good_line good, lg_newline = True\<rparr> \<and>
           sd_quarantine (lx_disk t) = sd_quarantine (lx_disk s) @ (if tail = [] \<and> lg_newline lg then [] else [Q_tail tail]) \<and>
           repairEventLog rootId sid t = (st, t)"
proof -
  let ?good = "good_prefix (-1) (lg_lines lg)"
  obtain tail where tail: "lg_lines lg = map Good_line ?good @ tail" "increasing_from (-1) ?good" "bad_start (last_sequence (-1) ?good) tail"
    using good_prefix_spec [of "lg_lines lg" "-1"] by blast
  have all: "length ?good = length (lg_lines lg) \<longleftrightarrow> tail = []" and rest: "drop (length ?good) (lg_lines lg) = tail"
    by (subst (2) tail(1), simp, subst (2) tail(1), simp)
  have again: "good_prefix (-1) (map Good_line ?good) = ?good" by (rule good_prefix_all [OF tail(2)])
  have dir: "dir_of (lx_disk s) rootId = dir" using assms(1) by (simp add: dir_of_def)
  show ?thesis
  proof (cases "tail = [] \<and> lg_newline lg")
    case True
    then have "lg_lines lg = map Good_line ?good" using tail(1) by simp
    moreover have "st = log_state ?good" "t = s"
      using assms True all by (auto simp: repairEventLog_def dir Let_def)
    ultimately show ?thesis
      using tail assms(2,3,4) True by (intro exI [of _ ?good] exI [of _ tail]) (auto simp: log_state_def log_of_def dir)
  next
    case False
    then have res: "st = log_state ?good" "lx_disk t = with_dir rootId (set_log sid \<lparr>lg_lines = map Good_line ?good, lg_newline = True\<rparr>)
        ((lx_disk s)\<lparr>sd_quarantine := sd_quarantine (lx_disk s) @ [Q_tail tail]\<rparr>)"
      using assms all rest by (auto simp: repairEventLog_def dir Let_def)
    have log: "log_of (dir_of (lx_disk t) rootId) sid = \<lparr>lg_lines = map Good_line ?good, lg_newline = True\<rparr>"
      "jget (ld_events (dir_of (lx_disk t) rootId)) sid = Some \<lparr>lg_lines = map Good_line ?good, lg_newline = True\<rparr>"
      by (simp_all add: res(2) log_of_def set_log_def jget_jset)
    moreover have "repairEventLog rootId sid t = (st, t)"
      using again by (auto simp: repairEventLog_def log(2) Let_def res(1))
    moreover have "sd_quarantine (lx_disk t) = sd_quarantine (lx_disk s) @ [Q_tail tail]" by (simp add: res(2) with_dir_def)
    ultimately show ?thesis
      using tail False by (intro exI [of _ ?good] exI [of _ tail]) (auto simp: res(1) log_state_def)
  qed
qed


definition ex_line :: "nat \<Rightarrow> event_line" where
  "ex_line n = Good_line \<lparr>pe_sequence = n, pe_timestamp = ''t'', pe_event = P_session_cancelled\<rparr>"

definition ex_torn :: SessionLineageStore where
  "ex_torn = \<lparr>lx_disk = \<lparr>sd_manifest = None, sd_temps = [], sd_lineages = [(''a'', \<lparr>ld_records = [],
        ld_events = [(''a'', \<lparr>lg_lines = [ex_line 0, ex_line 1, ex_line 1, Bad_line None 5], lg_newline = False\<rparr>)], ld_temps = []\<rparr>)],
      sd_tombstones = [], sd_trash = [], sd_quarantine = []\<rparr>, lx_trail = [], lx_lineages = [], lx_sessionIndex = [], lx_tombstones = []\<rparr>"

theorem torn_log_repaired_witness:
  "es_count (fst (repairEventLog ''a'' ''a'' ex_torn)) = 2 \<and>
   repairEventLog ''a'' ''a'' (snd (repairEventLog ''a'' ''a'' ex_torn)) = repairEventLog ''a'' ''a'' ex_torn"
proof -
  obtain st t where r: "repairEventLog ''a'' ''a'' ex_torn = (st, t)" by (cases "repairEventLog ''a'' ''a'' ex_torn")
  have "es_count (fst (repairEventLog ''a'' ''a'' ex_torn)) = 2" by code_simp
  moreover have "repairEventLog ''a'' ''a'' t = (st, t)"
    using torn_log_repaired [OF _ _ _ r, of "snd (hd (sd_lineages (lx_disk ex_torn)))" "snd (hd (ld_events (snd (hd (sd_lineages (lx_disk ex_torn))))))"]
    by (auto simp: ex_torn_def)
  ultimately show ?thesis using r by simp
qed


section \<open>Sessions left open\<close>

definition disk_dirs :: "store_disk \<Rightarrow> lineage_dir set" where
  "disk_dirs d = snd ` set (sd_lineages d) \<union> snd ` set (sd_trash d)"

definition dir_files :: "lineage_dir \<Rightarrow> PersistedSessionRecord set" where
  "dir_files dir = {r. Record_ok r \<in> snd ` set (ld_records dir)}"

definition record_files :: "store_disk \<Rightarrow> PersistedSessionRecord set" where
  "record_files d = (\<Union>dir\<in>disk_dirs d. dir_files dir)"

text \<open>What loading, and what closing, may do to a record.\<close>

definition loaded_as :: "PersistedSessionRecord \<Rightarrow> PersistedSessionRecord \<Rightarrow> bool" where
  "loaded_as r0 r \<longleftrightarrow> rec_match r0 r \<and> sr_eventCount r0 \<le> sr_eventCount r"

definition closed_as :: "PersistedSessionRecord \<Rightarrow> PersistedSessionRecord \<Rightarrow> bool" where
  "closed_as r0 r \<longleftrightarrow> \<not> in_flight r \<and>
     (if in_flight r0
      then loaded_as (r0\<lparr>sr_status := sr_status r, sr_terminalReason := sr_terminalReason r, sr_completedAt := sr_completedAt r\<rparr>) r \<and>
           (\<exists>t. sr_status r = fst (TERMINAL_LOG_OUTCOME t) \<and> sr_terminalReason r = Some (snd (TERMINAL_LOG_OUTCOME t))) \<and> sr_completedAt r \<noteq> None
      else loaded_as r0 r)"

definition keyed_recs :: "(PersistedSessionRecord \<Rightarrow> bool) \<Rightarrow> (string, PersistedSessionRecord) jmap \<Rightarrow> bool" where
  "keyed_recs P m \<longleftrightarrow> jmap_ok m \<and> (\<forall>p\<in>set m. sr_id (snd p) = fst p \<and> P (snd p))"

definition all_recs :: "(string \<Rightarrow> PersistedSessionRecord \<Rightarrow> bool) \<Rightarrow> SessionLineageStore \<Rightarrow> bool" where
  "all_recs Q s \<longleftrightarrow> jmap_ok (lx_lineages s) \<and> (\<forall>p\<in>set (lx_lineages s). keyed_recs (Q (fst p)) (ln_records (snd p)))"

lemma loaded_as_refl [simp]: "loaded_as r r"
  by (simp add: loaded_as_def)

lemma keyed_recs_set: "keyed_recs P m \<Longrightarrow> P r \<Longrightarrow> sid = sr_id r \<Longrightarrow> keyed_recs P (jset m sid r)"
  by (simp add: keyed_recs_def set_jset)

lemma keyed_recs_mono: "keyed_recs P m \<Longrightarrow> (\<And>r. P r \<Longrightarrow> P' r) \<Longrightarrow> keyed_recs P' m"
  by (simp add: keyed_recs_def)

lemma all_recs_set:
  "all_recs Q s \<Longrightarrow> keyed_recs (Q rootId) (ln_records l) \<Longrightarrow> lx_lineages t = jset (lx_lineages s) rootId l \<Longrightarrow> all_recs Q t"
  by (simp add: all_recs_def set_jset)

lemma all_recs_same: "all_recs Q s \<Longrightarrow> lx_lineages t = lx_lineages s \<Longrightarrow> all_recs Q t"
  by (simp add: all_recs_def)

lemma load_records_sub:
  "load_records fs acc = Some rs \<Longrightarrow> keyed_recs P acc \<Longrightarrow> (\<And>r. Record_ok r \<in> snd ` set fs \<Longrightarrow> P r) \<Longrightarrow> keyed_recs P rs"
proof (induction fs acc rule: load_records.induct)
  case (2 name r fs acc)
  then have "keyed_recs P (jset acc (sr_id r) r)" by (intro keyed_recs_set) auto
  with 2 show ?case by auto
qed auto

definition from_files :: "PersistedSessionRecord set \<Rightarrow> PersistedSessionRecord \<Rightarrow> bool" where
  "from_files F r \<longleftrightarrow> (\<exists>r0\<in>F. loaded_as r0 r)"

lemma load_session_recs:
  assumes "load_session rootId (s, l, ts) (sid, r0) = (s', l', ts')" "keyed_recs (from_files F) (ln_records l)" "sr_id r0 = sid" "r0 \<in> F"
  shows "lx_lineages s' = lx_lineages s \<and> keyed_recs (from_files F) (ln_records l')"
proof -
  obtain st s1 where rep: "repairEventLog rootId sid s = (st, s1)" by (cases "repairEventLog rootId sid s")
  have "lx_lineages s1 = lx_lineages s"
    using rep by (auto simp: repairEventLog_def Let_def split: option.splits if_splits)
  moreover have "from_files F (r0\<lparr>sr_eventCount := max (sr_eventCount r0) n\<rparr>)"
    "from_files F (r0\<lparr>sr_eventCount := max (sr_eventCount r0) n, sr_earliestSequence := m\<rparr>)" for n m
    using assms(4) by (auto simp: from_files_def loaded_as_def rec_match_def intro!: bexI [of _ r0])
  ultimately show ?thesis
    using assms by (auto simp: load_session_def rep Let_def split: option.splits intro!: keyed_recs_set)
qed

lemma load_sessions_recs:
  assumes "foldl (load_session rootId) (s, l, ts) rs = (s', l', ts')" "keyed_recs (from_files F) (ln_records l)" "\<forall>p\<in>set rs. sr_id (snd p) = fst p \<and> snd p \<in> F"
  shows "lx_lineages s' = lx_lineages s \<and> keyed_recs (from_files F) (ln_records l')"
  using assms
proof (induction rs arbitrary: s l ts)
  case (Cons e rs)
  obtain sid r0 where e: "e = (sid, r0)" by (cases e)
  obtain s1 l1 ts1 where one: "load_session rootId (s, l, ts) (sid, r0) = (s1, l1, ts1)" by (metis prod_cases3)
  have "lx_lineages s1 = lx_lineages s \<and> keyed_recs (from_files F) (ln_records l1)"
    by (rule load_session_recs [OF one Cons.prems(2)]) (use Cons.prems(3) e in auto)
  with Cons.IH [of s1 l1 ts1] Cons.prems show ?case by (simp add: e one)
qed simp

lemma load_lineage_recs:
  assumes "all_recs (\<lambda>_. from_files F) u" "\<And>r. Record_ok r \<in> snd ` set (ld_records dir) \<Longrightarrow> r \<in> F"
  shows "all_recs (\<lambda>_. from_files F) (fst (load_lineage env (u, ts) (rootId, dir)))"
proof (cases "load_records (ld_records dir) []")
  case None
  then show ?thesis using assms(1) by (simp add: load_lineage_def quarantine_lineage_def all_recs_def)
next
  case (Some rs)
  have rs: "keyed_recs (\<lambda>r. r \<in> F) rs" using load_records_sub [OF Some, of "\<lambda>r. r \<in> F"] assms(2) by (simp add: keyed_recs_def)
  obtain s1 l t1 where fold: "foldl (load_session rootId) (u, \<lparr>ln_records = rs, ln_linesOnDisk = [], ln_bytes = 0\<rparr>, ts) rs = (s1, l, t1)"
    by (metis prod_cases3)
  have "keyed_recs (from_files F) rs" by (rule keyed_recs_mono [OF rs]) (auto simp: from_files_def intro: loaded_as_refl)
  then have l: "lx_lineages s1 = lx_lineages u" "keyed_recs (from_files F) (ln_records l)"
    using load_sessions_recs [OF fold, of F] rs by (auto simp: keyed_recs_def)
  show ?thesis
  proof (cases "rs = []")
    case True
    then show ?thesis using assms(1) Some by (simp add: load_lineage_def quarantine_lineage_def all_recs_def)
  next
    case False
    let ?l = "l\<lparr>ln_bytes := measureLineage env (dir_of (lx_disk s1) rootId)\<rparr>"
    show ?thesis
      by (rule all_recs_set [OF assms(1), where rootId = rootId and l = ?l]) (use l Some fold False in \<open>auto simp: load_lineage_def Let_def\<close>)
  qed
qed

lemma loadLineages_recs:
  assumes "all_recs (\<lambda>_. from_files F) s" "record_files (lx_disk s) \<subseteq> F"
  shows "all_recs (\<lambda>_. from_files F) (fst (loadLineages env s))"
proof -
  have "all_recs (\<lambda>_. from_files F) (fst (foldl (load_lineage env) acc es))"
    if "all_recs (\<lambda>_. from_files F) (fst acc)" "set es \<subseteq> set (sd_lineages (lx_disk s))" for acc es
    using that
  proof (induction es arbitrary: acc)
    case (Cons e es)
    have sub: "r \<in> F" if "Record_ok r \<in> snd ` set (ld_records (snd e))" for r
    proof -
      have "r \<in> record_files (lx_disk s)" unfolding record_files_def disk_dirs_def dir_files_def using that Cons.prems(2) by (intro UN_I [of "snd e"]) auto
      then show ?thesis using assms(2) by blast
    qed
    from load_lineage_recs [OF Cons.prems(1) sub, where env = env and ts = "snd acc" and rootId = "fst e" and dir = "snd e"] Cons show ?case by simp
  qed simp
  from this [of "(s, [])"] assms(1) show ?thesis by (simp add: loadLineages_def)
qed


text \<open>The pass over the loaded sessions closes one after the other.\<close>

definition being_closed :: "PersistedSessionRecord set \<Rightarrow> (string \<times> string) list \<Rightarrow> string \<Rightarrow> PersistedSessionRecord \<Rightarrow> bool" where
  "being_closed F todo rootId r \<longleftrightarrow> (\<exists>r0\<in>F. if in_flight r then loaded_as r0 r \<and> (rootId, sr_id r) \<in> set todo else closed_as r0 r)"

lemma outcome_not_in_flight: "fst (TERMINAL_LOG_OUTCOME t) \<noteq> S_starting" "fst (TERMINAL_LOG_OUTCOME t) \<noteq> S_running"
  by (cases t; simp)+

lemma loaded_match:
  assumes "loaded_as r0 r"
  shows "in_flight r0 \<longleftrightarrow> in_flight r"
    "loaded_as (r0\<lparr>sr_status := a, sr_terminalReason := b, sr_completedAt := c\<rparr>) (r\<lparr>sr_status := a, sr_terminalReason := b, sr_completedAt := c\<rparr>)"
proof -
  have "r = r0\<lparr>sr_eventCount := sr_eventCount r, sr_earliestSequence := sr_earliestSequence r\<rparr>"
    using assms by (simp add: loaded_as_def rec_match_def)
  then obtain n m where r: "r = r0\<lparr>sr_eventCount := n, sr_earliestSequence := m\<rparr>" by blast
  show "in_flight r0 \<longleftrightarrow> in_flight r" by (simp add: r in_flight_def)
  show "loaded_as (r0\<lparr>sr_status := a, sr_terminalReason := b, sr_completedAt := c\<rparr>) (r\<lparr>sr_status := a, sr_terminalReason := b, sr_completedAt := c\<rparr>)"
    using assms by (simp add: r loaded_as_def rec_match_def)
qed

lemma loaded_more: "loaded_as r0 r \<Longrightarrow> sr_eventCount r \<le> n \<Longrightarrow> loaded_as r0 (r\<lparr>sr_eventCount := n\<rparr>)"
  by (cases r0; cases r) (auto simp: loaded_as_def rec_match_def)

lemma closed_by:
  assumes "loaded_as r0 r" "in_flight r" "sr_eventCount r \<le> n"
  shows "closed_as r0 (r\<lparr>sr_eventCount := n, sr_status := fst (TERMINAL_LOG_OUTCOME t), sr_terminalReason := Some (snd (TERMINAL_LOG_OUTCOME t)), sr_completedAt := Some c\<rparr>)"
proof -
  let ?r = "r\<lparr>sr_status := fst (TERMINAL_LOG_OUTCOME t), sr_terminalReason := Some (snd (TERMINAL_LOG_OUTCOME t)), sr_completedAt := Some c\<rparr>"
  have "in_flight r0" using loaded_match(1) [OF assms(1)] assms(2) by simp
  moreover have "loaded_as (r0\<lparr>sr_status := fst (TERMINAL_LOG_OUTCOME t), sr_terminalReason := Some (snd (TERMINAL_LOG_OUTCOME t)), sr_completedAt := Some c\<rparr>)
      (?r\<lparr>sr_eventCount := n\<rparr>)"
    using assms(3) by (intro loaded_more loaded_match(2) [OF assms(1)]) simp
  moreover have "?r\<lparr>sr_eventCount := n\<rparr> = r\<lparr>sr_eventCount := n, sr_status := fst (TERMINAL_LOG_OUTCOME t), sr_terminalReason := Some (snd (TERMINAL_LOG_OUTCOME t)), sr_completedAt := Some c\<rparr>"
    by (cases r) simp
  ultimately show ?thesis
    using outcome_not_in_flight [of t] by (auto simp: closed_as_def in_flight_def)
qed

lemma update_again: "jset (jset m k v) k w = jset m k w"
  by (induction m) auto

lemma recover_session_recs:
  assumes "all_recs (being_closed F ((rootId, sid) # todo)) s"
  shows "all_recs (being_closed F todo) (recover_session env now terminals s (rootId, sid))"
proof -
  let ?Q = "being_closed F ((rootId, sid) # todo)"
  have keys: "jmap_ok (lx_lineages s)" using assms by (simp add: all_recs_def)
  have drop: "keyed_recs (being_closed F todo rt) m"
    if "keyed_recs (?Q rt) m" "\<And>r. rt = rootId \<Longrightarrow> (sid, r) \<in> set m \<Longrightarrow> \<not> in_flight r" for rt m
    using that by (fastforce simp: keyed_recs_def being_closed_def)
  show ?thesis
  proof (cases "\<exists>l r. jget (lx_lineages s) rootId = Some l \<and> jget (ln_records l) sid = Some r \<and> in_flight r")
    case False
    have "recover_session env now terminals s (rootId, sid) = s"
      using False by (auto simp: recover_session_def split: option.splits)
    moreover have "keyed_recs (being_closed F todo (fst p)) (ln_records (snd p))" if p: "p \<in> set (lx_lineages s)" for p
    proof (rule drop)
      show kr: "keyed_recs (?Q (fst p)) (ln_records (snd p))" using assms p by (simp add: all_recs_def)
      show "\<not> in_flight r" if "fst p = rootId" "(sid, r) \<in> set (ln_records (snd p))" for r
        using that p False keys kr by (auto simp: keyed_recs_def jget_Some_iff prod_eq_iff) (metis jget_Some_iff prod.collapse)
    qed
    ultimately show ?thesis using keys by (simp add: all_recs_def)
  next
    case True
    then obtain l r where at: "jget (lx_lineages s) rootId = Some l" "jget (ln_records l) sid = Some r" "in_flight r" by blast
    have kr: "keyed_recs (?Q rootId) (ln_records l)"
      using assms at(1) keys by (auto simp: all_recs_def jget_Some_iff)
    have "(sid, r) \<in> set (ln_records l)" using at(2) by (rule map_of_SomeD)
    then have r: "sr_id r = sid" "\<exists>r0\<in>F. loaded_as r0 r" using kr at(3) by (fastforce simp: keyed_recs_def being_closed_def)+
    then obtain r0 where r0: "r0 \<in> F" "loaded_as r0 r" by blast
    define r' where "r' n t c = r\<lparr>sr_eventCount := n, sr_status := fst (TERMINAL_LOG_OUTCOME t), sr_terminalReason := Some (snd (TERMINAL_LOG_OUTCOME t)), sr_completedAt := Some c\<rparr>" for n t c
    have written: "\<exists>l'. lx_lineages (writeRecord env rootId k w u) = jset (lx_lineages u) rootId l' \<and> ln_records l' = jset (ln_records k) (sr_id w) w" for w k u
      using writeRecord_fields(4) [of env rootId k w u] by auto
    have "\<exists>n t c l'. sr_eventCount r \<le> n \<and> ln_records l' = jset (ln_records l) sid (r' n t c) \<and>
        lx_lineages (recover_session env now terminals s (rootId, sid)) = jset (lx_lineages s) rootId l'"
    proof (cases "jget terminals sid")
      case (Some t)
      define c where "c = (case sr_completedAt r of None \<Rightarrow> se_iso env (now sid) | Some c \<Rightarrow> c)"
      have "recover_session env now terminals s (rootId, sid) = writeRecord env rootId l (r' (sr_eventCount r) t c) s"
        using Some at by (auto simp: recover_session_def Let_def r'_def c_def split: option.split)
      moreover obtain l' where "lx_lineages (writeRecord env rootId l (r' (sr_eventCount r) t c) s) = jset (lx_lineages s) rootId l'"
          "ln_records l' = jset (ln_records l) sid (r' (sr_eventCount r) t c)"
        using written [of l "r' (sr_eventCount r) t c" s] by (auto simp: r'_def r(1))
      ultimately show ?thesis by (metis order_refl)
    next
      case None
      let ?n = "max (sr_eventCount r) (lines_on_disk l sid)" and ?c = "se_iso env (now sid)"
      obtain l1 s1 where l1: "(if lines_on_disk l sid < MAX_PERSISTED_EVENTS_PER_SESSION
          then appendLine env rootId l sid (interruptedEventRecord ?n ?c) s else (l, s)) = (l1, s1)"
        by (cases "if lines_on_disk l sid < MAX_PERSISTED_EVENTS_PER_SESSION
          then appendLine env rootId l sid (interruptedEventRecord ?n ?c) s else (l, s)")
      have same: "ln_records l1 = ln_records l" "lx_lineages s1 = lx_lineages s \<or> (\<exists>k. lx_lineages s1 = jset (lx_lineages s) rootId k)"
        using l1 by (auto simp: appendLine_def Let_def set_lineage_def split: if_splits)
      have "recover_session env now terminals s (rootId, sid) = writeRecord env rootId l1 (r' (?n + 1) L_interrupted ?c) s1"
        using None at l1 by (simp add: recover_session_def Let_def r'_def)
      moreover obtain l' where "lx_lineages (writeRecord env rootId l1 (r' (?n + 1) L_interrupted ?c) s1) = jset (lx_lineages s1) rootId l'"
          "ln_records l' = jset (ln_records l1) sid (r' (?n + 1) L_interrupted ?c)"
        using written [of l1 "r' (?n + 1) L_interrupted ?c" s1] by (auto simp: r'_def r(1))
      moreover have "jset (lx_lineages s1) rootId l' = jset (lx_lineages s) rootId l'" using same(2) by (auto simp: update_again)
      ultimately show ?thesis
        using same(1) by (intro exI [of _ "?n + 1"] exI [of _ L_interrupted] exI [of _ ?c] exI [of _ l']) simp
    qed
    then obtain n t c l' where new: "sr_eventCount r \<le> n" "ln_records l' = jset (ln_records l) sid (r' n t c)"
      "lx_lineages (recover_session env now terminals s (rootId, sid)) = jset (lx_lineages s) rootId l'" by blast
    have closed: "closed_as r0 (r' n t c)" unfolding r'_def by (rule closed_by [OF r0(2) at(3) new(1)])
    moreover have "\<not> in_flight (r' n t c)" using closed by (simp add: closed_as_def)
    ultimately have "being_closed F todo rootId (r' n t c)" using r0(1) unfolding being_closed_def by auto
    moreover have "p = (sid, r' n t c) \<or> (fst p \<noteq> sid \<and> p \<in> set (ln_records l))" if "p \<in> set (ln_records l')" for p
      using that kr by (auto simp: new(2) set_jset keyed_recs_def)
    ultimately have "keyed_recs (being_closed F todo rootId) (ln_records l')"
      using kr r(1) by (fastforce simp: keyed_recs_def being_closed_def new(2) r'_def)
    moreover have "keyed_recs (being_closed F todo (fst p)) (ln_records (snd p))" if "p \<in> set (lx_lineages s)" "fst p \<noteq> rootId" for p
      using assms that by (intro drop) (auto simp: all_recs_def)
    ultimately show ?thesis using keys by (auto simp: all_recs_def new(3) set_jset)
  qed
qed


lemma recoverNonTerminal_recs:
  assumes "all_recs (\<lambda>_. from_files F) s"
  shows "all_recs (being_closed F []) (recoverNonTerminalSessions env now terminals s)"
proof -
  have "all_recs (being_closed F []) (foldl (recover_session env now terminals) s es)" if "all_recs (being_closed F es) s" for es s
    using that
  proof (induction es arbitrary: s)
    case (Cons e es)
    have "all_recs (being_closed F es) (recover_session env now terminals s (fst e, snd e))"
      using Cons.prems by (intro recover_session_recs) simp
    then show ?case using Cons.IH by simp
  qed simp
  moreover have "all_recs (being_closed F (loaded_sessions s)) s"
    unfolding all_recs_def
  proof (intro conjI ballI)
    show "jmap_ok (lx_lineages s)" using assms by (simp add: all_recs_def)
    fix p assume p: "p \<in> set (lx_lineages s)"
    then have kr: "keyed_recs (from_files F) (ln_records (snd p))" using assms by (simp add: all_recs_def)
    have "being_closed F (loaded_sessions s) (fst p) (snd q)" if q: "q \<in> set (ln_records (snd p))" for q
    proof -
      obtain r0 where r0: "r0 \<in> F" "loaded_as r0 (snd q)" "sr_id (snd q) = fst q" using kr q by (auto simp: keyed_recs_def from_files_def)
      have "(fst p, fst q) \<in> set (loaded_sessions s)" 
        unfolding loaded_sessions_def set_concat set_map using p q
        by (intro UN_I [of "case p of (rootId, lineage) \<Rightarrow> map (\<lambda>(sessionId, r). (rootId, sessionId)) (ln_records lineage)"])
          (auto simp: case_prod_unfold)
      moreover have "closed_as r0 (snd q)" if "\<not> in_flight (snd q)"
        using that r0(2) loaded_match(1) [OF r0(2)] by (simp add: closed_as_def)
      ultimately show ?thesis using r0 unfolding being_closed_def by auto
    qed
    then show "keyed_recs (being_closed F (loaded_sessions s) (fst p)) (ln_records (snd p))" using kr by (simp add: keyed_recs_def)
  qed
  ultimately show ?thesis by (simp add: recoverNonTerminalSessions_def)
qed

lemma all_recs_evict: "all_recs Q s \<Longrightarrow> all_recs Q (evictLineage env now reason entry s)"
  by (cases entry) (auto simp: all_recs_def evictLineage_lineages set_jdelete)

lemma all_recs_evict_while: "all_recs Q s \<Longrightarrow> all_recs Q (snd (evict_while env now excluded reason exceeded s))"
proof (induction env now excluded reason exceeded s rule: evict_while.induct)
  case (1 env now excluded reason exceeded s)
  show ?case
  proof (cases "evictionCandidates env excluded s")
    case (Cons victim rest)
    with 1 all_recs_evict [OF 1(2)] show ?thesis by (cases victim; subst evict_while.simps) auto
  qed (use 1 in \<open>subst evict_while.simps, auto\<close>)
qed

lemma all_recs_enforceRetention: "all_recs Q s \<Longrightarrow> all_recs Q (enforceRetention env now excluded s)"
proof -
  have "all_recs Q s \<Longrightarrow> all_recs Q (foldl (\<lambda>s entry. if b entry then evictLineage env now Retention_age entry s else s) s es)" for b es s
    by (induction es arbitrary: s) (auto intro: all_recs_evict)
  then have "all_recs Q s \<Longrightarrow> all_recs Q (enforce_age env now excluded s)" by (simp add: enforce_age_def Let_def)
  then show "all_recs Q s \<Longrightarrow> all_recs Q (enforceRetention env now excluded s)"
    by (auto simp: enforceRetention_def Let_def case_prod_unfold intro: all_recs_evict_while)
qed

lemma disk_dirs_recover: "disk_dirs (recover_eviction entry d) \<subseteq> insert (snd entry) (disk_dirs d)"
proof -
  have set: "set (jset (sd_lineages d) k (snd entry)) \<subseteq> insert (k, snd entry) (set (sd_lineages d))" for k by (rule set_jset_sub)
  have rem: "set (remove1 entry (sd_trash d)) \<subseteq> set (sd_trash d)" by (rule set_remove1_subset)
  show ?thesis
  proof (cases "fst entry")
    case (Some rootId)
    then show ?thesis
      using image_mono [OF set, of snd rootId] image_mono [OF rem, of snd] by (auto simp: disk_dirs_def recover_eviction_def Let_def)
  qed (auto simp: disk_dirs_def recover_eviction_def Let_def)
qed

lemma record_files_evictions: "record_files (lx_disk (recoverInterruptedEvictions s)) \<subseteq> record_files (lx_disk s)"
proof -
  have "disk_dirs (lx_disk (foldl (\<lambda>s entry. touch (recover_eviction entry) s) s es)) \<subseteq> disk_dirs (lx_disk s) \<union> snd ` set es" for es
  proof (induction es arbitrary: s)
    case (Cons e es)
    from Cons.IH [of "touch (recover_eviction e) s"] disk_dirs_recover [of e "lx_disk s"] show ?case by auto
  qed simp
  from this [of "sd_trash (lx_disk s)"] have "disk_dirs (lx_disk (recoverInterruptedEvictions s)) \<subseteq> disk_dirs (lx_disk s)"
    by (auto simp: recoverInterruptedEvictions_def disk_dirs_def)
  then show ?thesis by (auto simp: record_files_def)
qed

lemma loadTombstones_files: "record_files (lx_disk (loadTombstones s)) = record_files (lx_disk s) \<and> lx_lineages (loadTombstones s) = lx_lineages s"
proof -
  have "record_files (lx_disk (foldl loadTombstone s ts)) = record_files (lx_disk s) \<and> lx_lineages (foldl loadTombstone s ts) = lx_lineages s" for ts
    by (induction ts arbitrary: s) (auto simp: loadTombstone_def record_files_def disk_dirs_def split: option.splits)
  then show ?thesis by (simp add: loadTombstones_def)
qed




end
