(* ===== verification/Lineage_Retention.thy ===== *)
theory Lineage_Retention
  imports Lineage_Recovery
begin

text \<open>
  Retention of the session store: an eviction happens entirely or not at all whatever instant the daemon
  dies at, the quotas hold after every creation, and what is in use is never evicted.
\<close>

section \<open>A crash in the middle of an eviction\<close>

definition after_recovery :: "SessionLineageStore \<Rightarrow> store_disk \<Rightarrow> store_disk" where
  "after_recovery s d = lx_disk (recoverInterruptedEvictions (s\<lparr>lx_disk := d\<rparr>))"

lemma after_recovery_eq:
  "sd_trash d = [] \<Longrightarrow> after_recovery s d = d" "sd_trash d = [entry] \<Longrightarrow> after_recovery s d = recover_eviction entry d"
  by (simp_all add: after_recovery_def recoverInterruptedEvictions_def)

lemma evict_disks:
  assumes "jget (sd_lineages (lx_disk s)) rootId = Some dir" "d \<in> set (lx_trail (evictLineage env now reason (rootId, l) (returned s)))"
  obtains "d = lx_disk s" | "sd_lineages d = jdelete (sd_lineages (lx_disk s)) rootId" "sd_trash d = sd_trash (lx_disk s) @ [(Some rootId, dir)]"
      "sd_tombstones d = sd_tombstones (lx_disk s)"
  | t where "sd_lineages d = jdelete (sd_lineages (lx_disk s)) rootId" "sd_trash d = sd_trash (lx_disk s) @ [(Some rootId, dir)]"
      "sd_tombstones d = jset (sd_tombstones (lx_disk s)) rootId (Tomb_ok t)" "tb_sessionIds t = map fst (ln_records l)"
  | t where "sd_lineages d = jdelete (sd_lineages (lx_disk s)) rootId" "sd_trash d = remove1 (Some rootId, dir) (sd_trash (lx_disk s) @ [(Some rootId, dir)])"
      "sd_tombstones d = jset (sd_tombstones (lx_disk s)) rootId (Tomb_ok t)" "tb_sessionIds t = map fst (ln_records l)"
  using assms(2)
  by (auto simp: evictLineage_def Let_def touch_def crash_point_def atomicWrite_def returned_def evict_stage_def assms(1)
      root_temp_def evict_commit_def evict_delete_def)

text \<open>
  C19. Eviction is atomic. At whatever instant the daemon dies during an eviction, recovery at the next start
  empties the trash and leaves every other lineage as it was; the lineage itself is back, complete, exactly
  when the tombstone had not been written, and when it had, the tombstone names every session of the lineage.
\<close>

theorem eviction_crash_atomic:
  assumes "new_lineage_store env rnow now empty_disk = Inr s0" "(lives env sha)\<^sup>*\<^sup>* s0 s" "(rootId, l) \<in> set (lx_lineages s)"
    and "d \<in> set (lx_trail (evictLineage env now' reason (rootId, l) (returned s)))"
  shows "sd_trash (after_recovery s d) = [] \<and> sd_tombstones (after_recovery s d) = sd_tombstones d \<and>
         jget (sd_lineages (after_recovery s d)) = (jget (sd_lineages (lx_disk s)))(rootId := if committed d rootId then None else jget (sd_lineages (lx_disk s)) rootId) \<and>
         jhas (sd_lineages (lx_disk s)) rootId \<and>
         (committed d rootId \<longrightarrow> (\<exists>t. jget (sd_tombstones d) rootId = Some (Tomb_ok t) \<and> tb_sessionIds t = map fst (ln_records l)))"
proof -
  have ok: "store_ok {} s" by (rule reachable_ok [OF assms(1,2)])
  then have mem: "mem_ok s" and disk: "disk_ok (lx_disk s)" by (auto simp: store_ok_def good_trail_def good_disk_def)
  have "jget (lx_lineages s) rootId = Some l" using mem assms(3) by (simp add: mem_ok_def jget_Some_iff)
  note lv = mem_lineage(1) [OF mem this]
  note at = dir_of_live [OF lv]
  have trash: "sd_trash (lx_disk s) = []" using mem by (simp add: mem_ok_def)
  have none: "jget (sd_tombstones (lx_disk s)) rootId = None" using disk_okD(5) [OF disk lv] by (simp add: jhas_def)
  have ne: "rootId \<noteq> []" using disk_okD(6) [OF disk, of rootId "dir_of (lx_disk s) rootId"] at by (simp add: placed_def)
  from evict_disks [OF at assms(4)] show ?thesis
  proof cases
    case 1
    then show ?thesis using trash none at by (simp add: after_recovery_eq(1) committed_def jhas_def fun_eq_iff)
  next
    case 2
    then show ?thesis
      using trash none at ne
      by (simp add: after_recovery_eq(2) recover_eviction_def Let_def committed_def jhas_def jget_jset jget_jdelete fun_eq_iff)
  next
    case (3 t)
    then show ?thesis
      using trash at by (simp add: after_recovery_eq(2) recover_eviction_def Let_def committed_def jhas_def jget_jset jget_jdelete fun_eq_iff)
  next
    case (4 t)
    then show ?thesis
      using trash at by (simp add: after_recovery_eq(1) committed_def jhas_def jget_jset jget_jdelete fun_eq_iff)
  qed
qed

section \<open>The quotas\<close>

lemma recordCount_jsum: "recordCount s = jsum (\<lambda>l. length (ln_records l)) (lx_lineages s)"
  by (simp add: recordCount_def jsum_def)

lemma recordCount_evict: "recordCount (evictLineage env now reason entry s) \<le> recordCount s"
proof -
  have "jsum f (jdelete m k) \<le> jsum f m" for f :: "Lineage \<Rightarrow> nat" and m and k :: string
    by (induction m) (auto simp: jsum_def)
  then show ?thesis by (cases entry) (simp add: recordCount_jsum evictLineage_lineages)
qed

lemma evict_while_result:
  "(fst (evict_while env now excluded reason exceeded s) \<longrightarrow> \<not> exceeded (snd (evict_while env now excluded reason exceeded s))) \<and>
   (\<not> fst (evict_while env now excluded reason exceeded s) \<longrightarrow>
      exceeded (snd (evict_while env now excluded reason exceeded s)) \<and>
      evictionCandidates env excluded (snd (evict_while env now excluded reason exceeded s)) = []) \<and>
   recordCount (snd (evict_while env now excluded reason exceeded s)) \<le> recordCount s"
proof (induction env now excluded reason exceeded s rule: evict_while.induct)
  case (1 env now excluded reason exceeded s)
  show ?case
  proof (cases "exceeded s")
    case True
    show ?thesis
    proof (cases "evictionCandidates env excluded s")
      case (Cons victim rest)
      with 1 [OF True Cons] True recordCount_evict [of env now reason victim s]
      show ?thesis by (subst (1 2 3 4 5 6) evict_while.simps) (cases victim; auto)
    qed (use True in \<open>subst (1 2 3 4 5 6) evict_while.simps, simp\<close>)
  qed (subst (1 2 3 4 5 6) evict_while.simps, simp)
qed

lemma makeRoom_result:
  assumes "makeRoomForOneMore env now rootId s = (room, t)"
  shows "room = Inr () \<Longrightarrow> recordCount t + 1 \<le> rt_maxRecords (se_retention env)"
    and "room \<noteq> Inr () \<Longrightarrow> room = Inl StorageFullError \<and> evictionCandidates env (Some rootId) t = [] \<and>
      (recordCount t + 1 > rt_maxRecords (se_retention env) \<or> totalBytes t \<ge> rt_maxBytes (se_retention env))"
proof -
  let ?s1 = "enforceRetention env now (Some rootId) s"
  let ?w1 = "evict_while env now (Some rootId) Quota_records (\<lambda>s. recordCount s + 1 > rt_maxRecords (se_retention env)) ?s1"
  let ?w2 = "evict_while env now (Some rootId) Quota_bytes (\<lambda>s. totalBytes s \<ge> rt_maxBytes (se_retention env)) (snd ?w1)"
  have eq: "(room, t) = (if \<not> fst ?w1 then (Inl StorageFullError, snd ?w1) else (if fst ?w2 then Inr () else Inl StorageFullError, snd ?w2))"
    using assms by (cases "fst ?w1"; cases "fst ?w2") (simp_all add: makeRoomForOneMore_def Let_def case_prod_unfold)
  note r1 = evict_while_result [of env now "Some rootId" Quota_records "\<lambda>s. recordCount s + 1 > rt_maxRecords (se_retention env)" ?s1]
    and r2 = evict_while_result [of env now "Some rootId" Quota_bytes "\<lambda>s. totalBytes s \<ge> rt_maxBytes (se_retention env)" "snd ?w1"]
  show "room = Inr () \<Longrightarrow> recordCount t + 1 \<le> rt_maxRecords (se_retention env)"
    using eq r1 r2 by (auto split: if_splits)
  show "room \<noteq> Inr () \<Longrightarrow> room = Inl StorageFullError \<and> evictionCandidates env (Some rootId) t = [] \<and>
      (recordCount t + 1 > rt_maxRecords (se_retention env) \<or> totalBytes t \<ge> rt_maxBytes (se_retention env))"
    using eq r1 r2 by (auto split: if_splits)
qed


lemma create_eq:
  assumes "makeRoomForOneMore env now (create_rootId s session options) s = (room, s1)"
  shows "room \<noteq> Inr () \<Longrightarrow> create env now session options s = (Inl (projl room), s1)"
    and "room = Inr () \<Longrightarrow> \<exists>l t. create env now session options s = (Inr (new_record s session options), t) \<and>
      lx_lineages t = jset (lx_lineages s1) (create_rootId s session options) l \<and>
      ln_records l = jset (case jget (lx_lineages s1) (create_rootId s session options) of Some k \<Rightarrow> ln_records k | None \<Rightarrow> [])
        (as_id session) (new_record s session options)"
proof -
  show "room \<noteq> Inr () \<Longrightarrow> create env now session options s = (Inl (projl room), s1)"
    using assms by (cases room) (auto simp: create_def Let_def)
  assume room: "room = Inr ()"
  let ?root = "create_rootId s session options" and ?r = "new_record s session options"
  let ?l = "case jget (lx_lineages s1) ?root of Some l \<Rightarrow> l | None \<Rightarrow> \<lparr>ln_records = [], ln_linesOnDisk = [], ln_bytes = 0\<rparr>"
  let ?s2 = "touch (with_dir ?root (\<lambda>dir. dir)) s1"
  let ?l1 = "?l\<lparr>ln_records := jset (ln_records ?l) (as_id session) ?r, ln_linesOnDisk := jset (ln_linesOnDisk ?l) (as_id session) 0\<rparr>"
  let ?t = "writeRecord env ?root ?l1 ?r (?s2\<lparr>lx_sessionIndex := jset (lx_sessionIndex ?s2) (as_id session) ?root\<rparr>)"
  have eq: "create env now session options s = (Inr ?r, ?t)" by (simp add: create_def Let_def assms room)
  obtain b where b: "lx_lineages ?t = jset (lx_lineages s1) ?root (?l1\<lparr>ln_records := jset (ln_records ?l1) (sr_id ?r) ?r, ln_bytes := b\<rparr>)"
    using writeRecord_fields(4) [of env ?root ?l1 ?r "?s2\<lparr>lx_sessionIndex := jset (lx_sessionIndex ?s2) (as_id session) ?root\<rparr>"] by auto
  show "\<exists>l t. create env now session options s = (Inr ?r, t) \<and> lx_lineages t = jset (lx_lineages s1) ?root l \<and>
      ln_records l = jset (case jget (lx_lineages s1) ?root of Some k \<Rightarrow> ln_records k | None \<Rightarrow> []) (as_id session) ?r"
    by (intro exI conjI, rule eq, rule b) (simp add: new_record_fields split: option.split)
qed

text \<open>
  C21. The quotas and what they may cost. A new session is recorded only if the store then holds no more records
  than its limit; otherwise the creation fails, and then every lineage left is in use or is the one the
  session would have joined. Either way every record of a lineage with a session in flight, and of the
  lineage the new session resumes, is still there, unchanged.
\<close>

theorem retention_bounds:
  assumes "new_lineage_store env rnow now empty_disk = Inr s0" "(lives env sha)\<^sup>*\<^sup>* s0 s"
    and "fresh_id s (as_id session)" "create env now' session options s = (res, t)"
  shows "(\<forall>r. res = Inr r \<longrightarrow> recordCount t \<le> rt_maxRecords (se_retention env) \<and> get_record t (as_id session) = Some r) \<and>
         (\<forall>e. res = Inl e \<longrightarrow> e = StorageFullError \<and> evictionCandidates env (Some (create_rootId s session options)) t = [] \<and>
            (recordCount t \<ge> rt_maxRecords (se_retention env) \<or> totalBytes t \<ge> rt_maxBytes (se_retention env))) \<and>
         (\<forall>rootId l sid r. jget (lx_lineages s) rootId = Some l \<longrightarrow> isActive l \<or> rootId = create_rootId s session options \<longrightarrow>
            jget (ln_records l) sid = Some r \<longrightarrow> get_record t sid = Some r)"
proof -
  let ?root = "create_rootId s session options" and ?r = "new_record s session options"
  have ok: "store_ok {} s" by (rule reachable_ok [OF assms(1,2)])
  have t_ok: "store_ok {} t" using store_ok_create [OF ok assms(3), of env now' options] assms(4) by simp
  obtain room s1 where room: "makeRoomForOneMore env now' ?root s = (room, s1)" by (cases "makeRoomForOneMore env now' ?root s")
  have sp: "spared (Some ?root) s s1" using spared_makeRoom [OF ok, of ?root env now'] room by simp
  have kept: "jget (lx_lineages s1) rt = Some l" if "jget (lx_lineages s) rt = Some l" "isActive l \<or> rt = ?root" for rt l
    using sp that unfolding spared_def by (metis option.inject)
  have other: "sid \<noteq> as_id session" if "jget (lx_lineages s) rt = Some l" "jget (ln_records l) sid = Some r" for rt l sid r
    using that ok assms(3) unfolding store_ok_def mem_ok_def index_ok_def fresh_id_def by (metis jhas_def option.distinct(1))
  show ?thesis
  proof (cases "room = Inr ()")
    case False
    note res = makeRoom_result(2) [OF room False] and eq = create_eq(1) [OF room False]
    then have res1: "res = Inl StorageFullError" "t = s1" using assms(4) by auto
    have "get_record t sid = Some r"
      if "jget (lx_lineages s) rt = Some k" "isActive k \<or> rt = ?root" "jget (ln_records k) sid = Some r" for rt k sid r
      using home_get_record [OF t_ok, of rt k sid r] kept [OF that(1,2)] that(3) res1(2) by simp
    then show ?thesis using res res1 by auto
  next
    case True
    from create_eq(2) [OF room True] assms(4) obtain l where l: "res = Inr ?r" "lx_lineages t = jset (lx_lineages s1) ?root l"
      "ln_records l = jset (case jget (lx_lineages s1) ?root of Some k \<Rightarrow> ln_records k | None \<Rightarrow> []) (as_id session) ?r" by auto
    have "recordCount t \<le> recordCount s1 + 1"
      using jsum_jset [of "\<lambda>l. length (ln_records l)" ?root l "lx_lineages s1"]
      by (auto simp: recordCount_jsum l length_jset split: option.splits if_splits)
    then have "recordCount t \<le> rt_maxRecords (se_retention env)" using makeRoom_result(1) [OF room True] by simp
    moreover have "get_record t (as_id session) = Some ?r"
      by (rule home_get_record [OF t_ok, of ?root l]) (simp_all add: l jget_jset)
    moreover have "get_record t sid = Some r"
      if "jget (lx_lineages s) rt = Some k" "isActive k \<or> rt = ?root" "jget (ln_records k) sid = Some r" for rt k sid r
    proof (cases "rt = ?root")
      case True
      then show ?thesis
        using kept [OF that(1,2)] that(3) other [OF that(1,3)] by (intro home_get_record [OF t_ok, of ?root l]) (simp_all add: l jget_jset)
    next
      case False
      then show ?thesis using kept [OF that(1,2)] that(3) by (intro home_get_record [OF t_ok, of rt k]) (simp_all add: l jget_jset)
    qed
    ultimately show ?thesis using l(1) by auto
  qed
qed


definition ex_staged :: store_disk where
  "ex_staged = lx_trail (evictLineage ex_store_env 0 Quota_records (hd (lx_lineages ex_accepted)) (returned ex_accepted)) ! 1"

theorem eviction_crash_atomic_witness:
  "map fst (sd_trash ex_staged) = [Some ''a''] \<and> sd_lineages ex_staged = [] \<and> sd_trash (after_recovery ex_accepted ex_staged) = [] \<and>
   jget (sd_lineages (after_recovery ex_accepted ex_staged)) ''a'' = jget (sd_lineages (lx_disk ex_accepted)) ''a''"
proof -
  let ?trail = "lx_trail (evictLineage ex_store_env 0 Quota_records (hd (lx_lineages ex_accepted)) (returned ex_accepted))"
  have shape: "map fst (lx_lineages ex_accepted) = [''a'']" "1 < length ?trail" "\<not> committed ex_staged ''a''"
    "map fst (sd_trash ex_staged) = [Some ''a'']" "sd_lineages ex_staged = []"
    by code_simp+
  then obtain l where l: "lx_lineages ex_accepted = [(''a'', l)]" by (cases "lx_lineages ex_accepted") auto
  have "ex_staged \<in> set ?trail" using shape(2) unfolding ex_staged_def by (rule nth_mem)
  then have "ex_staged \<in> set (lx_trail (evictLineage ex_store_env 0 Quota_records (''a'', l) (returned ex_accepted)))" using l by simp
  from eviction_crash_atomic [OF ex_opened_new ex_accepted_reached _ this] l shape show ?thesis by (simp add: fun_eq_iff)
qed

theorem retention_bounds_witness:
  "recordCount (snd (create ex_store_env 0 ex_agent_session ex_options ex_opened)) \<le> 2 \<and>
   map_option sr_status (get_record (snd (create ex_store_env 0 ex_agent_session ex_options ex_opened)) ''a'') = Some S_starting"
proof -
  have "fresh_id ex_opened (as_id ex_agent_session)" "\<not> isl (fst (create ex_store_env 0 ex_agent_session ex_options ex_opened))"
    "sr_status (projr (fst (create ex_store_env 0 ex_agent_session ex_options ex_opened))) = S_starting" "as_id ex_agent_session = ''a''"
    "rt_maxRecords (se_retention ex_store_env) = 2"
    by code_simp+
  moreover from this(2) obtain r t where "create ex_store_env 0 ex_agent_session ex_options ex_opened = (Inr r, t)"
    by (cases "create ex_store_env 0 ex_agent_session ex_options ex_opened"; cases "fst (create ex_store_env 0 ex_agent_session ex_options ex_opened)") auto
  ultimately show ?thesis
    using retention_bounds [OF ex_opened_new rtranclp.rtrancl_refl, of ex_agent_session 0 ex_options] by simp
qed

end
