(* ===== verification/Lineage_Paging.thy ===== *)
theory Lineage_Paging
  imports Lineage_Recovery "HOL-Library.Multiset"
begin

text \<open>
  The read side of the session store (\<^verbatim>\<open>listSessions\<close>, \<^verbatim>\<open>listEvents\<close> and \<^verbatim>\<open>searchEvents\<close> of
  \<^verbatim>\<open>apps/daemon/src/session-lineage-store.ts\<close>): pages addressed by opaque cursors. Following the cursors from the
  first page on gives everything exactly once and in order, whatever the page size.
\<close>

section \<open>Cursors\<close>

text \<open>
  A cursor is the base64url text of an ASCII key. Node's decoder takes both alphabets, skips every other
  character and drops the bits left over at the end; what it decodes is compared with an ASCII key, so bytes are
  enough.
\<close>

definition B64URL :: string where
  "B64URL = ''ABCDEFGHIJKLMNOPQRSTUVWXYZabcdefghijklmnopqrstuvwxyz0123456789-_''"

definition b64_char :: "nat \<Rightarrow> char" where
  "b64_char n = B64URL ! n"

definition b64_value :: "char \<Rightarrow> nat option" where
  "b64_value c =
     (if 65 \<le> code c \<and> code c \<le> 90 then Some (code c - 65)
      else if 97 \<le> code c \<and> code c \<le> 122 then Some (code c - 71)
      else if 48 \<le> code c \<and> code c \<le> 57 then Some (code c + 4)
      else if c = CHR ''-'' \<or> c = CHR ''+'' then Some 62
      else if c = CHR ''_'' \<or> c = CHR ''/'' then Some 63
      else None)"

fun sextets :: "nat list \<Rightarrow> nat list" where
  "sextets [] = []"
| "sextets [a] = [a div 4, a mod 4 * 16]"
| "sextets [a, b] = [a div 4, a mod 4 * 16 + b div 16, b mod 16 * 4]"
| "sextets (a # b # c # bs) = a div 4 # (a mod 4 * 16 + b div 16) # (b mod 16 * 4 + c div 64) # c mod 64 # sextets bs"

fun octets :: "nat list \<Rightarrow> nat list" where
  "octets [] = []"
| "octets [w] = []"
| "octets [w, x] = [w * 4 + x div 16]"
| "octets [w, x, y] = [w * 4 + x div 16, x mod 16 * 16 + y div 4]"
| "octets (w # x # y # z # vs) = (w * 4 + x div 16) # (x mod 16 * 16 + y div 4) # (y mod 4 * 64 + z) # octets vs"

definition encodeCursor :: "string \<Rightarrow> string" where
  "encodeCursor key = map b64_char (sextets (map code key))"

definition decodeCursor :: "string \<Rightarrow> nat list" where
  "decodeCursor cursor = octets (List.map_filter b64_value cursor)"

lemma b64_round: "n < 64 \<Longrightarrow> b64_value (b64_char n) = Some n"
proof -
  have "list_all (\<lambda>n. b64_value (b64_char n) = Some n) [0..<64]" by code_simp
  then show "n < 64 \<Longrightarrow> b64_value (b64_char n) = Some n" by (simp add: list_all_iff)
qed

lemma sextets_small: "\<forall>b\<in>set bs. b < 256 \<Longrightarrow> v \<in> set (sextets bs) \<Longrightarrow> v < 64"
  by (induction bs rule: sextets.induct) auto

lemma digits: "q < (n::nat) \<Longrightarrow> (m * n + q) div n = m" "q < (n::nat) \<Longrightarrow> (m * n + q) mod n = q"
  by (simp_all add: div_nat_eqI mult.commute)

lemma octets_sextets: "\<forall>b\<in>set bs. b < 256 \<Longrightarrow> octets (sextets bs) = bs"
proof (induction bs rule: sextets.induct)
  case (3 a b)
  then have "b div 16 < 16" by (simp add: less_mult_imp_div_less)
  then show ?case by (simp add: digits)
next
  case (4 a b c bs)
  then have "b div 16 < 16" "c div 64 < 4" "octets (sextets bs) = bs" by (simp_all add: less_mult_imp_div_less)
  then show ?case by (simp add: digits)
qed simp_all

lemma map_filter_b64: "\<forall>v\<in>set vs. v < 64 \<Longrightarrow> List.map_filter b64_value (map b64_char vs) = vs"
  by (induction vs) (auto simp: List.map_filter_simps b64_round)

lemma cursor_round_trip: "decodeCursor (encodeCursor key) = map code key"
proof -
  have small: "\<forall>b\<in>set (map code key). b < 256" by simp
  then have "\<forall>v\<in>set (sextets (map code key)). v < 64" using sextets_small by blast
  then show ?thesis by (simp add: decodeCursor_def encodeCursor_def map_filter_b64 octets_sextets [OF small])
qed



section \<open>Pages\<close>

text \<open>\<^verbatim>\<open>findIndex\<close>, and the start of a page: after the item the cursor names.\<close>

fun find_index :: "('a \<Rightarrow> bool) \<Rightarrow> 'a list \<Rightarrow> nat option" where
  "find_index p [] = None"
| "find_index p (x # xs) = (if p x then Some 0 else map_option Suc (find_index p xs))"

definition page_start :: "('a \<Rightarrow> bool) option \<Rightarrow> 'a list \<Rightarrow> store_error + nat" where
  "page_start after items =
     (case after of
        None \<Rightarrow> Inr 0
      | Some p \<Rightarrow> (case find_index p items of None \<Rightarrow> Inl InvalidCursorError | Some i \<Rightarrow> Inr (i + 1)))"

definition page_of :: "('a \<Rightarrow> string) \<Rightarrow> nat \<Rightarrow> 'a list \<Rightarrow> nat \<Rightarrow> 'a list \<times> string option" where
  "page_of key limit items start =
     (let page = take limit (drop start items);
          hasMore = start + limit < length items
      in (page, if hasMore \<and> page \<noteq> [] then Some (encodeCursor (key (last page))) else None))"

text \<open>
  The newest session first; the collation of \<^verbatim>\<open>localeCompare\<close> is an argument. An instant that does not parse would
  make the comparison of the source inconsistent; every \<^verbatim>\<open>startedAt\<close> is written by \<^verbatim>\<open>toISOString\<close>.
\<close>

definition the_default :: "'a \<Rightarrow> 'a option \<Rightarrow> 'a" where
  "the_default x y = (case y of None \<Rightarrow> x | Some z \<Rightarrow> z)"

definition allRecordsNewestFirst :: "store_env \<Rightarrow> (string \<Rightarrow> nat) \<Rightarrow> SessionLineageStore \<Rightarrow> PersistedSessionRecord list" where
  "allRecordsNewestFirst env collation s =
     sort_key (\<lambda>r. - the_default 0 (se_parse env (sr_startedAt r))) (sort_key (\<lambda>r. collation (sr_id r)) (all_records s))"

definition limit_of :: "nat option \<Rightarrow> nat" where
  "limit_of limit = (case limit of None \<Rightarrow> 50 | Some n \<Rightarrow> n)"

definition session_cursor :: "string option \<Rightarrow> (PersistedSessionRecord \<Rightarrow> bool) option" where
  "session_cursor cursor = map_option (\<lambda>c r. map code (sr_id r) = decodeCursor c) cursor"

definition listSessions ::
  "store_env \<Rightarrow> (string \<Rightarrow> nat) \<Rightarrow> SessionLineageStore \<Rightarrow> string option \<Rightarrow> nat option \<Rightarrow> store_error + PersistedSessionRecord list \<times> string option" where
  "listSessions env collation s cursor limit =
     (let items = allRecordsNewestFirst env collation s
      in case page_start (session_cursor cursor) items of
           Inl e \<Rightarrow> Inl e
         | Inr start \<Rightarrow> Inr (page_of sr_id (limit_of limit) items start))"

text \<open>A log is read up to the first line that does not parse; empty lines are skipped.\<close>

fun read_lines :: "event_line list \<Rightarrow> PersistedEventRecord list" where
  "read_lines [] = []"
| "read_lines (Good_line e # ls) = e # read_lines ls"
| "read_lines (Bad_line v n # ls) = (if n = 0 then read_lines ls else [])"

definition readEventLog :: "store_disk \<Rightarrow> string \<Rightarrow> string \<Rightarrow> PersistedEventRecord list" where
  "readEventLog d rootId sessionId =
     (case jget (ld_events (dir_of d rootId)) sessionId of None \<Rightarrow> [] | Some lg \<Rightarrow> read_lines (lg_lines lg))"

text \<open>\<^verbatim>\<open>Number\<close> of a decoded cursor is an argument: \<open>None\<close> is a value that is not finite.\<close>

definition listEvents ::
  "(nat list \<Rightarrow> rat option) \<Rightarrow> SessionLineageStore \<Rightarrow> string \<Rightarrow> string option \<Rightarrow> nat option \<Rightarrow> store_error + PersistedEventRecord list \<times> string option" where
  "listEvents number s sessionId cursor limit =
     (case locate s sessionId of
        None \<Rightarrow> Inr ([], None)
      | Some (rootId, lineage, r) \<Rightarrow>
          (let events = readEventLog (lx_disk s) rootId sessionId;
               after = map_option (\<lambda>c e. number (decodeCursor c) = Some (of_nat (pe_sequence e))) cursor
           in case page_start after events of
                Inl e \<Rightarrow> Inl e
              | Inr start \<Rightarrow>
                  Inr (page_of (\<lambda>e. show_nat (pe_sequence e)) (limit_of limit) events start)))"


section \<open>Search\<close>

definition MAX_SEARCH_MATCHES :: nat where "MAX_SEARCH_MATCHES = 50"

definition MAX_SESSIONS_SCANNED_PER_SEARCH :: nat where "MAX_SESSIONS_SCANNED_PER_SEARCH = 200"

definition MAX_SEARCH_EXCERPT_BYTES :: nat where "MAX_SEARCH_EXCERPT_BYTES = 200"

definition EXCERPT_CONTEXT_CHARS :: nat where "EXCERPT_CONTEXT_CHARS = 60"

record SessionSearchMatch =
  sm_sessionId :: string
  sm_sequence :: nat
  sm_eventType :: string
  sm_field :: string
  sm_excerpt :: units

fun indexOf :: "units \<Rightarrow> units \<Rightarrow> nat option" where
  "indexOf [] needle = (if needle = [] then Some 0 else None)"
| "indexOf (u # us) needle = (if prefix needle (u # us) then Some 0 else map_option Suc (indexOf us needle))"

definition ELLIPSIS :: units where "ELLIPSIS = [0x2026]"

definition buildExcerpt :: "(units \<Rightarrow> units) \<Rightarrow> units \<Rightarrow> units \<Rightarrow> units" where
  "buildExcerpt toLowerCase txt needle =
     (case indexOf (toLowerCase txt) needle of
        None \<Rightarrow> truncateToBytes txt MAX_SEARCH_EXCERPT_BYTES
      | Some matchIndex \<Rightarrow>
          (let start = matchIndex - EXCERPT_CONTEXT_CHARS;
               stop = min (length txt) (matchIndex + length needle + EXCERPT_CONTEXT_CHARS);
               windowed = (if start > 0 then ELLIPSIS else []) @ drop start (take stop txt) @ (if stop < length txt then ELLIPSIS else [])
           in truncateToBytes windowed MAX_SEARCH_EXCERPT_BYTES))"

fun event_type :: "persisted_event \<Rightarrow> string" where
  "event_type (P_session_started _ _ _) = ''session.started''"
| "event_type (P_status _ _) = ''status''"
| "event_type (P_assistant_message _) = ''assistant.message''"
| "event_type (P_thinking_delta _) = ''thinking.delta''"
| "event_type (P_tool_started _ _ _) = ''tool.started''"
| "event_type (P_tool_completed _ _ _ _ _) = ''tool.completed''"
| "event_type (P_usage _) = ''usage''"
| "event_type (P_rate_limits _ _ _ _) = ''usage.rate_limits''"
| "event_type (P_error _ _ _) = ''error''"
| "event_type (P_session_completed _) = ''session.completed''"
| "event_type (P_session_failed _) = ''session.failed''"
| "event_type P_session_cancelled = ''session.cancelled''"
| "event_type P_session_interrupted = ''session.interrupted''"

definition named_text :: "string \<Rightarrow> units option \<Rightarrow> (string \<times> units) list" where
  "named_text field txt = map (Pair field) (list_of_option txt)"

fun searchableFields :: "persisted_event \<Rightarrow> (string \<times> units) list" where
  "searchableFields (P_status status _) = [(''status'', status)]"
| "searchableFields (P_tool_started toolName _ _) = [(''toolName'', toolName)]"
| "searchableFields (P_tool_completed toolName _ _ _ _) = named_text ''toolName'' toolName"
| "searchableFields (P_error errcode _ _) = named_text ''code'' errcode"
| "searchableFields (P_rate_limits limitId limitName _ _) = named_text ''limitId'' limitId @ named_text ''limitName'' limitName"
| "searchableFields _ = []"

text \<open>At most one match per event: the first searchable field that contains the query.\<close>

definition event_match :: "(units \<Rightarrow> units) \<Rightarrow> units \<Rightarrow> string \<Rightarrow> PersistedEventRecord \<Rightarrow> SessionSearchMatch list" where
  "event_match toLowerCase needle sessionId e =
     (case List.find (\<lambda>(field, txt). sublist needle (toLowerCase txt)) (searchableFields (pe_event e)) of
        None \<Rightarrow> []
      | Some (field, txt) \<Rightarrow>
          [\<lparr>sm_sessionId = sessionId, sm_sequence = pe_sequence e, sm_eventType = event_type (pe_event e), sm_field = field,
            sm_excerpt = buildExcerpt toLowerCase txt needle\<rparr>])"

definition session_matches :: "(units \<Rightarrow> units) \<Rightarrow> units \<Rightarrow> store_disk \<Rightarrow> PersistedSessionRecord \<Rightarrow> SessionSearchMatch list" where
  "session_matches toLowerCase needle d r =
     concat (map (event_match toLowerCase needle (sr_id r)) (readEventLog d (sr_rootSessionId r) (sr_id r)))"

text \<open>
  The loop over the sessions of one call: \<open>budget\<close> sessions may still be scanned, \<open>remaining\<close> are the sessions
  from the next one on, \<open>found\<close> the matches so far and \<open>previous\<close> the session scanned last.
\<close>

fun scan :: "(PersistedSessionRecord \<Rightarrow> SessionSearchMatch list) \<Rightarrow> nat \<Rightarrow> nat \<Rightarrow> PersistedSessionRecord list \<Rightarrow> SessionSearchMatch list \<Rightarrow> PersistedSessionRecord option \<Rightarrow> SessionSearchMatch list \<times> string option" where
  "scan matches limit budget [] found previous = (found, None)"
| "scan matches limit 0 (r # remaining) found previous = (found, map_option (\<lambda>p. encodeCursor (sr_id p)) previous)"
| "scan matches limit (Suc budget) (r # remaining) found previous =
     (let found1 = found @ matches r
      in if length found1 \<ge> limit then (found1, if remaining \<noteq> [] then Some (encodeCursor (sr_id r)) else None)
         else scan matches limit budget remaining found1 (Some r))"

definition searchEvents ::
  "store_env \<Rightarrow> (string \<Rightarrow> nat) \<Rightarrow> (units \<Rightarrow> units) \<Rightarrow> SessionLineageStore \<Rightarrow> units \<Rightarrow> string option \<Rightarrow> nat option \<Rightarrow> store_error + SessionSearchMatch list \<times> string option" where
  "searchEvents env collation toLowerCase s query cursor limit =
     (let cap = min (case limit of None \<Rightarrow> MAX_SEARCH_MATCHES | Some n \<Rightarrow> n) MAX_SEARCH_MATCHES;
          needle = toLowerCase query;
          items = allRecordsNewestFirst env collation s
      in case page_start (session_cursor cursor) items of
           Inl e \<Rightarrow> Inl e
         | Inr start \<Rightarrow>
             Inr (scan (session_matches toLowerCase needle (lx_disk s)) cap MAX_SESSIONS_SCANNED_PER_SEARCH (drop start items) [] None))"


section \<open>Following the cursors\<close>

text \<open>What a client does: ask for a page, then for the page after it, until a page carries no cursor.\<close>

fun follow :: "(string option \<Rightarrow> 'e + 'b list \<times> string option) \<Rightarrow> nat \<Rightarrow> string option \<Rightarrow> 'b list option" where
  "follow page 0 cursor = None"
| "follow page (Suc n) cursor =
     (case page cursor of
        Inl e \<Rightarrow> None
      | Inr (found, next) \<Rightarrow> (case next of None \<Rightarrow> Some found | Some c \<Rightarrow> map_option ((@) found) (follow page n (Some c))))"

text \<open>The cursor that names the first \<open>i\<close> items as seen.\<close>

definition after_item :: "('a \<Rightarrow> string) \<Rightarrow> 'a list \<Rightarrow> nat \<Rightarrow> string option" where
  "after_item key items i = (if i = 0 then None else Some (encodeCursor (key (items ! (i - 1)))))"

text \<open>
  The contract of a paged read. A query \<open>q\<close> has its items in order; the page after the first \<open>i\<close> of them carries
  the results of the next ones, at least one if any is left, and a cursor to go on with exactly if more are left.
\<close>

locale paged =
  fixes items :: "'q \<Rightarrow> 'a list"
    and out :: "'q \<Rightarrow> 'a \<Rightarrow> 'b list"
    and key :: "'q \<Rightarrow> 'a \<Rightarrow> string"
    and page :: "'q \<Rightarrow> string option \<Rightarrow> 'e + 'b list \<times> string option"
    and ready :: "'q \<Rightarrow> bool"
  assumes page_after: "ready q \<Longrightarrow> i \<le> length (items q) \<Longrightarrow>
    \<exists>k. page q (after_item (key q) (items q) i) =
          Inr (concat (map (out q) (take k (drop i (items q)))),
               if i + k < length (items q) then after_item (key q) (items q) (i + k) else None) \<and>
        (i < length (items q) \<longrightarrow> 0 < k)"
begin

lemma follow_from:
  "ready q \<Longrightarrow> i \<le> length (items q) \<Longrightarrow> length (items q) - i < n \<Longrightarrow>
   follow (page q) n (after_item (key q) (items q) i) = Some (concat (map (out q) (drop i (items q))))"
proof (induction n arbitrary: i)
  case (Suc n)
  obtain k where k: "page q (after_item (key q) (items q) i) =
      Inr (concat (map (out q) (take k (drop i (items q)))),
           if i + k < length (items q) then after_item (key q) (items q) (i + k) else None)" "i < length (items q) \<longrightarrow> 0 < k"
    using page_after [OF Suc.prems(1,2)] by blast
  show ?case
  proof (cases "i + k < length (items q)")
    case True
    then have "follow (page q) n (after_item (key q) (items q) (i + k)) = Some (concat (map (out q) (drop (i + k) (items q))))"
      using Suc.prems k(2) by (intro Suc.IH) auto
    moreover have "concat (map (out q) (take k (drop i (items q)))) @ concat (map (out q) (drop (i + k) (items q))) =
        concat (map (out q) (drop i (items q)))"
      by (metis add.commute append_take_drop_id concat_append drop_drop map_append)
    moreover have "0 < i + k" using True k(2) by auto
    ultimately show ?thesis using True k(1) by (auto simp: after_item_def)
  qed (use k(1) in simp)
qed simp

lemma follow_all: "ready q \<Longrightarrow> length (items q) < n \<Longrightarrow> follow (page q) n None = Some (concat (map (out q) (items q)))"
  using follow_from [of q 0 n] by (simp add: after_item_def)

end

declare follow.simps [simp del]

lemma find_index_nth: "distinct (map g xs) \<Longrightarrow> i < length xs \<Longrightarrow> find_index (\<lambda>x. g x = g (xs ! i)) xs = Some i"
proof (induction xs arbitrary: i)
  case (Cons x xs)
  show ?case
  proof (cases i)
    case (Suc j)
    with Cons.prems have "g x \<noteq> g (xs ! j)" by (metis Suc_less_eq distinct.simps(2) length_Cons length_map list.simps(9) nth_map nth_mem)
    with Suc Cons show ?thesis by simp
  qed simp
qed simp

lemma page_start_after:
  assumes "distinct (map g items)" "i \<le> length items" "\<And>x y. x \<in> set items \<Longrightarrow> p (encodeCursor (key x)) y \<longleftrightarrow> g y = g x"
  shows "page_start (map_option p (after_item key items i)) items = Inr i"
proof (cases i)
  case (Suc j)
  with assms(2) have "p (encodeCursor (key (items ! j))) = (\<lambda>y. g y = g (items ! j))" using assms(3) by auto
  with Suc assms(1,2) find_index_nth [of g items j] show ?thesis by (simp add: page_start_def after_item_def)
qed (simp add: page_start_def after_item_def)

lemma page_of_after:
  assumes "0 < limit" "i \<le> length items"
  shows "page_of key limit items i =
    (take limit (drop i items), if i + limit < length items then after_item key items (i + limit) else None)"
proof (cases "i + limit < length items")
  case True
  then have "length (take limit (drop i items)) = limit" "take limit (drop i items) \<noteq> []" using assms(1) by auto
  then have "last (take limit (drop i items)) = items ! (i + limit - 1)" using True assms by (simp add: last_conv_nth)
  with True assms(1) show ?thesis by (simp add: page_of_def after_item_def)
qed (simp add: page_of_def)

text \<open>A scan goes through a first stretch of the sessions and stops behind the last one it scanned.\<close>

lemma scan_stretch:
  "\<exists>k. scan matches limit budget remaining found previous =
     (found @ concat (map matches (take k remaining)),
      if k < length remaining then (if k = 0 then map_option (\<lambda>p. encodeCursor (sr_id p)) previous else Some (encodeCursor (sr_id (remaining ! (k - 1))))) else None)
     \<and> (remaining \<noteq> [] \<longrightarrow> 0 < budget \<longrightarrow> 0 < k) \<and> k \<le> budget"
proof (induction matches limit budget remaining found previous rule: scan.induct)
  case (1 matches limit budget found previous)
  show ?case by (rule exI [of _ 0]) simp
next
  case (2 matches limit r remaining found previous)
  show ?case by (rule exI [of _ 0]) simp
next
  case (3 matches limit budget r remaining found previous)
  show ?case
  proof (cases "length (found @ matches r) \<ge> limit")
    case True
    then show ?thesis by (intro exI [of _ 1]) simp
  next
    case False
    from 3 [OF refl False] obtain k where
      "scan matches limit budget remaining (found @ matches r) (Some r) =
        ((found @ matches r) @ concat (map matches (take k remaining)),
         if k < length remaining then (if k = 0 then map_option (\<lambda>p. encodeCursor (sr_id p)) (Some r) else Some (encodeCursor (sr_id (remaining ! (k - 1))))) else None)"
      "k \<le> budget" by blast
    with False show ?thesis by (intro exI [of _ "Suc k"]) (auto simp: Let_def)
  qed
qed

lemma scan_first:
  assumes "0 < budget"
  shows "\<exists>k. scan matches limit budget remaining [] None =
     (concat (map matches (take k remaining)), if k < length remaining then Some (encodeCursor (sr_id (remaining ! (k - 1)))) else None)
     \<and> (remaining \<noteq> [] \<longrightarrow> 0 < k) \<and> k \<le> budget"
proof -
  from scan_stretch [of matches limit budget remaining "[]" None]
  show ?thesis
  proof (elim exE conjE, goal_cases)
    case (1 k)
    then show ?case using assms by (intro exI [of _ k]) auto
  qed
qed


section \<open>The three reads are paged\<close>

text \<open>Every session is held once: no two records of a store in order have the same id.\<close>

lemma distinct_concat_keyed:
  assumes "distinct (map fst ls)" "\<And>k x. (k, x) \<in> set ls \<Longrightarrow> distinct (f x)"
    and "\<And>k x j y. (k, x) \<in> set ls \<Longrightarrow> (j, y) \<in> set ls \<Longrightarrow> k \<noteq> j \<Longrightarrow> set (f x) \<inter> set (f y) = {}"
  shows "distinct (concat (map (\<lambda>(k, x). f x) ls))"
  using assms
proof (induction ls)
  case (Cons p ls)
  obtain k x where p: "p = (k, x)" by (cases p)
  have "set (f x) \<inter> set (f y) = {}" if "(j, y) \<in> set ls" for j y
  proof -
    have "k \<noteq> j" using Cons.prems(1) that p by force
    then show ?thesis using Cons.prems(3) [of k x j y] that p by simp
  qed
  then have "set (f x) \<inter> set (concat (map (\<lambda>(k, x). f x) ls)) = {}" by auto
  moreover have "distinct (concat (map (\<lambda>(k, x). f x) ls))"
  proof (rule Cons.IH)
    show "distinct (map fst ls)" using Cons.prems(1) by simp
    show "distinct (f y)" if "(j, y) \<in> set ls" for j y using that Cons.prems(2) [of j y] by simp
    show "set (f y) \<inter> set (f z) = {}" if "(j, y) \<in> set ls" "(l, z) \<in> set ls" "j \<noteq> l" for j y l z
      using that Cons.prems(3) [of j y l z] by simp
  qed
  moreover have "distinct (f x)" using Cons.prems(2) [of k x] p by simp
  ultimately show ?case using p by simp
qed simp

lemma distinct_ids:
  assumes "store_ok X s"
  shows "distinct (map sr_id (all_records s))"
proof -
  have mem: "mem_ok s" and good: "good_trail X s" using assms by (auto simp: store_ok_def)
  have held: "jget (lx_lineages s) rootId = Some l" if "(rootId, l) \<in> set (lx_lineages s)" for rootId l
    using mem that by (simp add: mem_ok_def jget_Some_iff)
  have recs: "jmap_ok (ln_records l)" if "(rootId, l) \<in> set (lx_lineages s)" for rootId l
    using mem_lineage(2) [OF mem held [OF that]] by (simp add: lineage_match_def)
  have ids: "map sr_id (map snd (ln_records l)) = map fst (ln_records l)" if "(rootId, l) \<in> set (lx_lineages s)" for rootId l
    using mem_record(1) [OF mem good held [OF that]] recs [OF that] by (auto simp: jget_Some_iff)
  have eq: "map sr_id (all_records s) = concat (map (\<lambda>(rootId, l). map fst (ln_records l)) (lx_lineages s))"
    unfolding all_records_def map_concat map_map by (rule arg_cong [of _ _ concat]) (use ids in auto)
  have idx: "index_ok (lx_lineages s) (lx_sessionIndex s)" using mem by (simp add: mem_ok_def)
  have apart: "set (map fst (ln_records l)) \<inter> set (map fst (ln_records m)) = {}"
    if "(a, l) \<in> set (lx_lineages s)" "(b, m) \<in> set (lx_lineages s)" "a \<noteq> b" for a b l m
  proof -
    have "jget (lx_sessionIndex s) sid = Some a" if "jhas (ln_records l) sid" for sid
      using idx held [OF \<open>(a, l) \<in> set (lx_lineages s)\<close>] that unfolding index_ok_def by blast
    moreover have "jget (lx_sessionIndex s) sid = Some b" if "jhas (ln_records m) sid" for sid
      using idx held [OF \<open>(b, m) \<in> set (lx_lineages s)\<close>] that unfolding index_ok_def by blast
    ultimately show ?thesis using that(3) by (auto simp: jhas_iff_keys) (metis fst_conv imageI option.inject)
  qed
  have "distinct (map fst (lx_lineages s))" using mem by (simp add: mem_ok_def jmap_ok_def)
  then show ?thesis unfolding eq
    by (rule distinct_concat_keyed) (fact recs [unfolded jmap_ok_def], rule apart)
qed

lemma set_newest [simp]: "set (allRecordsNewestFirst env collation s) = set (all_records s)"
  by (simp add: allRecordsNewestFirst_def)

lemma length_newest [simp]: "length (allRecordsNewestFirst env collation s) = length (all_records s)"
  by (simp add: allRecordsNewestFirst_def)

lemma mset_newest: "mset (allRecordsNewestFirst env collation s) = mset (all_records s)"
  by (simp add: allRecordsNewestFirst_def)

lemma distinct_newest: "distinct (map sr_id (all_records s)) \<Longrightarrow> distinct (map (\<lambda>r. map code (sr_id r)) (allRecordsNewestFirst env collation s))"
proof -
  assume d: "distinct (map sr_id (all_records s))"
  have "mset (map sr_id (allRecordsNewestFirst env collation s)) = mset (map sr_id (all_records s))"
    by (simp add: mset_newest)
  with d have "distinct (map sr_id (allRecordsNewestFirst env collation s))" by (metis mset_eq_imp_distinct_iff)
  then have "distinct (map (map code) (map sr_id (allRecordsNewestFirst env collation s)))"
    by (simp only: distinct_map) (simp add: inj_on_def inj_map_eq_map)
  then show ?thesis by (simp add: comp_def)
qed

lemma session_start:
  "distinct (map sr_id (all_records s)) \<Longrightarrow> i \<le> length (all_records s) \<Longrightarrow>
   page_start (session_cursor (after_item sr_id (allRecordsNewestFirst env collation s) i)) (allRecordsNewestFirst env collation s) = Inr i"
  unfolding session_cursor_def
  by (rule page_start_after [OF distinct_newest]) (auto simp: cursor_round_trip)

lemma take_drop_concat: "concat (map (\<lambda>r. [r]) xs) = xs"
  by (induction xs) simp_all

interpretation session_pages: paged "\<lambda>(env, collation, s, limit). allRecordsNewestFirst env collation s" "\<lambda>_ r. [r]" "\<lambda>_. sr_id"
  "\<lambda>(env, collation, s, limit) cursor. listSessions env collation s cursor limit"
  "\<lambda>(env, collation, s, limit). distinct (map sr_id (all_records s)) \<and> 0 < limit_of limit"
proof (unfold_locales, clarify)
  fix env collation s limit i
  assume i: "i \<le> length (allRecordsNewestFirst env collation s)" and "distinct (map sr_id (all_records s))" "0 < limit_of limit"
  then show "\<exists>k. listSessions env collation s (after_item sr_id (allRecordsNewestFirst env collation s) i) limit =
      Inr (concat (map (\<lambda>r. [r]) (take k (drop i (allRecordsNewestFirst env collation s)))),
        if i + k < length (allRecordsNewestFirst env collation s) then after_item sr_id (allRecordsNewestFirst env collation s) (i + k) else None) \<and>
      (i < length (allRecordsNewestFirst env collation s) \<longrightarrow> 0 < k)"
    by (intro exI [of _ "limit_of limit"]) (simp add: listSessions_def Let_def session_start page_of_after take_drop_concat)
qed

interpretation event_pages: paged "\<lambda>(number, s, sid, limit). case locate s sid of None \<Rightarrow> [] | Some (rootId, _) \<Rightarrow> readEventLog (lx_disk s) rootId sid"
  "\<lambda>_ e. [e]" "\<lambda>_ e. show_nat (pe_sequence e)" "\<lambda>(number, s, sid, limit) cursor. listEvents number s sid cursor limit"
  "\<lambda>(number, s, sid, limit). 0 < limit_of limit \<and> (\<forall>n. number (map code (show_nat n)) = Some (of_nat n)) \<and>
     (\<forall>rootId lr. locate s sid = Some (rootId, lr) \<longrightarrow> distinct (map pe_sequence (readEventLog (lx_disk s) rootId sid)))"
proof (unfold_locales, clarify)
  fix number :: "nat list \<Rightarrow> rat option" and s sid limit i
  let ?events = "case locate s sid of None \<Rightarrow> [] | Some (rootId, _) \<Rightarrow> readEventLog (lx_disk s) rootId sid"
  let ?cursor = "after_item (\<lambda>e. show_nat (pe_sequence e)) ?events i"
  assume i: "i \<le> length ?events" and limit: "0 < limit_of limit"
    and number: "\<forall>n. number (map code (show_nat n)) = Some (of_nat n)"
    and distinct: "\<forall>rootId lr. locate s sid = Some (rootId, lr) \<longrightarrow> distinct (map pe_sequence (readEventLog (lx_disk s) rootId sid))"
  show "\<exists>k. listEvents number s sid ?cursor limit =
      Inr (concat (map (\<lambda>e. [e]) (take k (drop i ?events))),
        if i + k < length ?events then after_item (\<lambda>e. show_nat (pe_sequence e)) ?events (i + k) else None) \<and>
      (i < length ?events \<longrightarrow> 0 < k)"
  proof (cases "locate s sid")
    case None
    then show ?thesis by (intro exI [of _ 1]) (simp add: listEvents_def)
  next
    case (Some found)
    obtain rootId lineage r where found: "found = (rootId, lineage, r)" by (cases found) auto
    have "page_start (map_option (\<lambda>c e. number (decodeCursor c) = Some (of_nat (pe_sequence e))) ?cursor) ?events = Inr i"
      by (rule page_start_after [where g = pe_sequence]) (use Some found i number distinct in \<open>auto simp: cursor_round_trip\<close>)
    with Some found i limit show ?thesis
      by (intro exI [of _ "limit_of limit"]) (simp add: listEvents_def Let_def page_of_after take_drop_concat)
  qed
qed

lemma search_after:
  assumes "distinct (map sr_id (all_records s))" "i \<le> length (all_records s)"
  shows "\<exists>k. searchEvents env collation toLowerCase s query (after_item sr_id (allRecordsNewestFirst env collation s) i) limit =
      Inr (concat (map (session_matches toLowerCase (toLowerCase query) (lx_disk s)) (take k (drop i (allRecordsNewestFirst env collation s)))),
        if i + k < length (all_records s) then after_item sr_id (allRecordsNewestFirst env collation s) (i + k) else None) \<and>
      (i < length (all_records s) \<longrightarrow> 0 < k) \<and> k \<le> MAX_SESSIONS_SCANNED_PER_SEARCH"
proof -
  let ?all = "allRecordsNewestFirst env collation s" and ?m = "session_matches toLowerCase (toLowerCase query) (lx_disk s)"
  let ?cap = "min (case limit of None \<Rightarrow> MAX_SEARCH_MATCHES | Some n \<Rightarrow> n) MAX_SEARCH_MATCHES"
  obtain k where k: "scan ?m ?cap MAX_SESSIONS_SCANNED_PER_SEARCH (drop i ?all) [] None =
      (concat (map ?m (take k (drop i ?all))), if k < length (drop i ?all) then Some (encodeCursor (sr_id (drop i ?all ! (k - 1)))) else None)"
      "drop i ?all \<noteq> [] \<longrightarrow> 0 < k" "k \<le> MAX_SESSIONS_SCANNED_PER_SEARCH"
    using scan_first [of MAX_SESSIONS_SCANNED_PER_SEARCH ?m ?cap "drop i ?all"] by (auto simp: MAX_SESSIONS_SCANNED_PER_SEARCH_def)
  have next_cursor: "(if k < length (drop i ?all) then Some (encodeCursor (sr_id (drop i ?all ! (k - 1)))) else None) =
      (if i + k < length (all_records s) then after_item sr_id ?all (i + k) else None)"
    using k(2) by (auto simp: after_item_def)
  have "searchEvents env collation toLowerCase s query (after_item sr_id ?all i) limit =
      Inr (concat (map ?m (take k (drop i ?all))), if i + k < length (all_records s) then after_item sr_id ?all (i + k) else None)"
    unfolding searchEvents_def Let_def session_start [OF assms, of env collation] sum.case k(1) next_cursor ..
  with k show ?thesis by (intro exI [of _ k]) simp
qed

interpretation search_pages: paged "\<lambda>(env, collation, toLowerCase, s, query, limit). allRecordsNewestFirst env collation s"
  "\<lambda>(env, collation, toLowerCase, s, query, limit). session_matches toLowerCase (toLowerCase query) (lx_disk s)" "\<lambda>_. sr_id"
  "\<lambda>(env, collation, toLowerCase, s, query, limit) cursor. searchEvents env collation toLowerCase s query cursor limit"
  "\<lambda>(env, collation, toLowerCase, s, query, limit). distinct (map sr_id (all_records s))"
  by unfold_locales (use search_after in \<open>fastforce\<close>)

lemma excerpt_bounded: "m \<in> set (session_matches toLowerCase needle d r) \<Longrightarrow> utf8_units (sm_excerpt m) \<le> MAX_SEARCH_EXCERPT_BYTES"
  by (auto simp: session_matches_def event_match_def buildExcerpt_def Let_def truncateToBytes_bytes split: option.splits)

lemma newest_sorted: "sorted (map (\<lambda>r. - the_default 0 (se_parse env (sr_startedAt r))) (allRecordsNewestFirst env collation s))"
  by (simp add: allRecordsNewestFirst_def)

lemma home_located:
  assumes "store_ok X s" "get_record s sid = Some r"
  shows "\<exists>l. locate s sid = Some (sr_rootSessionId r, l, r)"
proof -
  have mem: "mem_ok s" and good: "good_trail X s" using assms(1) by (auto simp: store_ok_def)
  obtain rootId l where at: "locate s sid = Some (rootId, l, r)" using assms(2) by (auto simp: get_record_def)
  then have "jget (lx_lineages s) rootId = Some l" "jget (ln_records l) sid = Some r" using locate_Some by blast+
  then have "sr_rootSessionId r = rootId" using mem_record(2) [OF mem good] by blast
  with at show ?thesis by blast
qed


section \<open>What a reader sees\<close>


text \<open>
  C23. A search misses nothing. In any state the store can be in and whatever the query and the page size, a client
  that follows the cursors of \<^verbatim>\<open>searchEvents\<close> receives the matches of every session, in the order of the listing
  and each session's matches once; one call reads at most 200 logs, and every excerpt has at most 200 bytes. The
  count of matches is not what bounds a page: a session whose log was begun is finished.
\<close>

theorem search_complete:
  assumes "new_lineage_store env rnow now empty_disk = Inr s0" "(lives env sha)\<^sup>*\<^sup>* s0 s"
  shows "let newest = allRecordsNewestFirst env collation s; matches = session_matches toLowerCase (toLowerCase query) (lx_disk s)
         in follow (\<lambda>c. searchEvents env collation toLowerCase s query c limit) (Suc (length newest)) None = Some (concat (map matches newest)) \<and>
            (\<forall>i\<le>length newest. \<exists>k\<le>MAX_SESSIONS_SCANNED_PER_SEARCH.
               searchEvents env collation toLowerCase s query (after_item sr_id newest i) limit =
                 Inr (concat (map matches (take k (drop i newest))), if i + k < length newest then after_item sr_id newest (i + k) else None) \<and>
               (i < length newest \<longrightarrow> 0 < k)) \<and>
            (\<forall>m\<in>set (concat (map matches newest)). utf8_units (sm_excerpt m) \<le> MAX_SEARCH_EXCERPT_BYTES)"
proof -
  note ids = distinct_ids [OF reachable_ok [OF assms]]
  note all = search_pages.follow_all [of "(env, collation, toLowerCase, s, query, limit)" "Suc (length (all_records s))", simplified, OF ids]
  show ?thesis
    unfolding Let_def length_newest
  proof (intro conjI allI impI ballI)
    show "\<exists>k\<le>MAX_SESSIONS_SCANNED_PER_SEARCH.
        searchEvents env collation toLowerCase s query (after_item sr_id (allRecordsNewestFirst env collation s) i) limit =
          Inr (concat (map (session_matches toLowerCase (toLowerCase query) (lx_disk s)) (take k (drop i (allRecordsNewestFirst env collation s)))),
            if i + k < length (all_records s) then after_item sr_id (allRecordsNewestFirst env collation s) (i + k) else None) \<and>
        (i < length (all_records s) \<longrightarrow> 0 < k)" if "i \<le> length (all_records s)" for i
      using search_after [OF ids that, of env collation toLowerCase query limit] by blast
  qed (use all excerpt_bounded in auto)
qed

definition ex_number :: "nat list \<Rightarrow> rat option" where
  "ex_number ds = Some (of_nat (foldl (\<lambda>n d. 10 * n + (d - 48)) 0 ds))"

lemma ex_number_digits: "foldl (\<lambda>n d. 10 * n + (d - 48)) 0 (map code (show_nat n)) = n"
proof (induction n rule: show_nat.induct)
  case (1 n)
  have digit: "code (digit_char d) - 48 = d" if "d < 10" for d using that by (simp add: digit_char_def)
  show ?case
  proof (cases "n < 10")
    case True
    then show ?thesis by (subst show_nat.simps) (simp add: digit)
  next
    case False
    then have "foldl (\<lambda>n d. 10 * n + (d - 48)) 0 (map code (show_nat (n div 10))) = n div 10" using 1 by simp
    then show ?thesis using False by (subst show_nat.simps) (simp add: digit)
  qed
qed

lemma ex_accepted_log: "\<exists>r. get_record ex_accepted ''a'' = Some r \<and> readEventLog (lx_disk ex_accepted) (sr_rootSessionId r) ''a'' = []"
proof -
  have "map_option (\<lambda>r. readEventLog (lx_disk ex_accepted) (sr_rootSessionId r) ''a'') (get_record ex_accepted ''a'') = Some []" by code_simp
  then show ?thesis by auto
qed


theorem search_complete_witness:
  "follow (\<lambda>c. searchEvents ex_store_env (\<lambda>_. 0) (\<lambda>t. t) ex_accepted [104] c (Some 1)) 2 None =
     Some (concat (map (session_matches (\<lambda>t. t) [104] (lx_disk ex_accepted)) (allRecordsNewestFirst ex_store_env (\<lambda>_. 0) ex_accepted)))"
proof -
  have "length (allRecordsNewestFirst ex_store_env (\<lambda>_. 0) ex_accepted) = 1" by code_simp
  then show ?thesis
    using search_complete [OF ex_opened_new ex_accepted_reached, of "\<lambda>_. 0" "\<lambda>t. t" "[104]" "Some 1"]
    by (simp add: Let_def numeral_2_eq_2)
qed

end
