(* ===== verification/Search_Plan_Ledger.thy ===== *)
theory Search_Plan_Ledger
  imports Js_Strings
begin

text \<open>
  The one envelope a search plan runs in (\<^verbatim>\<open>packages/vacancy-engine/src/global-remote/search-plan-ledger.ts\<close>).

  The ledger, the passes and the calls are objects that the source shares by reference between the
  clients of a plan; here the ledger holds them in lists and the operations name them by index. A call is
  the source's \<^verbatim>\<open>CallState\<close> together with the scope it runs in. The clock is an argument, and the operations
  of many concurrent calls interleave freely: a run is any sequence of the steps of \<open>plan_step\<close>.
\<close>

section \<open>Refusals\<close>

datatype SearchPlanRefusal = Refuse_request | Refuse_time

fun REFUSAL_MESSAGES :: "SearchPlanRefusal \<Rightarrow> string" where
  "REFUSAL_MESSAGES Refuse_request = ''Not asked: the search plan had used its whole shared request allowance.''"
| "REFUSAL_MESSAGES Refuse_time = ''Not asked: the search plan had used its whole shared time allowance.''"

fun CUT_MESSAGES :: "SearchPlanRefusal \<Rightarrow> string" where
  "CUT_MESSAGES Refuse_request =
     ''Stopped after asking: the search plan used its whole shared request allowance before this source finished.''"
| "CUT_MESSAGES Refuse_time =
     ''Stopped after asking: the search plan used its whole shared time allowance before this source finished.''"

datatype plan_error =
  SearchPlanBudgetError (budget_kind: SearchPlanRefusal) (after_contact: bool)
| SearchPlanTransportError

fun budget_error_message :: "plan_error \<Rightarrow> string option" where
  "budget_error_message (SearchPlanBudgetError kind afterContact) =
     Some (if afterContact then CUT_MESSAGES kind else REFUSAL_MESSAGES kind)"
| "budget_error_message SearchPlanTransportError = None"

fun isSearchPlanBudgetError :: "plan_error \<Rightarrow> bool" where
  "isSearchPlanBudgetError (SearchPlanBudgetError k a) = True"
| "isSearchPlanBudgetError SearchPlanTransportError = False"

definition isSearchPlanCutMessage :: "string option \<Rightarrow> bool" where
  "isSearchPlanCutMessage message \<longleftrightarrow>
     message = Some (CUT_MESSAGES Refuse_request) \<or> message = Some (CUT_MESSAGES Refuse_time)"

definition isSearchPlanRefusalMessage :: "string option \<Rightarrow> bool" where
  "isSearchPlanRefusalMessage message \<longleftrightarrow>
     message = Some (REFUSAL_MESSAGES Refuse_request) \<or> message = Some (REFUSAL_MESSAGES Refuse_time) \<or>
     isSearchPlanCutMessage message"


section \<open>Passes, calls and the ledger\<close>

record ProviderQuota =
  pq_limit :: nat
  pq_used :: nat
  pq_done :: bool

text \<open>The limit \<open>None\<close> is \<^verbatim>\<open>Infinity\<close>.\<close>

record SearchPlanPass =
  pp_id :: string
  pp_limit :: "nat option"
  pp_used :: nat
  pp_refused :: "SearchPlanRefusal option"
  pp_quotas :: "(string, ProviderQuota) jmap option"
  pp_pool :: nat

datatype PlanAdmissionEvent = Sent_call | Unsent_call SearchPlanRefusal | Refused_follow_up SearchPlanRefusal

record CallState =
  cs_pass :: nat
  cs_provider :: "string option"
  cs_attempts :: nat
  cs_refused :: "SearchPlanRefusal option"
  cs_events :: "PlanAdmissionEvent list"

record SearchPlanEnvelope =
  en_maxRequests :: nat
  en_maxDurationMs :: int
  en_maxResults :: nat

record SearchPlanLedger =
  sl_envelope :: SearchPlanEnvelope
  sl_startedAt :: int
  sl_attempts :: nat
  sl_literalAttempts :: nat
  sl_variantAttempts :: nat
  sl_refusedCalls :: nat
  sl_refusedFollowUps :: nat
  sl_matchingRows :: nat
  sl_trimmedRows :: nat
  sl_firstRefusal :: "SearchPlanRefusal option"
  sl_aborted :: bool
  sl_passes :: "SearchPlanPass list"
  sl_calls :: "CallState list"

definition new_plan_ledger :: "SearchPlanEnvelope \<Rightarrow> int \<Rightarrow> SearchPlanLedger" where
  "new_plan_ledger envelope now =
     \<lparr>sl_envelope = envelope, sl_startedAt = now, sl_attempts = 0, sl_literalAttempts = 0, sl_variantAttempts = 0,
      sl_refusedCalls = 0, sl_refusedFollowUps = 0, sl_matchingRows = 0, sl_trimmedRows = 0, sl_firstRefusal = None,
      sl_aborted = (en_maxDurationMs envelope \<le> 0), sl_passes = [], sl_calls = []\<rparr>"

definition deadlineAt :: "SearchPlanLedger \<Rightarrow> int" where
  "deadlineAt L = sl_startedAt L + en_maxDurationMs (sl_envelope L)"

definition elapsedMs :: "int \<Rightarrow> SearchPlanLedger \<Rightarrow> int" where
  "elapsedMs now L = max 0 (now - sl_startedAt L)"

definition timeExhausted :: "int \<Rightarrow> SearchPlanLedger \<Rightarrow> bool \<times> SearchPlanLedger" where
  "timeExhausted now L =
     (let L1 = (if \<not> sl_aborted L \<and> now \<ge> deadlineAt L then L\<lparr>sl_aborted := True\<rparr> else L)
      in (sl_aborted L1, L1))"

definition remainingRequests :: "SearchPlanLedger \<Rightarrow> nat" where
  "remainingRequests L = en_maxRequests (sl_envelope L) - sl_attempts L"

definition remainingResults :: "SearchPlanLedger \<Rightarrow> nat" where
  "remainingResults L = en_maxResults (sl_envelope L) - sl_matchingRows L"

definition literalPass :: SearchPlanPass where
  "literalPass = \<lparr>pp_id = ''literal'', pp_limit = None, pp_used = 0, pp_refused = None, pp_quotas = None, pp_pool = 0\<rparr>"

definition quota_share :: "nat \<Rightarrow> nat \<Rightarrow> nat \<Rightarrow> nat" where
  "quota_share limit n index = (if n = 0 then 0 else limit div n + (if index < limit mod n then 1 else 0))"

definition variant_quotas :: "nat \<Rightarrow> string list \<Rightarrow> (string, ProviderQuota) jmap" where
  "variant_quotas limit providers =
     foldl (\<lambda>quotas (index, provider).
              jset quotas provider \<lparr>pq_limit = quota_share limit (length providers) index, pq_used = 0, pq_done = False\<rparr>)
       [] (enumerate 0 providers)"

definition variantPass :: "string \<Rightarrow> nat \<Rightarrow> string list \<Rightarrow> SearchPlanPass" where
  "variantPass i limit providers =
     \<lparr>pp_id = i, pp_limit = Some limit, pp_used = 0, pp_refused = None,
      pp_quotas = (if length providers = 0 then None else Some (variant_quotas limit providers)), pp_pool = 0\<rparr>"

definition finishProvider :: "string \<Rightarrow> SearchPlanPass \<Rightarrow> SearchPlanPass" where
  "finishProvider provider pass =
     (case pp_quotas pass of
        None \<Rightarrow> pass
      | Some quotas \<Rightarrow>
          (case jget quotas provider of
             None \<Rightarrow> pass
           | Some quota \<Rightarrow>
               if pq_done quota then pass
               else pass\<lparr>pp_pool := pp_pool pass + (pq_limit quota - pq_used quota),
                         pp_quotas := Some (jset quotas provider (quota\<lparr>pq_done := True, pq_limit := pq_used quota\<rparr>))\<rparr>))"

text \<open>The part of \<^verbatim>\<open>#refusalFor\<close> that concerns the pass: its limit, then the provider's share and the pool.\<close>

definition pass_refusal :: "string option \<Rightarrow> bool \<Rightarrow> SearchPlanPass \<Rightarrow> SearchPlanRefusal option \<times> SearchPlanPass" where
  "pass_refusal provider consumePool pass =
     (if (case pp_limit pass of Some l \<Rightarrow> pp_used pass \<ge> l | None \<Rightarrow> False) then (Some Refuse_request, pass)
      else case (provider, pp_quotas pass) of
             (Some p, Some quotas) \<Rightarrow>
               (let quota = jget quotas p
                in if (case quota of None \<Rightarrow> True | Some q \<Rightarrow> pq_used q \<ge> pq_limit q)
                   then if pp_pool pass = 0 then (Some Refuse_request, pass)
                        else if consumePool
                        then (None, pass\<lparr>pp_pool := pp_pool pass - 1,
                                pp_quotas := Some (case quota of
                                    None \<Rightarrow> jset quotas p \<lparr>pq_limit = 1, pq_used = 0, pq_done = False\<rparr>
                                  | Some q \<Rightarrow> jset quotas p (q\<lparr>pq_limit := pq_limit q + 1\<rparr>))\<rparr>)
                        else (None, pass)
                   else (None, pass))
           | _ \<Rightarrow> (None, pass))"

definition refusalFor :: "int \<Rightarrow> nat \<Rightarrow> string option \<Rightarrow> bool \<Rightarrow> SearchPlanLedger \<Rightarrow> SearchPlanRefusal option \<times> SearchPlanLedger" where
  "refusalFor now pass provider consumePool L =
     (let (exhausted, L1) = timeExhausted now L
      in if exhausted then (Some Refuse_time, L1)
         else if sl_attempts L1 \<ge> en_maxRequests (sl_envelope L1) then (Some Refuse_request, L1)
         else let (r, p) = pass_refusal provider consumePool (sl_passes L1 ! pass)
              in (r, L1\<lparr>sl_passes := (sl_passes L1)[pass := p]\<rparr>))"

text \<open>\<^verbatim>\<open>x ??= kind\<close>\<close>

definition coalesce :: "'a option \<Rightarrow> 'a \<Rightarrow> 'a option" where
  "coalesce x d = (case x of None \<Rightarrow> Some d | Some y \<Rightarrow> Some y)"

definition refuse :: "nat \<Rightarrow> SearchPlanRefusal \<Rightarrow> bool \<Rightarrow> SearchPlanLedger \<Rightarrow> plan_error \<times> SearchPlanLedger" where
  "refuse c kind firstContact L =
     (let call = sl_calls L ! c;
          pass = sl_passes L ! cs_pass call;
          L1 = L\<lparr>sl_passes := (sl_passes L)[cs_pass call := pass\<lparr>pp_refused := coalesce (pp_refused pass) kind\<rparr>],
                 sl_firstRefusal := coalesce (sl_firstRefusal L) kind\<rparr>;
          L2 = (if cs_refused call = None
                then if cs_attempts call = 0 \<and> firstContact
                     then L1\<lparr>sl_refusedCalls := sl_refusedCalls L1 + 1,
                             sl_calls := (sl_calls L1)[c := call\<lparr>cs_refused := Some kind, cs_events := cs_events call @ [Unsent_call kind]\<rparr>]\<rparr>
                     else L1\<lparr>sl_refusedFollowUps := sl_refusedFollowUps L1 + 1,
                             sl_calls := (sl_calls L1)[c := call\<lparr>cs_refused := Some kind, cs_events := cs_events call @ [Refused_follow_up kind]\<rparr>]\<rparr>
                else L1)
      in (SearchPlanBudgetError kind (cs_attempts call > 0), L2))"

text \<open>The counters charged by \<^verbatim>\<open>admit\<close> once nothing refuses the attempt.\<close>

definition charge_pass :: "string option \<Rightarrow> SearchPlanPass \<Rightarrow> SearchPlanPass" where
  "charge_pass provider pass =
     (let p1 = pass\<lparr>pp_used := pp_used pass + 1\<rparr>
      in case (provider, pp_quotas p1) of
           (Some p, Some quotas) \<Rightarrow>
             (case jget quotas p of
                Some q \<Rightarrow> p1\<lparr>pp_quotas := Some (jset quotas p (q\<lparr>pq_used := pq_used q + 1\<rparr>))\<rparr>
              | None \<Rightarrow> p1)
         | _ \<Rightarrow> p1)"

definition charge :: "nat \<Rightarrow> SearchPlanLedger \<Rightarrow> SearchPlanLedger" where
  "charge c L =
     (let call = sl_calls L ! c;
          pass = sl_passes L ! cs_pass call;
          literal = (pp_id pass = ''literal'')
      in L\<lparr>sl_attempts := sl_attempts L + 1,
           sl_literalAttempts := (if literal then sl_literalAttempts L + 1 else sl_literalAttempts L),
           sl_variantAttempts := (if literal then sl_variantAttempts L else sl_variantAttempts L + 1),
           sl_passes := (sl_passes L)[cs_pass call := charge_pass (cs_provider call) pass],
           sl_calls := (sl_calls L)[c := call\<lparr>cs_attempts := cs_attempts call + 1,
              cs_events := (if cs_attempts call = 0 then cs_events call @ [Sent_call] else cs_events call)\<rparr>]\<rparr>)"

definition admit :: "int \<Rightarrow> nat \<Rightarrow> nat \<Rightarrow> nat \<Rightarrow> SearchPlanLedger \<Rightarrow> (plan_error + unit) \<times> SearchPlanLedger" where
  "admit now c retryIndex redirectIndex L =
     (let call = sl_calls L ! c;
          firstContact = (retryIndex = 0 \<and> redirectIndex = 0)
      in case cs_refused call of
           Some kind \<Rightarrow> (Inl (SearchPlanBudgetError kind (cs_attempts call > 0)), L)
         | None \<Rightarrow>
             (case refusalFor now (cs_pass call) (cs_provider call) True L of
                (Some kind, L1) \<Rightarrow> (let (e, L2) = refuse c kind firstContact L1 in (Inl e, L2))
              | (None, L1) \<Rightarrow> (Inr (), charge c L1)))"

text \<open>The start of a client's call: its scope is created and the early refusal is checked without drawing from the pool.\<close>

definition begin_call :: "int \<Rightarrow> nat \<Rightarrow> string option \<Rightarrow> SearchPlanLedger \<Rightarrow> (plan_error + nat) \<times> SearchPlanLedger" where
  "begin_call now pass provider L =
     (let c = length (sl_calls L);
          L1 = L\<lparr>sl_calls := sl_calls L @ [\<lparr>cs_pass = pass, cs_provider = provider, cs_attempts = 0, cs_refused = None, cs_events = []\<rparr>]\<rparr>
      in case refusalFor now pass provider False L1 of
           (Some early, L2) \<Rightarrow> (let (e, L3) = refuse c early True L2 in (Inl e, L3))
         | (None, L2) \<Rightarrow> (Inr c, L2))"

text \<open>What a call whose transport answered returns.\<close>

definition end_call :: "nat \<Rightarrow> SearchPlanLedger \<Rightarrow> plan_error option" where
  "end_call c L = (if cs_attempts (sl_calls L ! c) = 0 then Some SearchPlanTransportError else None)"

text \<open>The race of a call against the deadline: it is cut once the signal has aborted.\<close>

definition beforeDeadline :: "nat \<Rightarrow> SearchPlanLedger \<Rightarrow> plan_error option \<times> SearchPlanLedger" where
  "beforeDeadline c L =
     (if sl_aborted L then (let (e, L1) = refuse c Refuse_time True L in (Some e, L1)) else (None, L))"

definition fire_deadline :: "SearchPlanLedger \<Rightarrow> SearchPlanLedger" where
  "fire_deadline L = L\<lparr>sl_aborted := True\<rparr>"

datatype plan_op =
  Start_literal
| Start_variant string nat "string list"
| Begin_call int nat "string option"
| Admit int nat nat nat
| Finish_provider nat string
| Cut_call nat
| Deadline_fires

fun plan_step :: "SearchPlanLedger \<Rightarrow> plan_op \<Rightarrow> SearchPlanLedger" where
  "plan_step L Start_literal = L\<lparr>sl_passes := sl_passes L @ [literalPass]\<rparr>"
| "plan_step L (Start_variant i limit providers) = L\<lparr>sl_passes := sl_passes L @ [variantPass i limit providers]\<rparr>"
| "plan_step L (Begin_call now pass provider) =
     (if pass < length (sl_passes L) then snd (begin_call now pass provider L) else L)"
| "plan_step L (Admit now c retry redirect) = (if c < length (sl_calls L) then snd (admit now c retry redirect L) else L)"
| "plan_step L (Finish_provider pass provider) =
     (if pass < length (sl_passes L)
      then L\<lparr>sl_passes := (sl_passes L)[pass := finishProvider provider (sl_passes L ! pass)]\<rparr> else L)"
| "plan_step L (Cut_call c) = (if c < length (sl_calls L) then snd (beforeDeadline c L) else L)"
| "plan_step L Deadline_fires = fire_deadline L"



section \<open>Passes\<close>

definition pass_ok :: "SearchPlanPass \<Rightarrow> bool" where
  "pass_ok p \<longleftrightarrow> (case pp_limit p of None \<Rightarrow> True | Some l \<Rightarrow> pp_used p \<le> l) \<and>
     (case pp_quotas p of None \<Rightarrow> True | Some qs \<Rightarrow> (\<forall>k q. jget qs k = Some q \<longrightarrow> pq_used q \<le> pq_limit q))"

text \<open>What a pass still owns: the shares of its providers and the returned pool.\<close>

definition pass_total :: "SearchPlanPass \<Rightarrow> nat" where
  "pass_total p = (case pp_quotas p of None \<Rightarrow> 0 | Some qs \<Rightarrow> jsum pq_limit qs) + pp_pool p"

text \<open>The part of a pass that no operation on its quotas changes.\<close>

definition same_pass :: "SearchPlanPass \<Rightarrow> SearchPlanPass \<Rightarrow> bool" where
  "same_pass p p' \<longleftrightarrow> pp_id p' = pp_id p \<and> pp_limit p' = pp_limit p \<and> pp_used p' = pp_used p \<and> pass_total p' = pass_total p"

lemma same_pass_refl [simp]: "same_pass p p"
  by (simp add: same_pass_def)

lemma pass_refused [simp]:
  "pass_ok (p\<lparr>pp_refused := x\<rparr>) = pass_ok p" "pass_total (p\<lparr>pp_refused := x\<rparr>) = pass_total p"
  by (simp_all add: pass_ok_def pass_total_def cong: option.case_cong)

lemma pass_ok_limit: "pass_ok p \<Longrightarrow> pp_limit p = Some l \<Longrightarrow> pp_used p \<le> l"
  by (simp add: pass_ok_def)

lemma finishProvider_ok: "pass_ok p \<Longrightarrow> pass_ok (finishProvider k p)"
  by (auto simp: finishProvider_def pass_ok_def jget_jset split: option.splits if_splits)

lemma finishProvider_same: "pass_ok p \<Longrightarrow> same_pass p (finishProvider k p)"
proof -
  assume ok: "pass_ok p"
  show ?thesis
  proof (cases "\<exists>qs q. pp_quotas p = Some qs \<and> jget qs k = Some q \<and> \<not> pq_done q")
    case True
    then obtain qs q where q: "pp_quotas p = Some qs" "jget qs k = Some q" "\<not> pq_done q" by blast
    from ok q have "pq_used q \<le> pq_limit q" by (auto simp: pass_ok_def)
    with q jsum_jset_old [OF q(2), of pq_limit "q\<lparr>pq_done := True, pq_limit := pq_used q\<rparr>"] show ?thesis
      by (simp add: same_pass_def pass_total_def finishProvider_def)
  qed (auto simp: finishProvider_def split: option.splits)
qed

lemma pass_refusal_same: "pass_refusal k c p = (r, p') \<Longrightarrow> same_pass p p'"
proof -
  assume r: "pass_refusal k c p = (r, p')"
  show ?thesis
  proof (cases "p' = p")
    case False
    with r obtain a qs where a: "k = Some a" "pp_quotas p = Some qs" "pp_pool p \<noteq> 0"
      and p': "p' = p\<lparr>pp_pool := pp_pool p - 1, pp_quotas := Some (case jget qs a of
          None \<Rightarrow> jset qs a \<lparr>pq_limit = 1, pq_used = 0, pq_done = False\<rparr>
        | Some q \<Rightarrow> jset qs a (q\<lparr>pq_limit := pq_limit q + 1\<rparr>))\<rparr>"
      by (auto simp: pass_refusal_def Let_def split: option.splits if_splits)
    show ?thesis
    proof (cases "jget qs a")
      case None
      with a p' show ?thesis by (simp add: same_pass_def pass_total_def jsum_jset_new)
    next
      case (Some q)
      with a p' jsum_jset_old [OF Some, of pq_limit "q\<lparr>pq_limit := pq_limit q + 1\<rparr>"] show ?thesis
        by (simp add: same_pass_def pass_total_def)
    qed
  qed simp
qed

lemma pass_refusal_ok: "pass_refusal k c p = (r, p') \<Longrightarrow> pass_ok p \<Longrightarrow> pass_ok p'"
  by (auto simp: pass_refusal_def pass_ok_def Let_def jget_jset split: option.splits if_splits) (fastforce intro: le_SucI)+

lemma charge_pass_ok:
  assumes r: "pass_refusal k True p = (None, p')" and ok: "pass_ok p"
  shows "pass_ok (charge_pass k p')" and "pp_used (charge_pass k p') = Suc (pp_used p)"
    and "pp_id (charge_pass k p') = pp_id p" and "pass_total (charge_pass k p') = pass_total p"
    and "pp_limit (charge_pass k p') = pp_limit p"
proof -
  have ok': "pass_ok p'" by (rule pass_refusal_ok [OF r ok])
  have same: "same_pass p p'" by (rule pass_refusal_same [OF r])
  have room: "case pp_limit p' of None \<Rightarrow> True | Some l \<Rightarrow> Suc (pp_used p') \<le> l"
    using r by (auto simp: pass_refusal_def Let_def split: option.splits if_splits)
  have quota: "pq_used q < pq_limit q" if "k = Some a" "pp_quotas p' = Some qs" "jget qs a = Some q" for a qs q
    using r ok that by (auto simp: pass_refusal_def pass_ok_def Let_def jget_jset le_imp_less_Suc split: option.splits if_splits)
  show "pass_ok (charge_pass k p')"
    using ok' room quota by (auto simp: charge_pass_def pass_ok_def Let_def jget_jset Suc_le_eq split: option.splits)
  show "pp_used (charge_pass k p') = Suc (pp_used p)" "pp_id (charge_pass k p') = pp_id p" "pp_limit (charge_pass k p') = pp_limit p"
    using same by (auto simp: charge_pass_def Let_def same_pass_def split: option.splits)
  have "pass_total (charge_pass k p') = pass_total p'"
  proof (cases "\<exists>a qs q. k = Some a \<and> pp_quotas p' = Some qs \<and> jget qs a = Some q")
    case True
    then obtain a qs q where q: "k = Some a" "pp_quotas p' = Some qs" "jget qs a = Some q" by blast
    with jsum_jset_old [OF q(3), of pq_limit "q\<lparr>pq_used := pq_used q + 1\<rparr>"] show ?thesis
      by (simp add: charge_pass_def pass_total_def Let_def)
  qed (auto simp: charge_pass_def pass_total_def Let_def split: option.splits)
  with same show "pass_total (charge_pass k p') = pass_total p" by (simp add: same_pass_def)
qed

lemma quotas_fold_unused:
  fixes f :: "nat \<Rightarrow> nat"
  assumes "\<forall>k q. jget m k = Some q \<longrightarrow> pq_used q = 0"
  shows "jget (foldl (\<lambda>quotas (index, provider).
      jset quotas provider \<lparr>pq_limit = f index, pq_used = 0, pq_done = False\<rparr>) m es) k = Some q \<Longrightarrow> pq_used q = 0"
  using assms
proof (induction es arbitrary: m)
  case (Cons e es)
  obtain i p where e: "e = (i, p)" by (cases e)
  show ?case
    by (rule Cons.IH [of "jset m p \<lparr>pq_limit = f i, pq_used = 0, pq_done = False\<rparr>"])
      (use Cons.prems e in \<open>auto simp: jget_jset\<close>)
qed simp

lemma variant_quotas_get: "jget (variant_quotas limit ps) k = Some q \<Longrightarrow> pq_used q = 0"
  by (rule quotas_fold_unused [of "[]" "quota_share limit (length ps)" "enumerate 0 ps" k]) (simp_all add: variant_quotas_def)

lemma new_pass_ok: "pass_ok literalPass" "pass_ok (variantPass i limit ps)"
  by (auto simp: pass_ok_def literalPass_def variantPass_def variant_quotas_get)



section \<open>The ledger\<close>

definition refused_calls :: "CallState list \<Rightarrow> nat" where
  "refused_calls cs = sum_list (map (\<lambda>c. if cs_refused c = None then 0 else 1) cs)"

lemma refused_calls_update:
  "c < length cs \<Longrightarrow> refused_calls (cs[c := x]) + (if cs_refused (cs ! c) = None then 0 else 1) =
     refused_calls cs + (if cs_refused x = None then 0 else 1)"
  unfolding refused_calls_def by (rule sum_list_update_nat)

text \<open>What is recorded of a call: that it was sent, and at most one refusal.\<close>

definition call_ok :: "CallState \<Rightarrow> bool" where
  "call_ok c \<longleftrightarrow>
     cs_events c = (if cs_attempts c > 0 then [Sent_call] else []) @
       (case cs_refused c of
          None \<Rightarrow> []
        | Some k \<Rightarrow> if cs_attempts c = 0 \<and> last (cs_events c) = Unsent_call k then [Unsent_call k] else [Refused_follow_up k])"

definition ledger_ok :: "SearchPlanLedger \<Rightarrow> bool" where
  "ledger_ok L \<longleftrightarrow>
     sl_attempts L \<le> en_maxRequests (sl_envelope L) \<and>
     sl_literalAttempts L + sl_variantAttempts L = sl_attempts L \<and>
     sum_list (map pp_used (sl_passes L)) = sl_attempts L \<and>
     sl_refusedCalls L + sl_refusedFollowUps L = refused_calls (sl_calls L) \<and>
     list_all pass_ok (sl_passes L) \<and>
     list_all (\<lambda>c. call_ok c \<and> cs_pass c < length (sl_passes L)) (sl_calls L)"

lemma timeExhausted_keeps: "timeExhausted now L = (b, L1) \<Longrightarrow> L1 = L\<lparr>sl_aborted := b\<rparr>"
  by (auto simp: timeExhausted_def Let_def split: if_splits)

lemma refusalFor_cases:
  assumes "refusalFor now i k c L = (r, L1)"
  obtains b where "L1 = L\<lparr>sl_aborted := b\<rparr>" "r \<noteq> None"
    "r = Some Refuse_time \<or> (b = False \<and> sl_attempts L \<ge> en_maxRequests (sl_envelope L))"
  | p where "L1 = L\<lparr>sl_aborted := False, sl_passes := (sl_passes L)[i := p]\<rparr>" "pass_refusal k c (sl_passes L ! i) = (r, p)"
    "sl_attempts L < en_maxRequests (sl_envelope L)"
proof -
  obtain b L0 where t: "timeExhausted now L = (b, L0)" by fastforce
  note L0 = timeExhausted_keeps [OF t]
  obtain r' p where p: "pass_refusal k c (sl_passes L ! i) = (r', p)" by fastforce
  show thesis
  proof (cases b)
    case True
    with assms t L0 that(1) [of True] show thesis by (auto simp: refusalFor_def)
  next
    case False
    show thesis
    proof (cases "sl_attempts L \<ge> en_maxRequests (sl_envelope L)")
      case True
      with False assms t L0 that(1) [of False] show thesis by (auto simp: refusalFor_def)
    next
      case full: False
      with False assms t L0 p have "L1 = L\<lparr>sl_aborted := False, sl_passes := (sl_passes L)[i := p]\<rparr>" "r' = r"
        by (auto simp: refusalFor_def Let_def)
      with full p that(2) [of p] show thesis by simp
    qed
  qed
qed

lemma ledger_ok_pass:
  assumes "ledger_ok L" "pass_ok p" "pp_used p = pp_used (sl_passes L ! i)"
  shows "ledger_ok (L\<lparr>sl_passes := (sl_passes L)[i := p]\<rparr>)"
proof -
  have "map pp_used ((sl_passes L)[i := p]) = map pp_used (sl_passes L)"
    by (rule map_update_same) (rule assms(3))
  with assms(1,2) show ?thesis by (simp add: ledger_ok_def list_all_update)
qed

lemma ledger_ok_aborted: "ledger_ok L \<Longrightarrow> ledger_ok (L\<lparr>sl_aborted := b\<rparr>)"
  by (simp add: ledger_ok_def)

lemma pass_at: "ledger_ok L \<Longrightarrow> i < length (sl_passes L) \<Longrightarrow> pass_ok (sl_passes L ! i)"
  by (simp add: ledger_ok_def list_all_length)

lemma ledger_ok_refusalFor:
  assumes ok: "ledger_ok L" and i: "i < length (sl_passes L)" and r: "refusalFor now i k c L = (r, L1)"
  shows "ledger_ok L1"
  using r
proof (cases rule: refusalFor_cases)
  case (1 b)
  with ok show ?thesis by (simp add: ledger_ok_aborted)
next
  case (2 p)
  from pass_refusal_same [OF 2(2)] pass_refusal_ok [OF 2(2) pass_at [OF ok i]]
  have "pass_ok p" "pp_used p = pp_used (sl_passes L ! i)" by (simp_all add: same_pass_def)
  with ledger_ok_pass [OF ledger_ok_aborted [OF ok, of False], of p i] 2(1) show ?thesis by simp
qed

lemma refusalFor_keeps:
  assumes "refusalFor now i k c L = (r, L1)"
  shows "sl_calls L1 = sl_calls L" "length (sl_passes L1) = length (sl_passes L)"
  using assms by (cases rule: refusalFor_cases; simp)+

lemma refuse_calls:
  assumes "c < length (sl_calls L)"
  shows "sl_calls (snd (refuse c kind fc L)) =
    (if cs_refused (sl_calls L ! c) = None
     then (sl_calls L)[c := (sl_calls L ! c)\<lparr>cs_refused := Some kind, cs_events := cs_events (sl_calls L ! c) @
        [if cs_attempts (sl_calls L ! c) = 0 \<and> fc then Unsent_call kind else Refused_follow_up kind]\<rparr>]
     else sl_calls L)"
  by (simp add: refuse_def Let_def)

lemma ledger_ok_refuse:
  assumes ok: "ledger_ok L" and c: "c < length (sl_calls L)"
  shows "ledger_ok (snd (refuse c kind fc L))"
proof -
  let ?call = "sl_calls L ! c" and ?L' = "snd (refuse c kind fc L)"
  let ?p = "(sl_passes L ! cs_pass ?call)\<lparr>pp_refused := coalesce (pp_refused (sl_passes L ! cs_pass ?call)) kind\<rparr>"
  from ok c have call: "call_ok ?call" "cs_pass ?call < length (sl_passes L)" by (simp_all add: ledger_ok_def list_all_length)
  have passes: "sl_passes ?L' = (sl_passes L)[cs_pass ?call := ?p]" by (simp add: refuse_def Let_def)
  have p: "pass_ok ?p" using pass_at [OF ok call(2)] by simp
  have used: "map pp_used (sl_passes ?L') = map pp_used (sl_passes L)"
    unfolding passes by (rule map_update_same) simp
  have allp: "list_all pass_ok (sl_passes ?L')"
    unfolding passes using ok p by (simp add: ledger_ok_def list_all_update)
  have len: "length (sl_passes ?L') = length (sl_passes L)" by (simp add: passes)
  have counts: "sl_attempts ?L' = sl_attempts L" "sl_envelope ?L' = sl_envelope L"
    "sl_literalAttempts ?L' = sl_literalAttempts L" "sl_variantAttempts ?L' = sl_variantAttempts L"
    "sl_refusedCalls ?L' + sl_refusedFollowUps ?L' =
       sl_refusedCalls L + sl_refusedFollowUps L + (if cs_refused ?call = None then 1 else 0)"
    by (auto simp: refuse_def Let_def)
  have "refused_calls ((sl_calls L)[c := x]) = Suc (refused_calls (sl_calls L))"
    if "cs_refused ?call = None" "cs_refused x = Some kind" for x
    using refused_calls_update [OF c, of x] that by simp
  then have refused: "refused_calls (sl_calls ?L') = refused_calls (sl_calls L) + (if cs_refused ?call = None then 1 else 0)"
    by (simp add: refuse_calls [OF c])
  have "call_ok (?call\<lparr>cs_refused := Some kind, cs_events := cs_events ?call @
        [if cs_attempts ?call = 0 \<and> fc then Unsent_call kind else Refused_follow_up kind]\<rparr>)"
    if "cs_refused ?call = None" using call(1) that by (auto simp: call_ok_def)
  then have "list_all (\<lambda>c. call_ok c \<and> cs_pass c < length (sl_passes L)) (sl_calls ?L')"
    unfolding refuse_calls [OF c] using ok call(2) by (simp add: ledger_ok_def list_all_update)
  with ok used allp len counts refused show ?thesis by (simp add: ledger_ok_def)
qed


lemma call_ok_charge:
  "call_ok x \<Longrightarrow> cs_refused x = None \<Longrightarrow>
     call_ok (x\<lparr>cs_attempts := cs_attempts x + 1, cs_events := (if cs_attempts x = 0 then cs_events x @ [Sent_call] else cs_events x)\<rparr>)"
  by (auto simp: call_ok_def)

lemma ledger_ok_charge:
  assumes ok: "ledger_ok L" and c: "c < length (sl_calls L)" and n: "cs_refused (sl_calls L ! c) = None"
    and r: "refusalFor now (cs_pass (sl_calls L ! c)) (cs_provider (sl_calls L ! c)) True L = (None, L1)"
  shows "ledger_ok (charge c L1)"
  using r
proof (cases rule: refusalFor_cases)
  case (2 p)
  let ?call = "sl_calls L ! c" let ?i = "cs_pass ?call" and ?k = "cs_provider ?call" let ?q = "charge_pass ?k p"
  from ok c have call: "call_ok ?call" "?i < length (sl_passes L)" by (simp_all add: ledger_ok_def list_all_length)
  note q = charge_pass_ok [OF 2(2) pass_at [OF ok call(2)]]
  let ?L' = "charge c L1"
  have passes: "sl_passes ?L' = (sl_passes L)[?i := ?q]" using call(2) by (simp add: charge_def Let_def 2(1))
  have sum: "sum_list (map pp_used (sl_passes ?L')) = Suc (sum_list (map pp_used (sl_passes L)))"
    using sum_list_update_nat [OF call(2), of pp_used ?q] q(2) by (simp add: passes)
  have "list_all pass_ok (sl_passes ?L')" unfolding passes using ok q(1) by (simp add: ledger_ok_def list_all_update)
  moreover have "sl_attempts ?L' = Suc (sl_attempts L)" "sl_envelope ?L' = sl_envelope L"
    "sl_literalAttempts ?L' + sl_variantAttempts ?L' = Suc (sl_literalAttempts L + sl_variantAttempts L)"
    "sl_refusedCalls ?L' = sl_refusedCalls L" "sl_refusedFollowUps ?L' = sl_refusedFollowUps L"
    by (simp_all add: charge_def Let_def 2(1))
  moreover have calls: "sl_calls ?L' = (sl_calls L)[c := ?call\<lparr>cs_attempts := cs_attempts ?call + 1,
      cs_events := (if cs_attempts ?call = 0 then cs_events ?call @ [Sent_call] else cs_events ?call)\<rparr>]"
    by (simp add: charge_def Let_def 2(1))
  moreover have "refused_calls (sl_calls ?L') = refused_calls (sl_calls L)"
    using refused_calls_update [OF c] n by (simp add: calls)
  moreover have "list_all (\<lambda>c. call_ok c \<and> cs_pass c < length (sl_passes L)) (sl_calls ?L')"
    unfolding calls using ok call(2) call_ok_charge [OF call(1) n] by (simp add: ledger_ok_def list_all_update)
  ultimately show ?thesis using ok sum 2(3) by (simp add: ledger_ok_def passes)
qed simp

lemma ledger_ok_admit:
  assumes ok: "ledger_ok L" and c: "c < length (sl_calls L)"
  shows "ledger_ok (snd (admit now c rt rd L))"
proof -
  let ?call = "sl_calls L ! c"
  from ok c have i: "cs_pass ?call < length (sl_passes L)" by (simp add: ledger_ok_def list_all_length)
  obtain r L1 where r: "refusalFor now (cs_pass ?call) (cs_provider ?call) True L = (r, L1)" by fastforce
  have ok1: "ledger_ok L1" by (rule ledger_ok_refusalFor [OF ok i r])
  have c1: "c < length (sl_calls L1)" using c refusalFor_keeps(1) [OF r] by simp
  show ?thesis
  proof (cases "cs_refused ?call")
    case None
    show ?thesis
    proof (cases r)
      case None
      with ledger_ok_charge [OF ok c \<open>cs_refused ?call = None\<close>] r \<open>cs_refused ?call = None\<close> show ?thesis
        by (simp add: admit_def Let_def)
    next
      case (Some k)
      with ledger_ok_refuse [OF ok1 c1] r \<open>cs_refused ?call = None\<close> show ?thesis
        by (simp add: admit_def Let_def case_prod_beta)
    qed
  qed (use ok in \<open>simp add: admit_def Let_def\<close>)
qed

lemma ledger_ok_begin:
  assumes ok: "ledger_ok L" and i: "i < length (sl_passes L)"
  shows "ledger_ok (snd (begin_call now i k L))"
proof -
  let ?new = "\<lparr>cs_pass = i, cs_provider = k, cs_attempts = 0, cs_refused = None, cs_events = []\<rparr>"
  let ?L1 = "L\<lparr>sl_calls := sl_calls L @ [?new]\<rparr>"
  obtain r L2 where r: "refusalFor now i k False ?L1 = (r, L2)" by fastforce
  have ok1: "ledger_ok ?L1" using ok i by (simp add: ledger_ok_def refused_calls_def call_ok_def)
  have ok2: "ledger_ok L2" by (rule ledger_ok_refusalFor [OF ok1 _ r]) (simp add: i)
  have "length (sl_calls L) < length (sl_calls L2)" using refusalFor_keeps(1) [OF r] by simp
  from ledger_ok_refuse [OF ok2 this] ok2 r show ?thesis
    by (cases r) (simp_all add: begin_call_def Let_def case_prod_beta)
qed

lemma ledger_ok_new_pass: "ledger_ok L \<Longrightarrow> pass_ok p \<Longrightarrow> pp_used p = 0 \<Longrightarrow> ledger_ok (L\<lparr>sl_passes := sl_passes L @ [p]\<rparr>)"
  by (auto simp: ledger_ok_def list_all_iff less_Suc_eq)

lemma ledger_ok_step: "ledger_ok L \<Longrightarrow> ledger_ok (plan_step L op)"
proof (cases op)
  case (Finish_provider i k)
  assume ok: "ledger_ok L"
  show ?thesis
  proof (cases "i < length (sl_passes L)")
    case True
    from ledger_ok_pass [OF ok finishProvider_ok [OF pass_at [OF ok True], of k], of i]
      finishProvider_same [OF pass_at [OF ok True], of k] True show ?thesis
      by (simp add: Finish_provider same_pass_def)
  qed (use ok Finish_provider in simp)
next
  case (Cut_call c)
  assume ok: "ledger_ok L"
  then show ?thesis using Cut_call ledger_ok_refuse [OF ok, of c] by (simp add: beforeDeadline_def case_prod_beta)
qed (auto simp: ledger_ok_admit ledger_ok_begin ledger_ok_aborted fire_deadline_def ledger_ok_new_pass new_pass_ok
      literalPass_def [THEN arg_cong [where f = pp_used], simplified] variantPass_def [THEN arg_cong [where f = pp_used], simplified])

interpretation plan: step_system "new_plan_ledger e t" plan_step ledger_ok for e t
proof
  show "ledger_ok (new_plan_ledger e t)" by (simp add: ledger_ok_def new_plan_ledger_def refused_calls_def)
qed (rule ledger_ok_step)



section \<open>Quotas are conserved\<close>

definition keeps_totals :: "SearchPlanLedger \<Rightarrow> SearchPlanLedger \<Rightarrow> bool" where
  "keeps_totals L L' \<longleftrightarrow> length (sl_passes L) \<le> length (sl_passes L') \<and>
     (\<forall>i<length (sl_passes L). pass_total (sl_passes L' ! i) = pass_total (sl_passes L ! i))"

lemma keeps_totals_refl [simp]: "keeps_totals L L"
  by (simp add: keeps_totals_def)

lemma keeps_totals_trans: "keeps_totals L M \<Longrightarrow> keeps_totals M N \<Longrightarrow> keeps_totals L N"
  by (auto simp: keeps_totals_def)

lemma keeps_totals_update:
  "pass_total p = pass_total (sl_passes L ! i) \<Longrightarrow> sl_passes L' = (sl_passes L)[i := p] \<Longrightarrow> keeps_totals L L'"
  by (auto simp: keeps_totals_def) (metis nth_list_update_eq nth_list_update_neq)

lemma keeps_totals_append: "keeps_totals L (L\<lparr>sl_passes := sl_passes L @ [p]\<rparr>)"
  by (simp add: keeps_totals_def nth_append)

lemma keeps_totals_aborted: "keeps_totals L (L\<lparr>sl_aborted := b\<rparr>)"
  by (simp add: keeps_totals_def)

lemma keeps_totals_refuse: "keeps_totals L (snd (refuse c k fc L))"
proof (rule keeps_totals_update)
  let ?i = "cs_pass (sl_calls L ! c)"
  show "sl_passes (snd (refuse c k fc L)) =
      (sl_passes L)[?i := (sl_passes L ! ?i)\<lparr>pp_refused := coalesce (pp_refused (sl_passes L ! ?i)) k\<rparr>]"
    by (simp add: refuse_def Let_def)
qed simp

lemma keeps_totals_refusalFor:
  assumes "refusalFor now i k b L = (r, L1)"
  shows "keeps_totals L L1"
  using assms
proof (cases rule: refusalFor_cases)
  case (1 x)
  then show ?thesis by (simp add: keeps_totals_def)
next
  case (2 p)
  from pass_refusal_same [OF 2(2)] show ?thesis
    by (intro keeps_totals_update [of p L i]) (simp_all add: same_pass_def 2(1))
qed

lemma keeps_totals_charge:
  assumes ok: "ledger_ok L" and c: "c < length (sl_calls L)"
    and r: "refusalFor now (cs_pass (sl_calls L ! c)) (cs_provider (sl_calls L ! c)) True L = (None, L1)"
  shows "keeps_totals L (charge c L1)"
  using r
proof (cases rule: refusalFor_cases)
  case (2 p)
  let ?i = "cs_pass (sl_calls L ! c)"
  from ok c have i: "?i < length (sl_passes L)" by (simp add: ledger_ok_def list_all_length)
  from charge_pass_ok(4) [OF 2(2) pass_at [OF ok i]] i show ?thesis
    by (intro keeps_totals_update [of "charge_pass (cs_provider (sl_calls L ! c)) p" L ?i])
      (simp_all add: charge_def Let_def 2(1))
qed simp

lemma keeps_totals_admit:
  assumes ok: "ledger_ok L" and c: "c < length (sl_calls L)"
  shows "keeps_totals L (snd (admit now c rt rd L))"
proof -
  let ?call = "sl_calls L ! c"
  obtain r L1 where r: "refusalFor now (cs_pass ?call) (cs_provider ?call) True L = (r, L1)" by fastforce
  from keeps_totals_trans [OF keeps_totals_refusalFor [OF r] keeps_totals_refuse] keeps_totals_charge [OF ok c] r
  show ?thesis by (cases r) (auto simp: admit_def Let_def case_prod_beta split: option.split)
qed

lemma keeps_totals_step: "ledger_ok L \<Longrightarrow> keeps_totals L (plan_step L op)"
proof (cases op)
  case (Begin_call now i k)
  assume ok: "ledger_ok L"
  let ?L1 = "L\<lparr>sl_calls := sl_calls L @ [\<lparr>cs_pass = i, cs_provider = k, cs_attempts = 0, cs_refused = None, cs_events = []\<rparr>]\<rparr>"
  obtain r L2 where r: "refusalFor now i k False ?L1 = (r, L2)" by fastforce
  have "keeps_totals L ?L1" by (simp add: keeps_totals_def)
  then have t: "keeps_totals L L2" by (rule keeps_totals_trans [OF _ keeps_totals_refusalFor [OF r]])
  from t keeps_totals_trans [OF t keeps_totals_refuse] r show ?thesis
    by (cases r) (simp_all add: Begin_call begin_call_def Let_def case_prod_beta)
next
  case (Finish_provider i k)
  assume ok: "ledger_ok L"
  show ?thesis
  proof (cases "i < length (sl_passes L)")
    case True
    from finishProvider_same [OF pass_at [OF ok True], of k] True show ?thesis
      by (intro keeps_totals_update [of "finishProvider k (sl_passes L ! i)" L i]) (simp_all add: Finish_provider same_pass_def)
  qed (simp add: Finish_provider)
qed (auto simp: keeps_totals_admit beforeDeadline_def case_prod_beta keeps_totals_refuse keeps_totals_append fire_deadline_def
      keeps_totals_aborted)

lemma keeps_totals_run: "ledger_ok L \<Longrightarrow> keeps_totals L (foldl plan_step L ops)"
proof (induction ops arbitrary: L)
  case (Cons op ops)
  from keeps_totals_trans [OF keeps_totals_step Cons.IH [OF ledger_ok_step]] Cons.prems show ?case by simp
qed simp

lemma sum_shares: "sum_list (map (\<lambda>i. a + (if i < r then 1 else 0)) [0..<n]) = n * a + min r (n :: nat)"
  by (induction n) auto

lemma variant_quotas_distinct:
  assumes "distinct ps"
  shows "variant_quotas limit ps =
    map (\<lambda>(i, p). (p, \<lparr>pq_limit = quota_share limit (length ps) i, pq_used = 0, pq_done = False\<rparr>)) (enumerate 0 ps)"
proof -
  let ?f = "\<lambda>(i, p). (p, \<lparr>pq_limit = quota_share limit (length ps) i, pq_used = 0, pq_done = False\<rparr>)"
  have "variant_quotas limit ps = foldl (\<lambda>m (k, v). jset m k v) [] (map ?f (enumerate 0 ps))"
    by (simp add: variant_quotas_def foldl_map case_prod_unfold)
  also have "\<dots> = [] @ map ?f (enumerate 0 ps)"
    by (rule foldl_jset_distinct) (use assms in \<open>simp add: comp_def case_prod_beta\<close>)
  finally show ?thesis by simp
qed

lemma variant_total: "distinct ps \<Longrightarrow> ps \<noteq> [] \<Longrightarrow> pass_total (variantPass i limit ps) = limit"
proof -
  assume d: "distinct ps" and ne: "ps \<noteq> []"
  have "jsum pq_limit (variant_quotas limit ps) = sum_list (map (quota_share limit (length ps)) (map fst (enumerate 0 ps)))"
    by (simp add: variant_quotas_distinct [OF d] jsum_def comp_def case_prod_unfold del: map_fst_enumerate)
  also have "\<dots> = sum_list (map (\<lambda>i. limit div length ps + (if i < limit mod length ps then 1 else 0)) [0..<length ps])"
    using ne by (simp add: quota_share_def [abs_def])
  also have "\<dots> = length ps * (limit div length ps) + min (limit mod length ps) (length ps)"
    by (rule sum_shares)
  also have "\<dots> = limit" using ne by (simp add: min_def less_imp_le_nat)
  finally show ?thesis using ne by (simp add: pass_total_def variantPass_def)
qed



section \<open>The properties of the plan ledger\<close>


definition ex_plan :: SearchPlanLedger where
  "ex_plan = foldl plan_step (new_plan_ledger \<lparr>en_maxRequests = 5, en_maxDurationMs = 1000, en_maxResults = 50\<rparr> 0)
     [Start_variant ''t'' 1 [''a'', ''b''], Begin_call 1 0 (Some ''a''), Admit 2 0 0 0, Admit 3 0 1 0]"

lemmas plan_eval = new_plan_ledger_def variantPass_def variant_quotas_def quota_share_def begin_call_def refusalFor_def
  timeExhausted_def deadlineAt_def pass_refusal_def admit_def charge_def charge_pass_def refuse_def coalesce_def Let_def enumerate_eq_zip


text \<open>
  Quotas are conserved and fair: the shares of a variant pass over distinct providers add up to its
  limit and differ by at most one, and after any further steps the shares plus the returned pool still
  add up to that limit: drawing from the pool never takes another provider's share.
\<close>

theorem quotas_conserved:
  assumes "L = foldl plan_step (new_plan_ledger envelope t0) ops" and "distinct providers" and "providers \<noteq> []"
  shows "pass_total (sl_passes (foldl plan_step (plan_step L (Start_variant i limit providers)) rest) ! length (sl_passes L)) = limit \<and>
         (\<forall>a b. quota_share limit (length providers) a \<le> quota_share limit (length providers) b + 1)"
proof -
  let ?L1 = "plan_step L (Start_variant i limit providers)"
  have "ledger_ok ?L1" unfolding assms(1) by (intro ledger_ok_step plan.invar_reached)
  from keeps_totals_run [OF this, of rest] variant_total [OF assms(2,3)] show ?thesis
    by (auto simp: keeps_totals_def quota_share_def)
qed

theorem quotas_conserved_witness:
  "pass_total (sl_passes (foldl plan_step (plan_step (new_plan_ledger \<lparr>en_maxRequests = 9, en_maxDurationMs = 9, en_maxResults = 9\<rparr> 0)
      (Start_variant ''t'' 3 [''a'', ''b''])) [Begin_call 1 0 (Some ''a''), Admit 1 0 0 0, Finish_provider 0 ''b'', Admit 2 0 1 0]) ! 0) = 3"
proof -
  let ?N = "new_plan_ledger \<lparr>en_maxRequests = 9, en_maxDurationMs = 9, en_maxResults = 9\<rparr> 0"
  have e: "?N = foldl plan_step ?N []" and n: "length (sl_passes ?N) = 0"
    by (simp_all add: new_plan_ledger_def)
  show ?thesis
    using quotas_conserved [OF e, of "[''a'', ''b'']" "''t''" 3, THEN conjunct1] unfolding n by (simp del: foldl_Cons plan_step.simps)
qed

lemma aborted_step: "sl_aborted L \<Longrightarrow> sl_aborted (plan_step L op) \<and> sl_attempts (plan_step L op) = sl_attempts L"
  by (cases op)
    (auto simp: begin_call_def admit_def refuse_def beforeDeadline_def fire_deadline_def Let_def case_prod_beta
      refusalFor_def timeExhausted_def split: option.split)

lemma aborted_run: "sl_aborted L \<Longrightarrow> sl_aborted (foldl plan_step L ops) \<and> sl_attempts (foldl plan_step L ops) = sl_attempts L"
  by (induction ops arbitrary: L) (auto simp: aborted_step)

text \<open>
  The deadline is final: an admission asked for at or after it is refused for time, from then on
  no step whatsoever lets another attempt out, and a call that has been cut is never admitted again.
\<close>

theorem deadline_is_final:
  assumes "deadlineAt L \<le> now \<or> sl_aborted L" and "cs_refused (sl_calls L ! c) = None"
  shows "\<exists>after. fst (admit now c rt rd L) = Inl (SearchPlanBudgetError Refuse_time after) \<and>
         sl_attempts (foldl plan_step (snd (admit now c rt rd L)) ops) = sl_attempts L"
proof -
  let ?L1 = "L\<lparr>sl_aborted := True\<rparr>"
  have "refusalFor now i k b L = (Some Refuse_time, ?L1)" for i k b
    using assms(1) by (cases L) (auto simp: refusalFor_def timeExhausted_def Let_def)
  then have "admit now c rt rd L = (Inl (fst (refuse c Refuse_time (rt = 0 \<and> rd = 0) ?L1)), snd (refuse c Refuse_time (rt = 0 \<and> rd = 0) ?L1))"
    using assms(2) by (simp add: admit_def Let_def case_prod_beta)
  moreover have "sl_aborted (snd (refuse c Refuse_time fc ?L1))" "sl_attempts (snd (refuse c Refuse_time fc ?L1)) = sl_attempts L"
    "\<exists>a. fst (refuse c Refuse_time fc ?L1) = SearchPlanBudgetError Refuse_time a" for fc
    by (simp_all add: refuse_def Let_def)
  ultimately show ?thesis using aborted_run by (metis fst_conv snd_conv)
qed

theorem deadline_is_final_witness:
  "\<exists>after. fst (admit 5000 0 0 0 (foldl plan_step (new_plan_ledger \<lparr>en_maxRequests = 5, en_maxDurationMs = 1000, en_maxResults = 50\<rparr> 0)
     [Start_literal, Begin_call 1 0 None])) = Inl (SearchPlanBudgetError Refuse_time after)"
proof -
  let ?L = "foldl plan_step (new_plan_ledger \<lparr>en_maxRequests = 5, en_maxDurationMs = 1000, en_maxResults = 50\<rparr> 0) [Start_literal, Begin_call 1 0 None]"
  have "deadlineAt ?L \<le> 5000 \<or> sl_aborted ?L" "cs_refused (sl_calls ?L ! 0) = None"
    by (simp_all add: plan_eval literalPass_def)
  from deadline_is_final [OF this, of 0 0 "[]"] show ?thesis by blast
qed

text \<open>
  Every refusal is told once and truthfully: in any run the number of refused calls plus refused
  follow-ups is the number of calls that were refused at all, and what is recorded of a call is that it
  was sent, if and only if it made an attempt, followed by at most one refusal, which is the unsent kind
  only for a call that made none.
\<close>

theorem refusals_recorded_once:
  assumes "L = foldl plan_step (new_plan_ledger envelope t0) ops"
  shows "sl_refusedCalls L + sl_refusedFollowUps L = length (filter (\<lambda>c. cs_refused c \<noteq> None) (sl_calls L)) \<and>
         (\<forall>c\<in>set (sl_calls L). (Sent_call \<in> set (cs_events c) \<longleftrightarrow> cs_attempts c > 0) \<and>
            (\<forall>k. Unsent_call k \<in> set (cs_events c) \<longrightarrow> cs_attempts c = 0) \<and>
            length (filter (\<lambda>e. e \<noteq> Sent_call) (cs_events c)) = (if cs_refused c = None then 0 else 1))"
proof -
  have "refused_calls cs = length (filter (\<lambda>c. cs_refused c \<noteq> None) cs)" for cs
    by (induction cs) (auto simp: refused_calls_def)
  moreover have "call_ok c \<Longrightarrow> (Sent_call \<in> set (cs_events c) \<longleftrightarrow> cs_attempts c > 0) \<and>
            (\<forall>k. Unsent_call k \<in> set (cs_events c) \<longrightarrow> cs_attempts c = 0) \<and>
            length (filter (\<lambda>e. e \<noteq> Sent_call) (cs_events c)) = (if cs_refused c = None then 0 else 1)" for c
    unfolding call_ok_def by (cases "cs_refused c"; cases "cs_attempts c") (auto split: if_splits)
  ultimately show ?thesis
    using plan.invar_reached [of envelope t0 ops] by (simp add: assms [symmetric] ledger_ok_def list_all_iff)
qed

theorem refusals_recorded_once_witness:
  "sl_refusedCalls ex_plan + sl_refusedFollowUps ex_plan = 1 \<and> map cs_events (sl_calls ex_plan) = [[Sent_call, Refused_follow_up Refuse_request]]"
proof -
  have c: "map cs_refused (sl_calls ex_plan) = [Some Refuse_request]"
    "map cs_events (sl_calls ex_plan) = [[Sent_call, Refused_follow_up Refuse_request]]"
    by (simp_all add: ex_plan_def plan_eval)
  then have "length (filter (\<lambda>c. cs_refused c \<noteq> None) (sl_calls ex_plan)) = 1" by auto
  with c refusals_recorded_once [OF ex_plan_def, THEN conjunct1] show ?thesis by simp
qed

end
