(* ===== verification/Request_Scheduler.thy ===== *)
theory Request_Scheduler
  imports Js_Strings
begin

text \<open>
  The shared request scheduler with a global and a per-domain limit
  (\<^verbatim>\<open>packages/vacancy-engine/src/crawler/scheduler.ts\<close>).

  A task is a name and its domain. The state has the source's queue and counters; the promise chains
  that \<^verbatim>\<open>#drain\<close> starts are the list of running tasks, and settling one of them, in any order, runs its
  \<^verbatim>\<open>finally\<close> block. Two histories, the tasks accepted and the tasks started, let the properties speak of
  order.
\<close>

section \<open>The scheduler\<close>

type_synonym task = "nat \<times> string"

record RequestScheduler =
  rs_globalLimit :: nat
  rs_perDomainLimit :: nat
  rs_queue :: "task list"
  rs_activeByDomain :: "(string, nat) jmap"
  rs_activeGlobal :: nat
  rs_running :: "task list"
  rs_submitted :: "task list"
  rs_started :: "task list"

datatype scheduler_error = Scheduler_RangeError string | Scheduler_TypeError string

definition new_scheduler :: "int \<Rightarrow> int \<Rightarrow> scheduler_error + RequestScheduler" where
  "new_scheduler globalLimit perDomainLimit =
     (if globalLimit < 1 then Inl (Scheduler_RangeError ''globalLimit must be a positive integer'')
      else if perDomainLimit < 1 then Inl (Scheduler_RangeError ''perDomainLimit must be a positive integer'')
      else Inr \<lparr>rs_globalLimit = nat globalLimit, rs_perDomainLimit = nat perDomainLimit, rs_queue = [],
                rs_activeByDomain = [], rs_activeGlobal = 0, rs_running = [], rs_submitted = [], rs_started = []\<rparr>)"

definition domain_active :: "RequestScheduler \<Rightarrow> string \<Rightarrow> nat" where
  "domain_active s d = (case jget (rs_activeByDomain s) d of Some n \<Rightarrow> n | None \<Rightarrow> 0)"

fun findIndex :: "('a \<Rightarrow> bool) \<Rightarrow> 'a list \<Rightarrow> nat option" where
  "findIndex P [] = None"
| "findIndex P (x # xs) = (if P x then Some 0 else map_option Suc (findIndex P xs))"

definition start_task :: "nat \<Rightarrow> RequestScheduler \<Rightarrow> RequestScheduler" where
  "start_task i s =
     (let pending = rs_queue s ! i
      in s\<lparr>rs_queue := take i (rs_queue s) @ drop (Suc i) (rs_queue s),
           rs_activeGlobal := rs_activeGlobal s + 1,
           rs_activeByDomain := jset (rs_activeByDomain s) (snd pending) (domain_active s (snd pending) + 1),
           rs_running := rs_running s @ [pending],
           rs_started := rs_started s @ [pending]\<rparr>)"

lemma findIndex_Some: "findIndex P xs = Some i \<Longrightarrow> i < length xs \<and> P (xs ! i) \<and> (\<forall>j<i. \<not> P (xs ! j))"
proof (induction xs arbitrary: i)
  case (Cons x xs)
  then show ?case by (auto simp: less_Suc_eq_0_disj split: if_splits)
qed simp

lemma findIndex_None: "findIndex P xs = None \<longleftrightarrow> (\<forall>x\<in>set xs. \<not> P x)"
  by (induction xs) auto

function drain :: "RequestScheduler \<Rightarrow> RequestScheduler" where
  "drain s =
     (if rs_activeGlobal s < rs_globalLimit s
      then case findIndex (\<lambda>(i, domain). domain_active s domain < rs_perDomainLimit s) (rs_queue s) of
             None \<Rightarrow> s
           | Some i \<Rightarrow> drain (start_task i s)
      else s)"
  by pat_completeness auto
termination
  by (relation "measure (\<lambda>s. length (rs_queue s))") (auto simp: start_task_def Let_def dest!: findIndex_Some)

declare drain.simps [simp del]

definition strip_dot :: "string \<Rightarrow> string" where
  "strip_dot s = (if s \<noteq> [] \<and> last s = CHR ''.'' then butlast s else s)"

definition normalize_domain :: "string \<Rightarrow> string" where
  "normalize_domain d = strip_dot (js_to_lower (js_trim d))"

definition run :: "string \<Rightarrow> nat \<Rightarrow> RequestScheduler \<Rightarrow> scheduler_error option \<times> RequestScheduler" where
  "run domain t s =
     (let normalizedDomain = normalize_domain domain
      in if length normalizedDomain = 0 then (Some (Scheduler_TypeError ''domain must not be empty''), s)
         else (None, drain (s\<lparr>rs_queue := rs_queue s @ [(t, normalizedDomain)],
                              rs_submitted := rs_submitted s @ [(t, normalizedDomain)]\<rparr>)))"

text \<open>The \<^verbatim>\<open>finally\<close> block of the \<open>i\<close>-th running task.\<close>

definition settle_task :: "nat \<Rightarrow> RequestScheduler \<Rightarrow> RequestScheduler" where
  "settle_task i s =
     (let pending = rs_running s ! i;
          domainActive = (case jget (rs_activeByDomain s) (snd pending) of Some n \<Rightarrow> n | None \<Rightarrow> 1) - 1;
          s1 = s\<lparr>rs_running := take i (rs_running s) @ drop (Suc i) (rs_running s),
                 rs_activeGlobal := rs_activeGlobal s - 1,
                 rs_activeByDomain := (if domainActive = 0 then jdelete (rs_activeByDomain s) (snd pending)
                                       else jset (rs_activeByDomain s) (snd pending) domainActive)\<rparr>
      in drain s1)"

definition snapshot :: "RequestScheduler \<Rightarrow> nat \<times> (string, nat) jmap \<times> nat" where
  "snapshot s = (rs_activeGlobal s, rs_activeByDomain s, length (rs_queue s))"

datatype scheduler_event = Run string nat | Settle nat

fun scheduler_step :: "RequestScheduler \<Rightarrow> scheduler_event \<Rightarrow> RequestScheduler" where
  "scheduler_step s (Run domain t) = snd (run domain t s)"
| "scheduler_step s (Settle i) = (if i < length (rs_running s) then settle_task i s else s)"


section \<open>The invariant\<close>

definition running_on :: "RequestScheduler \<Rightarrow> string \<Rightarrow> nat" where
  "running_on s d = length (filter (\<lambda>t. snd t = d) (rs_running s))"

text \<open>The accounting, which holds at every point inside the loop too.\<close>

definition sched_ok :: "RequestScheduler \<Rightarrow> bool" where
  "sched_ok s \<longleftrightarrow> 1 \<le> rs_globalLimit s \<and> 1 \<le> rs_perDomainLimit s \<and>
     rs_activeGlobal s = length (rs_running s) \<and> rs_activeGlobal s \<le> rs_globalLimit s \<and>
     (\<forall>d. jget (rs_activeByDomain s) d = (if running_on s d = 0 then None else Some (running_on s d))) \<and>
     (\<forall>d. running_on s d \<le> rs_perDomainLimit s) \<and>
     (\<forall>d. filter (\<lambda>t. snd t = d) (rs_submitted s) =
          filter (\<lambda>t. snd t = d) (rs_started s) @ filter (\<lambda>t. snd t = d) (rs_queue s))"

text \<open>Work conservation, which the loop establishes.\<close>

definition saturated :: "RequestScheduler \<Rightarrow> bool" where
  "saturated s \<longleftrightarrow> rs_activeGlobal s = rs_globalLimit s \<or> (\<forall>t\<in>set (rs_queue s). running_on s (snd t) = rs_perDomainLimit s)"

lemma domain_active_running: "sched_ok s \<Longrightarrow> domain_active s d = running_on s d"
  by (simp add: sched_ok_def domain_active_def)

lemma filter_remove_nth:
  assumes "i < length xs"
  shows "filter P xs = filter P (take i xs) @ (if P (xs ! i) then [xs ! i] else []) @ filter P (drop (Suc i) xs)"
proof -
  have "filter P xs = filter P (take i xs @ xs ! i # drop (Suc i) xs)"
    using id_take_nth_drop [OF assms] by simp
  then show ?thesis by simp
qed

lemma filter_before_first:
  assumes "i < length xs" "\<forall>j<i. \<not> (\<lambda>t. Q (snd t)) (xs ! j)" "Q (snd (xs ! i))"
  shows "filter (\<lambda>t. snd t = snd (xs ! i)) (take i xs) = []"
proof -
  have "snd t \<noteq> snd (xs ! i)" if "t \<in> set (take i xs)" for t
  proof -
    from that obtain j where "j < i" "t = xs ! j" using assms(1) by (auto simp: in_set_conv_nth)
    with assms show ?thesis by auto
  qed
  then show ?thesis by (simp add: filter_empty_conv)
qed

lemma sched_ok_start:
  assumes ok: "sched_ok s" and g: "rs_activeGlobal s < rs_globalLimit s"
    and f: "findIndex (\<lambda>(i, domain). domain_active s domain < rs_perDomainLimit s) (rs_queue s) = Some i"
  shows "sched_ok (start_task i s)"
proof -
  let ?p = "rs_queue s ! i"
  from findIndex_Some [OF f] have i: "i < length (rs_queue s)" and room: "running_on s (snd ?p) < rs_perDomainLimit s"
    and first: "\<forall>j<i. \<not> running_on s (snd (rs_queue s ! j)) < rs_perDomainLimit s"
    by (auto simp: domain_active_running [OF ok] case_prod_unfold)
  have run: "running_on (start_task i s) d = (if d = snd ?p then Suc (running_on s d) else running_on s d)" for d
    by (simp add: running_on_def start_task_def Let_def)
  have "filter (\<lambda>t. snd t = d) (rs_submitted s) =
      filter (\<lambda>t. snd t = d) (rs_started s @ [?p]) @ filter (\<lambda>t. snd t = d) (take i (rs_queue s) @ drop (Suc i) (rs_queue s))" for d
  proof (cases "d = snd ?p")
    case True
    with ok filter_remove_nth [OF i, of "\<lambda>t. snd t = d"]
      filter_before_first [OF i, of "\<lambda>x. running_on s x < rs_perDomainLimit s"] first room show ?thesis
      by (simp add: sched_ok_def)
  next
    case False
    with ok filter_remove_nth [OF i, of "\<lambda>t. snd t = d"] show ?thesis by (simp add: sched_ok_def)
  qed
  then have fifo: "\<forall>d. filter (\<lambda>t. snd t = d) (rs_submitted (start_task i s)) =
      filter (\<lambda>t. snd t = d) (rs_started (start_task i s)) @ filter (\<lambda>t. snd t = d) (rs_queue (start_task i s))"
    by (simp add: start_task_def Let_def)
  have counts: "jget (rs_activeByDomain (start_task i s)) d =
      (if running_on (start_task i s) d = 0 then None else Some (running_on (start_task i s) d))" for d
  proof -
    have "rs_activeByDomain (start_task i s) = jset (rs_activeByDomain s) (snd ?p) (Suc (running_on s (snd ?p)))"
      by (simp add: start_task_def Let_def domain_active_running [OF ok])
    with ok show ?thesis unfolding run by (auto simp: sched_ok_def jget_jset)
  qed
  have "rs_globalLimit (start_task i s) = rs_globalLimit s" "rs_perDomainLimit (start_task i s) = rs_perDomainLimit s"
    "rs_activeGlobal (start_task i s) = Suc (rs_activeGlobal s)" "length (rs_running (start_task i s)) = Suc (length (rs_running s))"
    by (simp_all add: start_task_def Let_def)
  with ok g run room fifo counts show ?thesis
    unfolding sched_ok_def by (auto simp: Suc_le_eq)
qed

lemma drain_ok: "sched_ok s \<Longrightarrow> sched_ok (drain s) \<and> saturated (drain s)"
proof (induction s rule: drain.induct)
  case (1 s)
  let ?P = "\<lambda>(i, domain). domain_active s domain < rs_perDomainLimit s"
  show ?case
  proof (cases "rs_activeGlobal s < rs_globalLimit s")
    case False
    with "1.prems" show ?thesis by (auto simp: drain.simps [of s] saturated_def sched_ok_def)
  next
    case True
    show ?thesis
    proof (cases "findIndex ?P (rs_queue s)")
      case None
      then have "\<forall>t\<in>set (rs_queue s). \<not> running_on s (snd t) < rs_perDomainLimit s"
        by (auto simp: findIndex_None domain_active_running [OF "1.prems"] case_prod_unfold)
      with "1.prems" have "saturated s" by (simp add: saturated_def sched_ok_def) (meson le_neq_implies_less)
      with True None "1.prems" show ?thesis by (simp add: drain.simps [of s])
    next
      case (Some i)
      from "1.IH" [OF True Some sched_ok_start [OF "1.prems" True Some]] True Some show ?thesis
        by (simp add: drain.simps [of s])
    qed
  qed
qed

lemma sched_ok_settle:
  assumes ok: "sched_ok s" and i: "i < length (rs_running s)"
  shows "sched_ok (s\<lparr>rs_running := take i (rs_running s) @ drop (Suc i) (rs_running s),
                 rs_activeGlobal := rs_activeGlobal s - 1,
                 rs_activeByDomain := (if running_on s (snd (rs_running s ! i)) - 1 = 0
                    then jdelete (rs_activeByDomain s) (snd (rs_running s ! i))
                    else jset (rs_activeByDomain s) (snd (rs_running s ! i)) (running_on s (snd (rs_running s ! i)) - 1))\<rparr>)"
    (is "sched_ok ?s'")
proof -
  let ?d = "snd (rs_running s ! i)"
  have run: "running_on s d = (if d = ?d then Suc (running_on ?s' d) else running_on ?s' d)" for d
    using filter_remove_nth [OF i, of "\<lambda>t. snd t = d"] by (simp add: running_on_def)
  then have run': "running_on ?s' d = (if d = ?d then running_on s d - 1 else running_on s d)" for d
    by (metis diff_Suc_1)
  have "running_on s d - Suc 0 \<le> rs_perDomainLimit s" for d
    using ok by (meson diff_le_self le_trans sched_ok_def)
  moreover have "jget (rs_activeByDomain ?s') d = (if running_on ?s' d = 0 then None else Some (running_on ?s' d))" for d
    unfolding run' using ok by (auto simp: sched_ok_def jget_jset jget_jdelete)
  ultimately show ?thesis
    using ok i run' by (simp add: sched_ok_def) (simp add: le_diff_conv)
qed

lemma sched_ok_enqueue:
  "sched_ok s \<Longrightarrow> sched_ok (s\<lparr>rs_queue := rs_queue s @ [t], rs_submitted := rs_submitted s @ [t]\<rparr>)"
  by (simp add: sched_ok_def running_on_def)

definition sched_inv :: "RequestScheduler \<Rightarrow> bool" where
  "sched_inv s \<longleftrightarrow> sched_ok s \<and> saturated s"

lemma sched_inv_step: "sched_inv s \<Longrightarrow> sched_inv (scheduler_step s e)"
proof (cases e)
  case (Run domain t)
  assume "sched_inv s"
  then show ?thesis using drain_ok [OF sched_ok_enqueue] Run by (auto simp: sched_inv_def run_def Let_def)
next
  case (Settle i)
  assume inv: "sched_inv s"
  show ?thesis
  proof (cases "i < length (rs_running s)")
    case True
    from inv have ok: "sched_ok s" by (simp add: sched_inv_def)
    have "running_on s (snd (rs_running s ! i)) \<noteq> 0"
      using True by (auto simp: running_on_def filter_empty_conv)
    with ok have "(case jget (rs_activeByDomain s) (snd (rs_running s ! i)) of Some n \<Rightarrow> n | None \<Rightarrow> 1) = running_on s (snd (rs_running s ! i))"
      by (simp add: sched_ok_def)
    then have "sched_ok (settle_task i s) \<and> saturated (settle_task i s)"
      unfolding settle_task_def Let_def by (simp only: drain_ok [OF sched_ok_settle [OF ok True]])
    with True show ?thesis by (simp add: Settle sched_inv_def)
  qed (use inv Settle in simp)
qed

definition idle_scheduler :: "nat \<Rightarrow> nat \<Rightarrow> RequestScheduler" where
  "idle_scheduler g p = \<lparr>rs_globalLimit = Suc g, rs_perDomainLimit = Suc p, rs_queue = [], rs_activeByDomain = [],
     rs_activeGlobal = 0, rs_running = [], rs_submitted = [], rs_started = []\<rparr>"

lemma new_scheduler_idle: "new_scheduler g p = Inr s \<Longrightarrow> s = idle_scheduler (nat g - 1) (nat p - 1)"
  by (auto simp: new_scheduler_def idle_scheduler_def split: if_splits)

interpretation sched: step_system "idle_scheduler g p" scheduler_step sched_inv for g p
proof
  show "sched_inv (idle_scheduler g p)"
    by (simp add: sched_inv_def sched_ok_def saturated_def idle_scheduler_def running_on_def)
qed (rule sched_inv_step)



section \<open>The properties of the scheduler\<close>

text \<open>
  C28. The limits are never exceeded, whatever is submitted and in whatever order tasks settle, and the
  counters equal the numbers of running tasks, globally and per domain.
\<close>

theorem scheduler_limits:
  assumes "new_scheduler g p = Inr s0" and "s = foldl scheduler_step s0 es"
  shows "rs_activeGlobal s = length (rs_running s) \<and> length (rs_running s) \<le> rs_globalLimit s \<and>
         domain_active s d = running_on s d \<and> running_on s d \<le> rs_perDomainLimit s"
proof -
  have "sched_ok s"
    using sched.invar_reached [of "nat g - 1" "nat p - 1" es] new_scheduler_idle [OF assms(1)] assms(2)
    by (simp add: sched_inv_def)
  with domain_active_running [OF this, of d] show ?thesis by (simp add: sched_ok_def)
qed

definition ex_sched :: RequestScheduler where
  "ex_sched = foldl scheduler_step (idle_scheduler 1 0) [Run ''A.com'' 1, Run ''a.com.'' 2, Run ''b.com'' 3, Settle 0]"

lemma new_scheduler_2_1: "new_scheduler 2 1 = Inr (idle_scheduler 1 0)"
  by (simp add: new_scheduler_def idle_scheduler_def)

text \<open>
  No starvation by the scheduler itself: after every step either the global limit is used up or every
  queued task waits for a domain that is full; in particular something is running whenever anything waits.
\<close>

theorem scheduler_work_conserving:
  assumes "new_scheduler g p = Inr s0" and "s = foldl scheduler_step s0 es"
  shows "(length (rs_running s) = rs_globalLimit s \<or> (\<forall>t\<in>set (rs_queue s). running_on s (snd t) = rs_perDomainLimit s)) \<and>
         (rs_queue s \<noteq> [] \<longrightarrow> rs_running s \<noteq> [])"
proof -
  have inv: "sched_ok s" "saturated s"
    using sched.invar_reached [of "nat g - 1" "nat p - 1" es] new_scheduler_idle [OF assms(1)] assms(2)
    by (simp_all add: sched_inv_def)
  then have "rs_running s \<noteq> []" if "rs_queue s \<noteq> []"
    using that by (cases "rs_queue s") (auto simp: sched_ok_def saturated_def running_on_def)
  with inv show ?thesis by (auto simp: sched_ok_def saturated_def)
qed

text \<open>
  Order within a domain: the tasks of a domain start in exactly the order they were submitted, and
  the queue holds exactly those not started yet, so no task is lost, started twice or overtaken by a
  later one of its own domain.
\<close>

theorem scheduler_domain_fifo:
  assumes "new_scheduler g p = Inr s0" and "s = foldl scheduler_step s0 es"
  shows "filter (\<lambda>t. snd t = d) (rs_submitted s) =
         filter (\<lambda>t. snd t = d) (rs_started s) @ filter (\<lambda>t. snd t = d) (rs_queue s)"
  using sched.invar_reached [of "nat g - 1" "nat p - 1" es] new_scheduler_idle [OF assms(1)] assms(2)
  by (simp add: sched_inv_def sched_ok_def)

theorem scheduler_limits_witness: "length (rs_running ex_sched) \<le> 2 \<and> running_on ex_sched ''a.com'' \<le> 1"
proof -
  have "rs_globalLimit ex_sched = 2" "rs_perDomainLimit ex_sched = 1"
    by code_simp+
  then show ?thesis using scheduler_limits [OF new_scheduler_2_1 ex_sched_def, of "''a.com''"] by simp
qed

theorem scheduler_work_conserving_witness: "rs_running ex_sched \<noteq> [] \<and> rs_queue (foldl scheduler_step (idle_scheduler 1 0) [Run ''A.com'' 1, Run ''a.com.'' 2]) \<noteq> []"
proof -
  let ?s = "foldl scheduler_step (idle_scheduler 1 0) [Run ''A.com'' 1, Run ''a.com.'' 2]"
  have "rs_queue ?s \<noteq> []" by code_simp
  moreover from this have "rs_running ?s \<noteq> []"
    using scheduler_work_conserving [OF new_scheduler_2_1 refl] by blast
  moreover have "rs_running ex_sched \<noteq> []" by code_simp
  ultimately show ?thesis by blast
qed

theorem scheduler_domain_fifo_witness:
  "filter (\<lambda>t. snd t = ''a.com'') (rs_started ex_sched) @ filter (\<lambda>t. snd t = ''a.com'') (rs_queue ex_sched) = [(1, ''a.com''), (2, ''a.com'')]"
  unfolding scheduler_domain_fifo [OF new_scheduler_2_1 ex_sched_def, symmetric]
  by code_simp

end
