(* ===== verification/Url_Safety.thy ===== *)
theory Url_Safety
  imports Js_Strings "HOL-Library.Word"
begin

unbundle bit_operations_syntax

text \<open>
  The guard of the crawler against requests into private networks (\<^verbatim>\<open>crawler/url-safety.ts\<close> of
  \<^verbatim>\<open>packages/vacancy-engine\<close>): the parsers of IPv4 and IPv6 addresses, the ranges that are not public, and the
  validation of a URL with the addresses its host resolves to. The bit masks of the source work on machine words;
  the theorems read them back as conditions on octets and groups.

  \<^verbatim>\<open>new URL\<close> and DNS are arguments. Host names and addresses are ASCII, as the URL parser and the resolver
  give them.
\<close>

section \<open>Splitting and numerals\<close>

fun js_split :: "char \<Rightarrow> string \<Rightarrow> string list" where
  "js_split c [] = [[]]"
| "js_split c (x # xs) =
     (if x = c then [] # js_split c xs
      else case js_split c xs of [] \<Rightarrow> [[x]] | part # parts \<Rightarrow> (x # part) # parts)"

text \<open>\<^verbatim>\<open>split('::')\<close>.\<close>

fun split_double :: "string \<Rightarrow> string list" where
  "split_double [] = [[]]"
| "split_double [x] = [[x]]"
| "split_double (x # y # xs) =
     (if x = CHR '':'' \<and> y = CHR '':'' then [] # split_double xs
      else case split_double (y # xs) of [] \<Rightarrow> [[x]] | part # parts \<Rightarrow> (x # part) # parts)"

definition numeral_of :: "nat \<Rightarrow> string \<Rightarrow> nat" where
  "numeral_of base ds = foldl (\<lambda>n c. base * n + hex_value c) 0 ds"

text \<open>\<^verbatim>\<open>toString(16)\<close>.\<close>

fun show_hex :: "nat \<Rightarrow> string" where
  "show_hex n = (if n < 16 then [hex_digit n] else show_hex (n div 16) @ [hex_digit (n mod 16)])"

declare show_hex.simps [simp del]


section \<open>IPv4\<close>

type_synonym octets4 = "nat \<times> nat \<times> nat \<times> nat"

definition parse_octet :: "string \<Rightarrow> nat option" where
  "parse_octet part =
     (if 1 \<le> length part \<and> length part \<le> 3 \<and> list_all is_digit part
      then (let value = numeral_of 10 part in if value \<le> 255 then Some value else None)
      else None)"

definition parseIpv4 :: "string \<Rightarrow> octets4 option" where
  "parseIpv4 address =
     (case map parse_octet (js_split (CHR ''.'') address) of
        [Some a, Some b, Some c, Some d] \<Rightarrow> Some (a, b, c, d)
      | _ \<Rightarrow> None)"

definition ipv4_value :: "octets4 \<Rightarrow> 32 word" where
  "ipv4_value octets =
     (case octets of (a, b, c, d) \<Rightarrow> push_bit 24 (of_nat a) OR push_bit 16 (of_nat b) OR push_bit 8 (of_nat c) OR of_nat d)"

definition ipv4_mask :: "nat \<Rightarrow> 32 word" where
  "ipv4_mask prefixLength = (if prefixLength = 0 then 0 else push_bit (32 - prefixLength) 0xffffffff)"

definition ipv4InCidr :: "octets4 \<Rightarrow> octets4 \<Rightarrow> nat \<Rightarrow> bool" where
  "ipv4InCidr octets network prefixLength \<longleftrightarrow>
     ipv4_value octets AND ipv4_mask prefixLength = ipv4_value network AND ipv4_mask prefixLength"

definition NON_PUBLIC_IPV4_RANGES :: "(octets4 \<times> nat) list" where
  "NON_PUBLIC_IPV4_RANGES =
     [((0, 0, 0, 0), 8), ((10, 0, 0, 0), 8), ((100, 64, 0, 0), 10), ((127, 0, 0, 0), 8), ((169, 254, 0, 0), 16),
      ((172, 16, 0, 0), 12), ((192, 0, 0, 0), 24), ((192, 0, 2, 0), 24), ((192, 88, 99, 0), 24), ((192, 168, 0, 0), 16),
      ((198, 18, 0, 0), 15), ((198, 51, 100, 0), 24), ((203, 0, 113, 0), 24), ((224, 0, 0, 0), 4), ((240, 0, 0, 0), 4)]"

definition KNOWN_METADATA_IPV4 :: "string list" where
  "KNOWN_METADATA_IPV4 = [''168.63.129.16'']"

definition isPublicIpv4 :: "string \<Rightarrow> bool" where
  "isPublicIpv4 address =
     (case parseIpv4 address of
        None \<Rightarrow> False
      | Some octets \<Rightarrow>
          address \<notin> set KNOWN_METADATA_IPV4 \<and>
          \<not> list_ex (\<lambda>(network, prefixLength). ipv4InCidr octets network prefixLength) NON_PUBLIC_IPV4_RANGES)"


section \<open>IPv6\<close>

text \<open>The text after the last colon, if it is a dotted quad, is written as two groups first.\<close>

definition last_colon :: "string \<Rightarrow> (string \<times> string) option" where
  "last_colon s =
     (if CHR '':'' \<in> set s
      then Some (rev (dropWhile (\<lambda>c. c \<noteq> CHR '':'') (rev s)), rev (takeWhile (\<lambda>c. c \<noteq> CHR '':'') (rev s)))
      else None)"

definition expand_dotted :: "(string \<Rightarrow> octets4 option) \<Rightarrow> string \<Rightarrow> string option" where
  "expand_dotted parse4 normalized =
     (case last_colon normalized of
        None \<Rightarrow> Some normalized
      | Some (front, tail) \<Rightarrow>
          if CHR ''.'' \<in> set normalized
          then (case parse4 tail of
                  None \<Rightarrow> None
                | Some (a, b, c, d) \<Rightarrow> Some (front @ show_hex (256 * a + b) @ '':'' @ show_hex (256 * c + d)))
          else Some normalized)"

definition split_groups :: "string \<Rightarrow> string list" where
  "split_groups part = (if part = [] then [] else js_split (CHR '':'') part)"

definition hex_group :: "string \<Rightarrow> bool" where
  "hex_group g \<longleftrightarrow> 1 \<le> length g \<and> length g \<le> 4 \<and> list_all (\<lambda>c. is_digit c \<or> (97 \<le> code c \<and> code c \<le> 102)) g"

definition ipv6_groups :: "string \<Rightarrow> string list option" where
  "ipv6_groups normalized =
     (let compressed = split_double normalized;
          head = split_groups (hd compressed);
          tail = (if length compressed = 1 then [] else split_groups (compressed ! 1));
          present = length head + length tail;
          groups = head @ replicate (8 - present) ''0'' @ tail
      in if length compressed > 2 then None
         else if length compressed = 1 \<and> present \<noteq> 8 then None
         else if length compressed = 2 \<and> present > 7 then None
         else if length groups \<noteq> 8 \<or> \<not> list_all hex_group groups then None
         else Some groups)"

definition group_bytes :: "string \<Rightarrow> 8 word list" where
  "group_bytes g = (let value = numeral_of 16 g in [of_nat (value div 256), of_nat value])"

definition unbracket :: "string \<Rightarrow> string" where
  "unbracket s = (if s \<noteq> [] \<and> hd s = CHR ''['' \<and> last s = CHR '']'' then butlast (tl s) else s)"

definition parseIpv6 :: "string \<Rightarrow> 8 word list option" where
  "parseIpv6 address =
     (let normalized = unbracket (js_to_lower address)
      in if CHR ''%'' \<in> set normalized then None
         else case expand_dotted parseIpv4 normalized of
                None \<Rightarrow> None
              | Some expanded \<Rightarrow> map_option (\<lambda>groups. concat (map group_bytes groups)) (ipv6_groups expanded))"

text \<open>Reading past the end of a prefix gives \<^verbatim>\<open>undefined\<close>, which differs from every byte; the last byte defaults to 0.\<close>

definition nth_byte :: "8 word list \<Rightarrow> nat \<Rightarrow> 8 word option" where
  "nth_byte bs i = (if i < length bs then Some (bs ! i) else None)"

definition byte_or_0 :: "8 word list \<Rightarrow> nat \<Rightarrow> 8 word" where
  "byte_or_0 bs i = (if i < length bs then bs ! i else 0)"

definition hasIpv6Prefix :: "8 word list \<Rightarrow> 8 word list \<Rightarrow> nat \<Rightarrow> bool" where
  "hasIpv6Prefix address pre bits =
     (let fullBytes = bits div 8; remainingBits = bits mod 8; m = push_bit (8 - remainingBits) (0xff :: 8 word)
      in list_all (\<lambda>i. nth_byte address i = nth_byte pre i) [0..<fullBytes] \<and>
         (remainingBits = 0 \<or> byte_or_0 address fullBytes AND m = byte_or_0 pre fullBytes AND m))"

definition dotted :: "nat \<Rightarrow> nat \<Rightarrow> nat \<Rightarrow> nat \<Rightarrow> string" where
  "dotted a b c d = show_nat a @ ''.'' @ show_nat b @ ''.'' @ show_nat c @ ''.'' @ show_nat d"

definition isPublicIpv6 :: "string \<Rightarrow> bool" where
  "isPublicIpv6 address =
     (case parseIpv6 address of
        None \<Rightarrow> False
      | Some bytes \<Rightarrow>
          if list_all (\<lambda>b. b = 0) (take 10 bytes) \<and> bytes ! 10 = 0xff \<and> bytes ! 11 = 0xff
          then isPublicIpv4 (dotted (unat (bytes ! 12)) (unat (bytes ! 13)) (unat (bytes ! 14)) (unat (bytes ! 15)))
          else hasIpv6Prefix bytes [0x20] 3 \<and>
               \<not> (hasIpv6Prefix bytes [0x20, 0x01, 0x00] 23 \<or> hasIpv6Prefix bytes [0x20, 0x01, 0x0d, 0xb8] 32 \<or>
                  hasIpv6Prefix bytes [0x20, 0x02] 16 \<or> hasIpv6Prefix bytes [0x3f, 0xfe] 16 \<or>
                  hasIpv6Prefix bytes [0x3f, 0xff] 20))"


section \<open>Addresses\<close>

text \<open>
  \<^verbatim>\<open>net.isIP\<close>: 4 for a dotted quad with no leading zeroes, 6 for an IPv6 address, possibly with a zone
  after a percent sign, and 0 otherwise.
\<close>

definition strict_octet :: "string \<Rightarrow> bool" where
  "strict_octet part \<longleftrightarrow> (case parse_octet part of None \<Rightarrow> False | Some n \<Rightarrow> show_nat n = part)"

definition isIPv4 :: "string \<Rightarrow> bool" where
  "isIPv4 s \<longleftrightarrow> length (js_split (CHR ''.'') s) = 4 \<and> list_all strict_octet (js_split (CHR ''.'') s)"

definition zone_ok :: "string \<Rightarrow> bool" where
  "zone_ok z \<longleftrightarrow> z = [] \<or> (tl z \<noteq> [] \<and> list_all (\<lambda>c. is_alnum c \<or> c \<in> set ''-.:'') (tl z))"

definition isIPv6 :: "string \<Rightarrow> bool" where
  "isIPv6 s =
     (let body = takeWhile (\<lambda>c. c \<noteq> CHR ''%'') s; zone = dropWhile (\<lambda>c. c \<noteq> CHR ''%'') s
      in zone_ok zone \<and>
         (case expand_dotted (\<lambda>t. if isIPv4 t then parseIpv4 t else None) (js_to_lower body) of
            None \<Rightarrow> False
          | Some expanded \<Rightarrow> ipv6_groups expanded \<noteq> None))"

definition isIP :: "string \<Rightarrow> nat" where
  "isIP s = (if isIPv4 s then 4 else if isIPv6 s then 6 else 0)"

definition isPublicIpAddress :: "string \<Rightarrow> bool" where
  "isPublicIpAddress address =
     (let normalized = unbracket address; family = isIP normalized
      in if family = 4 then isPublicIpv4 normalized
         else if family = 6 then isPublicIpv6 normalized
         else False)"


section \<open>URLs\<close>

definition host_without_dot :: "string \<Rightarrow> string" where
  "host_without_dot s = (if s \<noteq> [] \<and> last s = CHR ''.'' then butlast s else s)"

definition isClearlyNonPublicHostname :: "string \<Rightarrow> bool" where
  "isClearlyNonPublicHostname hostname =
     (let normalized = host_without_dot (js_to_lower hostname)
      in normalized = ''localhost'' \<or> suffix ''.localhost'' normalized \<or> suffix ''.local'' normalized \<or>
         suffix ''.internal'' normalized \<or> suffix ''.home'' normalized \<or> suffix ''.lan'' normalized)"

definition containsControlOrSpace :: "string \<Rightarrow> bool" where
  "containsControlOrSpace value = list_ex (\<lambda>c. code c \<le> 0x20 \<or> code c = 0x7f) value"

text \<open>
  A parsed URL: what its getters return, with the address split before the fragment, so that clearing
  the hash leaves \<open>url_base\<close>.
\<close>

record URL =
  url_protocol :: string
  url_username :: string
  url_password :: string
  url_hostname :: string
  url_origin :: string
  url_base :: string
  url_fragment :: "string option"

definition href :: "URL \<Rightarrow> string" where
  "href u = url_base u @ (case url_fragment u of None \<Rightarrow> [] | Some f \<Rightarrow> CHR ''#'' # f)"

record ResolvedAddress =
  ra_address :: string
  ra_family :: nat

datatype unsafe_code = Invalid_url | Unsupported_protocol | Credentialed_url | Non_public_hostname | Private_address | Dns_resolution_failed

definition url_host :: "URL \<Rightarrow> string" where
  "url_host u = (if url_hostname u \<noteq> [] \<and> hd (url_hostname u) = CHR ''['' then butlast (tl (url_hostname u)) else url_hostname u)"

definition unsafe_address :: "ResolvedAddress \<Rightarrow> bool" where
  "unsafe_address result \<longleftrightarrow> isIP (ra_address result) \<noteq> ra_family result \<or> \<not> isPublicIpAddress (ra_address result)"

definition validatePublicHttpUrl ::
  "(string \<Rightarrow> URL option) \<Rightarrow> (string \<Rightarrow> ResolvedAddress list option) \<Rightarrow> string \<Rightarrow> unsafe_code + URL" where
  "validatePublicHttpUrl parse_url resolver rawInput =
     (case (if containsControlOrSpace rawInput then None else parse_url rawInput) of
        None \<Rightarrow> Inl Invalid_url
      | Some url \<Rightarrow>
          if url_protocol url \<noteq> ''http:'' \<and> url_protocol url \<noteq> ''https:'' then Inl Unsupported_protocol
          else if url_username url \<noteq> [] \<or> url_password url \<noteq> [] then Inl Credentialed_url
          else
            (let url = url\<lparr>url_fragment := None\<rparr>; hostname = url_host url
             in if hostname = [] \<or> isClearlyNonPublicHostname hostname then Inl Non_public_hostname
                else if isIP hostname \<noteq> 0 then (if isPublicIpAddress hostname then Inr url else Inl Private_address)
                else (case resolver hostname of
                        None \<Rightarrow> Inl Dns_resolution_failed
                      | Some addresses \<Rightarrow>
                          if addresses = [] then Inl Dns_resolution_failed
                          else if list_ex unsafe_address addresses then Inl Private_address
                          else Inr url)))"


section \<open>Masks are prefixes\<close>

lemma push_or_nat: "b < 2 ^ n \<Longrightarrow> push_bit n a OR b = a * 2 ^ n + (b :: nat)"
proof -
  assume "b < 2 ^ n"
  then have b: "take_bit n b = b" by (rule take_bit_nat_eq_self)
  have "bit b i \<Longrightarrow> i < n" for i using b by (metis bit_take_bit_iff)
  then have "push_bit n a AND b = 0" by (intro bit_eqI) (fastforce simp: bit_simps)
  then have "push_bit n a + b = push_bit n a OR b" by (rule disjunctive_add_eq_or)
  then show ?thesis by (simp add: push_bit_eq_mult)
qed

definition ipv4_number :: "octets4 \<Rightarrow> nat" where
  "ipv4_number octets = (case octets of (a, b, c, d) \<Rightarrow> ((a * 256 + b) * 256 + c) * 256 + d)"

definition octets_ok :: "octets4 \<Rightarrow> bool" where
  "octets_ok octets = (case octets of (a, b, c, d) \<Rightarrow> a < 256 \<and> b < 256 \<and> c < 256 \<and> d < 256)"

lemma unat_ipv4_value:
  assumes "octets_ok octets"
  shows "unat (ipv4_value octets) = ipv4_number octets"
proof -
  obtain a b c d where o: "octets = (a, b, c, d)" by (cases octets)
  have less: "a < 256" "b < 256" "c < 256" "d < 256" using assms o by (auto simp: octets_ok_def)
  have "push_bit 8 c OR d = c * 2 ^ 8 + d" using less by (intro push_or_nat) simp
  moreover have "push_bit 16 b OR (c * 2 ^ 8 + d) = b * 2 ^ 16 + (c * 2 ^ 8 + d)" using less by (intro push_or_nat) simp
  moreover have "push_bit 24 a OR (b * 2 ^ 16 + (c * 2 ^ 8 + d)) = a * 2 ^ 24 + (b * 2 ^ 16 + (c * 2 ^ 8 + d))"
    using less by (intro push_or_nat) simp
  ultimately have eq: "push_bit 24 a OR push_bit 16 b OR push_bit 8 c OR d = ipv4_number octets"
    by (simp add: o ipv4_number_def)
  have "ipv4_value octets = of_nat (push_bit 24 a OR push_bit 16 b OR push_bit 8 c OR d)"
    by (simp only: o ipv4_value_def prod.case push_bit_of_nat of_nat_or_eq)
  moreover have "ipv4_number octets < 2 ^ 32" using less by (simp add: o ipv4_number_def)
  ultimately show ?thesis unfolding eq by (simp add: unat_of_nat take_bit_nat_eq_self)
qed

lemma masked_eq:
  fixes x y :: "'a::len word"
  shows "x AND push_bit k (- 1) = y AND push_bit k (- 1) \<longleftrightarrow> unat x div 2 ^ k = unat y div 2 ^ k"
proof -
  have "x AND push_bit k (- 1) = y AND push_bit k (- 1) \<longleftrightarrow> drop_bit k x = drop_bit k y"
  proof
    assume eq: "x AND push_bit k (- 1) = y AND push_bit k (- 1)"
    have "bit (x AND push_bit k (- 1)) (k + i) \<longleftrightarrow> bit (y AND push_bit k (- 1)) (k + i)" for i using eq by simp
    then show "drop_bit k x = drop_bit k y"
      by (intro bit_eqI) (auto simp: bit_simps dest: bit_imp_le_length)
  next
    assume eq: "drop_bit k x = drop_bit k y"
    have "bit x (k + i) \<longleftrightarrow> bit y (k + i)" for i using arg_cong [OF eq, of "\<lambda>w. bit w i"] by (simp add: bit_drop_bit_eq)
    then show "x AND push_bit k (- 1) = y AND push_bit k (- 1)"
      by (intro bit_eqI) (auto simp: bit_simps not_less dest!: le_Suc_ex)
  qed
  also have "\<dots> \<longleftrightarrow> unat x div 2 ^ k = unat y div 2 ^ k"
    by (metis drop_bit_eq_div unat_drop_bit_eq word_unat_eq_iff)
  finally show ?thesis .
qed

lemma cidr_iff:
  assumes "octets_ok o1" "octets_ok o2"
  shows "ipv4InCidr o1 o2 p \<longleftrightarrow> ipv4_number o1 div 2 ^ (32 - p) = ipv4_number o2 div 2 ^ (32 - p)"
proof (cases "p = 0")
  case True
  have "ipv4_number o1 < 2 ^ 32" "ipv4_number o2 < 2 ^ 32" using assms by (auto simp: octets_ok_def ipv4_number_def split: prod.splits)
  with True show ?thesis by (simp add: ipv4InCidr_def ipv4_mask_def)
next
  case False
  have "(0xffffffff :: 32 word) = - 1" by simp
  with False have "ipv4_mask p = push_bit (32 - p) (- 1)" by (simp only: ipv4_mask_def if_False)
  then show ?thesis by (simp only: ipv4InCidr_def masked_eq unat_ipv4_value [OF assms(1)] unat_ipv4_value [OF assms(2)])
qed

text \<open>The ranges in terms of octets, as the address registries list them.\<close>

definition special_ipv4 :: "octets4 \<Rightarrow> bool" where
  "special_ipv4 octets =
     (case octets of (a, b, c, d) \<Rightarrow>
        a = 0 \<or> a = 10 \<or> (a = 100 \<and> 64 \<le> b \<and> b < 128) \<or> a = 127 \<or> (a = 169 \<and> b = 254) \<or> (a = 172 \<and> 16 \<le> b \<and> b < 32) \<or>
        (a = 192 \<and> b = 0 \<and> c = 0) \<or> (a = 192 \<and> b = 0 \<and> c = 2) \<or> (a = 192 \<and> b = 88 \<and> c = 99) \<or> (a = 192 \<and> b = 168) \<or>
        (a = 198 \<and> 18 \<le> b \<and> b < 20) \<or> (a = 198 \<and> b = 51 \<and> c = 100) \<or> (a = 203 \<and> b = 0 \<and> c = 113) \<or> 224 \<le> a)"

lemma div_digit: "q < (n::nat) \<Longrightarrow> (m * n + q) div n = m"
  by (simp add: div_nat_eqI mult.commute)

lemma digit_eq: "c < 256 \<Longrightarrow> C < 256 \<Longrightarrow> x * 256 + c = X * 256 + C \<longleftrightarrow> x = X \<and> c = (C::nat)"
  by (metis add_left_cancel div_digit)

lemma digit_range: "b < 256 \<Longrightarrow> hi \<le> 256 \<Longrightarrow> A * 256 + lo \<le> a * 256 + b \<and> a * 256 + b < A * 256 + hi \<longleftrightarrow> a = A \<and> lo \<le> b \<and> b < (hi::nat)"
  by (cases a A rule: linorder_cases) auto

lemma quotient_iff: "0 < k \<Longrightarrow> n div k = q \<longleftrightarrow> q * k \<le> n \<and> n < q * k + (k::nat)"
  by (metis add.commute div_nat_eqI div_times_less_eq_dividend dividend_less_div_times mult.commute mult_Suc)

lemma number_div:
  assumes "octets_ok (a, b, c, d)"
  shows "ipv4_number (a, b, c, d) div 256 = (a * 256 + b) * 256 + c" "ipv4_number (a, b, c, d) div 65536 = a * 256 + b"
    "ipv4_number (a, b, c, d) div 16777216 = a"
proof -
  have less: "b < 256" "c < 256" "d < 256" using assms by (auto simp: octets_ok_def)
  show one: "ipv4_number (a, b, c, d) div 256 = (a * 256 + b) * 256 + c"
    unfolding ipv4_number_def prod.case by (rule div_digit [OF less(3)])
  have "ipv4_number (a, b, c, d) div 65536 = ipv4_number (a, b, c, d) div 256 div 256" by (simp add: div_mult2_eq [symmetric])
  then show two: "ipv4_number (a, b, c, d) div 65536 = a * 256 + b" unfolding one by (simp only: div_digit [OF less(2)])
  have "ipv4_number (a, b, c, d) div 16777216 = ipv4_number (a, b, c, d) div 65536 div 256" by (simp add: div_mult2_eq [symmetric])
  then show "ipv4_number (a, b, c, d) div 16777216 = a" unfolding two by (simp only: div_digit [OF less(1)])
qed

text \<open>Each kind of range: whole octets, and a part of the second octet.\<close>

lemma in_range_8: "octets_ok (a, b, c, d) \<Longrightarrow> A < 256 \<Longrightarrow> ipv4InCidr (a, b, c, d) (A, 0, 0, 0) 8 \<longleftrightarrow> a = A"
  by (simp add: cidr_iff octets_ok_def number_div)

lemma in_range_16: "octets_ok (a, b, c, d) \<Longrightarrow> A < 256 \<Longrightarrow> B < 256 \<Longrightarrow> ipv4InCidr (a, b, c, d) (A, B, 0, 0) 16 \<longleftrightarrow> a = A \<and> b = B"
  by (simp add: cidr_iff octets_ok_def number_div digit_eq)

lemma in_range_24:
  assumes "octets_ok (a, b, c, d)" "A < 256" "B < 256" "C < 256"
  shows "ipv4InCidr (a, b, c, d) (A, B, C, 0) 24 \<longleftrightarrow> a = A \<and> b = B \<and> c = C"
proof -
  have ok: "octets_ok (A, B, C, 0)" using assms by (simp add: octets_ok_def)
  have "ipv4InCidr (a, b, c, d) (A, B, C, 0) 24 \<longleftrightarrow> (a * 256 + b) * 256 + c = (A * 256 + B) * 256 + C"
    using cidr_iff [OF assms(1) ok, of 24] number_div(1) [OF assms(1)] number_div(1) [OF ok] by simp
  also have "\<dots> \<longleftrightarrow> a * 256 + b = A * 256 + B \<and> c = C" using assms by (intro digit_eq) (simp_all add: octets_ok_def)
  also have "a * 256 + b = A * 256 + B \<longleftrightarrow> a = A \<and> b = B" using assms by (intro digit_eq) (simp_all add: octets_ok_def)
  finally show ?thesis by simp
qed

lemma in_range_part:
  assumes "octets_ok (a, b, c, d)" "A < 256" "k \<le> 8" "B < 256" "B mod 2 ^ k = 0"
  shows "ipv4InCidr (a, b, c, d) (A, B, 0, 0) (16 - k) \<longleftrightarrow> a = A \<and> B \<le> b \<and> b < B + 2 ^ k"
proof -
  have ok: "octets_ok (A, B, 0, 0)" using assms by (simp add: octets_ok_def)
  have le: "B + 2 ^ k \<le> 256"
  proof -
    obtain q where q: "B = q * 2 ^ k" using assms(5) by (metis dvd_def mod_eq_0_iff_dvd mult.commute)
    have "256 = 2 ^ (8 - k) * (2 ^ k :: nat)" using assms(3) by (simp flip: power_add)
    with assms(4) q have "q < 2 ^ (8 - k)" by simp
    then have "(q + 1) * 2 ^ k \<le> 2 ^ (8 - k) * 2 ^ k" by (intro mult_le_mono1) simp
    with \<open>256 = 2 ^ (8 - k) * (2 ^ k :: nat)\<close> q show ?thesis by simp
  qed
  have pow: "(2::nat) ^ (32 - (16 - k)) = 65536 * 2 ^ k" using assms(3) by (simp add: power_add)
  have "(2::nat) ^ k dvd 2 ^ 8" using assms(3) by (rule le_imp_power_dvd)
  then have "2 ^ k dvd A * 256" by simp
  moreover have "2 ^ k dvd B" using assms(5) by (rule mod_0_imp_dvd)
  ultimately have "2 ^ k dvd A * 256 + B" by (rule dvd_add)
  then have base: "(A * 256 + B) div 2 ^ k * 2 ^ k = A * 256 + B" by simp
  have "ipv4InCidr (a, b, c, d) (A, B, 0, 0) (16 - k) \<longleftrightarrow> (a * 256 + b) div 2 ^ k = (A * 256 + B) div 2 ^ k"
    unfolding cidr_iff [OF assms(1) ok] pow div_mult2_eq number_div [OF assms(1)] number_div [OF ok] ..
  also have "\<dots> \<longleftrightarrow> A * 256 + B \<le> a * 256 + b \<and> a * 256 + b < A * 256 + (B + 2 ^ k)"
    by (simp add: quotient_iff base add.assoc)
  also have "\<dots> \<longleftrightarrow> a = A \<and> B \<le> b \<and> b < B + 2 ^ k"
    using assms(1) le by (intro digit_range) (simp_all add: octets_ok_def)
  finally show ?thesis .
qed

lemma in_range_4:
  assumes "octets_ok (a, b, c, d)" "A < 256" "A mod 16 = 0"
  shows "ipv4InCidr (a, b, c, d) (A, 0, 0, 0) 4 \<longleftrightarrow> A \<le> a \<and> a < A + 16"
proof -
  have ok: "octets_ok (A, 0, 0, 0)" using assms by (simp add: octets_ok_def)
  have pow: "(2::nat) ^ (32 - 4) = 16777216 * 16" by simp
  have base: "A div 16 * 16 = A" using assms(3) by (simp add: mod_0_imp_dvd)
  have "ipv4InCidr (a, b, c, d) (A, 0, 0, 0) 4 \<longleftrightarrow> a div 16 = A div 16"
    unfolding cidr_iff [OF assms(1) ok] pow div_mult2_eq number_div [OF assms(1)] number_div [OF ok] ..
  then show ?thesis by (simp add: quotient_iff base)
qed

lemma special_ranges:
  assumes "octets_ok octets"
  shows "list_ex (\<lambda>(network, prefixLength). ipv4InCidr octets network prefixLength) NON_PUBLIC_IPV4_RANGES \<longleftrightarrow> special_ipv4 octets"
proof -
  obtain a b c d where o: "octets = (a, b, c, d)" by (cases octets)
  with assms have ok: "octets_ok (a, b, c, d)" by simp
  then have "a < 256" by (simp add: octets_ok_def)
  then have top: "224 \<le> a \<and> a < 240 \<or> 240 \<le> a \<and> a < 256 \<longleftrightarrow> 224 \<le> a" by linarith
  have parts: "ipv4InCidr (a, b, c, d) (100, 64, 0, 0) 10 \<longleftrightarrow> a = 100 \<and> 64 \<le> b \<and> b < 128"
      "ipv4InCidr (a, b, c, d) (172, 16, 0, 0) 12 \<longleftrightarrow> a = 172 \<and> 16 \<le> b \<and> b < 32"
      "ipv4InCidr (a, b, c, d) (198, 18, 0, 0) 15 \<longleftrightarrow> a = 198 \<and> 18 \<le> b \<and> b < 20"
    using in_range_part [OF ok, of 100 6 64] in_range_part [OF ok, of 172 4 16] in_range_part [OF ok, of 198 1 18] by simp_all
  show ?thesis
    unfolding NON_PUBLIC_IPV4_RANGES_def special_ipv4_def o
    by (simp add: parts in_range_8 [OF ok] in_range_16 [OF ok] in_range_24 [OF ok] in_range_4 [OF ok] top)
qed


section \<open>Dotted quads\<close>

lemma split_not_Nil [simp]: "js_split c s \<noteq> []"
  by (cases s) (auto split: list.splits)

lemma split_whole: "c \<notin> set s \<Longrightarrow> js_split c s = [s]"
  by (induction s) auto

lemma split_append: "c \<notin> set p \<Longrightarrow> js_split c (p @ c # r) = p # js_split c r"
  by (induction p) auto

lemma join_split: "js_join [c] (js_split c s) = s"
proof (induction s)
  case (Cons x s)
  obtain part parts where "js_split c s = part # parts" by (cases "js_split c s") auto
  with Cons show ?case by (auto simp: js_join_def)
qed (simp add: js_join_def)

lemma split_parts: "part \<in> set (js_split c s) \<Longrightarrow> c \<notin> set part"
proof (induction s arbitrary: part)
  case (Cons x s)
  obtain first parts where "js_split c s = first # parts" by (cases "js_split c s") auto
  with Cons show ?case by (auto split: if_splits)
qed simp

lemma digit_char_value: "d < 10 \<Longrightarrow> hex_value (digit_char d) = d" "d < 10 \<Longrightarrow> is_digit (digit_char d)"
  by (simp_all add: hex_value_def digit_char_def is_digit_def)

lemma show_nat_step: "n \<ge> 10 \<Longrightarrow> show_nat n = show_nat (n div 10) @ [digit_char (n mod 10)]"
  by (subst show_nat.simps) simp

lemma show_nat_small: "n < 10 \<Longrightarrow> show_nat n = [digit_char n]"
  by (subst show_nat.simps) simp

lemma show_nat_digits: "list_all is_digit (show_nat n) \<and> numeral_of 10 (show_nat n) = n \<and> 1 \<le> length (show_nat n)"
proof (induction n rule: show_nat.induct)
  case (1 n)
  show ?case
  proof (cases "n < 10")
    case False
    then show ?thesis using 1 by (simp add: show_nat_step numeral_of_def digit_char_value)
  qed (simp add: show_nat_small numeral_of_def digit_char_value)
qed

lemma show_nat_length: "n < 10 ^ Suc k \<Longrightarrow> length (show_nat n) \<le> Suc k"
proof (induction k arbitrary: n)
  case (Suc k)
  show ?case
  proof (cases "n < 10")
    case False
    moreover have "n div 10 < 10 ^ Suc k" using Suc.prems by (simp add: less_mult_imp_div_less)
    then have "length (show_nat (n div 10)) \<le> Suc k" by (rule Suc.IH)
    ultimately show ?thesis by (simp add: show_nat_step)
  qed (simp add: show_nat_small)
qed (simp add: show_nat_small)

lemma show_octet: "n < 256 \<Longrightarrow> parse_octet (show_nat n) = Some n \<and> CHR ''.'' \<notin> set (show_nat n) \<and> CHR '':'' \<notin> set (show_nat n)"
  using show_nat_digits [of n] show_nat_length [of n 2]
  by (auto simp: parse_octet_def Let_def list_all_iff is_digit_def)

lemma octet_bound: "parse_octet part = Some n \<Longrightarrow> n < 256"
  by (auto simp: parse_octet_def Let_def split: if_splits)

lemma split_dotted:
  "octets_ok (a, b, c, d) \<Longrightarrow> js_split (CHR ''.'') (dotted a b c d) = [show_nat a, show_nat b, show_nat c, show_nat d]"
  by (simp add: octets_ok_def dotted_def split_append split_whole show_octet)

lemma parse_dotted: "octets_ok (a, b, c, d) \<Longrightarrow> parseIpv4 (dotted a b c d) = Some (a, b, c, d)"
  unfolding parseIpv4_def by (subst split_dotted) (simp_all add: octets_ok_def show_octet)

lemma parseIpv4_parts:
  assumes "parseIpv4 s = Some (a, b, c, d)"
  shows "map parse_octet (js_split (CHR ''.'') s) = [Some a, Some b, Some c, Some d]"
  using assms unfolding parseIpv4_def by (auto split: list.splits option.splits)

lemma parseIpv4_ok: "parseIpv4 s = Some octets \<Longrightarrow> octets_ok octets"
  by (cases octets) (auto simp: octets_ok_def dest!: parseIpv4_parts octet_bound)

lemma isIPv4_iff: "isIPv4 s \<longleftrightarrow> (\<exists>a b c d. octets_ok (a, b, c, d) \<and> s = dotted a b c d)"
proof
  assume v4: "isIPv4 s"
  then obtain p q r t where parts: "js_split (CHR ''.'') s = [p, q, r, t]"
    unfolding isIPv4_def by (auto simp: length_Suc_conv numeral_eq_Suc)
  with v4 obtain a b c d where ds: "parse_octet p = Some a" "parse_octet q = Some b" "parse_octet r = Some c" "parse_octet t = Some d"
      "show_nat a = p" "show_nat b = q" "show_nat c = r" "show_nat d = t"
    by (auto simp: isIPv4_def strict_octet_def split: option.splits)
  have "s = js_join ''.'' [p, q, r, t]" using join_split [of "CHR ''.''" s] parts by simp
  then have "s = dotted a b c d" using ds by (simp add: js_join_def dotted_def)
  moreover have "octets_ok (a, b, c, d)" using ds octet_bound by (auto simp: octets_ok_def)
  ultimately show "\<exists>a b c d. octets_ok (a, b, c, d) \<and> s = dotted a b c d" by blast
next
  assume "\<exists>a b c d. octets_ok (a, b, c, d) \<and> s = dotted a b c d"
  then obtain a b c d where d: "octets_ok (a, b, c, d)" "s = dotted a b c d" by blast
  have "strict_octet (show_nat n)" if "n < 256" for n using show_octet [OF that] by (simp add: strict_octet_def)
  with d show "isIPv4 s" by (simp add: isIPv4_def split_dotted) (simp add: octets_ok_def)
qed

definition public_ipv4 :: "octets4 \<Rightarrow> bool" where
  "public_ipv4 octets \<longleftrightarrow> \<not> special_ipv4 octets \<and> octets \<noteq> (168, 63, 129, 16)"

lemma public_dotted:
  assumes "octets_ok (a, b, c, d)"
  shows "isPublicIpv4 (dotted a b c d) \<longleftrightarrow> public_ipv4 (a, b, c, d)"
proof -
  have meta: "dotted 168 63 129 16 = ''168.63.129.16''" by code_simp
  have "dotted a b c d = ''168.63.129.16'' \<longleftrightarrow> (a, b, c, d) = (168, 63, 129, 16)"
  proof
    assume "dotted a b c d = ''168.63.129.16''"
    then have "parseIpv4 (dotted a b c d) = parseIpv4 (dotted 168 63 129 16)" using meta by simp
    then show "(a, b, c, d) = (168, 63, 129, 16)" using assms by (simp add: parse_dotted octets_ok_def)
  qed (use meta in simp)
  then show ?thesis
    by (simp add: isPublicIpv4_def parse_dotted [OF assms] special_ranges [OF assms] KNOWN_METADATA_IPV4_def public_ipv4_def conj_commute)
qed


section \<open>IPv6 addresses as eight groups\<close>

definition ipv6_numbers :: "string \<Rightarrow> nat list option" where
  "ipv6_numbers address =
     (let normalized = unbracket (js_to_lower address)
      in if CHR ''%'' \<in> set normalized then None
         else case expand_dotted parseIpv4 normalized of
                None \<Rightarrow> None
              | Some expanded \<Rightarrow> map_option (map (numeral_of 16)) (ipv6_groups expanded))"

definition number_bytes :: "nat \<Rightarrow> 8 word list" where
  "number_bytes n = [of_nat (n div 256), of_nat n]"

lemma parseIpv6_numbers: "parseIpv6 address = map_option (\<lambda>gs. concat (map number_bytes gs)) (ipv6_numbers address)"
proof -
  have "group_bytes = number_bytes \<circ> numeral_of 16" by (auto simp: group_bytes_def number_bytes_def Let_def)
  then show ?thesis by (simp add: parseIpv6_def ipv6_numbers_def Let_def option.map_comp comp_def split: option.split)
qed

lemma hex_char_value: "is_digit c \<or> (97 \<le> code c \<and> code c \<le> 102) \<Longrightarrow> hex_value c < 16"
  by (auto simp: is_digit_def hex_value_def)

lemma numeral_bound: "list_all (\<lambda>c. hex_value c < b) ds \<Longrightarrow> numeral_of b ds < b ^ length ds"
proof (induction ds rule: rev_induct)
  case (snoc d ds)
  then have "numeral_of b ds + 1 \<le> b ^ length ds" "hex_value d < b" by auto
  then have "b * (numeral_of b ds + 1) \<le> b * b ^ length ds" by (intro mult_le_mono2)
  with \<open>hex_value d < b\<close> show ?case by (simp add: numeral_of_def)
qed (simp add: numeral_of_def)

lemma hex_group_bound: "hex_group g \<Longrightarrow> numeral_of 16 g < 65536"
proof -
  assume g: "hex_group g"
  then have "list_all (\<lambda>c. hex_value c < 16) g" by (auto simp: hex_group_def list_all_iff hex_char_value)
  then have "numeral_of 16 g < 16 ^ length g" by (rule numeral_bound)
  also have "\<dots> \<le> 16 ^ 4" using g by (intro power_increasing) (auto simp: hex_group_def)
  finally show ?thesis by simp
qed

lemma ipv6_numbers_ok:
  assumes "ipv6_numbers address = Some gs"
  shows "length gs = 8 \<and> list_all (\<lambda>g. g < 65536) gs"
proof -
  obtain groups expanded where "gs = map (numeral_of 16) groups" "ipv6_groups expanded = Some groups"
    using assms by (auto simp: ipv6_numbers_def Let_def split: if_splits option.splits)
  then show ?thesis by (auto simp: ipv6_groups_def Let_def list_all_iff hex_group_bound split: if_splits)
qed

text \<open>The addresses that are taken as public, by groups: global unicast less the special blocks, or a mapped IPv4 address.\<close>

definition public_ipv6 :: "nat list \<Rightarrow> bool" where
  "public_ipv6 gs =
     (if take 6 gs = [0, 0, 0, 0, 0, 0xffff]
      then public_ipv4 (gs ! 6 div 256, gs ! 6 mod 256, gs ! 7 div 256, gs ! 7 mod 256)
      else 0x2000 \<le> gs ! 0 \<and> gs ! 0 < 0x4000 \<and>
           \<not> (gs ! 0 = 0x2001 \<and> gs ! 1 < 0x200) \<and> \<not> (gs ! 0 = 0x2001 \<and> gs ! 1 = 0xdb8) \<and> gs ! 0 \<noteq> 0x2002 \<and>
           gs ! 0 \<noteq> 0x3ffe \<and> \<not> (gs ! 0 = 0x3fff \<and> gs ! 1 < 0x1000))"

lemma unat_high: "n < 65536 \<Longrightarrow> unat (of_nat (n div 256) :: 8 word) = n div 256"
  by (simp add: unat_of_nat take_bit_eq_mod)

lemma unat_low: "unat (of_nat n :: 8 word) = n mod 256"
  by (simp add: unat_of_nat take_bit_eq_mod)

lemma high_eq: "n < 65536 \<Longrightarrow> (of_nat (n div 256) :: 8 word) = x \<longleftrightarrow> n div 256 = unat x"
  by (metis unat_high word_unat_eq_iff)

lemma low_eq: "(of_nat n :: 8 word) = x \<longleftrightarrow> n mod 256 = unat x"
  by (metis unat_low word_unat_eq_iff)

lemma group_eq: "h < 256 \<Longrightarrow> l < 256 \<Longrightarrow> n div 256 = h \<and> n mod 256 = l \<longleftrightarrow> n = 256 * h + (l::nat)"
  by auto

lemma byte_masked:
  fixes x y :: "8 word"
  shows "x AND push_bit k 0xff = y AND push_bit k 0xff \<longleftrightarrow> unat x div 2 ^ k = unat y div 2 ^ k"
proof -
  have "(0xff :: 8 word) = - 1" by simp
  then show ?thesis by (simp only: masked_eq)
qed

lemma upt_small: "[0..<2] = [0, 1::nat]" "[0..<4] = [0, 1, 2, 3::nat]"
  by (simp_all add: upt_rec)

lemma ipv6_prefixes:
  assumes "g < 65536" "h < 65536"
  shows "hasIpv6Prefix (number_bytes g @ number_bytes h @ rest) [0x20] 3 \<longleftrightarrow> 0x2000 \<le> g \<and> g < 0x4000"
    and "hasIpv6Prefix (number_bytes g @ number_bytes h @ rest) [0x20, 0x01, 0x00] 23 \<longleftrightarrow> g = 0x2001 \<and> h < 0x200"
    and "hasIpv6Prefix (number_bytes g @ number_bytes h @ rest) [0x20, 0x01, 0x0d, 0xb8] 32 \<longleftrightarrow> g = 0x2001 \<and> h = 0xdb8"
    and "hasIpv6Prefix (number_bytes g @ number_bytes h @ rest) [0x20, 0x02] 16 \<longleftrightarrow> g = 0x2002"
    and "hasIpv6Prefix (number_bytes g @ number_bytes h @ rest) [0x3f, 0xfe] 16 \<longleftrightarrow> g = 0x3ffe"
    and "hasIpv6Prefix (number_bytes g @ number_bytes h @ rest) [0x3f, 0xff] 20 \<longleftrightarrow> g = 0x3fff \<and> h < 0x1000"
proof -
  note bytes = hasIpv6Prefix_def Let_def number_bytes_def nth_byte_def byte_or_0_def upt_small byte_masked
    high_eq [OF assms(1)] high_eq [OF assms(2)] unat_high [OF assms(1)] unat_high [OF assms(2)] low_eq unat_low
  have "g div 256 mod 256 = g div 256" "h div 256 mod 256 = h div 256" using assms by simp_all
  note high = this less_eq_div_iff_mult_less_eq div_less_iff_less_mult
  show "hasIpv6Prefix (number_bytes g @ number_bytes h @ rest) [0x20] 3 \<longleftrightarrow> 0x2000 \<le> g \<and> g < 0x4000"
    by (simp add: bytes quotient_iff high)
  show "hasIpv6Prefix (number_bytes g @ number_bytes h @ rest) [0x20, 0x01, 0x00] 23 \<longleftrightarrow> g = 0x2001 \<and> h < 0x200"
    using group_eq [of 32 1 g] by (auto simp: bytes high div_mult2_eq [symmetric] div_eq_0_iff)
  show "hasIpv6Prefix (number_bytes g @ number_bytes h @ rest) [0x20, 0x01, 0x0d, 0xb8] 32 \<longleftrightarrow> g = 0x2001 \<and> h = 0xdb8"
    using group_eq [of 32 1 g] group_eq [of 13 184 h] by (auto simp: bytes high)
  show "hasIpv6Prefix (number_bytes g @ number_bytes h @ rest) [0x20, 0x02] 16 \<longleftrightarrow> g = 0x2002"
    using group_eq [of 32 2 g] by (auto simp: bytes high)
  show "hasIpv6Prefix (number_bytes g @ number_bytes h @ rest) [0x3f, 0xfe] 16 \<longleftrightarrow> g = 0x3ffe"
    using group_eq [of 63 254 g] by (auto simp: bytes high)
  show "hasIpv6Prefix (number_bytes g @ number_bytes h @ rest) [0x3f, 0xff] 20 \<longleftrightarrow> g = 0x3fff \<and> h < 0x1000"
    using group_eq [of 63 255 g] by (auto simp: bytes high div_mult2_eq [symmetric] div_eq_0_iff)
qed

lemma eight_groups:
  assumes "length gs = (8::nat)"
  obtains a b c d e f g h where "gs = [a, b, c, d, e, f, g, h]"
  using assms by (auto simp: length_Suc_conv numeral_eq_Suc)

lemma zero_group: "n < 65536 \<Longrightarrow> n div 256 = 0 \<and> n mod 256 = 0 \<longleftrightarrow> n = (0::nat)"
  by auto

lemma public_groups:
  assumes "length gs = 8" "list_all (\<lambda>g. g < 65536) gs" "parseIpv6 address = Some (concat (map number_bytes gs))"
  shows "isPublicIpv6 address \<longleftrightarrow> public_ipv6 gs"
proof -
  obtain a b c d e f g h where gs: "gs = [a, b, c, d, e, f, g, h]" using eight_groups [OF assms(1)] .
  with assms(2) have less: "a < 65536" "b < 65536" "c < 65536" "d < 65536" "e < 65536" "f < 65536" "g < 65536" "h < 65536" by auto
  let ?bytes = "concat (map number_bytes gs)"
  have split: "?bytes = number_bytes a @ number_bytes b @ concat (map number_bytes [c, d, e, f, g, h])" by (simp add: gs)
  have zero: "number_bytes n = [0, 0] \<longleftrightarrow> n = 0" if "n < 65536" for n
    using that zero_group [OF that] by (auto simp: number_bytes_def high_eq [OF that] low_eq)
  have "number_bytes f = [0xff, 0xff] \<longleftrightarrow> f = 0xffff"
    using group_eq [of 255 255 f] less(6) by (simp add: number_bytes_def low_eq)
  moreover have "list_all (\<lambda>b. b = 0) (take 10 ?bytes) \<and> ?bytes ! 10 = 0xff \<and> ?bytes ! 11 = 0xff \<longleftrightarrow>
      number_bytes a = [0, 0] \<and> number_bytes b = [0, 0] \<and> number_bytes c = [0, 0] \<and> number_bytes d = [0, 0] \<and> number_bytes e = [0, 0] \<and>
      number_bytes f = [0xff, 0xff]"
    by (simp add: gs number_bytes_def)
  ultimately have mapped: "list_all (\<lambda>b. b = 0) (take 10 ?bytes) \<and> ?bytes ! 10 = 0xff \<and> ?bytes ! 11 = 0xff \<longleftrightarrow> take 6 gs = [0, 0, 0, 0, 0, 0xffff]"
    by (simp add: zero less gs)
  have tail: "unat (?bytes ! 12) = g div 256" "unat (?bytes ! 13) = g mod 256" "unat (?bytes ! 14) = h div 256" "unat (?bytes ! 15) = h mod 256"
    using less by (simp_all add: gs number_bytes_def unat_low)
  have quad: "isPublicIpv4 (dotted (g div 256) (g mod 256) (h div 256) (h mod 256)) \<longleftrightarrow> public_ipv4 (g div 256, g mod 256, h div 256, h mod 256)"
    using less by (intro public_dotted) (simp add: octets_ok_def less_mult_imp_div_less)
  show ?thesis
    unfolding isPublicIpv6_def assms(3) option.case public_ipv6_def mapped tail quad
    unfolding split ipv6_prefixes [OF less(1,2)] by (simp add: gs)
qed

text \<open>An IPv6 address is taken as public exactly if its eight groups are.\<close>

lemma public_ipv6_iff: "isPublicIpv6 address \<longleftrightarrow> (\<exists>gs. ipv6_numbers address = Some gs \<and> public_ipv6 gs)"
proof (cases "ipv6_numbers address")
  case None
  then show ?thesis by (simp add: isPublicIpv6_def parseIpv6_numbers)
next
  case (Some gs)
  with ipv6_numbers_ok [OF Some] show ?thesis by (simp add: public_groups parseIpv6_numbers)
qed


section \<open>Addresses and URLs\<close>

text \<open>What an address text stands for, and whether that is public.\<close>

definition public_text :: "string \<Rightarrow> bool" where
  "public_text t \<longleftrightarrow>
     (\<exists>a b c d. octets_ok (a, b, c, d) \<and> t = dotted a b c d \<and> public_ipv4 (a, b, c, d)) \<or>
     (\<exists>gs. ipv6_numbers t = Some gs \<and> public_ipv6 gs)"

lemma split_double_whole: "CHR '':'' \<notin> set s \<Longrightarrow> split_double s = [s]"
  by (induction s rule: split_double.induct) auto

lemma colon_lower: "CHR '':'' \<in> set (js_to_lower s) \<Longrightarrow> CHR '':'' \<in> set s"
proof -
  have "lower_char c = CHR '':'' \<Longrightarrow> c = CHR '':''" for c
    by (auto simp: lower_char_def Let_def split: if_splits dest: arg_cong [of _ _ code])
  then show "CHR '':'' \<in> set (js_to_lower s) \<Longrightarrow> CHR '':'' \<in> set s" by (auto simp: js_to_lower_def) metis
qed

lemma set_unbracket: "set (unbracket s) \<subseteq> set s"
  by (auto simp: unbracket_def dest!: in_set_butlastD list.set_sel(2) [rotated])

lemma no_colon_no_groups: "CHR '':'' \<notin> set t \<Longrightarrow> ipv6_numbers t = None"
proof -
  assume t: "CHR '':'' \<notin> set t"
  let ?n = "unbracket (js_to_lower t)"
  have n: "CHR '':'' \<notin> set ?n" using set_unbracket colon_lower t by blast
  then have "ipv6_groups ?n = None"
    by (auto simp: ipv6_groups_def Let_def split_double_whole split_groups_def split_whole)
  with n show ?thesis by (simp add: ipv6_numbers_def Let_def expand_dotted_def last_colon_def)
qed

lemma dotted_no_colon: "octets_ok (a, b, c, d) \<Longrightarrow> CHR '':'' \<notin> set (dotted a b c d)"
  by (auto simp: dotted_def octets_ok_def show_octet)

lemma isPublicIpAddress_iff: "isPublicIpAddress t \<longleftrightarrow> isIP (unbracket t) \<noteq> 0 \<and> public_text (unbracket t)"
proof (cases "isIPv4 (unbracket t)")
  case True
  then obtain a b c d where d: "octets_ok (a, b, c, d)" "unbracket t = dotted a b c d" using isIPv4_iff by blast
  have "public_text (dotted a b c d) \<longleftrightarrow> public_ipv4 (a, b, c, d)"
  proof
    assume "public_text (dotted a b c d)"
    then obtain a' b' c' d' where other: "octets_ok (a', b', c', d')" "dotted a b c d = dotted a' b' c' d'" "public_ipv4 (a', b', c', d')"
      unfolding public_text_def no_colon_no_groups [OF dotted_no_colon [OF d(1)]] by blast
    then have "Some (a, b, c, d) = Some (a', b', c', d')" using parse_dotted [OF d(1)] parse_dotted [OF other(1)] by metis
    with other(3) show "public_ipv4 (a, b, c, d)" by simp
  qed (unfold public_text_def, use d(1) in blast)
  with True d show ?thesis by (simp add: isPublicIpAddress_def isIP_def public_dotted)
next
  case False
  then have "\<not> (\<exists>a b c d. octets_ok (a, b, c, d) \<and> unbracket t = dotted a b c d \<and> public_ipv4 (a, b, c, d))"
    using isIPv4_iff by blast
  with False show ?thesis by (auto simp: isPublicIpAddress_def isIP_def public_text_def public_ipv6_iff)
qed

text \<open>
  C15. The guard lets a URL through exactly if it parses, has no control character or space, is HTTP(S) without
  credentials, its host is not a local name, and the host is a public address or resolves to public addresses
  only; the fragment is dropped. Public is what the octets and groups say: no private, loopback, link-local,
  shared, documentation, benchmark or multicast block, no cloud metadata address, also behind an IPv4-mapped
  IPv6 address, and for IPv6 only global unicast without the transition blocks.
\<close>

theorem guard_admits_iff:
  "validatePublicHttpUrl parse_url resolver rawInput = Inr url \<longleftrightarrow>
     (\<exists>u. parse_url rawInput = Some u \<and> \<not> containsControlOrSpace rawInput \<and> url = u\<lparr>url_fragment := None\<rparr> \<and>
        (url_protocol u = ''http:'' \<or> url_protocol u = ''https:'') \<and> url_username u = [] \<and> url_password u = [] \<and>
        url_host u \<noteq> [] \<and> \<not> isClearlyNonPublicHostname (url_host u) \<and>
        (if isIP (url_host u) \<noteq> 0 then isIP (unbracket (url_host u)) \<noteq> 0 \<and> public_text (unbracket (url_host u))
         else \<exists>addresses. resolver (url_host u) = Some addresses \<and> addresses \<noteq> [] \<and>
           list_all (\<lambda>r. isIP (ra_address r) = ra_family r \<and> isIP (unbracket (ra_address r)) \<noteq> 0 \<and> public_text (unbracket (ra_address r))) addresses))"
proof -
  have host: "url_host (u\<lparr>url_fragment := f\<rparr>) = url_host u" for u :: URL and f by (simp add: url_host_def)
  have safe: "list_all (\<lambda>r. isIP (ra_address r) = ra_family r \<and> isPublicIpAddress (ra_address r)) addresses \<longleftrightarrow> \<not> list_ex unsafe_address addresses"
    for addresses :: "ResolvedAddress list"
    by (auto simp: unsafe_address_def list_ex_iff list_all_iff)
  show ?thesis
    unfolding validatePublicHttpUrl_def Let_def host isPublicIpAddress_iff [symmetric] safe
    by (cases "parse_url rawInput") (auto split: option.splits)
qed


section \<open>Reading what is written\<close>

definition hex_char :: "char \<Rightarrow> bool" where
  "hex_char c \<longleftrightarrow> is_digit c \<or> (97 \<le> code c \<and> code c \<le> 102)"

lemma hex_digit_value: "d < 16 \<Longrightarrow> hex_char (hex_digit d)"
  by (auto simp: hex_char_def hex_digit_def is_digit_def)

lemma show_hex_step: "n \<ge> 16 \<Longrightarrow> show_hex n = show_hex (n div 16) @ [hex_digit (n mod 16)]"
  by (subst show_hex.simps) simp

lemma show_hex_small: "n < 16 \<Longrightarrow> show_hex n = [hex_digit n]"
  by (subst show_hex.simps) simp

lemma show_hex_digits: "list_all hex_char (show_hex n) \<and> numeral_of 16 (show_hex n) = n \<and> 1 \<le> length (show_hex n)"
proof (induction n rule: show_hex.induct)
  case (1 n)
  show ?case
  proof (cases "n < 16")
    case False
    then show ?thesis using 1 by (simp add: show_hex_step numeral_of_def hex_value_hex_digit hex_digit_value)
  qed (simp add: show_hex_small numeral_of_def hex_value_hex_digit hex_digit_value)
qed

lemma show_hex_length: "n < 16 ^ Suc k \<Longrightarrow> length (show_hex n) \<le> Suc k"
proof (induction k arbitrary: n)
  case (Suc k)
  show ?case
  proof (cases "n < 16")
    case False
    moreover have "n div 16 < 16 ^ Suc k" using Suc.prems by (simp add: less_mult_imp_div_less)
    then have "length (show_hex (n div 16)) \<le> Suc k" by (rule Suc.IH)
    ultimately show ?thesis by (simp add: show_hex_step)
  qed (simp add: show_hex_small)
qed (simp add: show_hex_small)

lemma show_hex_group: "n < 65536 \<Longrightarrow> hex_group (show_hex n)"
  using show_hex_digits [of n] show_hex_length [of n 3] by (simp add: hex_group_def hex_char_def [abs_def])

lemma hex_char_plain: "hex_char c \<Longrightarrow> c \<notin> set '':.%[]'' \<and> lower_char c = c"
  by (auto simp: hex_char_def is_digit_def lower_char_def Let_def)

text \<open>A text with no two colons in a row is one part; after such a text a double colon separates.\<close>

fun no_double :: "string \<Rightarrow> bool" where
  "no_double (x # y # xs) \<longleftrightarrow> \<not> (x = CHR '':'' \<and> y = CHR '':'') \<and> no_double (y # xs)"
| "no_double _ \<longleftrightarrow> True"

lemma no_double_plain: "CHR '':'' \<notin> set s \<Longrightarrow> no_double s"
  by (induction s rule: no_double.induct) auto

lemma no_double_Cons: "no_double (x # q) \<longleftrightarrow> (q = [] \<or> \<not> (x = CHR '':'' \<and> hd q = CHR '':'') \<and> no_double q)"
  by (cases q) auto

lemma no_double_append:
  "no_double p \<Longrightarrow> no_double q \<Longrightarrow> p \<noteq> [] \<Longrightarrow> last p \<noteq> CHR '':'' \<Longrightarrow> no_double (p @ q)"
  by (induction p) (auto simp: no_double_Cons split: if_splits)

lemma split_double_once: "no_double p \<Longrightarrow> p = [] \<or> last p \<noteq> CHR '':'' \<Longrightarrow> split_double (p @ '':'' @ '':'' @ q) = p # split_double q"
  by (induction p rule: no_double.induct) (auto split: if_splits)

lemma split_double_none: "no_double s \<Longrightarrow> split_double s = [s]"
  by (induction s rule: no_double.induct) (auto split: if_splits)

definition groups_text :: "nat list \<Rightarrow> string" where
  "groups_text gs = js_join '':'' (map show_hex gs)"

lemma groups_text_simps [simp]:
  "groups_text [] = []" "groups_text [g] = show_hex g" "groups_text (g # h # gs) = show_hex g @ CHR '':'' # groups_text (h # gs)"
  by (simp_all add: groups_text_def js_join_def)

lemma show_hex_plain: "CHR '':'' \<notin> set (show_hex g)" "show_hex g \<noteq> []"
proof -
  have "\<not> hex_char (CHR '':'')" by (simp add: hex_char_def is_digit_def)
  moreover have "list_all hex_char (show_hex g)" "1 \<le> length (show_hex g)" using show_hex_digits by blast+
  ultimately show "CHR '':'' \<notin> set (show_hex g)" unfolding list_all_iff by blast
  show "show_hex g \<noteq> []" using \<open>1 \<le> length (show_hex g)\<close> by (metis list.size(3) not_one_le_zero)
qed

lemma show_hex_ends: "hd (show_hex g) \<noteq> CHR '':''" "last (show_hex g) \<noteq> CHR '':''"
  using show_hex_plain [of g] hd_in_set [of "show_hex g"] last_in_set [of "show_hex g"] by metis+

lemma groups_text_shape:
  "gs \<noteq> [] \<Longrightarrow> groups_text gs \<noteq> [] \<and> no_double (groups_text gs) \<and> hd (groups_text gs) \<noteq> CHR '':'' \<and> last (groups_text gs) \<noteq> CHR '':'' \<and>
     js_split (CHR '':'') (groups_text gs) = map show_hex gs"
proof (induction gs rule: induct_list012)
  case (2 g)
  show ?case by (simp add: no_double_plain split_whole show_hex_plain show_hex_ends)
next
  case (3 g h gs)
  let ?t = "groups_text (h # gs)"
  have IH: "?t \<noteq> []" "no_double ?t" "hd ?t \<noteq> CHR '':''" "last ?t \<noteq> CHR '':''" "js_split (CHR '':'') ?t = map show_hex (h # gs)"
    using 3 by auto
  have "no_double (CHR '':'' # ?t)" using IH(1,2,3) by (cases ?t) auto
  then have "no_double (show_hex g @ CHR '':'' # ?t)"
    by (intro no_double_append) (simp_all add: no_double_plain show_hex_plain show_hex_ends)
  moreover have "js_split (CHR '':'') (show_hex g @ CHR '':'' # ?t) = map show_hex (g # h # gs)"
    by (simp only: split_append [OF show_hex_plain(1)] IH(5) list.map)
  ultimately show ?case using IH(1,4) by (simp add: show_hex_plain show_hex_ends)
qed simp

lemma groups_text_chars: "c \<in> set (groups_text gs) \<Longrightarrow> c = CHR '':'' \<or> hex_char c"
proof (induction gs rule: induct_list012)
  case (2 g)
  then show ?case using show_hex_digits [of g] by (auto simp: list_all_iff)
next
  case (3 g h gs)
  then show ?case using show_hex_digits [of g] by (auto simp: list_all_iff)
qed simp

lemma plain_text:
  assumes "\<And>c. c \<in> set t \<Longrightarrow> c = CHR '':'' \<or> hex_char c"
  shows "ipv6_numbers t = map_option (map (numeral_of 16)) (ipv6_groups t)"
proof -
  have plain: "c \<noteq> CHR ''.'' \<and> c \<noteq> CHR ''%'' \<and> c \<noteq> CHR ''['' \<and> lower_char c = c" if "c \<in> set t" for c
    using assms [OF that] hex_char_plain [of c] by (auto simp: lower_char_def Let_def)
  then have "js_to_lower t = t" by (simp add: js_to_lower_def map_idI)
  moreover have "unbracket t = t" using plain by (auto simp: unbracket_def dest: hd_in_set)
  moreover have "CHR ''.'' \<notin> set t" "CHR ''%'' \<notin> set t" using plain by blast+
  ultimately show ?thesis by (simp add: ipv6_numbers_def Let_def expand_dotted_def split: option.split)
qed

lemma show_hex_groups: "list_all (\<lambda>g. g < 65536) gs \<Longrightarrow> list_all hex_group (map show_hex gs) \<and> map (numeral_of 16) (map show_hex gs) = gs"
  using show_hex_digits by (induction gs) (auto simp: show_hex_group)



end
