(* ===== verification/Http_Client.thy ===== *)
theory Http_Client
  imports Url_Safety Complex_Main
begin

text \<open>
  The crawler's HTTP client (\<^verbatim>\<open>crawler/http-client.ts\<close>, \<^verbatim>\<open>crawler/errors.ts\<close> and \<^verbatim>\<open>crawler/http-cache.ts\<close> of
  \<^verbatim>\<open>packages/vacancy-engine\<close>): requests with bounded retries and redirects, the cool-down of a host, conditional
  requests against the cache, and bodies read within a limit.

  Everything outside is a world the client reads and lets pass (clock, DNS, fetch, admission, abort signal, random
  numbers, cache): each question to it is answered by a function of the world, and the world moves on. A promise
  race is such a question too. The client keeps, besides its cool-downs, the list of the fetches it made.
  Delays are whole milliseconds; the jitter is an exact rational.
\<close>

section \<open>Errors\<close>

datatype CrawlerHttpErrorCategory = Network_error | Timeout_error | Blocked | Rate_limited | Unsafe_url | Http_error

datatype CrawlerHttpErrorCode =
    Url_code unsafe_code | Request_timeout | Request_failed | Invalid_redirect | Post_redirect_not_preserved
  | Disallowed_redirect_origin | Redirect_limit | Response_too_large | Unexpected_not_modified
  | Blocked_status | Rate_limited_status | Http_status

record CrawlerHttpError =
  ce_category :: CrawlerHttpErrorCategory
  ce_code :: CrawlerHttpErrorCode
  ce_status :: "nat option"
  ce_retryAfterMs :: "int option"

text \<open>\<open>Still_waiting\<close> is no value of the source: the loop of a hop has used up the turns it was given.\<close>

datatype thrown = Crawler CrawlerHttpError | Caller_aborted | Admission_refused | Range_error | Type_error | Consumer_failed | Still_waiting

definition crawler_error :: "CrawlerHttpErrorCategory \<Rightarrow> CrawlerHttpErrorCode \<Rightarrow> nat option \<Rightarrow> thrown" where
  "crawler_error category errcode status = Crawler \<lparr>ce_category = category, ce_code = errcode, ce_status = status, ce_retryAfterMs = None\<rparr>"

definition url_error :: "unsafe_code \<Rightarrow> thrown" where
  "url_error e = crawler_error (if e = Dns_resolution_failed then Network_error else Unsafe_url) (Url_code e) None"

definition timeoutError :: thrown where
  "timeoutError = crawler_error Timeout_error Request_timeout None"

definition TRANSIENT_HTTP_STATUSES :: "nat list" where "TRANSIENT_HTTP_STATUSES = [500, 502, 503, 504]"
definition BLOCKED_HTTP_STATUSES :: "nat list" where "BLOCKED_HTTP_STATUSES = [401, 403, 406, 407, 451]"
definition REDIRECT_HTTP_STATUSES :: "nat list" where "REDIRECT_HTTP_STATUSES = [301, 302, 303, 307, 308]"

definition SENSITIVE_REQUEST_HEADERS :: "string list" where
  "SENSITIVE_REQUEST_HEADERS = [''authorization'', ''cookie'', ''proxy-authorization'', ''x-subscription-token'']"

definition SENSITIVE_RESPONSE_HEADERS :: "string list" where
  "SENSITIVE_RESPONSE_HEADERS = [''set-cookie'', ''www-authenticate'', ''proxy-authenticate'']"

definition statusError :: "nat \<Rightarrow> int option \<Rightarrow> thrown" where
  "statusError status retryAfterMs =
     (if status = 429 then Crawler \<lparr>ce_category = Rate_limited, ce_code = Rate_limited_status, ce_status = Some status, ce_retryAfterMs = retryAfterMs\<rparr>
      else if status \<in> set BLOCKED_HTTP_STATUSES then crawler_error Blocked Blocked_status (Some status)
      else Crawler \<lparr>ce_category = Http_error, ce_code = Http_status, ce_status = Some status, ce_retryAfterMs = retryAfterMs\<rparr>)"


section \<open>Configuration\<close>

record client_config =
  cc_timeoutMs :: int
  cc_queueTimeoutMs :: int
  cc_cacheTimeoutMs :: int
  cc_maxRetries :: int
  cc_maxRedirects :: int
  cc_maxResponseBytes :: int
  cc_maxStreamTimeoutMs :: int
  cc_maxStreamResponseBytes :: int
  cc_baseRetryDelayMs :: int
  cc_maxRetryDelayMs :: int
  cc_maxRetryAfterMs :: int
  cc_userAgent :: string

record SafeHttpClientOptions =
  so_timeoutMs :: int
  so_queueTimeoutMs :: "int option"
  so_cacheTimeoutMs :: "int option"
  so_maxRetries :: int
  so_userAgent :: string
  so_maxRedirects :: "int option"
  so_maxResponseBytes :: "int option"
  so_maxStreamTimeoutMs :: "int option"
  so_maxStreamResponseBytes :: "int option"
  so_baseRetryDelayMs :: "int option"
  so_maxRetryDelayMs :: "int option"
  so_maxRetryAfterMs :: "int option"

definition ABSOLUTE_MAX_STREAM_TIMEOUT_MS :: int where "ABSOLUTE_MAX_STREAM_TIMEOUT_MS = 15 * 60 * 1000"
definition ABSOLUTE_MAX_STREAM_RESPONSE_BYTES :: int where "ABSOLUTE_MAX_STREAM_RESPONSE_BYTES = 2 * 1024 * 1024 * 1024"

definition or_else :: "'a option \<Rightarrow> 'a \<Rightarrow> 'a" where
  "or_else x d = (case x of None \<Rightarrow> d | Some v \<Rightarrow> v)"

definition positiveInteger :: "bool \<Rightarrow> int \<Rightarrow> bool" where
  "positiveInteger allowZero value \<longleftrightarrow> value < 2 ^ 53 \<and> (if allowZero then 0 else 1) \<le> value"

definition boundedPositiveInteger :: "int \<Rightarrow> int \<Rightarrow> bool" where
  "boundedPositiveInteger maximum value \<longleftrightarrow> positiveInteger False value \<and> value \<le> maximum"

definition config_of :: "SafeHttpClientOptions \<Rightarrow> client_config" where
  "config_of options =
     (let maxResponseBytes = or_else (so_maxResponseBytes options) (5 * 1024 * 1024)
      in \<lparr>cc_timeoutMs = so_timeoutMs options,
           cc_queueTimeoutMs = or_else (so_queueTimeoutMs options) (so_timeoutMs options),
           cc_cacheTimeoutMs = or_else (so_cacheTimeoutMs options) (max 50 (min 5000 (so_timeoutMs options div 3))),
           cc_maxRetries = so_maxRetries options,
           cc_maxRedirects = or_else (so_maxRedirects options) 5,
           cc_maxResponseBytes = maxResponseBytes,
           cc_maxStreamTimeoutMs = or_else (so_maxStreamTimeoutMs options) (min (so_timeoutMs options) ABSOLUTE_MAX_STREAM_TIMEOUT_MS),
           cc_maxStreamResponseBytes = or_else (so_maxStreamResponseBytes options) (min maxResponseBytes ABSOLUTE_MAX_STREAM_RESPONSE_BYTES),
           cc_baseRetryDelayMs = or_else (so_baseRetryDelayMs options) 500,
           cc_maxRetryDelayMs = or_else (so_maxRetryDelayMs options) 15000,
           cc_maxRetryAfterMs = or_else (so_maxRetryAfterMs options) 60000,
           cc_userAgent = js_trim (so_userAgent options)\<rparr>)"

definition config_ok :: "client_config \<Rightarrow> bool" where
  "config_ok cfg \<longleftrightarrow>
     positiveInteger False (cc_timeoutMs cfg) \<and> positiveInteger False (cc_queueTimeoutMs cfg) \<and> positiveInteger False (cc_cacheTimeoutMs cfg) \<and>
     positiveInteger True (cc_maxRetries cfg) \<and> positiveInteger True (cc_maxRedirects cfg) \<and> positiveInteger False (cc_maxResponseBytes cfg) \<and>
     boundedPositiveInteger ABSOLUTE_MAX_STREAM_TIMEOUT_MS (cc_maxStreamTimeoutMs cfg) \<and>
     boundedPositiveInteger ABSOLUTE_MAX_STREAM_RESPONSE_BYTES (cc_maxStreamResponseBytes cfg) \<and>
     positiveInteger False (cc_baseRetryDelayMs cfg) \<and> positiveInteger False (cc_maxRetryDelayMs cfg) \<and>
     positiveInteger False (cc_maxRetryAfterMs cfg) \<and> 10 \<le> length (cc_userAgent cfg)"

definition new_http_client :: "SafeHttpClientOptions \<Rightarrow> thrown + client_config" where
  "new_http_client options = (if config_ok (config_of options) then Inr (config_of options) else Inl Range_error)"


section \<open>Messages\<close>

text \<open>Header names are lower case, as \<^verbatim>\<open>Headers\<close> keeps them.\<close>

type_synonym http_headers = "(string, string) jmap"

datatype SafeHttpMethod = GET | POST

record http_response =
  rs_status :: nat
  rs_headers :: http_headers
  rs_chunks :: "nat list list option"
  rs_broken :: bool

record CachedHttpResponse =
  ch_finalUrl :: string
  ch_status :: nat
  ch_headers :: http_headers
  ch_body :: "nat list"
  ch_etag :: "string option"
  ch_lastModified :: "string option"
  ch_fetchedAt :: int

record SafeHttpResponse =
  sh_requestedUrl :: string
  sh_url :: string
  sh_status :: nat
  sh_headers :: http_headers
  sh_body :: "nat list"
  sh_fromCache :: bool
  sh_revalidated :: bool

datatype 'b HopResult =
    Redirect nat string
  | Retryable nat int "int option" "int option"
  | Not_modified string http_headers
  | Success string nat http_headers 'b
  | Error_status nat

datatype 'b hop_outcome = Deferred int nat | Hop "'b HopResult"

text \<open>A fetch as it left the client, with the clock and the cool-down of its host at that moment.\<close>

record network_fetch =
  nf_url :: URL
  nf_method :: SafeHttpMethod
  nf_headers :: http_headers
  nf_retryIndex :: nat
  nf_redirectIndex :: nat
  nf_now :: int
  nf_deadline :: int
  nf_cooldown :: "(int \<times> nat) option"

datatype fetch_outcome = Response http_response | Fetch_failed | Fetch_timed_out | Fetch_aborted thrown

datatype race = Op_wins | Timeout_wins | Abort_wins

definition headersToRecord :: "http_headers \<Rightarrow> http_headers" where
  "headersToRecord headers = filter (\<lambda>(key, value). js_to_lower key \<notin> set SENSITIVE_RESPONSE_HEADERS) headers"

definition all_digits :: "string \<Rightarrow> bool" where
  "all_digits s \<longleftrightarrow> s \<noteq> [] \<and> list_all is_digit s"

definition rejectOversizedDeclaredBody :: "http_headers \<Rightarrow> int \<Rightarrow> bool" where
  "rejectOversizedDeclaredBody headers maxResponseBytes =
     (case jget headers ''content-length'' of
        None \<Rightarrow> False
      | Some contentLength \<Rightarrow> all_digits contentLength \<and> int (numeral_of 10 contentLength) > maxResponseBytes)"

definition too_large :: "nat \<Rightarrow> thrown" where
  "too_large status = crawler_error Http_error Response_too_large (Some status)"

definition request_failed :: thrown where
  "request_failed = crawler_error Network_error Request_failed None"

fun read_chunks :: "nat \<Rightarrow> int \<Rightarrow> bool \<Rightarrow> nat list \<Rightarrow> nat list list \<Rightarrow> thrown + nat list" where
  "read_chunks status maxBytes broken acc [] = (if broken then Inl request_failed else Inr acc)"
| "read_chunks status maxBytes broken acc (chunk # chunks) =
     (if int (length acc + length chunk) > maxBytes then Inl (too_large status)
      else read_chunks status maxBytes broken (acc @ chunk) chunks)"

definition readBoundedBody :: "int \<Rightarrow> http_response \<Rightarrow> thrown + nat list" where
  "readBoundedBody maxResponseBytes r =
     (if rejectOversizedDeclaredBody (rs_headers r) maxResponseBytes then Inl (too_large (rs_status r))
      else case rs_chunks r of
             None \<Rightarrow> Inr []
           | Some chunks \<Rightarrow> read_chunks (rs_status r) maxResponseBytes (rs_broken r) [] chunks)"

text \<open>The streaming reader hands each chunk to the consumer, who may throw or return a promise (\<open>accepts\<close> is false).\<close>

fun consume_chunks :: "(nat list \<Rightarrow> bool) \<Rightarrow> nat \<Rightarrow> int \<Rightarrow> bool \<Rightarrow> nat \<Rightarrow> nat list list \<Rightarrow> thrown + nat" where
  "consume_chunks accepts status maxBytes broken bytesRead [] = (if broken then Inl request_failed else Inr bytesRead)"
| "consume_chunks accepts status maxBytes broken bytesRead (chunk # chunks) =
     (if int (bytesRead + length chunk) > maxBytes then Inl (too_large status)
      else if \<not> accepts chunk then Inl Consumer_failed
      else consume_chunks accepts status maxBytes broken (bytesRead + length chunk) chunks)"

definition consumeBoundedBody :: "(nat list \<Rightarrow> bool) \<Rightarrow> int \<Rightarrow> http_response \<Rightarrow> thrown + nat" where
  "consumeBoundedBody accepts maxResponseBytes r =
     (if rejectOversizedDeclaredBody (rs_headers r) maxResponseBytes then Inl (too_large (rs_status r))
      else case rs_chunks r of
             None \<Rightarrow> Inr 0
           | Some chunks \<Rightarrow> consume_chunks accepts (rs_status r) maxResponseBytes (rs_broken r) 0 chunks)"

text \<open>\<^verbatim>\<open>Date.parse\<close> is an argument. A count of seconds beyond the largest double is not finite.\<close>

definition parsedRetryAfter :: "(string \<Rightarrow> int option) \<Rightarrow> string option \<Rightarrow> int \<Rightarrow> int option" where
  "parsedRetryAfter parse_date rawValue now =
     (case rawValue of
        None \<Rightarrow> None
      | Some raw \<Rightarrow>
          (let trimmed = js_trim raw
           in if all_digits trimmed
              then (let ms = int (numeral_of 10 trimmed) * 1000 in if ms < 2 ^ 1024 - 2 ^ 970 then Some ms else None)
              else map_option (\<lambda>date. max 0 (date - now)) (parse_date trimmed)))"

definition retryAfterDelay :: "(string \<Rightarrow> int option) \<Rightarrow> string option \<Rightarrow> int \<Rightarrow> int \<Rightarrow> int option" where
  "retryAfterDelay parse_date rawValue now capMs = map_option (min capMs) (parsedRetryAfter parse_date rawValue now)"

definition retryDelay :: "client_config \<Rightarrow> rat \<Rightarrow> nat \<Rightarrow> int" where
  "retryDelay cfg random retryIndex =
     (let exponential = min (cc_maxRetryDelayMs cfg) (cc_baseRetryDelayMs cfg * 2 ^ retryIndex);
          boundedRandom = max 0 (min 1 random)
      in \<lfloor>of_int exponential * (8 / 10 + boundedRandom * (4 / 10)) + 1 / 2\<rfloor>)"


section \<open>The client and its world\<close>

record 'w net =
  nt_tick :: "'w \<Rightarrow> 'w"
  nt_now :: "'w \<Rightarrow> int"
  nt_parse :: "string \<Rightarrow> URL option"
  nt_relative :: "string \<Rightarrow> URL \<Rightarrow> URL option"
  nt_date :: "string \<Rightarrow> int option"
  nt_resolver :: "'w \<Rightarrow> string \<Rightarrow> ResolvedAddress list option"
  nt_race :: "'w \<Rightarrow> race"
  nt_aborted :: "'w \<Rightarrow> bool"
  nt_admit :: "'w \<Rightarrow> URL \<Rightarrow> nat \<Rightarrow> nat \<Rightarrow> bool"
  nt_fetch :: "'w \<Rightarrow> network_fetch \<Rightarrow> string option \<Rightarrow> fetch_outcome"
  nt_random :: "'w \<Rightarrow> rat"
  nt_cached :: "'w \<Rightarrow> string \<Rightarrow> CachedHttpResponse option"
  nt_store :: "'w \<Rightarrow> string \<Rightarrow> CachedHttpResponse \<Rightarrow> 'w"

record 'w client =
  hc_world :: 'w
  hc_cooldowns :: "(string, int \<times> nat) jmap"
  hc_fetches :: "network_fetch list"

type_synonym ('w, 'a) io = "'w client \<Rightarrow> (thrown + 'a) \<times> 'w client"

definition give :: "'a \<Rightarrow> ('w, 'a) io" where
  "give a s = (Inr a, s)"

definition throw :: "thrown \<Rightarrow> ('w, 'a) io" where
  "throw e s = (Inl e, s)"

definition andThen :: "('w, 'a) io \<Rightarrow> ('a \<Rightarrow> ('w, 'b) io) \<Rightarrow> ('w, 'b) io" where
  "andThen m f s = (case m s of (Inl e, t) \<Rightarrow> (Inl e, t) | (Inr a, t) \<Rightarrow> f a t)"

text \<open>A question to the world; the world moves on.\<close>

definition ask :: "'w net \<Rightarrow> ('w \<Rightarrow> 'a) \<Rightarrow> ('w, 'a) io" where
  "ask net question s = (Inr (question (hc_world s)), s\<lparr>hc_world := nt_tick net (hc_world s)\<rparr>)"

definition cooldown_of :: "string \<Rightarrow> ('w, (int \<times> nat) option) io" where
  "cooldown_of host s = (Inr (jget (hc_cooldowns s) host), s)"

definition set_cooldown :: "string \<Rightarrow> int \<times> nat \<Rightarrow> ('w, unit) io" where
  "set_cooldown host c s = (Inr (), s\<lparr>hc_cooldowns := jset (hc_cooldowns s) host c\<rparr>)"

definition drop_cooldown :: "string \<Rightarrow> ('w, unit) io" where
  "drop_cooldown host s = (Inr (), s\<lparr>hc_cooldowns := jdelete (hc_cooldowns s) host\<rparr>)"

definition do_fetch :: "'w net \<Rightarrow> network_fetch \<Rightarrow> string option \<Rightarrow> ('w, fetch_outcome) io" where
  "do_fetch net fetch body s =
     (Inr (nt_fetch net (hc_world s) fetch body), s\<lparr>hc_world := nt_tick net (hc_world s), hc_fetches := hc_fetches s @ [fetch]\<rparr>)"

text \<open>
  \<^verbatim>\<open>#awaitBeforeDeadline\<close>: the operation was started before; its result is given if it wins the race. The
  deadline is computed after the start.
\<close>

definition awaitBeforeDeadline :: "'w net \<Rightarrow> ('w, 'a) io \<Rightarrow> (int \<Rightarrow> int) \<Rightarrow> ('w, 'a) io" where
  "awaitBeforeDeadline net operation deadline s =
     (case operation s of
        (r, t) \<Rightarrow>
          andThen (ask net (nt_now net)) (\<lambda>started.
          andThen (ask net (nt_aborted net)) (\<lambda>aborted.
            if aborted then throw Caller_aborted
            else andThen (ask net (nt_now net)) (\<lambda>now.
              if deadline started - now \<le> 0 then throw timeoutError
              else andThen (ask net (nt_race net)) (\<lambda>winner.
                case winner of
                  Timeout_wins \<Rightarrow> throw timeoutError
                | Abort_wins \<Rightarrow> throw Caller_aborted
                | Op_wins \<Rightarrow> (\<lambda>u. (r, u)))))) t)"

definition validate_io :: "'w net \<Rightarrow> string \<Rightarrow> ('w, URL) io" where
  "validate_io net raw =
     andThen (ask net (\<lambda>w. validatePublicHttpUrl (nt_parse net) (nt_resolver net w) raw)) (\<lambda>r.
       case r of Inl e \<Rightarrow> throw (url_error e) | Inr url \<Rightarrow> give url)"

definition sleepBeforeDeadline :: "'w net \<Rightarrow> int \<Rightarrow> int \<Rightarrow> ('w, unit) io" where
  "sleepBeforeDeadline net requestedDelayMs deadline =
     andThen (ask net (nt_now net)) (\<lambda>now.
       let remainingMs = deadline - now
       in if remainingMs \<le> 0 then throw timeoutError
          else andThen (awaitBeforeDeadline net (ask net (\<lambda>_. ())) (\<lambda>_. deadline + 1)) (\<lambda>_.
            andThen (ask net (nt_now net)) (\<lambda>after.
              if requestedDelayMs \<ge> remainingMs \<or> after \<ge> deadline then throw timeoutError else give ())))"


section \<open>One hop\<close>

text \<open>A reader of bodies turns a response into a value or an error.\<close>

type_synonym 'b body_reader = "http_response \<Rightarrow> thrown + 'b"

definition retryable_result ::
  "'w net \<Rightarrow> client_config \<Rightarrow> string \<Rightarrow> nat \<Rightarrow> http_response \<Rightarrow> ('w, 'b HopResult) io" where
  "retryable_result net cfg hostname retryIndex r =
     (let retryAfter = jget (rs_headers r) ''retry-after''
      in andThen (ask net (nt_now net)) (\<lambda>now1.
         andThen (ask net (nt_now net)) (\<lambda>now2.
           let serverRetryAfterMs = parsedRetryAfter (nt_date net) retryAfter now1;
               explicit = retryAfterDelay (nt_date net) retryAfter now2 (cc_maxRetryAfterMs cfg)
           in andThen (case explicit of
                         Some delay \<Rightarrow> give delay
                       | None \<Rightarrow> andThen (ask net (nt_random net)) (\<lambda>random. give (retryDelay cfg random retryIndex))) (\<lambda>retryDelayMs.
              if rs_status r = 429 \<or> explicit \<noteq> None
              then andThen (ask net (nt_now net)) (\<lambda>now3.
                   andThen (cooldown_of hostname) (\<lambda>existing.
                     let cooldownUntil = now3 + retryDelayMs;
                         result = Retryable (rs_status r) retryDelayMs serverRetryAfterMs (Some cooldownUntil)
                     in case existing of
                          Some (until, _) \<Rightarrow>
                            if until \<le> cooldownUntil then andThen (set_cooldown hostname (cooldownUntil, rs_status r)) (\<lambda>_. give result)
                            else give result
                        | None \<Rightarrow> andThen (set_cooldown hostname (cooldownUntil, rs_status r)) (\<lambda>_. give result)))
              else give (Retryable (rs_status r) retryDelayMs serverRetryAfterMs None)))))"

definition response_result ::
  "'w net \<Rightarrow> client_config \<Rightarrow> URL \<Rightarrow> string \<Rightarrow> nat \<Rightarrow> 'b body_reader \<Rightarrow> http_response \<Rightarrow> ('w, 'b HopResult) io" where
  "response_result net cfg url hostname retryIndex readBody r =
     (if rs_status r \<in> set REDIRECT_HTTP_STATUSES
      then (case jget (rs_headers r) ''location'' of
              None \<Rightarrow> throw (crawler_error Http_error Invalid_redirect (Some (rs_status r)))
            | Some location \<Rightarrow>
                if js_trim location = [] then throw (crawler_error Http_error Invalid_redirect (Some (rs_status r)))
                else give (Redirect (rs_status r) location))
      else if rs_status r = 304 then give (Not_modified (href url) (headersToRecord (rs_headers r)))
      else if rs_status r = 429 \<or> rs_status r \<in> set TRANSIENT_HTTP_STATUSES then retryable_result net cfg hostname retryIndex r
      else if \<not> (200 \<le> rs_status r \<and> rs_status r \<le> 299) then give (Error_status (rs_status r))
      else (case readBody r of
              Inl e \<Rightarrow> throw e
            | Inr body \<Rightarrow> give (Success (href url) (rs_status r) (headersToRecord (rs_headers r)) body)))"

record 'b hop_call =
  hl_url :: URL
  hl_headers :: http_headers
  hl_deadline :: int
  hl_retryIndex :: nat
  hl_redirectIndex :: nat
  hl_method :: SafeHttpMethod
  hl_requestBody :: "string option"
  hl_readBody :: "'b body_reader"
  hl_requestTimeoutMs :: int

text \<open>What a task does when it has its slot of the scheduler: the fetch itself, and the cool-down before it.\<close>

definition hop_fetch :: "'w net \<Rightarrow> client_config \<Rightarrow> 'b hop_call \<Rightarrow> ('w, 'b HopResult) io" where
  "hop_fetch net cfg c =
     (let url = hl_url c; hostname = url_host url
      in andThen (ask net (nt_now net)) (\<lambda>now.
         if min (hl_deadline c - now) (hl_requestTimeoutMs c) \<le> 0 then throw timeoutError
         else andThen (ask net (\<lambda>w. nt_admit net w url (hl_retryIndex c) (hl_redirectIndex c))) (\<lambda>admitted.
         if \<not> admitted then throw Admission_refused
         else andThen (cooldown_of hostname) (\<lambda>cooldown.
         andThen (do_fetch net \<lparr>nf_url = url, nf_method = hl_method c, nf_headers = hl_headers c, nf_retryIndex = hl_retryIndex c,
             nf_redirectIndex = hl_redirectIndex c, nf_now = now, nf_deadline = hl_deadline c, nf_cooldown = cooldown\<rparr> (hl_requestBody c)) (\<lambda>outcome.
         case outcome of
           Response r \<Rightarrow> response_result net cfg url hostname (hl_retryIndex c) (hl_readBody c) r
         | Fetch_failed \<Rightarrow> throw request_failed
         | Fetch_timed_out \<Rightarrow> throw timeoutError
         | Fetch_aborted e \<Rightarrow> throw e)))))"

definition hop_task :: "'w net \<Rightarrow> client_config \<Rightarrow> 'b hop_call \<Rightarrow> ('w, 'b hop_outcome) io" where
  "hop_task net cfg c =
     (let hostname = url_host (hl_url c);
          go = andThen (hop_fetch net cfg c) (\<lambda>r. give (Hop r))
      in andThen (ask net (nt_aborted net)) (\<lambda>aborted.
         if aborted then throw Caller_aborted
         else andThen (cooldown_of hostname) (\<lambda>cooldown.
         case cooldown of
           None \<Rightarrow> go
         | Some (until, status) \<Rightarrow>
             andThen (ask net (nt_now net)) (\<lambda>now.
               if until > now then give (Deferred until status)
               else andThen (drop_cooldown hostname) (\<lambda>_. go)))))"

text \<open>
  The scheduler starts the task unless the deadline or the caller's signal comes first; a task that reaches the
  front later finds the deadline passed or the signal aborted and fetches nothing.
\<close>

definition scheduled :: "'w net \<Rightarrow> ('w, 'a) io \<Rightarrow> int \<Rightarrow> ('w, 'a) io" where
  "scheduled net task deadline =
     andThen (ask net (nt_race net)) (\<lambda>winner.
       case winner of
         Timeout_wins \<Rightarrow> throw timeoutError
       | Abort_wins \<Rightarrow> throw Caller_aborted
       | Op_wins \<Rightarrow> awaitBeforeDeadline net task (\<lambda>_. deadline))"

fun networkHop :: "nat \<Rightarrow> 'w net \<Rightarrow> client_config \<Rightarrow> 'b hop_call \<Rightarrow> ('w, 'b HopResult) io" where
  "networkHop 0 net cfg c = throw Still_waiting"
| "networkHop (Suc turns) net cfg c =
     andThen (scheduled net (hop_task net cfg c) (hl_deadline c)) (\<lambda>result.
       case result of
         Hop r \<Rightarrow> give r
       | Deferred until status \<Rightarrow>
           andThen (ask net (nt_now net)) (\<lambda>now1.
             let delayMs = until - now1
             in if delayMs \<le> 0 then networkHop turns net cfg c
                else andThen (ask net (nt_now net)) (\<lambda>now2.
                  if delayMs \<ge> hl_deadline c - now2 then throw (statusError status None)
                  else andThen (sleepBeforeDeadline net delayMs (hl_deadline c)) (\<lambda>_. networkHop turns net cfg c))))"


section \<open>Redirects and retries\<close>

definition cachedFinalUrl :: "'w net \<Rightarrow> CachedHttpResponse option \<Rightarrow> string option" where
  "cachedFinalUrl net cacheEntry =
     (case cacheEntry of
        None \<Rightarrow> None
      | Some c \<Rightarrow> map_option (\<lambda>u. href (u\<lparr>url_fragment := None\<rparr>)) (nt_parse net (ch_finalUrl c)))"

definition conditional_headers :: "'w net \<Rightarrow> CachedHttpResponse option \<Rightarrow> URL \<Rightarrow> http_headers \<Rightarrow> http_headers" where
  "conditional_headers net cached currentUrl headers =
     (case cached of
        None \<Rightarrow> headers
      | Some c \<Rightarrow>
          if cachedFinalUrl net cached = Some (href currentUrl)
          then (let h1 = (case ch_etag c of None \<Rightarrow> headers | Some e \<Rightarrow> jset headers ''if-none-match'' e)
                in case ch_lastModified c of None \<Rightarrow> h1 | Some m \<Rightarrow> jset h1 ''if-modified-since'' m)
          else headers)"

definition strip_sensitive :: "http_headers \<Rightarrow> http_headers" where
  "strip_sensitive headers = foldl (\<lambda>h key. jdelete h key) headers SENSITIVE_REQUEST_HEADERS"

definition base_headers :: "client_config \<Rightarrow> http_headers \<Rightarrow> http_headers" where
  "base_headers cfg inputHeaders =
     (let accept = or_else (jget inputHeaders ''accept'') ''application/json,text/html;q=0.9,*/*;q=0.8''
      in jset (jset inputHeaders ''accept'' accept) ''user-agent'' (cc_userAgent cfg))"

record 'b request_call =
  rc_headers :: http_headers
  rc_cached :: "CachedHttpResponse option"
  rc_deadline :: int
  rc_allowedOrigins :: "string list option"
  rc_method :: SafeHttpMethod
  rc_requestBody :: "string option"
  rc_readBody :: "'b body_reader"
  rc_requestTimeoutMs :: int
  rc_maxRetries :: nat
  rc_maxRedirects :: nat

definition outside :: "string list option \<Rightarrow> string \<Rightarrow> bool" where
  "outside allowedOrigins origin = (case allowedOrigins of None \<Rightarrow> False | Some os \<Rightarrow> origin \<notin> set os)"

text \<open>\<open>remaining\<close> counts the redirects that may still be followed: \<^verbatim>\<open>maxRedirects - redirectCount\<close>.\<close>

fun attempt_from ::
  "nat \<Rightarrow> 'w net \<Rightarrow> client_config \<Rightarrow> 'b request_call \<Rightarrow> nat \<Rightarrow> nat \<Rightarrow> nat \<Rightarrow> URL \<Rightarrow> http_headers \<Rightarrow> ('w, 'b HopResult) io" where
  "attempt_from turns net cfg q retryIndex remaining redirectCount currentUrl redirectHeaders =
     andThen (networkHop turns net cfg \<lparr>hl_url = currentUrl, hl_headers = conditional_headers net (rc_cached q) currentUrl redirectHeaders,
         hl_deadline = rc_deadline q, hl_retryIndex = retryIndex, hl_redirectIndex = redirectCount, hl_method = rc_method q,
         hl_requestBody = rc_requestBody q, hl_readBody = rc_readBody q, hl_requestTimeoutMs = rc_requestTimeoutMs q\<rparr>) (\<lambda>result.
       case result of
         Redirect status location \<Rightarrow>
           if rc_method q = POST \<and> status \<noteq> 307 \<and> status \<noteq> 308 then throw (crawler_error Http_error Post_redirect_not_preserved (Some status))
           else (case remaining of
                   0 \<Rightarrow> throw (crawler_error Http_error Redirect_limit (Some status))
                 | Suc left \<Rightarrow>
                     (case nt_relative net location currentUrl of
                        None \<Rightarrow> throw (crawler_error Http_error Invalid_redirect (Some status))
                      | Some redirectTarget \<Rightarrow>
                          if outside (rc_allowedOrigins q) (url_origin redirectTarget)
                          then throw (crawler_error Unsafe_url Disallowed_redirect_origin (Some status))
                          else andThen (awaitBeforeDeadline net (validate_io net (href redirectTarget))
                                 (\<lambda>now. min (rc_deadline q) (now + rc_requestTimeoutMs q))) (\<lambda>validatedTarget.
                            attempt_from turns net cfg q retryIndex left (redirectCount + 1) validatedTarget
                              (if url_origin validatedTarget \<noteq> url_origin currentUrl then strip_sensitive redirectHeaders else redirectHeaders))))
       | _ \<Rightarrow> give result)"

declare attempt_from.simps [simp del]

definition executeAttempt :: "nat \<Rightarrow> 'w net \<Rightarrow> client_config \<Rightarrow> 'b request_call \<Rightarrow> nat \<Rightarrow> URL \<Rightarrow> ('w, 'b HopResult) io" where
  "executeAttempt turns net cfg q retryIndex initialUrl =
     attempt_from turns net cfg q retryIndex (rc_maxRedirects q) 0 initialUrl (base_headers cfg (rc_headers q))"

definition clear_own_cooldown :: "URL \<Rightarrow> int option \<Rightarrow> ('w, unit) io" where
  "clear_own_cooldown requestedUrl cooldownUntil =
     andThen (cooldown_of (url_hostname requestedUrl)) (\<lambda>current.
       case (current, cooldownUntil) of
         (Some (until, _), Some mine) \<Rightarrow> if until = mine then drop_cooldown (url_hostname requestedUrl) else give ()
       | _ \<Rightarrow> give ())"

text \<open>A retry resolves and checks the URL again. \<open>left\<close> counts the retries that may still be made.\<close>

definition initial_url :: "'w net \<Rightarrow> 'b request_call \<Rightarrow> URL \<Rightarrow> nat \<Rightarrow> ('w, URL) io" where
  "initial_url net q requestedUrl retry =
     (if retry = 0 then give requestedUrl
      else awaitBeforeDeadline net (validate_io net (href requestedUrl)) (\<lambda>now. min (rc_deadline q) (now + rc_requestTimeoutMs q)))"

fun retry_from :: "nat \<Rightarrow> 'w net \<Rightarrow> client_config \<Rightarrow> 'b request_call \<Rightarrow> URL \<Rightarrow> nat \<Rightarrow> nat \<Rightarrow> ('w, 'b HopResult) io" where
  "retry_from turns net cfg q requestedUrl left retry =
     andThen (initial_url net q requestedUrl retry) (\<lambda>initialUrl.
     andThen (executeAttempt turns net cfg q retry initialUrl) (\<lambda>result.
       case result of
         Retryable status retryDelayMs serverRetryAfterMs cooldownUntil \<Rightarrow>
           (case left of
              0 \<Rightarrow> throw (statusError status serverRetryAfterMs)
            | Suc fewer \<Rightarrow>
                andThen (ask net (nt_now net)) (\<lambda>now.
                  if retryDelayMs \<ge> rc_deadline q - now then throw (statusError status serverRetryAfterMs)
                  else andThen (sleepBeforeDeadline net retryDelayMs (rc_deadline q)) (\<lambda>_.
                    andThen (clear_own_cooldown requestedUrl cooldownUntil) (\<lambda>_.
                      retry_from turns net cfg q requestedUrl fewer (retry + 1)))))
       | Error_status status \<Rightarrow> throw (statusError status None)
       | _ \<Rightarrow> give result))"

declare retry_from.simps [simp del]

definition executeWithRetries :: "nat \<Rightarrow> 'w net \<Rightarrow> client_config \<Rightarrow> 'b request_call \<Rightarrow> URL \<Rightarrow> ('w, 'b HopResult) io" where
  "executeWithRetries turns net cfg q requestedUrl = retry_from turns net cfg q requestedUrl (rc_maxRetries q) 0"


section \<open>Requests\<close>

record SafeHttpGetOptions =
  go_headers :: http_headers
  go_allowedOrigins :: "string list option"
  go_noStore :: bool
  go_maxRetries :: "int option"
  go_maxRedirects :: "int option"

fun origins_of :: "(string \<Rightarrow> URL option) \<Rightarrow> string list \<Rightarrow> thrown + string list" where
  "origins_of parse_url [] = Inr []"
| "origins_of parse_url (value # values) =
     (case parse_url value of
        None \<Rightarrow> Inl Type_error
      | Some url \<Rightarrow>
          if url_protocol url \<notin> set [''http:'', ''https:''] \<or> url_username url \<noteq> [] \<or> url_password url \<noteq> [] then Inl Range_error
          else map_sum id (Cons (url_origin url)) (origins_of parse_url values))"

definition normalizeAllowedOrigins :: "(string \<Rightarrow> URL option) \<Rightarrow> string list option \<Rightarrow> thrown + string list option" where
  "normalizeAllowedOrigins parse_url values =
     (case values of
        None \<Rightarrow> Inr None
      | Some vs \<Rightarrow> if vs = [] then Inl Range_error else map_sum id Some (origins_of parse_url vs))"

definition lift_sum :: "thrown + 'a \<Rightarrow> ('w, 'a) io" where
  "lift_sum r = (case r of Inl e \<Rightarrow> throw e | Inr a \<Rightarrow> give a)"

text \<open>A limit of a request may only lower the limit of the client.\<close>

definition lowered :: "int option \<Rightarrow> int \<Rightarrow> thrown + nat" where
  "lowered requested policy =
     (let value = or_else requested policy
      in if positiveInteger True value \<and> value \<le> policy then Inr (nat value) else Inl Range_error)"

definition cacheEntryFromSuccess :: "string \<Rightarrow> nat \<Rightarrow> http_headers \<Rightarrow> nat list \<Rightarrow> int \<Rightarrow> CachedHttpResponse" where
  "cacheEntryFromSuccess url status headers body now =
     \<lparr>ch_finalUrl = url, ch_status = status, ch_headers = headers, ch_body = body, ch_etag = jget headers ''etag'',
       ch_lastModified = jget headers ''last-modified'', ch_fetchedAt = now\<rparr>"

definition refreshCachedEntry :: "CachedHttpResponse \<Rightarrow> string \<Rightarrow> http_headers \<Rightarrow> int \<Rightarrow> CachedHttpResponse" where
  "refreshCachedEntry cached url headers now =
     \<lparr>ch_finalUrl = url, ch_status = ch_status cached,
       ch_headers = foldl (\<lambda>h (key, value). jset h key value) (ch_headers cached) headers,
       ch_body = ch_body cached,
       ch_etag = (case jget headers ''etag'' of None \<Rightarrow> ch_etag cached | Some e \<Rightarrow> Some e),
       ch_lastModified = (case jget headers ''last-modified'' of None \<Rightarrow> ch_lastModified cached | Some m \<Rightarrow> Some m),
       ch_fetchedAt = now\<rparr>"

definition responseFromCache :: "string \<Rightarrow> CachedHttpResponse \<Rightarrow> SafeHttpResponse" where
  "responseFromCache requestedUrl cached =
     \<lparr>sh_requestedUrl = requestedUrl, sh_url = ch_finalUrl cached, sh_status = ch_status cached, sh_headers = ch_headers cached,
       sh_body = ch_body cached, sh_fromCache = True, sh_revalidated = True\<rparr>"

text \<open>A cache that fails or is slow reads as empty; a write that fails is dropped.\<close>

definition readCache :: "'w net \<Rightarrow> bool \<Rightarrow> string \<Rightarrow> ('w, CachedHttpResponse option) io" where
  "readCache net useCache key = (if useCache then ask net (\<lambda>w. nt_cached net w key) else give None)"

definition writeCache :: "'w net \<Rightarrow> bool \<Rightarrow> string \<Rightarrow> CachedHttpResponse \<Rightarrow> ('w, unit) io" where
  "writeCache net useCache key entry s =
     (if useCache then (Inr (), s\<lparr>hc_world := nt_store net (hc_world s) key entry\<rparr>) else (Inr (), s))"

definition finish_request :: "'w net \<Rightarrow> bool \<Rightarrow> string \<Rightarrow> CachedHttpResponse option \<Rightarrow> nat list HopResult \<Rightarrow> ('w, SafeHttpResponse) io" where
  "finish_request net useCache requestKey cached result =
     (case result of
        Not_modified url headers \<Rightarrow>
          (case cached of
             Some c \<Rightarrow>
               if cachedFinalUrl net cached = Some url
               then andThen (ask net (nt_now net)) (\<lambda>now.
                    let refreshed = refreshCachedEntry c url headers now
                    in andThen (writeCache net useCache requestKey refreshed) (\<lambda>_. give (responseFromCache requestKey refreshed)))
               else throw (crawler_error Http_error Unexpected_not_modified (Some 304))
           | None \<Rightarrow> throw (crawler_error Http_error Unexpected_not_modified (Some 304)))
      | Success url status headers body \<Rightarrow>
          andThen (ask net (nt_now net)) (\<lambda>now.
          andThen (writeCache net useCache requestKey (cacheEntryFromSuccess url status headers body now)) (\<lambda>_.
            give \<lparr>sh_requestedUrl = requestKey, sh_url = url, sh_status = status, sh_headers = headers, sh_body = body,
              sh_fromCache = False, sh_revalidated = False\<rparr>))
      | _ \<Rightarrow> throw Type_error)"

definition request ::
  "nat \<Rightarrow> 'w net \<Rightarrow> client_config \<Rightarrow> string \<Rightarrow> SafeHttpMethod \<Rightarrow> string option \<Rightarrow> SafeHttpGetOptions \<Rightarrow> bool \<Rightarrow> ('w, SafeHttpResponse) io" where
  "request turns net cfg input verb requestBody options useCache =
     andThen (lift_sum (lowered (go_maxRetries options) (cc_maxRetries cfg))) (\<lambda>maxRetries.
     andThen (lift_sum (lowered (go_maxRedirects options) (cc_maxRedirects cfg))) (\<lambda>maxRedirects.
     andThen (ask net (nt_aborted net)) (\<lambda>aborted.
     if aborted then throw Caller_aborted
     else andThen (ask net (nt_now net)) (\<lambda>now.
     andThen (awaitBeforeDeadline net (validate_io net input) (\<lambda>_. now + cc_timeoutMs cfg)) (\<lambda>requestedUrl.
     andThen (lift_sum (normalizeAllowedOrigins (nt_parse net) (go_allowedOrigins options))) (\<lambda>allowedOrigins.
     if outside allowedOrigins (url_origin requestedUrl) then throw (crawler_error Unsafe_url Disallowed_redirect_origin None)
     else andThen (readCache net useCache (href requestedUrl)) (\<lambda>cached.
     andThen (ask net (nt_now net)) (\<lambda>queued.
     andThen (executeWithRetries turns net cfg
         \<lparr>rc_headers = go_headers options, rc_cached = cached, rc_deadline = queued + cc_queueTimeoutMs cfg, rc_allowedOrigins = allowedOrigins,
           rc_method = verb, rc_requestBody = requestBody, rc_readBody = readBoundedBody (cc_maxResponseBytes cfg),
           rc_requestTimeoutMs = cc_timeoutMs cfg, rc_maxRetries = maxRetries, rc_maxRedirects = maxRedirects\<rparr> requestedUrl) (\<lambda>result.
       finish_request net useCache (href requestedUrl) cached result)))))))))"

definition http_get :: "nat \<Rightarrow> 'w net \<Rightarrow> client_config \<Rightarrow> string \<Rightarrow> SafeHttpGetOptions \<Rightarrow> ('w, SafeHttpResponse) io" where
  "http_get turns net cfg input options = request turns net cfg input GET None options (\<not> go_noStore options)"

definition post_headers :: "string \<Rightarrow> string \<Rightarrow> http_headers \<Rightarrow> http_headers" where
  "post_headers contentType accept headers =
     (let h = jset headers ''content-type'' contentType in jset h ''accept'' (or_else (jget h ''accept'') accept))"

text \<open>The bodies are the serialized JSON value (\<open>None\<close> if it has none) and the encoded form fields.\<close>

definition postJson :: "nat \<Rightarrow> 'w net \<Rightarrow> client_config \<Rightarrow> string \<Rightarrow> string option \<Rightarrow> SafeHttpGetOptions \<Rightarrow> ('w, SafeHttpResponse) io" where
  "postJson turns net cfg input serialized options =
     (case serialized of
        None \<Rightarrow> throw Type_error
      | Some body \<Rightarrow>
          request turns net cfg input POST (Some body)
            (options\<lparr>go_headers := post_headers ''application/json'' ''application/json'' (go_headers options)\<rparr>) False)"

definition postForm :: "nat \<Rightarrow> 'w net \<Rightarrow> client_config \<Rightarrow> string \<Rightarrow> string \<Rightarrow> SafeHttpGetOptions \<Rightarrow> ('w, SafeHttpResponse) io" where
  "postForm turns net cfg input encoded options =
     request turns net cfg input POST (Some encoded)
       (options\<lparr>go_headers := post_headers ''application/x-www-form-urlencoded'' ''text/html'' (go_headers options)\<rparr>) False"

record SafeHttpStreamResponse =
  st_requestedUrl :: string
  st_url :: string
  st_status :: nat
  st_headers :: http_headers
  st_bytesRead :: nat

definition stream_reader :: "(nat list \<Rightarrow> bool) \<Rightarrow> int \<Rightarrow> nat body_reader" where
  "stream_reader accepts maxResponseBytes r =
     (if rs_status r \<noteq> 200 then Inl (statusError (rs_status r) None) else consumeBoundedBody accepts maxResponseBytes r)"

definition streamGet ::
  "nat \<Rightarrow> 'w net \<Rightarrow> client_config \<Rightarrow> string \<Rightarrow> SafeHttpGetOptions \<Rightarrow> int \<Rightarrow> int \<Rightarrow> (nat list \<Rightarrow> bool) \<Rightarrow> ('w, SafeHttpStreamResponse) io" where
  "streamGet turns net cfg input options timeoutMs maxResponseBytes accepts =
     (if \<not> boundedPositiveInteger (cc_maxStreamTimeoutMs cfg) timeoutMs \<or> \<not> boundedPositiveInteger (cc_maxStreamResponseBytes cfg) maxResponseBytes
      then throw Range_error
      else andThen (lift_sum (lowered (go_maxRetries options) (cc_maxRetries cfg))) (\<lambda>maxRetries.
      andThen (ask net (nt_now net)) (\<lambda>now.
      let deadline = now + timeoutMs
      in andThen (awaitBeforeDeadline net (validate_io net input) (\<lambda>_. deadline)) (\<lambda>requestedUrl.
      andThen (lift_sum (normalizeAllowedOrigins (nt_parse net) (go_allowedOrigins options))) (\<lambda>allowedOrigins.
      if outside allowedOrigins (url_origin requestedUrl) then throw (crawler_error Unsafe_url Disallowed_redirect_origin None)
      else andThen (executeWithRetries turns net cfg
          \<lparr>rc_headers = go_headers options, rc_cached = None, rc_deadline = deadline, rc_allowedOrigins = allowedOrigins,
            rc_method = GET, rc_requestBody = None, rc_readBody = stream_reader accepts maxResponseBytes,
            rc_requestTimeoutMs = timeoutMs, rc_maxRetries = maxRetries, rc_maxRedirects = nat (cc_maxRedirects cfg)\<rparr> requestedUrl) (\<lambda>result.
        case result of
          Not_modified url headers \<Rightarrow>
            give \<lparr>st_requestedUrl = href requestedUrl, st_url = url, st_status = 304, st_headers = headers, st_bytesRead = 0\<rparr>
        | Success url status headers bytesRead \<Rightarrow>
            give \<lparr>st_requestedUrl = href requestedUrl, st_url = url, st_status = status, st_headers = headers, st_bytesRead = bytesRead\<rparr>
        | _ \<Rightarrow> throw Type_error))))))"


section \<open>Reasoning about the fetches of a run\<close>

text \<open>
  \<open>adds m s E F\<close>: from \<open>s\<close> the operation \<open>m\<close> appends fetches that satisfy \<open>E\<close> if it throws, and \<open>F\<close> with its
  result otherwise.
\<close>

definition adds :: "('w, 'a) io \<Rightarrow> 'w client \<Rightarrow> (network_fetch list \<Rightarrow> bool) \<Rightarrow> ('a \<Rightarrow> network_fetch list \<Rightarrow> bool) \<Rightarrow> bool" where
  "adds m s E F \<longleftrightarrow>
     (\<exists>new. hc_fetches (snd (m s)) = hc_fetches s @ new \<and> (case fst (m s) of Inl e \<Rightarrow> E new | Inr a \<Rightarrow> F a new))"

named_theorems adds_rules

lemma adds_give [adds_rules]: "F a [] \<Longrightarrow> adds (give a) s E F"
  by (simp add: adds_def give_def)

lemma adds_throw [adds_rules]: "E [] \<Longrightarrow> adds (throw e) s E F"
  by (simp add: adds_def throw_def)

lemma adds_ask: "F (q (hc_world s)) [] \<Longrightarrow> adds (ask net q) s E F"
  by (simp add: adds_def ask_def)

lemma adds_andThen:
  assumes "adds m s E1 F1" "\<And>new. E1 new \<Longrightarrow> E new"
    and "\<And>a t new. m s = (Inr a, t) \<Longrightarrow> F1 a new \<Longrightarrow> adds (f a) t (\<lambda>more. E (new @ more)) (\<lambda>b more. F b (new @ more))"
  shows "adds (andThen m f) s E F"
proof -
  obtain new where new: "hc_fetches (snd (m s)) = hc_fetches s @ new" "case fst (m s) of Inl e \<Rightarrow> E1 new | Inr a \<Rightarrow> F1 a new"
    using assms(1) by (auto simp: adds_def)
  show ?thesis
  proof (cases "m s")
    case (Pair r t)
    show ?thesis
    proof (cases r)
      case (Inl e)
      with Pair new assms(2) show ?thesis by (auto simp: adds_def andThen_def)
    next
      case (Inr a)
      with Pair new have "adds (f a) t (\<lambda>more. E (new @ more)) (\<lambda>b more. F b (new @ more))" using assms(3) by simp
      then obtain more where "hc_fetches (snd (f a t)) = hc_fetches t @ more"
          "case fst (f a t) of Inl e \<Rightarrow> E (new @ more) | Inr b \<Rightarrow> F b (new @ more)" by (auto simp: adds_def)
      with Pair Inr new show ?thesis by (auto simp: adds_def andThen_def intro!: exI [of _ "new @ more"])
    qed
  qed
qed

text \<open>Questions, cool-downs and cache writes add nothing; what follows them is judged in the state they leave.\<close>

definition quiet :: "('w, 'a) io \<Rightarrow> bool" where
  "quiet m \<longleftrightarrow> (\<forall>s. hc_fetches (snd (m s)) = hc_fetches s)"

named_theorems quiet_rules

lemma quiet_give [quiet_rules]: "quiet (give a)"
  by (simp add: quiet_def give_def)

lemma quiet_throw [quiet_rules]: "quiet (throw e)"
  by (simp add: quiet_def throw_def)

lemma quiet_ask [quiet_rules]: "quiet (ask net q)"
  by (simp add: quiet_def ask_def)

lemma quiet_cooldown [quiet_rules]: "quiet (cooldown_of h)" "quiet (set_cooldown h c)" "quiet (drop_cooldown h)"
  by (simp_all add: quiet_def cooldown_of_def set_cooldown_def drop_cooldown_def)

lemma quiet_writeCache [quiet_rules]: "quiet (writeCache net useCache key entry)"
  by (simp add: quiet_def writeCache_def)

lemma quiet_andThen [quiet_rules]: "quiet m \<Longrightarrow> (\<And>a. quiet (f a)) \<Longrightarrow> quiet (andThen m f)"
  by (auto simp: quiet_def andThen_def split: prod.splits sum.splits) (metis snd_conv)+

lemma quiet_lift_sum [quiet_rules]: "quiet (lift_sum r)"
  by (simp add: lift_sum_def quiet_rules split: sum.split)

lemma quiet_readCache [quiet_rules]: "quiet (readCache net useCache key)"
  by (simp add: readCache_def quiet_rules)

lemma adds_quiet: "quiet m \<Longrightarrow> E [] \<Longrightarrow> (\<And>a t. m s = (Inr a, t) \<Longrightarrow> F a []) \<Longrightarrow> adds m s E F"
  by (cases "m s"; cases "fst (m s)") (auto simp: adds_def quiet_def dest: spec [of _ s])

lemma adds_after_quiet:
  assumes "quiet m" "E []" "\<And>a t. m s = (Inr a, t) \<Longrightarrow> adds (f a) t E F"
  shows "adds (andThen m f) s E F"
  by (rule adds_andThen [where ?E1.0 = "\<lambda>new. new = []" and ?F1.0 = "\<lambda>a new. new = []"])
    (use assms in \<open>auto intro: adds_quiet\<close>)

lemma quiet_validate [quiet_rules]: "quiet (validate_io net raw)"
  unfolding validate_io_def by (intro quiet_rules) (simp add: quiet_rules split: sum.split)

lemma await_facts:
  "hc_fetches (snd (awaitBeforeDeadline net m d s)) = hc_fetches (snd (m s))"
  "fst (awaitBeforeDeadline net m d s) = Inr a \<Longrightarrow> fst (m s) = Inr a"
  unfolding awaitBeforeDeadline_def andThen_def ask_def throw_def
  by (auto split: prod.splits race.splits if_splits)

lemma adds_await:
  assumes "adds m s E F" "\<And>a new. F a new \<Longrightarrow> E new"
  shows "adds (awaitBeforeDeadline net m d) s E F"
  using assms await_facts [of net m d s] unfolding adds_def by (fastforce split: sum.splits)

lemma await_result: "awaitBeforeDeadline net m d s = (Inr a, u) \<Longrightarrow> \<exists>t. m s = (Inr a, t)"
  using await_facts(2) [of net m d s a] by (metis fst_conv prod.collapse)

lemma quiet_await [quiet_rules]: "quiet m \<Longrightarrow> quiet (awaitBeforeDeadline net m d)"
  by (simp add: quiet_def await_facts)

lemma adds_steps:
  "adds (andThen (ask net q) f) s E F \<longleftrightarrow> adds (f (q (hc_world s))) (s\<lparr>hc_world := nt_tick net (hc_world s)\<rparr>) E F"
  "adds (andThen (cooldown_of h) g) s E F \<longleftrightarrow> adds (g (jget (hc_cooldowns s) h)) s E F"
  "adds (andThen (drop_cooldown h) k) s E F \<longleftrightarrow> adds (k ()) (s\<lparr>hc_cooldowns := jdelete (hc_cooldowns s) h\<rparr>) E F"
  by (simp_all add: adds_def andThen_def ask_def cooldown_of_def drop_cooldown_def)

lemma adds_fetch:
  assumes "adds (l (nt_fetch net (hc_world s) fetch body)) (s\<lparr>hc_world := nt_tick net (hc_world s), hc_fetches := hc_fetches s @ [fetch]\<rparr>)
       (\<lambda>new. E (fetch # new)) (\<lambda>a new. F a (fetch # new))"
  shows "adds (andThen (do_fetch net fetch body) l) s E F"
proof -
  obtain new where "hc_fetches (snd (andThen (do_fetch net fetch body) l s)) = hc_fetches s @ fetch # new"
      "case fst (andThen (do_fetch net fetch body) l s) of Inl e \<Rightarrow> E (fetch # new) | Inr a \<Rightarrow> F a (fetch # new)"
    using assms by (auto simp: adds_def andThen_def do_fetch_def)
  then show ?thesis unfolding adds_def by blast
qed

lemma quiet_sleep [quiet_rules]: "quiet (sleepBeforeDeadline net delay deadline)"
  unfolding sleepBeforeDeadline_def Let_def by (auto intro!: quiet_rules)

definition let_through :: "'w net \<Rightarrow> URL \<Rightarrow> bool" where
  "let_through net u \<longleftrightarrow> (\<exists>raw w. validatePublicHttpUrl (nt_parse net) (nt_resolver net w) raw = Inr u)"

lemma validate_result: "validate_io net raw s = (Inr u, t) \<Longrightarrow> \<exists>w. validatePublicHttpUrl (nt_parse net) (nt_resolver net w) raw = Inr u"
  by (auto simp: validate_io_def andThen_def ask_def throw_def give_def split: sum.splits)

text \<open>A result that carries a body was read from a response by the reader.\<close>

definition read_result :: "'b body_reader \<Rightarrow> 'b HopResult \<Rightarrow> bool" where
  "read_result readBody r = (case r of Success url status headers body \<Rightarrow> \<exists>resp. readBody resp = Inr body \<and> rs_status resp = status | _ \<Rightarrow> True)"

lemma retryable_quiet: "quiet (retryable_result net cfg hostname retryIndex r)"
  unfolding retryable_result_def Let_def
  by (auto intro!: quiet_rules split: option.split)

lemma retryable_kind: "retryable_result net cfg hostname retryIndex r s = (Inr x, t) \<Longrightarrow> \<exists>a b c d. x = Retryable a b c d"
  by (auto simp: retryable_result_def Let_def andThen_def ask_def give_def cooldown_of_def set_cooldown_def split: option.splits if_splits)

lemma response_quiet: "quiet (response_result net cfg url hostname retryIndex readBody r)"
  unfolding response_result_def
  by (auto intro!: quiet_rules retryable_quiet split: option.split sum.split)

lemma response_read: "response_result net cfg url hostname retryIndex readBody r s = (Inr x, t) \<Longrightarrow> read_result readBody x"
  by (auto simp: response_result_def read_result_def give_def throw_def split: if_splits option.splits sum.splits HopResult.splits
      dest!: retryable_kind)

text \<open>The fetch a call makes: the call's own URL, verb and headers, in time, and with no cool-down of the host.\<close>

definition fits :: "'b hop_call \<Rightarrow> network_fetch \<Rightarrow> bool" where
  "fits c f \<longleftrightarrow> nf_url f = hl_url c \<and> nf_method f = hl_method c \<and> nf_headers f = hl_headers c \<and> nf_retryIndex f = hl_retryIndex c \<and>
     nf_redirectIndex f = hl_redirectIndex c \<and> nf_deadline f = hl_deadline c \<and> nf_now f < nf_deadline f \<and> nf_cooldown f = None"

definition at_most_one :: "'b hop_call \<Rightarrow> network_fetch list \<Rightarrow> bool" where
  "at_most_one c new \<longleftrightarrow> new = [] \<or> (\<exists>f. new = [f] \<and> fits c f)"

lemma at_most_one_Nil [simp]: "at_most_one c []"
  by (simp add: at_most_one_def)

lemma adds_hop_fetch:
  assumes "jget (hc_cooldowns s) (url_host (hl_url c)) = None"
  shows "adds (hop_fetch net cfg c) s (at_most_one c) (\<lambda>r new. at_most_one c new \<and> read_result (hl_readBody c) r)"
proof -
  have tail: "adds (case outcome of
         Response r \<Rightarrow> response_result net cfg url hostname i rd r
       | Fetch_failed \<Rightarrow> throw request_failed
       | Fetch_timed_out \<Rightarrow> throw timeoutError
       | Fetch_aborted e \<Rightarrow> throw e) t E (\<lambda>r new. E new \<and> read_result rd r)" if "E []" for outcome url hostname i rd t E
    using that by (cases outcome) (auto intro!: adds_quiet adds_rules response_quiet dest: response_read)
  have ok: "at_most_one c [f]" if "fits c f" for f using that by (simp add: at_most_one_def)
  show ?thesis
    unfolding hop_fetch_def Let_def
    by (auto simp: adds_steps assms fits_def intro!: adds_rules adds_fetch tail ok)
qed

text \<open>A task that is deferred has fetched nothing.\<close>

definition hop_effect :: "'b hop_call \<Rightarrow> 'b hop_outcome \<Rightarrow> network_fetch list \<Rightarrow> bool" where
  "hop_effect c outcome new = (case outcome of Deferred until status \<Rightarrow> new = [] | Hop r \<Rightarrow> at_most_one c new \<and> read_result (hl_readBody c) r)"

lemma hop_effect_weak: "hop_effect c outcome new \<Longrightarrow> at_most_one c new"
  by (auto simp: hop_effect_def split: hop_outcome.splits)

lemma adds_hop_go:
  assumes "jget (hc_cooldowns s) (url_host (hl_url c)) = None"
  shows "adds (andThen (hop_fetch net cfg c) (\<lambda>r. give (Hop r))) s (at_most_one c) (hop_effect c)"
  by (rule adds_andThen [OF adds_hop_fetch [OF assms]]) (auto intro!: adds_rules simp: hop_effect_def)

lemma adds_hop_task: "adds (hop_task net cfg c) s (at_most_one c) (hop_effect c)"
  unfolding hop_task_def Let_def
  by (auto simp: adds_steps hop_effect_def [of c "Deferred _ _"] jget_jdelete intro!: adds_rules adds_hop_go split: option.split)

lemma adds_networkHop: "adds (networkHop turns net cfg c) s (at_most_one c) (\<lambda>r new. at_most_one c new \<and> read_result (hl_readBody c) r)"
proof (induction turns arbitrary: s)
  case 0
  show ?case by (simp add: adds_rules)
next
  case (Suc turns)
  have again: "adds (networkHop turns net cfg c) t (\<lambda>new. at_most_one c ([] @ new)) (\<lambda>r new. at_most_one c ([] @ new) \<and> read_result (hl_readBody c) r)" for t
    using Suc.IH by simp
  have "adds (scheduled net (hop_task net cfg c) (hl_deadline c)) s (at_most_one c) (hop_effect c)"
    unfolding scheduled_def adds_steps
    by (auto intro!: adds_rules adds_await adds_hop_task split: race.split dest: hop_effect_weak)
  then show ?case
    unfolding networkHop.simps
  proof (rule adds_andThen)
    fix outcome t new
    assume e: "hop_effect c outcome new"
    show "adds (case outcome of Hop r \<Rightarrow> give r
          | Deferred until status \<Rightarrow>
              andThen (ask net (nt_now net)) (\<lambda>now1.
                let delayMs = until - now1
                in if delayMs \<le> 0 then networkHop turns net cfg c
                   else andThen (ask net (nt_now net)) (\<lambda>now2.
                     if delayMs \<ge> hl_deadline c - now2 then throw (statusError status None)
                     else andThen (sleepBeforeDeadline net delayMs (hl_deadline c)) (\<lambda>_. networkHop turns net cfg c))))
        t (\<lambda>more. at_most_one c (new @ more)) (\<lambda>r more. at_most_one c (new @ more) \<and> read_result (hl_readBody c) r)"
      using e again
      by (cases outcome) (auto simp: hop_effect_def adds_steps Let_def intro!: adds_rules adds_after_quiet quiet_sleep)
  qed
qed


section \<open>Every fetch is guarded\<close>

definition sensitive :: "http_headers \<Rightarrow> bool" where
  "sensitive headers \<longleftrightarrow> list_ex (jhas headers) SENSITIVE_REQUEST_HEADERS"

lemma sensitive_conditional: "sensitive (conditional_headers net cached u headers) \<longleftrightarrow> sensitive headers"
  by (auto simp: sensitive_def SENSITIVE_REQUEST_HEADERS_def conditional_headers_def Let_def jhas_def jget_jset split: option.split)

lemma sensitive_strip: "\<not> sensitive (strip_sensitive headers)"
  by (simp add: sensitive_def strip_sensitive_def SENSITIVE_REQUEST_HEADERS_def jhas_def jget_jdelete)

text \<open>
  What is relied on of the URL parser: what it reads and then writes it reads back with the same origin.
\<close>

definition origins_stable :: "'w net \<Rightarrow> bool" where
  "origins_stable net \<longleftrightarrow>
     (\<forall>raw u v. nt_parse net raw = Some u \<longrightarrow> nt_parse net (href (u\<lparr>url_fragment := None\<rparr>)) = Some v \<longrightarrow> url_origin v = url_origin u) \<and>
     (\<forall>location base u v. nt_relative net location base = Some u \<longrightarrow> nt_parse net (href u) = Some v \<longrightarrow> url_origin v = url_origin u)"

definition guarded :: "'w net \<Rightarrow> 'b request_call \<Rightarrow> string \<Rightarrow> nat \<Rightarrow> network_fetch \<Rightarrow> bool" where
  "guarded net q origin retryIndex f \<longleftrightarrow>
     let_through net (nf_url f) \<and> \<not> outside (rc_allowedOrigins q) (url_origin (nf_url f)) \<and>
     (sensitive (nf_headers f) \<longrightarrow> url_origin (nf_url f) = origin) \<and> nf_method f = rc_method q \<and>
     nf_retryIndex f = retryIndex \<and> nf_redirectIndex f \<le> rc_maxRedirects q \<and> nf_now f < nf_deadline f \<and> nf_cooldown f = None"

definition up_to :: "nat \<Rightarrow> (network_fetch \<Rightarrow> bool) \<Rightarrow> network_fetch list \<Rightarrow> bool" where
  "up_to n G new \<longleftrightarrow> length new \<le> n \<and> list_all G new"

lemma up_to_Nil [simp]: "up_to n G []"
  by (simp add: up_to_def)

lemma up_to_append: "up_to n G xs \<Longrightarrow> up_to m G ys \<Longrightarrow> n + m \<le> k \<Longrightarrow> up_to k G (xs @ ys)"
  by (auto simp: up_to_def)

lemma up_to_mono: "up_to n G xs \<Longrightarrow> n \<le> m \<Longrightarrow> up_to m G xs"
  by (simp add: up_to_def)

lemma adds_more:
  assumes "adds m s (up_to k G) (\<lambda>r new. up_to k G new \<and> P r)" "up_to n G xs" "n + k \<le> j"
  shows "adds m s (\<lambda>new. up_to j G (xs @ new)) (\<lambda>r new. up_to j G (xs @ new) \<and> P r)"
  using assms up_to_append [OF assms(2) _ assms(3)] unfolding adds_def by (fastforce split: sum.splits)

lemma validated_target:
  assumes "awaitBeforeDeadline net (validate_io net raw) d s = (Inr v, t)"
  obtains u w where "nt_parse net raw = Some u" "v = u\<lparr>url_fragment := None\<rparr>" "let_through net v"
proof -
  obtain t' where "validate_io net raw s = (Inr v, t')" using await_result [OF assms] by blast
  then obtain w where w: "validatePublicHttpUrl (nt_parse net) (nt_resolver net w) raw = Inr v" using validate_result by blast
  then obtain u where "nt_parse net raw = Some u" "v = u\<lparr>url_fragment := None\<rparr>"
    by (auto simp: validatePublicHttpUrl_def Let_def split: option.splits if_splits)
  with w that show thesis unfolding let_through_def by blast
qed

lemma adds_weaken: "adds m s E F \<Longrightarrow> (\<And>new. E new \<Longrightarrow> E' new) \<Longrightarrow> (\<And>a new. F a new \<Longrightarrow> F' a new) \<Longrightarrow> adds m s E' F'"
  unfolding adds_def by (fastforce split: sum.splits)

definition hop_of :: "'w net \<Rightarrow> 'b request_call \<Rightarrow> nat \<Rightarrow> nat \<Rightarrow> URL \<Rightarrow> http_headers \<Rightarrow> 'b hop_call" where
  "hop_of net q retryIndex count u headers =
     \<lparr>hl_url = u, hl_headers = conditional_headers net (rc_cached q) u headers, hl_deadline = rc_deadline q, hl_retryIndex = retryIndex,
       hl_redirectIndex = count, hl_method = rc_method q, hl_requestBody = rc_requestBody q, hl_readBody = rc_readBody q,
       hl_requestTimeoutMs = rc_requestTimeoutMs q\<rparr>"

lemma adds_first_hop:
  assumes "let_through net u" "\<not> outside (rc_allowedOrigins q) (url_origin u)" "sensitive headers \<longrightarrow> url_origin u = origin"
    "count \<le> rc_maxRedirects q"
  shows "adds (networkHop turns net cfg (hop_of net q retryIndex count u headers)) s (up_to 1 (guarded net q origin retryIndex))
    (\<lambda>r new. up_to 1 (guarded net q origin retryIndex) new \<and> read_result (rc_readBody q) r)"
proof (rule adds_weaken [OF adds_networkHop])
  have one: "up_to 1 (guarded net q origin retryIndex) new" if "at_most_one (hop_of net q retryIndex count u headers) new" for new
    using that assms by (auto simp: at_most_one_def up_to_def fits_def guarded_def hop_of_def sensitive_conditional)
  then show "at_most_one (hop_of net q retryIndex count u headers) new \<Longrightarrow> up_to 1 (guarded net q origin retryIndex) new" for new .
  show "at_most_one (hop_of net q retryIndex count u headers) new \<and> read_result (hl_readBody (hop_of net q retryIndex count u headers)) r \<Longrightarrow>
      up_to 1 (guarded net q origin retryIndex) new \<and> read_result (rc_readBody q) r" for r new
    using one by (simp add: hop_of_def)
qed

lemma adds_attempt:
  assumes "origins_stable net"
  shows "let_through net u \<Longrightarrow> \<not> outside (rc_allowedOrigins q) (url_origin u) \<Longrightarrow> (sensitive headers \<longrightarrow> url_origin u = origin) \<Longrightarrow>
    count + left = rc_maxRedirects q \<Longrightarrow>
    adds (attempt_from turns net cfg q retryIndex left count u headers) s (up_to (Suc left) (guarded net q origin retryIndex))
      (\<lambda>r new. up_to (Suc left) (guarded net q origin retryIndex) new \<and> read_result (rc_readBody q) r)"
proof (induction left arbitrary: count u headers s)
  case 0
  show ?case
    by (subst attempt_from.simps, unfold hop_of_def [symmetric], rule adds_andThen [OF adds_first_hop [of net u q headers origin count]])
      (use 0 in \<open>auto intro!: adds_rules split: HopResult.split\<close>)
next
  case (Suc left)
  let ?G = "guarded net q origin retryIndex"
  let ?P = "read_result (rc_readBody q)"
  show ?case
  proof (subst attempt_from.simps, unfold hop_of_def [symmetric], rule adds_andThen [OF adds_first_hop [of net u q headers origin count]])
    fix r t new
    assume r: "up_to 1 ?G new \<and> read_result (rc_readBody q) r"
    have stop: "up_to (Suc (Suc left)) ?G (new @ [])" using r up_to_mono [of 1 ?G new] by simp
    have on: "adds (andThen (awaitBeforeDeadline net (validate_io net (href target)) d) (\<lambda>v.
          attempt_from turns net cfg q retryIndex left (count + 1) v (if url_origin v \<noteq> url_origin u then strip_sensitive headers else headers)))
        t (\<lambda>more. up_to (Suc (Suc left)) ?G (new @ more)) (\<lambda>b more. up_to (Suc (Suc left)) ?G (new @ more) \<and> ?P b)"
      if target: "nt_relative net location u = Some target" "\<not> outside (rc_allowedOrigins q) (url_origin target)" for d target location
    proof (rule adds_after_quiet)
      show "quiet (awaitBeforeDeadline net (validate_io net (href target)) d)" by (intro quiet_rules)
      show "up_to (Suc (Suc left)) ?G (new @ [])" by (rule stop)
    next
      fix v t'
      assume "awaitBeforeDeadline net (validate_io net (href target)) d t = (Inr v, t')"
      then obtain p where p: "nt_parse net (href target) = Some p" "v = p\<lparr>url_fragment := None\<rparr>" "let_through net v"
        by (rule validated_target)
      then have origin: "url_origin v = url_origin target" using assms target(1) by (auto simp: origins_stable_def)
      let ?h = "if url_origin v \<noteq> url_origin u then strip_sensitive headers else headers"
      have "sensitive ?h \<longrightarrow> url_origin v = origin" using Suc.prems(3) sensitive_strip by auto
      then have "adds (attempt_from turns net cfg q retryIndex left (count + 1) v ?h) t' (up_to (Suc left) ?G) (\<lambda>b more. up_to (Suc left) ?G more \<and> ?P b)"
        using p(3) origin target(2) Suc.prems(4) by (intro Suc.IH) auto
      then show "adds (attempt_from turns net cfg q retryIndex left (count + 1) v ?h) t'
          (\<lambda>more. up_to (Suc (Suc left)) ?G (new @ more)) (\<lambda>b more. up_to (Suc (Suc left)) ?G (new @ more) \<and> ?P b)"
        using r by (intro adds_more [where n = 1]) auto
    qed
    show "adds (case r of
          Redirect status location \<Rightarrow>
            if rc_method q = POST \<and> status \<noteq> 307 \<and> status \<noteq> 308 then throw (crawler_error Http_error Post_redirect_not_preserved (Some status))
            else (case Suc left of
                    0 \<Rightarrow> throw (crawler_error Http_error Redirect_limit (Some status))
                  | Suc left \<Rightarrow>
                      (case nt_relative net location u of
                         None \<Rightarrow> throw (crawler_error Http_error Invalid_redirect (Some status))
                       | Some redirectTarget \<Rightarrow>
                           if outside (rc_allowedOrigins q) (url_origin redirectTarget)
                           then throw (crawler_error Unsafe_url Disallowed_redirect_origin (Some status))
                           else andThen (awaitBeforeDeadline net (validate_io net (href redirectTarget))
                                  (\<lambda>now. min (rc_deadline q) (now + rc_requestTimeoutMs q))) (\<lambda>validatedTarget.
                             attempt_from turns net cfg q retryIndex left (count + 1) validatedTarget
                               (if url_origin validatedTarget \<noteq> url_origin u then strip_sensitive headers else headers))))
        | _ \<Rightarrow> give r) t (\<lambda>more. up_to (Suc (Suc left)) ?G (new @ more)) (\<lambda>b more. up_to (Suc (Suc left)) ?G (new @ more) \<and> ?P b)"
      using r stop by (cases r) (auto intro!: adds_rules on [unfolded Suc_eq_plus1 [symmetric]] split: option.split)
  qed (use Suc.prems in \<open>auto intro: up_to_mono\<close>)
qed

definition guarded_fetch :: "'w net \<Rightarrow> 'b request_call \<Rightarrow> string \<Rightarrow> network_fetch \<Rightarrow> bool" where
  "guarded_fetch net q origin f \<longleftrightarrow> guarded net q origin (nf_retryIndex f) f \<and> nf_retryIndex f \<le> rc_maxRetries q"

lemma guarded_within: "up_to n (guarded net q origin i) new \<Longrightarrow> i \<le> rc_maxRetries q \<Longrightarrow> up_to n (guarded_fetch net q origin) new"
  by (auto simp: up_to_def guarded_fetch_def guarded_def list_all_iff)

lemma adds_executeAttempt:
  assumes "origins_stable net" "let_through net u" "\<not> outside (rc_allowedOrigins q) (url_origin u)" "i \<le> rc_maxRetries q"
  shows "adds (executeAttempt turns net cfg q i u) s (up_to (Suc (rc_maxRedirects q)) (guarded_fetch net q (url_origin u)))
    (\<lambda>r new. up_to (Suc (rc_maxRedirects q)) (guarded_fetch net q (url_origin u)) new \<and> read_result (rc_readBody q) r)"
  unfolding executeAttempt_def
  by (rule adds_weaken [OF adds_attempt [OF assms(1-3), of _ "url_origin u"]]) (use guarded_within assms(4) in auto)

lemma quiet_clear: "quiet (clear_own_cooldown u c)"
  unfolding clear_own_cooldown_def by (auto intro!: quiet_rules split: option.split)

lemma quiet_initial: "quiet (initial_url net q u retry)"
  by (simp add: initial_url_def quiet_rules)

lemma initial_result:
  assumes "initial_url net q (u0\<lparr>url_fragment := None\<rparr>) retry s = (Inr v, t)" "origins_stable net" "nt_parse net raw = Some u0"
    and "let_through net (u0\<lparr>url_fragment := None\<rparr>)"
  shows "let_through net v \<and> url_origin v = url_origin u0"
proof (cases "retry = 0")
  case False
  with assms(1) show ?thesis
    by (auto simp: initial_url_def elim!: validated_target) (use assms(2,3) in \<open>auto simp: origins_stable_def\<close>)
qed (use assms in \<open>auto simp: initial_url_def give_def\<close>)

lemma adds_retry:
  assumes "origins_stable net" "nt_parse net raw = Some u0" "let_through net (u0\<lparr>url_fragment := None\<rparr>)" "\<not> outside (rc_allowedOrigins q) (url_origin u0)"
  shows "retry + left = rc_maxRetries q \<Longrightarrow>
    adds (retry_from turns net cfg q (u0\<lparr>url_fragment := None\<rparr>) left retry) s
      (up_to (Suc left * Suc (rc_maxRedirects q)) (guarded_fetch net q (url_origin u0)))
      (\<lambda>r new. up_to (Suc left * Suc (rc_maxRedirects q)) (guarded_fetch net q (url_origin u0)) new \<and> read_result (rc_readBody q) r)"
proof (induction left arbitrary: retry s)
  case 0
  let ?G = "guarded_fetch net q (url_origin u0)" and ?P = "read_result (rc_readBody q)"
  show ?case
  proof (subst retry_from.simps, rule adds_after_quiet [OF quiet_initial])
    fix v t
    assume "initial_url net q (u0\<lparr>url_fragment := None\<rparr>) retry s = (Inr v, t)"
    then have v: "let_through net v" "url_origin v = url_origin u0" using initial_result assms by blast+
    show "adds (andThen (executeAttempt turns net cfg q retry v) (\<lambda>result.
        case result of
          Retryable status retryDelayMs serverRetryAfterMs cooldownUntil \<Rightarrow>
            (case 0 of
               0 \<Rightarrow> throw (statusError status serverRetryAfterMs)
             | Suc fewer \<Rightarrow>
                 andThen (ask net (nt_now net)) (\<lambda>now.
                   if retryDelayMs \<ge> rc_deadline q - now then throw (statusError status serverRetryAfterMs)
                   else andThen (sleepBeforeDeadline net retryDelayMs (rc_deadline q)) (\<lambda>_.
                     andThen (clear_own_cooldown (u0\<lparr>url_fragment := None\<rparr>) cooldownUntil) (\<lambda>_.
                       retry_from turns net cfg q (u0\<lparr>url_fragment := None\<rparr>) fewer (retry + 1)))))
        | Error_status status \<Rightarrow> throw (statusError status None)
        | _ \<Rightarrow> give result)) t (up_to (Suc 0 * Suc (rc_maxRedirects q)) ?G) (\<lambda>r new. up_to (Suc 0 * Suc (rc_maxRedirects q)) ?G new \<and> ?P r)"
      by (rule adds_andThen [OF adds_executeAttempt [OF assms(1) v(1), of q retry]])
        (use v assms(4) 0 in \<open>auto intro!: adds_rules split: HopResult.split\<close>)
  qed simp
next
  case (Suc left)
  let ?G = "guarded_fetch net q (url_origin u0)" and ?P = "read_result (rc_readBody q)" and ?u = "u0\<lparr>url_fragment := None\<rparr>"
  let ?n = "Suc (Suc left) * Suc (rc_maxRedirects q)"
  have again: "adds (retry_from turns net cfg q ?u left (retry + 1)) t (\<lambda>more. up_to ?n ?G (new @ more)) (\<lambda>r more. up_to ?n ?G (new @ more) \<and> ?P r)"
    if "up_to (Suc (rc_maxRedirects q)) ?G new" for new t
    using Suc.prems by (intro adds_more [OF Suc.IH that]) auto
  have stop: "up_to ?n ?G (new @ [])" if "up_to (Suc (rc_maxRedirects q)) ?G new" for new
    using up_to_mono [OF that, of ?n] by simp
  show ?case
  proof (subst retry_from.simps, rule adds_after_quiet [OF quiet_initial])
    fix v t
    assume "initial_url net q ?u retry s = (Inr v, t)"
    then have v: "let_through net v" "url_origin v = url_origin u0" using initial_result assms by blast+
    show "adds (andThen (executeAttempt turns net cfg q retry v) (\<lambda>result.
        case result of
          Retryable status retryDelayMs serverRetryAfterMs cooldownUntil \<Rightarrow>
            (case Suc left of
               0 \<Rightarrow> throw (statusError status serverRetryAfterMs)
             | Suc fewer \<Rightarrow>
                 andThen (ask net (nt_now net)) (\<lambda>now.
                   if retryDelayMs \<ge> rc_deadline q - now then throw (statusError status serverRetryAfterMs)
                   else andThen (sleepBeforeDeadline net retryDelayMs (rc_deadline q)) (\<lambda>_.
                     andThen (clear_own_cooldown ?u cooldownUntil) (\<lambda>_. retry_from turns net cfg q ?u fewer (retry + 1)))))
        | Error_status status \<Rightarrow> throw (statusError status None)
        | _ \<Rightarrow> give result)) t (up_to ?n ?G) (\<lambda>r new. up_to ?n ?G new \<and> ?P r)"
    proof (rule adds_andThen [OF adds_executeAttempt [OF assms(1) v(1), of q retry]], goal_cases)
      case (4 r t' new)
      then have new: "up_to (Suc (rc_maxRedirects q)) ?G new" using v by simp
      from 4 show ?case
        using again [OF new] stop [OF new]
        by (cases r) (auto simp: adds_steps v intro!: adds_rules adds_after_quiet quiet_sleep quiet_clear)
    qed (use v assms(4) Suc.prems stop in auto)
  qed simp
qed


section \<open>What a request may do\<close>

lemma lift_result: "lift_sum r s = (Inr a, t) \<Longrightarrow> r = Inr a"
  by (auto simp: lift_sum_def give_def throw_def split: sum.splits)

lemma lowered_bound: "lowered requested policy = Inr n \<Longrightarrow> int n \<le> policy"
  by (auto simp: lowered_def Let_def positiveInteger_def split: if_splits)

lemma read_chunks_result:
  "read_chunks status n broken acc chunks = Inr body \<Longrightarrow> int (length acc) \<le> n \<Longrightarrow> body = acc @ concat chunks \<and> int (length body) \<le> n"
proof (induction chunks arbitrary: acc)
  case (Cons chunk chunks)
  then have "read_chunks status n broken (acc @ chunk) chunks = Inr body" "int (length (acc @ chunk)) \<le> n" by (auto split: if_splits)
  then have "body = (acc @ chunk) @ concat chunks" "int (length body) \<le> n" using Cons.IH [of "acc @ chunk"] by blast+
  then show ?case by (metis append.assoc concat.simps(2))
qed (auto split: if_splits)

lemma readBoundedBody_result:
  "readBoundedBody n r = Inr body \<Longrightarrow> 0 \<le> n \<Longrightarrow> body = concat (or_else (rs_chunks r) []) \<and> int (length body) \<le> n"
  by (auto simp: readBoundedBody_def or_else_def dest: read_chunks_result split: if_splits option.splits)

definition fetch_allowed :: "'w net \<Rightarrow> SafeHttpMethod \<Rightarrow> SafeHttpGetOptions \<Rightarrow> string \<Rightarrow> network_fetch \<Rightarrow> bool" where
  "fetch_allowed net verb options input f \<longleftrightarrow>
     let_through net (nf_url f) \<and>
     (\<forall>os. normalizeAllowedOrigins (nt_parse net) (go_allowedOrigins options) = Inr (Some os) \<longrightarrow> url_origin (nf_url f) \<in> set os) \<and>
     (\<forall>u. nt_parse net input = Some u \<longrightarrow> sensitive (nf_headers f) \<longrightarrow> url_origin (nf_url f) = url_origin u) \<and>
     nf_method f = verb \<and> nf_now f < nf_deadline f \<and> nf_cooldown f = None"

definition honest_response :: "'w net \<Rightarrow> client_config \<Rightarrow> SafeHttpResponse \<Rightarrow> bool" where
  "honest_response net cfg r \<longleftrightarrow>
     (if sh_fromCache r
      then \<exists>w c. nt_cached net w (sh_requestedUrl r) = Some c \<and> cachedFinalUrl net (Some c) = Some (sh_url r) \<and> sh_body r = ch_body c \<and> sh_status r = ch_status c
      else \<exists>resp :: http_response. rs_status resp = sh_status r \<and> sh_body r = concat (or_else (rs_chunks resp) []) \<and> int (length (sh_body r)) \<le> cc_maxResponseBytes cfg)"

lemma quiet_finish: "quiet (finish_request net useCache key cached result)"
  unfolding finish_request_def Let_def by (auto intro!: quiet_rules split: HopResult.split option.split)

lemma finish_honest:
  assumes "finish_request net useCache key cached result s = (Inr r, t)" "read_result (readBoundedBody (cc_maxResponseBytes cfg)) result"
    and "0 \<le> cc_maxResponseBytes cfg" "\<And>c. cached = Some c \<Longrightarrow> \<exists>w. nt_cached net w key = Some c"
  shows "honest_response net cfg r"
proof (cases result)
  case (Not_modified url headers)
  with assms(1) obtain c where c: "cached = Some c" "cachedFinalUrl net cached = Some url"
      "\<exists>now. r = responseFromCache key (refreshCachedEntry c url headers now)"
    by (auto simp: finish_request_def andThen_def ask_def writeCache_def give_def throw_def Let_def split: option.splits if_splits)
  with assms(4) show ?thesis by (auto simp: honest_response_def responseFromCache_def refreshCachedEntry_def)
next
  case (Success url status headers body)
  with assms(2) obtain resp where resp: "readBoundedBody (cc_maxResponseBytes cfg) resp = Inr body" "rs_status resp = status"
    by (auto simp: read_result_def)
  from assms(1) Success have "sh_body r = body" "sh_status r = status" "\<not> sh_fromCache r"
    by (auto simp: finish_request_def andThen_def ask_def writeCache_def give_def split: if_splits)
  with resp readBoundedBody_result [OF resp(1) assms(3)] show ?thesis unfolding honest_response_def by auto
qed (use assms(1) in \<open>auto simp: finish_request_def throw_def\<close>)

lemma adds_on: "quiet m \<Longrightarrow> (\<And>a t. m s = (Inr a, t) \<Longrightarrow> adds (f a) t (up_to n G) F) \<Longrightarrow> adds (andThen m f) s (up_to n G) F"
  by (rule adds_after_quiet) simp_all

lemma adds_result: "adds m s E (\<lambda>r new. E new \<and> P r) \<Longrightarrow> \<exists>new. hc_fetches (snd (m s)) = hc_fetches s @ new \<and> E new \<and> (\<forall>r. fst (m s) = Inr r \<longrightarrow> P r)"
  unfolding adds_def by (cases "fst (m s)") auto

lemma adds_request:
  assumes "origins_stable net" "0 \<le> cc_maxResponseBytes cfg" "0 \<le> cc_maxRetries cfg" "0 \<le> cc_maxRedirects cfg"
  defines "N \<equiv> Suc (nat (cc_maxRetries cfg)) * Suc (nat (cc_maxRedirects cfg))"
  shows "adds (request turns net cfg input verb body options useCache) s (up_to N (fetch_allowed net verb options input))
    (\<lambda>r new. up_to N (fetch_allowed net verb options input) new \<and> honest_response net cfg r)"
proof -
  have main: "adds (andThen (executeWithRetries turns net cfg q (u\<lparr>url_fragment := None\<rparr>)) (\<lambda>result. finish_request net useCache (href (u\<lparr>url_fragment := None\<rparr>)) (rc_cached q) result))
      t (up_to N (fetch_allowed net verb options input)) (\<lambda>r new. up_to N (fetch_allowed net verb options input) new \<and> honest_response net cfg r)"
    if q: "nt_parse net input = Some u" "let_through net (u\<lparr>url_fragment := None\<rparr>)" "\<not> outside (rc_allowedOrigins q) (url_origin u)"
      "rc_readBody q = readBoundedBody (cc_maxResponseBytes cfg)" "rc_method q = verb" "int (rc_maxRetries q) \<le> cc_maxRetries cfg"
      "int (rc_maxRedirects q) \<le> cc_maxRedirects cfg" "normalizeAllowedOrigins (nt_parse net) (go_allowedOrigins options) = Inr (rc_allowedOrigins q)"
      "\<And>c. rc_cached q = Some c \<Longrightarrow> \<exists>w. nt_cached net w (href (u\<lparr>url_fragment := None\<rparr>)) = Some c"
    for q :: "nat list request_call" and u t
  proof -
    have "Suc (rc_maxRetries q) * Suc (rc_maxRedirects q) \<le> N"
      unfolding N_def using q(6,7) by (intro mult_le_mono) auto
    moreover have "fetch_allowed net verb options input f" if "guarded_fetch net q (url_origin u) f" for f
      using that q(1,5,8) by (auto simp: guarded_fetch_def guarded_def fetch_allowed_def outside_def)
    ultimately have mono: "up_to N (fetch_allowed net verb options input) new"
      if "up_to (Suc (rc_maxRetries q) * Suc (rc_maxRedirects q)) (guarded_fetch net q (url_origin u)) new" for new
      using that by (auto simp: up_to_def list_all_iff)
    show ?thesis
      unfolding executeWithRetries_def
    proof (rule adds_andThen [OF adds_retry [OF assms(1) q(1,2,3)]], goal_cases)
      case (3 r t' new)
      then have "up_to N (fetch_allowed net verb options input) (new @ [])" "read_result (readBoundedBody (cc_maxResponseBytes cfg)) r"
        using mono q(4) by auto
      then show ?case using finish_honest [OF _ _ assms(2) q(9)] by (intro adds_quiet quiet_finish) auto
    qed (use mono in auto)
  qed
  show ?thesis
    unfolding request_def
  proof (rule adds_on [OF quiet_lift_sum], rule adds_on [OF quiet_lift_sum], unfold adds_steps, goal_cases)
    case (1 maxRetries t1 maxRedirects t2)
    note limits = lowered_bound [OF lift_result [OF 1(1)]] lowered_bound [OF lift_result [OF 1(2)]]
    show ?case
    proof (split if_split, intro conjI impI, simp add: adds_rules, unfold adds_steps, rule adds_on [OF quiet_await [OF quiet_validate]],
        rule adds_on [OF quiet_lift_sum], goal_cases)
      case (1 v t3 allowed t4)
      obtain u where u: "nt_parse net input = Some u" "v = u\<lparr>url_fragment := None\<rparr>" "let_through net v" using 1(2) by (rule validated_target)
      note allowed = lift_result [OF 1(3)]
      show ?case
      proof (split if_split, intro conjI impI, simp add: adds_rules, rule adds_on [OF quiet_readCache], unfold adds_steps, goal_cases)
        case (1 cached t5)
        have "\<exists>w. nt_cached net w (href v) = Some c" if "cached = Some c" for c
          using 1(2) that by (auto simp: readCache_def ask_def give_def split: if_splits)
        then show ?case
          using main [of u "\<lparr>rc_headers = go_headers options, rc_cached = cached, rc_deadline = d, rc_allowedOrigins = allowed, rc_method = verb,
            rc_requestBody = body, rc_readBody = readBoundedBody (cc_maxResponseBytes cfg), rc_requestTimeoutMs = cc_timeoutMs cfg,
            rc_maxRetries = maxRetries, rc_maxRedirects = maxRedirects\<rparr>" for d] u limits allowed 1(1) by simp
      qed
    qed
  qed
qed


definition ex_url :: URL where
  "ex_url = \<lparr>url_protocol = ''https:'', url_username = [], url_password = [], url_hostname = ''a.io'', url_origin = ''https://a.io'',
     url_base = ''https://a.io/'', url_fragment = None\<rparr>"

definition ex_net :: "nat net" where
  "ex_net = \<lparr>nt_tick = Suc, nt_now = int, nt_parse = (\<lambda>s. if s = ''https://a.io/'' then Some ex_url else None), nt_relative = (\<lambda>_ _. None),
     nt_date = (\<lambda>_. None), nt_resolver = (\<lambda>_ _. Some [\<lparr>ra_address = ''8.8.8.8'', ra_family = 4\<rparr>]), nt_race = (\<lambda>_. Op_wins), nt_aborted = (\<lambda>_. False),
     nt_admit = (\<lambda>_ _ _ _. True),
     nt_fetch = (\<lambda>_ _ _. Response \<lparr>rs_status = 200, rs_headers = [], rs_chunks = Some [[1], [2]], rs_broken = False\<rparr>),
     nt_random = (\<lambda>_. 0), nt_cached = (\<lambda>_ _. None), nt_store = (\<lambda>w _ _. w)\<rparr>"

definition ex_setup :: SafeHttpClientOptions where
  "ex_setup = \<lparr>so_timeoutMs = 100, so_queueTimeoutMs = None, so_cacheTimeoutMs = None, so_maxRetries = 1, so_userAgent = ''radar-crawler'',
     so_maxRedirects = None, so_maxResponseBytes = Some 10, so_maxStreamTimeoutMs = None, so_maxStreamResponseBytes = None,
     so_baseRetryDelayMs = None, so_maxRetryDelayMs = None, so_maxRetryAfterMs = None\<rparr>"

definition ex_get :: SafeHttpGetOptions where
  "ex_get = \<lparr>go_headers = [(''authorization'', ''x'')], go_allowedOrigins = None, go_noStore = True, go_maxRetries = None, go_maxRedirects = None\<rparr>"

definition ex_client :: "nat client" where
  "ex_client = \<lparr>hc_world = 0, hc_cooldowns = [], hc_fetches = []\<rparr>"

lemma ex_net_stable: "origins_stable ex_net"
  by (auto simp: origins_stable_def ex_net_def ex_url_def split: if_splits)

lemma ex_setup_ok: "new_http_client ex_setup = Inr (config_of ex_setup)"
  by (simp add: new_http_client_def config_ok_def config_of_def ex_setup_def or_else_def positiveInteger_def boundedPositiveInteger_def
      ABSOLUTE_MAX_STREAM_TIMEOUT_MS_def ABSOLUTE_MAX_STREAM_RESPONSE_BYTES_def js_trim_def is_space_def)

lemma ex_run: "map_sum id sh_body (fst (request 1 ex_net (config_of ex_setup) ''https://a.io/'' GET None ex_get False ex_client)) = Inr [1, 2]"
  by code_simp


end
