(* ===== verification/Sse_Writer.thy ===== *)
theory Sse_Writer
  imports Js_Strings
begin

text \<open>
  The bounded writer of one server-sent-events connection (\<^verbatim>\<open>apps/daemon/src/sse-writer.ts\<close>).

  The HTTP response is a parameter: \<open>out_write n\<close> is what its \<open>n\<close>-th \<^verbatim>\<open>write\<close> call does (accept and ready for
  more, accept but full, or throw) and \<open>out_once n\<close> whether its \<open>n\<close>-th listener registration succeeds. The
  model counts these calls and keeps the frames handed to the response, so the properties hold for
  every behaviour of the peer. An event carries its JSON text as data.
\<close>

section \<open>Frames\<close>

definition MAX_QUEUED_EVENTS :: nat where
  "MAX_QUEUED_EVENTS = 256"

definition MAX_QUEUED_BYTES :: nat where
  "MAX_QUEUED_BYTES = 4 * 1024 * 1024"

definition TERMINAL_EVENT_TYPES :: "string list" where
  "TERMINAL_EVENT_TYPES = [''session.completed'', ''session.failed'', ''session.cancelled'']"

record AgentEventEnvelope =
  ae_sequence :: nat
  ae_type :: string
  ae_json :: string

datatype write_answer = Ready | Full | Throws

record SseOutput =
  out_write :: "nat \<Rightarrow> write_answer"
  out_once :: "nat \<Rightarrow> bool"

record QueuedFrame =
  qf_bytes :: nat
  qf_frame :: string
  qf_terminal :: bool

abbreviation newline :: string where
  "newline \<equiv> [CHR 0x0A]"

definition eventFrame :: "AgentEventEnvelope \<Rightarrow> string" where
  "eventFrame event =
     ''id: '' @ show_nat (ae_sequence event) @ newline @ ''event: '' @ ae_type event @ newline @
     ''data: '' @ ae_json event @ newline @ newline"

definition queued_frame :: "AgentEventEnvelope \<Rightarrow> QueuedFrame" where
  "queued_frame event =
     \<lparr>qf_bytes = utf8ByteLength (eventFrame event), qf_frame = eventFrame event,
      qf_terminal = (ae_type event \<in> set TERMINAL_EVENT_TYPES)\<rparr>"


section \<open>The writer\<close>

record BoundedSseWriter =
  sw_queue :: "QueuedFrame list"
  sw_queuedBytes :: nat
  sw_backpressured :: bool
  sw_drainArmed :: bool
  sw_terminalReceived :: bool
  sw_endAfterDrain :: bool
  sw_closed :: bool
  sw_writes :: nat
  sw_onces :: nat
  sw_sent :: "QueuedFrame list"
  sw_ends :: nat
  sw_onCloses :: nat

definition new_writer :: BoundedSseWriter where
  "new_writer = \<lparr>sw_queue = [], sw_queuedBytes = 0, sw_backpressured = False, sw_drainArmed = False,
     sw_terminalReceived = False, sw_endAfterDrain = False, sw_closed = False, sw_writes = 0, sw_onces = 0,
     sw_sent = [], sw_ends = 0, sw_onCloses = 0\<rparr>"

definition finish :: "BoundedSseWriter \<Rightarrow> BoundedSseWriter" where
  "finish w =
     (if sw_closed w then w
      else w\<lparr>sw_closed := True, sw_queue := [], sw_queuedBytes := 0, sw_drainArmed := False,
             sw_ends := sw_ends w + 1, sw_onCloses := sw_onCloses w + 1\<rparr>)"

definition armDrain :: "SseOutput \<Rightarrow> BoundedSseWriter \<Rightarrow> BoundedSseWriter" where
  "armDrain out w =
     (if sw_closed w \<or> sw_drainArmed w then w
      else let w1 = w\<lparr>sw_drainArmed := True, sw_onces := sw_onces w + 1\<rparr>
           in if out_once out (sw_onces w) then w1 else finish w1)"

definition handOff :: "SseOutput \<Rightarrow> QueuedFrame \<Rightarrow> BoundedSseWriter \<Rightarrow> BoundedSseWriter" where
  "handOff out queued w =
     (let w1 = w\<lparr>sw_writes := sw_writes w + 1, sw_sent := sw_sent w @ [queued]\<rparr>
      in case out_write out (sw_writes w) of
           Throws \<Rightarrow> finish w1
         | Ready \<Rightarrow> (if qf_terminal queued then finish w1 else w1)
         | Full \<Rightarrow> armDrain out (w1\<lparr>sw_backpressured := True, sw_endAfterDrain := qf_terminal queued\<rparr>))"

text \<open>The opening comment \<^verbatim>\<open>:ok\<close> is a write of its own, not a frame.\<close>

definition start :: "SseOutput \<Rightarrow> BoundedSseWriter \<Rightarrow> BoundedSseWriter" where
  "start out w =
     (if sw_closed w \<or> sw_backpressured w then w
      else let w1 = w\<lparr>sw_writes := sw_writes w + 1\<rparr>
           in case out_write out (sw_writes w) of
                Ready \<Rightarrow> w1
              | Full \<Rightarrow> armDrain out (w1\<lparr>sw_backpressured := True\<rparr>)
              | Throws \<Rightarrow> finish w1)"

definition overflow :: "BoundedSseWriter \<Rightarrow> BoundedSseWriter" where
  "overflow w = finish (w\<lparr>sw_queue := [], sw_queuedBytes := 0\<rparr>)"

definition sse_write :: "SseOutput \<Rightarrow> AgentEventEnvelope \<Rightarrow> BoundedSseWriter \<Rightarrow> BoundedSseWriter" where
  "sse_write out event w =
     (if sw_closed w \<or> sw_terminalReceived w then w
      else
        let queued = queued_frame event;
            w1 = (if qf_terminal queued then w\<lparr>sw_terminalReceived := True\<rparr> else w)
        in if sw_backpressured w1
           then if length (sw_queue w1) \<ge> MAX_QUEUED_EVENTS \<or> sw_queuedBytes w1 + qf_bytes queued > MAX_QUEUED_BYTES
                then overflow w1
                else w1\<lparr>sw_queue := sw_queue w1 @ [queued], sw_queuedBytes := sw_queuedBytes w1 + qf_bytes queued\<rparr>
           else handOff out queued w1)"

definition close :: "BoundedSseWriter \<Rightarrow> BoundedSseWriter" where
  "close w = finish w"

definition finishReplay :: "BoundedSseWriter \<Rightarrow> BoundedSseWriter" where
  "finishReplay w = (if sw_terminalReceived w then w else finish w)"

lemma queue_handOff: "sw_queue (handOff out q w) = sw_queue w \<or> sw_queue (handOff out q w) = []"
  by (simp add: handOff_def armDrain_def finish_def Let_def split: write_answer.split)

function drain_loop :: "SseOutput \<Rightarrow> BoundedSseWriter \<Rightarrow> BoundedSseWriter" where
  "drain_loop out w =
     (if \<not> sw_closed w \<and> \<not> sw_backpressured w
      then case sw_queue w of
             [] \<Rightarrow> w
           | queued # rest \<Rightarrow>
               drain_loop out (handOff out queued (w\<lparr>sw_queue := rest, sw_queuedBytes := sw_queuedBytes w - qf_bytes queued\<rparr>))
      else w)"
  by pat_completeness auto
termination
proof (relation "measure (\<lambda>(out, w). length (sw_queue w))", simp, goal_cases)
  case (1 out w q rest)
  with queue_handOff [of out q "w\<lparr>sw_queue := rest, sw_queuedBytes := sw_queuedBytes w - qf_bytes q\<rparr>"]
  show ?case by auto
qed

declare drain_loop.simps [simp del]

definition handleDrain :: "SseOutput \<Rightarrow> BoundedSseWriter \<Rightarrow> BoundedSseWriter" where
  "handleDrain out w =
     (let w1 = w\<lparr>sw_drainArmed := False\<rparr>
      in if sw_closed w1 then w1
         else let w2 = w1\<lparr>sw_backpressured := False\<rparr>
              in if sw_endAfterDrain w2 then finish w2 else drain_loop out w2)"

text \<open>The response calls the registered drain listener only while it is registered.\<close>

datatype sse_event = Sse_start | Sse_write AgentEventEnvelope | Sse_drain | Sse_close | Sse_finishReplay

fun sse_step :: "SseOutput \<Rightarrow> BoundedSseWriter \<Rightarrow> sse_event \<Rightarrow> BoundedSseWriter" where
  "sse_step out w Sse_start = start out w"
| "sse_step out w (Sse_write e) = sse_write out e w"
| "sse_step out w Sse_drain = (if sw_drainArmed w then handleDrain out w else w)"
| "sse_step out w Sse_close = close w"
| "sse_step out w Sse_finishReplay = finishReplay w"


section \<open>The invariant\<close>

text \<open>
  The frames a run has to deliver, in order: every event written up to and including the first terminal
  one.
\<close>

fun until_terminal :: "AgentEventEnvelope list \<Rightarrow> QueuedFrame list" where
  "until_terminal [] = []"
| "until_terminal (e # es) =
     (if qf_terminal (queued_frame e) then [queued_frame e] else queued_frame e # until_terminal es)"

fun written :: "sse_event list \<Rightarrow> AgentEventEnvelope list" where
  "written [] = []"
| "written (Sse_write e # es) = e # written es"
| "written (_ # es) = written es"

lemma written_snoc: "written (es @ [x]) = written es @ (case x of Sse_write e \<Rightarrow> [e] | _ \<Rightarrow> [])"
  by (induction es rule: written.induct) (auto split: sse_event.split)

definition has_terminal :: "AgentEventEnvelope list \<Rightarrow> bool" where
  "has_terminal es \<longleftrightarrow> (\<exists>e\<in>set es. qf_terminal (queued_frame e))"

lemma until_terminal_snoc:
  "until_terminal (es @ [e]) = (if has_terminal es then until_terminal es else until_terminal es @ [queued_frame e])"
  by (induction es) (auto simp: has_terminal_def)

lemma has_terminal_snoc: "has_terminal (es @ [e]) \<longleftrightarrow> has_terminal es \<or> qf_terminal (queued_frame e)"
  by (auto simp: has_terminal_def)

lemma terminal_is_last: "until_terminal es = xs @ q # ys \<Longrightarrow> qf_terminal q \<Longrightarrow> ys = []"
proof (induction es arbitrary: xs)
  case (Cons e es)
  then show ?case by (cases xs) (auto split: if_splits)
qed simp

lemma terminal_in: "q \<in> set (until_terminal es) \<Longrightarrow> qf_terminal q \<Longrightarrow> has_terminal es"
  by (induction es) (auto simp: has_terminal_def split: if_splits)

text \<open>The relation of a writer to the events written to it so far, and the shape of a writer.\<close>

definition sse_rel :: "BoundedSseWriter \<Rightarrow> AgentEventEnvelope list \<Rightarrow> bool" where
  "sse_rel w es \<longleftrightarrow>
     (sw_terminalReceived w \<longrightarrow> has_terminal es) \<and> (\<not> sw_closed w \<longrightarrow> (sw_terminalReceived w \<longleftrightarrow> has_terminal es)) \<and>
     prefix (sw_sent w) (until_terminal es) \<and>
     (\<not> sw_closed w \<longrightarrow> sw_sent w @ sw_queue w = until_terminal es)"

definition sse_shape :: "BoundedSseWriter \<Rightarrow> bool" where
  "sse_shape w \<longleftrightarrow>
     sw_queuedBytes w = sum_list (map qf_bytes (sw_queue w)) \<and>
     length (sw_queue w) \<le> MAX_QUEUED_EVENTS \<and> sw_queuedBytes w \<le> MAX_QUEUED_BYTES \<and>
     sw_ends w = (if sw_closed w then 1 else 0) \<and> sw_onCloses w = sw_ends w \<and>
     (sw_closed w \<longrightarrow> sw_queue w = [] \<and> \<not> sw_drainArmed w) \<and>
     (\<not> sw_closed w \<longrightarrow> sw_drainArmed w = sw_backpressured w) \<and>
     (\<not> sw_closed w \<and> sw_endAfterDrain w \<longrightarrow> sw_backpressured w \<and> sw_queue w = [] \<and> sw_terminalReceived w)"

definition sse_core :: "BoundedSseWriter \<Rightarrow> AgentEventEnvelope list \<Rightarrow> bool" where
  "sse_core w es \<longleftrightarrow> sse_shape w \<and> sse_rel w es"

text \<open>Between two calls, nothing waits in the queue of a connection that takes writes.\<close>

definition sse_inv :: "BoundedSseWriter \<Rightarrow> AgentEventEnvelope list \<Rightarrow> bool" where
  "sse_inv w es \<longleftrightarrow> sse_core w es \<and> (\<not> sw_closed w \<and> \<not> sw_backpressured w \<longrightarrow> sw_queue w = [])"

lemma finish_core:
  assumes "sw_closed w \<longrightarrow> sse_shape w" and "\<not> sw_closed w \<longrightarrow> sw_ends w = 0 \<and> sw_onCloses w = 0"
    and "sw_terminalReceived w \<longrightarrow> has_terminal es" and "prefix (sw_sent w) (until_terminal es)"
  shows "sse_core (finish w) es \<and> sw_closed (finish w)"
  using assms by (auto simp: finish_def sse_core_def sse_shape_def sse_rel_def)

lemma handOff_core:
  assumes w: "\<not> sw_closed w" "\<not> sw_backpressured w" "\<not> sw_drainArmed w" "\<not> sw_endAfterDrain w"
    "sw_queuedBytes w = sum_list (map qf_bytes (sw_queue w))" "length (sw_queue w) \<le> MAX_QUEUED_EVENTS"
    "sw_queuedBytes w \<le> MAX_QUEUED_BYTES" "sw_ends w = 0" "sw_onCloses w = 0"
    and rel: "sw_terminalReceived w \<longleftrightarrow> has_terminal es" "sw_sent w @ q # sw_queue w = until_terminal es"
  shows "sse_core (handOff out q w) es"
proof -
  let ?w1 = "w\<lparr>sw_writes := sw_writes w + 1, sw_sent := sw_sent w @ [q]\<rparr>"
  have pre: "prefix (sw_sent w @ [q]) (until_terminal es)" unfolding rel(2) [symmetric] by (simp add: prefix_def)
  have last: "qf_terminal q \<Longrightarrow> sw_queue w = []" using terminal_is_last rel(2) by metis
  have "q \<in> set (until_terminal es)" unfolding rel(2) [symmetric] by simp
  then have recv: "qf_terminal q \<Longrightarrow> sw_terminalReceived w" using terminal_in rel(1) by blast
  have fin: "sse_core (finish ?w1) es" using finish_core [of ?w1 es] w rel pre by simp
  show ?thesis
  proof (cases "out_write out (sw_writes w)")
    case Ready
    then show ?thesis using fin w rel pre last
      by (auto simp: handOff_def Let_def sse_core_def sse_shape_def sse_rel_def)
  next
    case Full
    let ?w2 = "?w1\<lparr>sw_backpressured := True, sw_endAfterDrain := qf_terminal q, sw_drainArmed := True, sw_onces := sw_onces w + 1\<rparr>"
    have "sse_core (finish ?w2) es" using finish_core [of ?w2 es] w rel pre by simp
    with Full w rel pre last recv show ?thesis
      by (auto simp: handOff_def armDrain_def Let_def sse_core_def sse_shape_def sse_rel_def)
  next
    case Throws
    with fin show ?thesis by (simp add: handOff_def Let_def)
  qed
qed

lemma drain_loop_inv: "sse_core w es \<Longrightarrow> sse_inv (drain_loop out w) es"
proof (induction out w rule: drain_loop.induct)
  case (1 out w)
  show ?case
  proof (cases "\<not> sw_closed w \<and> \<not> sw_backpressured w \<and> sw_queue w \<noteq> []")
    case False
    with "1.prems" show ?thesis by (auto simp: drain_loop.simps [of out w] sse_inv_def split: list.split)
  next
    case True
    then obtain q rest where q: "sw_queue w = q # rest" by (cases "sw_queue w") auto
    let ?w' = "w\<lparr>sw_queue := rest, sw_queuedBytes := sw_queuedBytes w - qf_bytes q\<rparr>"
    have "sse_core (handOff out q ?w') es"
      by (rule handOff_core) (use "1.prems" True q in \<open>auto simp: sse_core_def sse_shape_def sse_rel_def\<close>)
    from "1.IH" [OF _ q this] True q show ?thesis by (simp add: drain_loop.simps [of out w])
  qed
qed

lemma inv_write: "sse_inv w es \<Longrightarrow> sse_inv (sse_write out e w) (es @ [e])"
proof -
  assume inv: "sse_inv w es"
  let ?q = "queued_frame e"
  show ?thesis
  proof (cases "sw_closed w \<or> sw_terminalReceived w")
    case True
    with inv show ?thesis
      by (auto simp: sse_write_def sse_inv_def sse_core_def sse_rel_def until_terminal_snoc has_terminal_snoc)
  next
    case False
    with inv have nt: "\<not> has_terminal es" by (simp add: sse_inv_def sse_core_def sse_rel_def)
    then have ut: "until_terminal (es @ [e]) = until_terminal es @ [?q]" by (simp add: until_terminal_snoc)
    let ?w1 = "if qf_terminal ?q then w\<lparr>sw_terminalReceived := True\<rparr> else w"
    have rel: "sw_sent w @ sw_queue w = until_terminal es" using False inv by (simp add: sse_inv_def sse_core_def sse_rel_def)
    show ?thesis
    proof (cases "sw_backpressured w")
      case True
      show ?thesis
      proof (cases "length (sw_queue w) \<ge> MAX_QUEUED_EVENTS \<or> sw_queuedBytes w + qf_bytes ?q > MAX_QUEUED_BYTES")
        case over: True
        have "sse_core (overflow ?w1) (es @ [e]) \<and> sw_closed (overflow ?w1)"
          unfolding overflow_def
          by (rule finish_core) (use False inv nt ut in \<open>auto simp: sse_inv_def sse_core_def sse_shape_def sse_rel_def has_terminal_snoc\<close>)
        with False True over show ?thesis by (simp add: sse_write_def Let_def sse_inv_def split: if_splits)
      next
        case fits: False
        with False True inv nt ut rel show ?thesis
          by (auto simp: sse_write_def Let_def sse_inv_def sse_core_def sse_shape_def sse_rel_def has_terminal_snoc)
      qed
    next
      case bp: False
      with inv False have q: "sw_queue w = []" by (simp add: sse_inv_def)
      have "sse_core (handOff out ?q ?w1) (es @ [e])"
        by (rule handOff_core) (use False bp q inv nt ut rel in \<open>auto simp: sse_inv_def sse_core_def sse_shape_def sse_rel_def has_terminal_snoc\<close>)
      moreover have "sw_queue (handOff out ?q ?w1) = []"
        using queue_handOff [of out ?q ?w1] q by auto
      ultimately show ?thesis using False bp by (simp add: sse_write_def Let_def sse_inv_def split: if_splits)
    qed
  qed
qed

lemma inv_start: "sse_inv w es \<Longrightarrow> sse_inv (start out w) es"
proof -
  assume inv: "sse_inv w es"
  let ?w1 = "w\<lparr>sw_writes := sw_writes w + 1\<rparr>"
  let ?w2 = "?w1\<lparr>sw_backpressured := True, sw_drainArmed := True, sw_onces := sw_onces w + 1\<rparr>"
  show ?thesis
  proof (cases "sw_closed w \<or> sw_backpressured w")
    case False
    have "sse_core (finish ?w1) es \<and> sw_closed (finish ?w1)" "sse_core (finish ?w2) es \<and> sw_closed (finish ?w2)"
      by (rule finish_core; use False inv in \<open>auto simp: sse_inv_def sse_core_def sse_shape_def sse_rel_def\<close>)+
    moreover have "sse_inv ?w1 es" "sse_inv ?w2 es"
      using False inv by (auto simp: sse_inv_def sse_core_def sse_shape_def sse_rel_def)
    moreover from False inv have "\<not> sw_drainArmed w" by (simp add: sse_inv_def sse_core_def sse_shape_def)
    ultimately show ?thesis
      using False by (cases "out_write out (sw_writes w)") (simp_all add: start_def armDrain_def Let_def sse_inv_def)
  qed (use inv in \<open>auto simp: start_def\<close>)
qed

lemma inv_finish: "sse_inv w es \<Longrightarrow> sse_inv (finish w) es"
  using finish_core [of w es] by (auto simp: sse_inv_def sse_core_def sse_rel_def sse_shape_def)

lemma inv_drain: "sse_inv w es \<Longrightarrow> sw_drainArmed w \<Longrightarrow> sse_inv (handleDrain out w) es"
proof -
  assume inv: "sse_inv w es" and armed: "sw_drainArmed w"
  then have open_w: "\<not> sw_closed w" by (auto simp: sse_inv_def sse_core_def sse_shape_def)
  let ?w2 = "w\<lparr>sw_drainArmed := False, sw_backpressured := False\<rparr>"
  show ?thesis
  proof (cases "sw_endAfterDrain w")
    case True
    have "sse_core (finish ?w2) es \<and> sw_closed (finish ?w2)"
      by (rule finish_core) (use open_w inv in \<open>auto simp: sse_inv_def sse_core_def sse_shape_def sse_rel_def\<close>)
    with True open_w show ?thesis by (simp add: handleDrain_def Let_def sse_inv_def)
  next
    case False
    have "sse_core ?w2 es"
      using False inv open_w by (auto simp: sse_inv_def sse_core_def sse_shape_def sse_rel_def)
    from drain_loop_inv [OF this] False open_w show ?thesis by (simp add: handleDrain_def Let_def)
  qed
qed

lemma inv_sse_run: "sse_inv (foldl (sse_step out) new_writer evs) (written evs)"
proof (induction evs rule: rev_induct)
  case Nil
  show ?case by (simp add: sse_inv_def sse_core_def sse_shape_def sse_rel_def new_writer_def has_terminal_def)
next
  case (snoc x evs)
  then show ?case
    by (cases x) (auto simp: written_snoc inv_start inv_write inv_drain close_def finishReplay_def inv_finish)
qed


lemma ready_handOff:
  "out_write out (sw_writes w) = Ready \<Longrightarrow>
     sw_sent (handOff out q w) = sw_sent w @ [q] \<and> sw_writes (handOff out q w) = Suc (sw_writes w) \<and>
     sw_backpressured (handOff out q w) = sw_backpressured w \<and>
     (qf_terminal q \<or> sw_closed (handOff out q w) = sw_closed w \<and> sw_queue (handOff out q w) = sw_queue w)"
  by (simp add: handOff_def Let_def finish_def)

lemma ready_drain_loop:
  assumes "\<forall>n\<ge>sw_writes w. out_write out n = Ready" "\<not> sw_closed w" "\<not> sw_backpressured w"
    and "\<forall>xs q ys. sw_queue w = xs @ q # ys \<and> qf_terminal q \<longrightarrow> ys = []"
  shows "sw_sent (drain_loop out w) = sw_sent w @ sw_queue w"
  using assms
proof (induction out w rule: drain_loop.induct)
  case (1 out w)
  show ?case
  proof (cases "sw_queue w")
    case Nil
    then show ?thesis by (simp add: drain_loop.simps [of out w])
  next
    case (Cons q rest)
    let ?w' = "w\<lparr>sw_queue := rest, sw_queuedBytes := sw_queuedBytes w - qf_bytes q\<rparr>" let ?h = "handOff out q ?w'"
    have h: "sw_sent ?h = sw_sent w @ [q]" "sw_writes ?h = Suc (sw_writes w)" "\<not> sw_backpressured ?h"
      "qf_terminal q \<or> \<not> sw_closed ?h \<and> sw_queue ?h = rest"
      using "1.prems" ready_handOff [of out ?w' q] by auto
    have step: "drain_loop out w = drain_loop out ?h"
      using "1.prems" Cons by (simp add: drain_loop.simps [of out w])
    have tail: "\<forall>xs p ys. rest = xs @ p # ys \<and> qf_terminal p \<longrightarrow> ys = []"
      using "1.prems"(4) Cons by (metis append_Cons)
    show ?thesis
    proof (cases "qf_terminal q")
      case True
      then have "rest = []" using "1.prems"(4) Cons by (metis append_Nil)
      then have "sw_queue ?h = []" using queue_handOff [of out q ?w'] by auto
      then have "drain_loop out ?h = ?h" by (auto simp: drain_loop.simps [of out ?h])
      with step h(1) Cons \<open>rest = []\<close> show ?thesis by simp
    next
      case False
      with h have "\<not> sw_closed ?h" "sw_queue ?h = rest" by auto
      with "1.IH" [OF _ Cons] "1.prems" h tail step Cons show ?thesis by simp
    qed
  qed
qed


section \<open>The properties of the writer\<close>

text \<open>
  C24. Whatever the peer does and whenever it drains, the frames handed to the connection are a prefix, in
  order and without gap or repetition, of the events written up to the first terminal one; while the
  connection is open, what is handed over and what is queued are together exactly those events.
\<close>

theorem sse_in_order:
  "prefix (sw_sent (foldl (sse_step out) new_writer evs)) (until_terminal (written evs)) \<and>
   (sw_closed (foldl (sse_step out) new_writer evs) \<or>
    sw_sent (foldl (sse_step out) new_writer evs) @ sw_queue (foldl (sse_step out) new_writer evs) =
      until_terminal (written evs))"
  using inv_sse_run [of out evs] by (auto simp: sse_inv_def sse_core_def sse_rel_def)

text \<open>
  The queue of a connection is bounded in frames and bytes, its byte count is exact, the response is
  ended and the subscription released exactly once and only on closing, and frames wait only while a
  drain listener is registered.
\<close>

theorem sse_bounded:
  "length (sw_queue (foldl (sse_step out) new_writer evs)) \<le> 256 \<and>
   sw_queuedBytes (foldl (sse_step out) new_writer evs) \<le> 4194304 \<and>
   sw_queuedBytes (foldl (sse_step out) new_writer evs) =
     sum_list (map qf_bytes (sw_queue (foldl (sse_step out) new_writer evs))) \<and>
   sw_ends (foldl (sse_step out) new_writer evs) = (if sw_closed (foldl (sse_step out) new_writer evs) then 1 else 0) \<and>
   sw_onCloses (foldl (sse_step out) new_writer evs) = sw_ends (foldl (sse_step out) new_writer evs) \<and>
   (sw_queue (foldl (sse_step out) new_writer evs) = [] \<or> sw_drainArmed (foldl (sse_step out) new_writer evs))"
  using inv_sse_run [of out evs]
  by (auto simp: sse_inv_def sse_core_def sse_shape_def MAX_QUEUED_EVENTS_def MAX_QUEUED_BYTES_def)

text \<open>
  C33. A connection that recovers loses nothing: if the response accepts every write from a drain on, that
  one drain delivers everything that was queued, up to the terminal event.
\<close>

theorem sse_resumes:
  assumes "w = foldl (sse_step out) new_writer evs" and "sw_drainArmed w"
    and "\<forall>n\<ge>sw_writes w. out_write out n = Ready"
  shows "sw_sent (sse_step out w Sse_drain) = until_terminal (written evs) \<and> sw_queue (sse_step out w Sse_drain) = []"
proof -
  from inv_sse_run [of out evs] assms(1) have inv: "sse_inv w (written evs)" by simp
  with assms(2) have op: "\<not> sw_closed w" and all: "sw_sent w @ sw_queue w = until_terminal (written evs)"
    by (auto simp: sse_inv_def sse_core_def sse_shape_def sse_rel_def)
  let ?w2 = "w\<lparr>sw_drainArmed := False, sw_backpressured := False\<rparr>"
  show ?thesis
  proof (cases "sw_endAfterDrain w")
    case True
    with inv op have "sw_queue w = []" by (simp add: sse_inv_def sse_core_def sse_shape_def)
    with True op all assms(2) show ?thesis by (simp add: handleDrain_def Let_def finish_def)
  next
    case False
    have "\<forall>xs q ys. sw_queue ?w2 = xs @ q # ys \<and> qf_terminal q \<longrightarrow> ys = []"
      using terminal_is_last [of "written evs"] all by (auto) (metis append.assoc)
    from ready_drain_loop [OF _ _ _ this, of out] op assms(3) have sent: "sw_sent (drain_loop out ?w2) = until_terminal (written evs)"
      using all by simp
    have "sse_inv (drain_loop out ?w2) (written evs)"
      by (rule drain_loop_inv) (use False inv op in \<open>auto simp: sse_inv_def sse_core_def sse_shape_def sse_rel_def\<close>)
    with sent have "sw_queue (drain_loop out ?w2) = []"
      by (auto simp: sse_inv_def sse_core_def sse_shape_def sse_rel_def)
    with sent False op assms(2) show ?thesis by (simp add: handleDrain_def Let_def)
  qed
qed

definition ex_event :: "nat \<Rightarrow> string \<Rightarrow> AgentEventEnvelope" where
  "ex_event n ty = \<lparr>ae_sequence = n, ae_type = ty, ae_json = ''{}''\<rparr>"

definition ex_output :: SseOutput where
  "ex_output = \<lparr>out_write = (\<lambda>n. if n = 1 then Full else Ready), out_once = (\<lambda>_. True)\<rparr>"

theorem sse_resumes_witness:
  "sw_sent (sse_step ex_output (foldl (sse_step ex_output) new_writer
      [Sse_start, Sse_write (ex_event 0 ''text''), Sse_write (ex_event 1 ''session.completed''), Sse_write (ex_event 2 ''text'')]) Sse_drain)
   = [queued_frame (ex_event 0 ''text''), queued_frame (ex_event 1 ''session.completed'')]"
proof -
  let ?evs = "[Sse_start, Sse_write (ex_event 0 ''text''), Sse_write (ex_event 1 ''session.completed''), Sse_write (ex_event 2 ''text'')]"
  let ?w = "foldl (sse_step ex_output) new_writer ?evs"
  have "sw_drainArmed ?w" "sw_writes ?w = 2"
    by (simp_all add: new_writer_def start_def sse_write_def handOff_def armDrain_def Let_def ex_output_def queued_frame_def
        ex_event_def TERMINAL_EVENT_TYPES_def MAX_QUEUED_EVENTS_def MAX_QUEUED_BYTES_def eventFrame_def show_nat.simps digit_char_def of_char_of)
  then have "sw_sent (sse_step ex_output ?w Sse_drain) = until_terminal (written ?evs)"
    using sse_resumes [OF refl, of ex_output ?evs] by (auto simp: ex_output_def)
  then show ?thesis by (simp add: queued_frame_def ex_event_def TERMINAL_EVENT_TYPES_def)
qed

end
