(* ===== verification/Spec2Isabelle.thy ===== *)
theory Spec2Isabelle
  imports Stage_Routing Stage_Escalation Stage_Cache Stage_Telemetry Stage_Benchmark
    Attempt_Transitions Submission_Guards Session_Limiter Workspace_Lease Transport_Selection Provider_Environment Session_Manager Line_Reader
    Lineage_Startup Lineage_Retention Lineage_Paging Search_Plan_Ledger Request_Scheduler Http_Client Sse_Writer
begin

text \<open>
  A verification library for Open Vacancy Radar, a desktop application that searches vacancies, prepares
  applications with the command line tools of model providers, and submits them under guard rails. The
  program is a TypeScript monorepo: an Electron application (\<^verbatim>\<open>apps/desktop\<close>), a local daemon that runs provider
  sessions (\<^verbatim>\<open>apps/daemon\<close>), the runtime that supervises them (\<^verbatim>\<open>packages/agent-runtime\<close>), shared protocol types
  (\<^verbatim>\<open>packages/shared\<close>) and the crawler (\<^verbatim>\<open>packages/vacancy-engine\<close>). Paths below are under \<^verbatim>\<open>src/\<close>.

  \<^bold>\<open>Conventions.\<close> A class is a record of its fields and each method a function on it; an early return or a
  thrown error is a value of a sum or option type; a \<^verbatim>\<open>Map\<close> is an association list in insertion order
  (\<open>jget\<close>, \<open>jset\<close>, \<open>jdelete\<close> of \<open>Radar_Prelude\<close>); clocks, random identifiers, hashes and \<^verbatim>\<open>Date.parse\<close> are
  arguments. Code that suspends is split at its \<^verbatim>\<open>await\<close>s, and interleavings are step relations or sequences
  of steps. What is written to disk is a value of its own, and the stores record every disk they pass
  through, so that a crash is a restart on any of them.

  \<^bold>\<open>Shared theories.\<close> \<open>Radar_Prelude\<close> has the collections, the list and map lemmas, and the interfaces as
  locales: systems with an invariant (by functions and by a step relation), monotone systems, ratchets,
  ordered gates of checks, bounded logs, and keyed stores. Every locale is interpreted on the definitions of the
  components. \<open>Js_Strings\<close> has strings, JSON quoting and its injectivity; \<open>Unicode_Units\<close> has UTF-16 code units,
  UTF-8 lengths and \<^verbatim>\<open>truncateToBytes\<close> (\<^verbatim>\<open>packages/shared/src/content-digest.ts\<close>).

  \<^bold>\<open>Routing of model stages\<close> (\<^verbatim>\<open>packages/agent-runtime/src/policy/stage-routing\<close>). \<open>Stage_Routing\<close> (stages,
  candidates, router): a stage runs only on an eligible candidate, a fallback is never silent, the choice is
  the best of the preferred tier, and refusal is exactly the absence of an eligible candidate.
  \<open>Stage_Escalation\<close>: at most one escalation within the attempt budget; missing facts are never generated.
  \<open>Stage_Cache\<close>: keys are injective, and the cache refines a bounded recency list. \<open>Stage_Telemetry\<close> and
  \<open>Stage_Benchmark\<close>: cost figures, the run ledger, summaries and comparisons, with exact rationals for doubles.

  \<^bold>\<open>Applications.\<close> \<open>Application_Queue\<close> (\<^verbatim>\<open>apps/daemon/src/application-queue-store.ts\<close>): one worker, terminal
  entries are final, and crash recovery from every disk that a crash can leave. \<open>Attempt_Transitions\<close>
  (\<^verbatim>\<open>apps/desktop/electron/application-attempt-transitions.ts\<close> and the restart recovery of
  \<^verbatim>\<open>application-pipeline.ts\<close>): what a restart does with every attempt. \<open>Submission_Guards\<close>
  (\<^verbatim>\<open>automatic-submission-guardrails.ts\<close>, \<^verbatim>\<open>application-submit-gate.ts\<close>, \<^verbatim>\<open>automatic-submission-grant.ts\<close>): rate
  limits along any history of submissions, the exact condition of the gate, consent.

  \<^bold>\<open>Provider sessions.\<close> \<open>Session_Limiter\<close> (\<^verbatim>\<open>active-session-limiter.ts\<close>) and \<open>Workspace_Lease\<close>
  (\<^verbatim>\<open>workspace-execution-lease.ts\<close>, with the race at its one \<^verbatim>\<open>await\<close>): admission. \<open>Accepted_Work\<close>
  (\<^verbatim>\<open>accepted-work.ts\<close>, \<^verbatim>\<open>launch-scope.ts\<close>, \<^verbatim>\<open>fallback-gate.ts\<close>, \<^verbatim>\<open>compatibility-manifest.ts\<close>): what was delivered is
  a ratchet, and a second transport is tried only when nothing was. \<open>Json_Bounds\<close> (\<^verbatim>\<open>validateJsonBounds\<close>):
  the iterative check over a heap of objects accepts exactly the finite trees within the bounds.
  \<open>Unknown_Frames\<close>: the bounded ledger of frames a provider sends that nobody knows. \<open>Session_Supervisor\<close>
  (\<^verbatim>\<open>session-supervisor.ts\<close>): the outcome of a supervised session reports what happened.
  \<open>Async_Channel\<close>, \<open>Line_Reader\<close> (\<^verbatim>\<open>process/async-channel.ts\<close>, \<^verbatim>\<open>process/line-reader.ts\<close>): the bounded queue of events and the lines of
  a process's output, read back whatever the chunks. \<open>Provider_Parsers\<close> (\<^verbatim>\<open>providers/claude/parser.ts\<close>,
  \<^verbatim>\<open>providers/codex/parser.ts\<close>): lines of JSON become events of the declared types. \<open>Provider_Run\<close>
  (\<^verbatim>\<open>providers/common/run-session.ts\<close>): the run of a process, cut at its awaits; exactly one terminal event, always last.
  \<open>Supervised_Run\<close>: the run under its supervisor; what is known of the delivery of the prompt is exact.
  \<open>Transport_Selection\<close> (\<^verbatim>\<open>providers/codex/transport-selection.ts\<close>): two supervised transports behind one stream; the prompt is written on at
  most one and the stream is one session. \<open>Provider_Environment\<close> (\<^verbatim>\<open>provider-environment.ts\<close>, \<^verbatim>\<open>daemon-environment.ts\<close>, the two
  \<^verbatim>\<open>build-args.ts\<close>): the variables and arguments a provider process gets; nothing but the granted variables, and no prompt in the arguments.
  \<open>Session_Manager\<close> (\<^verbatim>\<open>session-manager.ts\<close>, \<^verbatim>\<open>session-store.ts\<close>) composes limiter, leases, records, event histories and subscribers: what it
  keeps is bounded, replay and live delivery join without a gap, revocation defeats decisions in flight; three defects are shown as lemmas.
  \<open>Sse_Writer\<close> (\<^verbatim>\<open>sse-writer.ts\<close>): order, bounds and resumption of the event stream to a client.

  \<^bold>\<open>The session store\<close> (\<^verbatim>\<open>session-lineage-store.ts\<close>, \<^verbatim>\<open>persisted-session-schema.ts\<close>, \<^verbatim>\<open>durable-store/atomic-fs.ts\<close>).
  \<open>Persisted_Schema\<close>: what is stored of events and sessions is free of content. \<open>Lineage_Store\<close>: the store
  with its directory tree, its constructor, its operations, retention and eviction. \<open>Lineage_Invariant\<close>: the
  invariant of disk and memory, kept by each step. \<open>Lineage_Recovery\<close>: lives of the store with crashes;
  accepted work survives. \<open>Lineage_Retention\<close>: evictions are atomic, quotas hold. \<open>Lineage_Startup\<close>: torn logs
  and sessions left open, on arbitrary disks. \<open>Lineage_Paging\<close>: cursors, listing and search; a reader that follows the cursors
  sees everything once.

  \<^bold>\<open>Crawling.\<close> \<open>Search_Plan_Ledger\<close> (\<^verbatim>\<open>global-remote/search-plan-ledger.ts\<close>): budgets of a search plan under
  any interleaving. \<open>Request_Scheduler\<close> (\<^verbatim>\<open>crawler/scheduler.ts\<close>): concurrency limits. \<open>Url_Safety\<close>
  (\<^verbatim>\<open>crawler/url-safety.ts\<close>): the guard against requests into private networks, with its masks on words read
  back as conditions on octets and groups. \<open>Http_Client\<close> (\<^verbatim>\<open>crawler/http-client.ts\<close>): requests against an
  arbitrary world; every fetch is guarded and every body is bounded.

  \<^bold>\<open>Termination.\<close> Loops are structural recursions or functions with a measure; two bounds are
  chosen. The depth of \<open>stringify\<close> in \<open>Json_Bounds\<close> is shown to be enough for every value the source passes to it. A hop
  of \<open>Http_Client\<close> waits for a cooling host again and again as long as the world makes it: it is given a number of
  turns, the theorems hold for every number, and running out is an error of its own.

  \<^bold>\<open>Not modelled.\<close> The renderer and the windows of the desktop application; the SQL queries of the workspace
  repository; sockets, DNS and the bodies of HTTP exchanges; the creation and killing of
  processes; the app-server transport of Codex, which appears only through the contract of its events; the routes of the daemon; validation schemas written in a schema library, whose accepted values are the types here; logging.
  I/O errors other than a crash are not modelled in the stores; the session manager takes them from its durable store.
\<close>

end
